(* ===== verification/Prelude.thy ===== *)
theory Prelude
  imports
    Main
    "HOL-Library.Word"
    "HOL-Library.Finite_Map"
    "HOL-Library.List_Lexorder"
    "HOL-Library.Product_Lexorder"
    "HOL-Library.Multiset"
begin

text \<open>
  The prelude of the Rabbit LQC development: the machine types the Go code uses, the
  big-endian byte strings of addresses, hashes and integers, the signature of the
  cryptographic functions the consensus code calls, results of fallible functions and
  the loops over them, and the facts on sorting and maps that several components share.
\<close>

section \<open>Machine types\<close>

text \<open>
  \<open>uint8\<close>, \<open>uint64\<close> and \<open>uint256.Int\<close> are words of that width, so \<open>+\<close>, \<open>-\<close> and \<open>*\<close>
  wrap as they do in Go. \<open>common.Address\<close> (\<open>[20]byte\<close>) and \<open>common.Hash\<close> (\<open>[32]byte\<close>)
  are the words with these bytes in big-endian order, the zero array being \<open>0\<close>;
  \<open>bytes.Compare\<close> on such arrays is the order of the words (lemma \<open>be_bytes_less_iff\<close>).
  \<open>big.Int\<close> is \<open>int\<close>, a nil pointer \<open>None\<close>.
\<close>

type_synonym byte = "8 word"
type_synonym u8 = "8 word"
type_synonym u64 = "64 word"
type_synonym u256 = "256 word"
type_synonym address = "160 word"
type_synonym hash = "256 word"
type_synonym bytes = "8 word list"

abbreviation maxU64 :: u64 where
  "maxU64 \<equiv> - 1"

named_theorems wf_intros \<open>preservation of the components' well-formedness invariants\<close>
named_theorems res_simps \<open>evaluation of loops over fallible steps\<close>

section \<open>Big-endian byte strings\<close>

text \<open>\<open>be_bytes n k\<close> is the \<open>n\<close>-byte big-endian representation of \<open>k mod 256 ^ n\<close>.\<close>

fun be_bytes :: "nat \<Rightarrow> nat \<Rightarrow> bytes" where
  "be_bytes 0 k = []"
| "be_bytes (Suc n) k = be_bytes n (k div 256) @ [of_nat (k mod 256)]"

definition be_nat :: "bytes \<Rightarrow> nat" where
  "be_nat bs = foldl (\<lambda>acc b. acc * 256 + unat b) 0 bs"

text \<open>The minimal big-endian representation: no leading zero byte, \<open>0\<close> is empty
  (\<open>big.Int.Bytes\<close>).\<close>

fun be_min :: "nat \<Rightarrow> bytes" where
  "be_min k = (if k = 0 then [] else be_min (k div 256) @ [of_nat (k mod 256)])"

declare be_min.simps [simp del]

lemma be_nat_Nil [simp]: "be_nat [] = 0"
  by (simp add: be_nat_def)

lemma be_nat_snoc [simp]: "be_nat (bs @ [b]) = be_nat bs * 256 + unat b"
  by (simp add: be_nat_def)

lemma unat_byte_less [simp]: "unat (b :: byte) < 256"
  using unsigned_less [of b, where ?'a = nat] by simp

lemma unat_of_nat_byte [simp]: "unat (of_nat (k mod 256) :: byte) = k mod 256"
  by (simp add: unat_of_nat)

lemma length_be_bytes [simp]: "length (be_bytes n k) = n"
  by (induction n arbitrary: k) auto

lemma be_nat_be_bytes: "be_nat (be_bytes n k) = k mod 256 ^ n"
proof (induction n arbitrary: k)
  case 0
  then show ?case by simp
next
  case (Suc n)
  have "be_nat (be_bytes (Suc n) k) = (k div 256) mod 256 ^ n * 256 + k mod 256"
    by (simp add: Suc.IH)
  also have "\<dots> = k mod 256 ^ Suc n"
    using mod_mult2_eq [of k 256 "256 ^ n"] by simp
  finally show ?case .
qed

lemma be_nat_less: "be_nat bs < 256 ^ length bs"
proof (induction bs rule: rev_induct)
  case Nil
  then show ?case by simp
next
  case (snoc b bs)
  have "be_nat bs * 256 + unat b < (be_nat bs + 1) * 256"
    using unat_byte_less [of b] by (simp del: unat_byte_less)
  also have "\<dots> \<le> 256 ^ length bs * 256"
    using snoc by (intro mult_right_mono) simp_all
  finally show ?case by (simp add: mult.commute)
qed

lemma be_bytes_be_nat: "be_bytes (length bs) (be_nat bs) = bs"
proof (induction bs rule: rev_induct)
  case Nil
  then show ?case by simp
next
  case (snoc b bs)
  have "(be_nat bs * 256 + unat b) div 256 = be_nat bs"
    using unat_byte_less [of b] by simp
  moreover have "(be_nat bs * 256 + unat b) mod 256 = unat b"
    using unat_byte_less [of b] by simp
  ultimately show ?case using snoc by simp
qed

lemma be_bytes_inject:
  "be_bytes n a = be_bytes n b \<longleftrightarrow> a mod 256 ^ n = b mod 256 ^ n"
proof
  assume "be_bytes n a = be_bytes n b"
  then show "a mod 256 ^ n = b mod 256 ^ n" by (metis be_nat_be_bytes)
next
  assume eq: "a mod 256 ^ n = b mod 256 ^ n"
  have "be_bytes n a = be_bytes n (a mod 256 ^ n)" for a
    by (metis be_bytes_be_nat be_nat_be_bytes length_be_bytes)
  then show "be_bytes n a = be_bytes n b" by (metis eq)
qed

lemma be_min_0 [simp]: "be_min 0 = []"
  by (simp add: be_min.simps)

lemma be_nat_be_min [simp]: "be_nat (be_min k) = k"
proof (induction k rule: be_min.induct)
  case (1 k)
  then show ?case by (cases "k = 0") (simp_all add: be_min.simps [of k])
qed

lemma be_min_eq_Nil [simp]: "be_min k = [] \<longleftrightarrow> k = 0"
  by (simp add: be_min.simps [of k])

lemma be_min_inject [simp]: "be_min a = be_min b \<longleftrightarrow> a = b"
  by (metis be_nat_be_min)

lemma hd_be_min: "k \<noteq> 0 \<Longrightarrow> hd (be_min k) \<noteq> 0"
proof (induction k rule: be_min.induct)
  case (1 k)
  show ?case
  proof (cases "k div 256 = 0")
    case True
    then have "k < 256" by (simp add: div_eq_0_iff)
    then have "k mod 256 \<noteq> 0" using "1.prems" by simp
    then have "(of_nat (k mod 256) :: byte) \<noteq> 0"
      by (metis unat_0 unat_of_nat_byte)
    with True "1.prems" show ?thesis by (simp add: be_min.simps [of k])
  next
    case False
    with 1 show ?thesis by (simp add: be_min.simps [of k] hd_append)
  qed
qed

lemma be_nat_Cons: "be_nat (b # bs) = unat b * 256 ^ length bs + be_nat bs"
proof (induction bs rule: rev_induct)
  case Nil
  show ?case by (simp add: be_nat_def)
next
  case (snoc c cs)
  have "be_nat (b # cs @ [c]) = be_nat (b # cs) * 256 + unat c"
    using be_nat_snoc [of "b # cs" c] by simp
  with snoc show ?case by (simp add: algebra_simps)
qed

text \<open>A byte string with no leading zero is the minimal one of its value.\<close>

lemma be_nat_append: "be_nat (xs @ ys) = be_nat xs * 256 ^ length ys + be_nat ys"
  by (induction xs) (simp_all add: be_nat_Cons power_add algebra_simps)

lemma be_nat_replicate_0 [simp]: "be_nat (replicate n 0) = 0"
  by (induction n) (simp_all add: be_nat_Cons)

lemma be_min_be_nat: "bs = [] \<or> hd bs \<noteq> 0 \<Longrightarrow> be_min (be_nat bs) = bs"
proof (induction bs rule: rev_induct)
  case Nil
  then show ?case by simp
next
  case (snoc b bs)
  have IH: "be_min (be_nat bs) = bs"
    using snoc by (cases bs) auto
  have nz: "be_nat bs * 256 + unat b \<noteq> 0"
  proof (cases bs)
    case Nil
    with snoc.prems show ?thesis by (simp add: unat_eq_zero)
  next
    case (Cons c cs)
    with snoc.prems have "unat c \<noteq> 0" by (simp add: unat_eq_zero)
    then have "be_nat bs \<noteq> 0" using Cons by (simp add: be_nat_Cons)
    then show ?thesis by simp
  qed
  have "(be_nat bs * 256 + unat b) div 256 = be_nat bs"
    "(be_nat bs * 256 + unat b) mod 256 = unat b"
    using unat_byte_less [of b] by simp_all
  with IH nz show ?case by (simp add: be_min.simps [of "be_nat bs * 256 + unat b"])
qed

text \<open>\<open>bytes.Compare\<close> on equally long strings is the order of their values.\<close>

lemma be_nat_less_iff:
  "length xs = length ys \<Longrightarrow> xs < ys \<longleftrightarrow> be_nat xs < be_nat ys"
proof (induction xs ys rule: list_induct2)
  case Nil
  show ?case by simp
next
  case (Cons x xs y ys)
  let ?p = "256 ^ length ys :: nat"
  have bx: "be_nat xs < ?p" and byy: "be_nat ys < ?p"
    using Cons.hyps be_nat_less [of xs] be_nat_less [of ys] by auto
  consider "x < y" | "x = y" | "y < x" by (rule linorder_cases)
  then show ?case
  proof cases
    case 1
    then have "Suc (unat x) \<le> unat y" by (simp add: word_less_nat_alt)
    then have "Suc (unat x) * ?p \<le> unat y * ?p" by (intro mult_right_mono) simp_all
    with 1 bx Cons.hyps show ?thesis by (simp add: be_nat_Cons)
  next
    case 2
    with Cons show ?thesis by (simp add: be_nat_Cons)
  next
    case 3
    then have "Suc (unat y) \<le> unat x" by (simp add: word_less_nat_alt)
    then have "Suc (unat y) * ?p \<le> unat x * ?p" by (intro mult_right_mono) simp_all
    moreover have "\<not> x < y" "x \<noteq> y" using 3 by auto
    ultimately show ?thesis using byy Cons.hyps by (simp add: be_nat_Cons)
  qed
qed

definition addr_bytes :: "address \<Rightarrow> bytes" where
  "addr_bytes a = be_bytes 20 (unat a)"

definition hash_bytes :: "hash \<Rightarrow> bytes" where
  "hash_bytes h = be_bytes 32 (unat h)"

definition u64_be :: "u64 \<Rightarrow> bytes" where
  "u64_be n = be_bytes 8 (unat n)"

lemma length_addr_bytes [simp]: "length (addr_bytes a) = 20"
  by (simp add: addr_bytes_def)

lemma length_hash_bytes [simp]: "length (hash_bytes h) = 32"
  by (simp add: hash_bytes_def)

lemma length_u64_be [simp]: "length (u64_be n) = 8"
  by (simp add: u64_be_def)

lemma be_nat_addr_bytes [simp]: "be_nat (addr_bytes a) = unat a"
  using unsigned_less [of a, where ?'a = nat] by (simp add: addr_bytes_def be_nat_be_bytes)

lemma be_nat_hash_bytes [simp]: "be_nat (hash_bytes h) = unat h"
  using unsigned_less [of h, where ?'a = nat] by (simp add: hash_bytes_def be_nat_be_bytes)

lemma be_nat_u64_be [simp]: "be_nat (u64_be n) = unat n"
  using unsigned_less [of n, where ?'a = nat] by (simp add: u64_be_def be_nat_be_bytes)

lemma addr_bytes_inject [simp]: "addr_bytes a = addr_bytes b \<longleftrightarrow> a = b"
  by (metis be_nat_addr_bytes word_unat_eq_iff)

lemma hash_bytes_inject [simp]: "hash_bytes a = hash_bytes b \<longleftrightarrow> a = b"
  by (metis be_nat_hash_bytes word_unat_eq_iff)

lemma u64_be_inject [simp]: "u64_be a = u64_be b \<longleftrightarrow> a = b"
  by (metis be_nat_u64_be word_unat_eq_iff)

text \<open>So sorting addresses and hashes as words is sorting their byte arrays.\<close>

lemma be_bytes_less_iff:
  shows addr_bytes_less_iff: "addr_bytes a < addr_bytes b \<longleftrightarrow> a < b"
    and hash_bytes_less_iff: "hash_bytes h < hash_bytes k \<longleftrightarrow> h < k"
  by (simp_all add: be_nat_less_iff word_less_nat_alt)

definition of_be :: "bytes \<Rightarrow> 'a::len word" where
  "of_be bs = of_nat (be_nat bs)"

lemma of_be_addr_bytes [simp]: "of_be (addr_bytes a) = a"
  by (simp add: of_be_def)

lemma of_be_hash_bytes [simp]: "of_be (hash_bytes h) = h"
  by (simp add: of_be_def)

section \<open>Results and loops\<close>

text \<open>
  A Go function returning \<open>(T, error)\<close> is a function into \<open>'e + 't\<close> (\<open>Inl\<close> the error), one
  returning only \<open>error\<close> a function into \<open>'e option\<close> (\<open>None\<close> is nil). A \<open>range\<close> loop whose body
  may return an error is \<open>fold_res\<close>, a loop of checks \<open>first_err\<close>. Wrapping by
  \<open>fmt.Errorf("...: %w", err)\<close> keeps the identity \<open>errors.Is\<close> looks at, so the model
  keeps the wrapped sentinel and drops the message.
\<close>

fun fold_res :: "('a \<Rightarrow> 's \<Rightarrow> 'e + 's) \<Rightarrow> 'a list \<Rightarrow> 's \<Rightarrow> 'e + 's" where
  "fold_res f [] s = Inr s"
| "fold_res f (x # xs) s = (case f x s of Inl e \<Rightarrow> Inl e | Inr s' \<Rightarrow> fold_res f xs s')"

fun first_err :: "('a \<Rightarrow> 'e option) \<Rightarrow> 'a list \<Rightarrow> 'e option" where
  "first_err f [] = None"
| "first_err f (x # xs) = (case f x of Some e \<Rightarrow> Some e | None \<Rightarrow> first_err f xs)"

declare fold_res.simps [res_simps] first_err.simps [res_simps]

text \<open>When a sequence of guards and fallible calls returns a value: every guard passed and every call succeeded.\<close>

lemma result_iffs:
  "(if c then Inl e else r) = Inr z \<longleftrightarrow> \<not> c \<and> r = Inr z"
  "(case o' of None \<Rightarrow> r | Some x \<Rightarrow> Inl (g x)) = Inr z \<longleftrightarrow> o' = None \<and> r = Inr z"
  "(case o' of None \<Rightarrow> Inl e | Some x \<Rightarrow> h x) = Inr z \<longleftrightarrow> (\<exists>x. o' = Some x \<and> h x = Inr z)"
  "(case q of Inl x \<Rightarrow> Inl (k x) | Inr v \<Rightarrow> f v) = Inr z \<longleftrightarrow> (\<exists>v. q = Inr v \<and> f v = Inr z)"
  by (auto split: option.splits sum.splits)

lemma none_iffs:
  "(if c then Some e else r) = None \<longleftrightarrow> \<not> c \<and> r = None"
  "(case o' of None \<Rightarrow> r | Some x \<Rightarrow> Some (g x)) = None \<longleftrightarrow> o' = None \<and> r = None"
  "(case q of Inl x \<Rightarrow> Some (k x) | Inr v \<Rightarrow> f v) = None \<longleftrightarrow> (\<exists>v. q = Inr v \<and> f v = None)"
  by (auto split: option.splits sum.splits)

lemma first_err_None_iff: "first_err f xs = None \<longleftrightarrow> (\<forall>x \<in> set xs. f x = None)"
  by (induction xs) (auto split: option.splits)

lemma first_err_SomeD: "first_err f xs = Some e \<Longrightarrow> \<exists>x \<in> set xs. f x = Some e"
  by (induction xs) (auto split: option.splits)

lemma fold_res_invariant:
  assumes "\<And>x s s'. x \<in> set xs \<Longrightarrow> P s \<Longrightarrow> f x s = Inr s' \<Longrightarrow> P s'"
    and "P s" and "fold_res f xs s = Inr s'"
  shows "P s'"
  using assms
proof (induction xs arbitrary: s)
  case Nil
  then show ?case by simp
next
  case (Cons x xs)
  from Cons.prems(3) obtain t where t: "f x s = Inr t" "fold_res f xs t = Inr s'"
    by (auto split: sum.splits)
  have "P t" using Cons.prems(1) [of x s t] Cons.prems(2) t(1) by simp
  moreover have "\<And>y u u'. y \<in> set xs \<Longrightarrow> P u \<Longrightarrow> f y u = Inr u' \<Longrightarrow> P u'"
    using Cons.prems(1) by (meson list.set_intros(2))
  ultimately show ?case using Cons.IH t(2) by blast
qed

lemma fold_res_append:
  "fold_res f (xs @ ys) s = (case fold_res f xs s of Inl e \<Rightarrow> Inl e | Inr s' \<Rightarrow> fold_res f ys s')"
  by (induction xs arbitrary: s) (auto split: sum.splits)

lemma fold_res_cong_InrI:
  assumes "\<And>x s s'. x \<in> set xs \<Longrightarrow> f x s = Inr s' \<Longrightarrow> g x s = Inr s'"
    and "fold_res f xs s = Inr s'"
  shows "fold_res g xs s = Inr s'"
  using assms
proof (induction xs arbitrary: s)
  case Nil
  then show ?case by simp
next
  case (Cons x xs)
  from Cons.prems(2) obtain t where t: "f x s = Inr t" "fold_res f xs t = Inr s'"
    by (auto split: sum.splits)
  have "g x s = Inr t" using Cons.prems(1) t(1) by simp
  moreover have "fold_res g xs t = Inr s'"
    using Cons.IH [OF _ t(2)] Cons.prems(1) by simp
  ultimately show ?case by simp
qed

section \<open>Slices and signed integers\<close>

text \<open>\<open>xs[lo:hi]\<close> with \<open>int\<close> bounds; \<open>None\<close> is the slice-bounds panic. \<open>go_int\<close> wraps an
  integer to Go's 64-bit \<open>int\<close>.\<close>

definition go_slice :: "'a list \<Rightarrow> int \<Rightarrow> int \<Rightarrow> 'a list option" where
  "go_slice xs lo hi =
     (if 0 \<le> lo \<and> lo \<le> hi \<and> hi \<le> int (length xs)
      then Some (take (nat hi - nat lo) (drop (nat lo) xs)) else None)"

definition go_int :: "int \<Rightarrow> int" where
  "go_int k = sint (word_of_int k :: 64 word)"

lemma go_int_id: "- (2 ^ 63) \<le> k \<Longrightarrow> k < 2 ^ 63 \<Longrightarrow> go_int k = k"
  unfolding go_int_def
  by (subst signed_of_int) (simp add: signed_take_bit_int_eq_self)

lemma sint_eq_unat:
  assumes "unat (x :: u64) < 2 ^ 63"
  shows "sint x = int (unat x)"
proof -
  have "int (unat x) < int (2 ^ 63)" using assms by (simp only: of_nat_less_iff)
  then have "uint x < 2 ^ 63" by simp
  moreover have "- (2 ^ 63) \<le> uint x" by (rule order_trans [OF _ unsigned_greater_eq]) simp
  ultimately show ?thesis
    by (subst sint_uint) (simp add: signed_take_bit_int_eq_self)
qed

lemma unat_u64_less [simp]: "unat (i :: u64) < 18446744073709551616"
  using unsigned_less [of i, where ?'a = nat] by simp

lemma unat_u64_plus:
  "unat (x + y :: u64) = (if unat x + unat y < 2 ^ 64 then unat x + unat y else unat x + unat y - 2 ^ 64)"
proof -
  have "unat (x + y) = (unat x + unat y) mod 2 ^ 64" by (simp add: unat_word_ariths)
  moreover have "unat x + unat y < 2 * 18446744073709551616"
    using unat_u64_less [of x] unat_u64_less [of y] by linarith
  ultimately show ?thesis by (auto simp: mod_if [of "unat x + unat y"] le_mod_geq not_less)
qed

lemma unat_u64_Suc: "(x :: u64) + 1 \<noteq> 0 \<Longrightarrow> unat (x + 1) = Suc (unat x)"
  using unat_u64_plus [of x 1] unat_u64_less [of x]
  by (auto simp: word_unat_eq_iff simp del: unat_u64_less split: if_splits)

section \<open>Sorting\<close>

text \<open>
  \<open>sort.Slice\<close> sorts by a comparison; the comparisons of this code compare tuples of fields
  lexicographically, so the model sorts by the tuple. \<open>sort.Slice\<close> is not stable and the
  input often comes from a Go map, whose iteration order is random: where the tuples of
  distinct elements differ, every such sort gives the same list.
\<close>

lemma sort_key_perm_unique:
  fixes f :: "'a \<Rightarrow> 'k::linorder"
  assumes inj: "inj_on f (set xs)" and perm: "mset ys = mset xs" and srt: "sorted (map f ys)"
  shows "ys = sort_key f xs"
proof -
  have "mset (map f ys) = mset (map f (sort_key f xs))" by (simp add: perm)
  then have "map f ys = map f (sort_key f xs)"
    using srt sorted_sort_key by (metis properties_for_sort sorted_sort_id)
  moreover have "set ys = set xs" using perm by (metis set_mset_mset)
  ultimately show ?thesis
    using inj by (metis inj_on_map_eq_map inf_sup_absorb set_sort sup.idem)
qed

lemma sort_key_perm_cong:
  fixes f :: "'a \<Rightarrow> 'k::linorder"
  assumes "inj_on f (set xs)" and "mset ys = mset xs"
  shows "sort_key f ys = sort_key f xs"
  using assms by (intro sort_key_perm_unique) simp_all

lemma sort_key_sorted_id:
  fixes f :: "'a \<Rightarrow> 'k::linorder"
  assumes "sorted (map f xs)" and "distinct (map f xs)"
  shows "sort_key f xs = xs"
  using assms by (intro sort_key_perm_unique [symmetric]) (simp_all add: distinct_map)

lemma sort_key_sorted:
  fixes f :: "'a \<Rightarrow> 'k::linorder"
  shows "sorted (map f xs) \<Longrightarrow> sort_key f xs = xs"
  by (induction xs) (auto simp: insort_is_Cons)

lemma distinct_map_mset:
  "mset xs = mset ys \<Longrightarrow> distinct (map f xs) \<longleftrightarrow> distinct (map f ys)"
  by (metis mset_eq_imp_distinct_iff mset_map)

lemma sort_key_idem:
  fixes f :: "'a \<Rightarrow> 'k::linorder"
  assumes "distinct (map f xs)"
  shows "sort_key f (sort_key f xs) = sort_key f xs"
proof (rule sort_key_sorted_id)
  show "distinct (map f (sort_key f xs))"
    using assms distinct_map_mset [of "sort_key f xs" xs f] by simp
qed (rule sorted_sort_key)


lemma take_sorted_split:
  assumes "sorted (map f xs)" and "p \<in> set (take k xs)" and "q \<in> set (drop k xs)"
  shows "f p \<le> f q"
  using assms sorted_append [of "map f (take k xs)" "map f (drop k xs)"]
  by (simp flip: map_append)

lemma sort_key_map: "sort_key f (map g xs) = map g (sort_key (\<lambda>x. f (g x)) xs)"
proof (induction xs)
  case (Cons x xs)
  have "insort_key f (g x) (map g ys) = map g (insort_key (\<lambda>x. f (g x)) x ys)" for ys
    by (induction ys) auto
  with Cons show ?case by simp
qed simp

lemma distinct_sort_key_map:
  fixes f :: "'a \<Rightarrow> 'k::linorder"
  shows "distinct (map g (sort_key f xs)) \<longleftrightarrow> distinct (map g xs)"
  by (rule distinct_map_mset) simp

lemma sorted_distinct_strict:
  fixes f :: "'a \<Rightarrow> 'k::linorder"
  assumes "sorted (map f xs)" and "distinct (map f xs)"
  shows "sorted_wrt (\<lambda>x y. f x < f y) xs"
  using assms strict_sorted_iff [of "map f xs"] by (simp add: sorted_wrt_map)

section \<open>Go maps\<close>

text \<open>
  A Go map is a finite map. A loop over it visits the entries in an unspecified order; the
  model visits them by increasing key, and the components prove that their results do not
  depend on the order wherever the code sorts afterwards.
\<close>

definition fmkeys :: "('k::linorder, 'v) fmap \<Rightarrow> 'k list" where
  "fmkeys m = sorted_list_of_fset (fmdom m)"

definition fmvals :: "('k::linorder, 'v) fmap \<Rightarrow> 'v list" where
  "fmvals m = map (\<lambda>k. the (fmlookup m k)) (fmkeys m)"

lemma sorted_list_of_fset_empty [simp]: "sorted_list_of_fset {||} = []"
  by (simp add: sorted_list_of_fset.rep_eq)

lemma sorted_list_of_fset_finsert [simp]:
  "sorted_list_of_fset (finsert x A) = insort x (sorted_list_of_fset (A |-| {|x|}))"
  by (simp add: sorted_list_of_fset.rep_eq sorted_list_of_set_insert_remove)

lemma set_fmkeys [simp]: "set (fmkeys m) = fset (fmdom m)"
  by (simp add: fmkeys_def sorted_list_of_fset.rep_eq)

lemma distinct_fmkeys [simp]: "distinct (fmkeys m)"
  by (simp add: fmkeys_def sorted_list_of_fset.rep_eq)

lemma sorted_fmkeys [simp]: "sorted (fmkeys m)"
  by (simp add: fmkeys_def sorted_list_of_fset.rep_eq)

lemma mem_fmvals: "v \<in> set (fmvals m) \<longleftrightarrow> (\<exists>k. fmlookup m k = Some v)"
  by (force simp: fmvals_def image_iff fmlookup_dom_iff)

lemma length_fmvals: "length (fmvals m) = length (fmkeys m)"
  by (simp add: fmvals_def)

lemma map_fmvals:
  assumes "\<And>k v. fmlookup m k = Some v \<Longrightarrow> f v = k"
  shows "map f (fmvals m) = fmkeys m"
proof -
  have "f (the (fmlookup m k)) = k" if "k \<in> set (fmkeys m)" for k
    using that assms by (auto simp: fmlookup_dom_iff)
  then show ?thesis by (auto simp: fmvals_def comp_def intro!: map_idI)
qed


section \<open>Stores keyed by an identity\<close>

text \<open>
  The contract of a store that keeps one record per key and is written one key at a time:
  what a lookup returns after a write, for the written key and for any other one, and
  that writes keep the store's invariant. The clients' facts on loops of writes are proved once.
\<close>

locale keyed_store =
  fixes find :: "'s \<Rightarrow> 'k \<Rightarrow> 'v option"
    and inv :: "'s \<Rightarrow> bool"
    and put :: "'a \<Rightarrow> 's \<Rightarrow> 's"
    and key :: "'a \<Rightarrow> 'k"
    and upd :: "'a \<Rightarrow> 'v option \<Rightarrow> 'v option"
  assumes inv_put: "inv s \<Longrightarrow> inv (put a s)"
    and find_put_same: "inv s \<Longrightarrow> find (put a s) (key a) = upd a (find s (key a))"
    and find_put_other: "inv s \<Longrightarrow> k \<noteq> key a \<Longrightarrow> find (put a s) k = find s k"
begin

lemma inv_puts: "inv s \<Longrightarrow> inv (fold put as s)"
  by (induction as arbitrary: s) (auto intro: inv_put)

lemma find_puts_other: "inv s \<Longrightarrow> k \<notin> key ` set as \<Longrightarrow> find (fold put as s) k = find s k"
  by (induction as arbitrary: s) (simp_all add: find_put_other inv_put)

lemma find_puts:
  assumes "inv s" and "distinct (map key as)" and "a \<in> set as"
  shows "find (fold put as s) (key a) = upd a (find s (key a))"
proof -
  from assms(3) obtain xs ys where as: "as = xs @ a # ys" by (auto dest: split_list)
  let ?m = "fold put xs s"
  have x: "key a \<notin> key ` set xs" and y: "key a \<notin> key ` set ys" using assms(2) as by auto
  have m: "inv ?m" using assms(1) by (rule inv_puts)
  have "find (fold put as s) (key a) = find (put a ?m) (key a)"
    unfolding as using find_puts_other [OF inv_put [OF m] y] by simp
  then show ?thesis using find_put_same [OF m] find_puts_other [OF assms(1) x] by simp
qed

text \<open>The order of writes to different keys does not matter.\<close>

lemma find_puts_perm:
  assumes "inv s" and "distinct (map key as)" and "mset bs = mset as"
  shows "find (fold put bs s) k = find (fold put as s) k"
proof (cases "k \<in> key ` set as")
  case True
  then obtain a where a: "a \<in> set as" "k = key a" by auto
  have "distinct (map key bs)" using assms(2,3) distinct_map_mset by metis
  moreover have "a \<in> set bs" using a(1) assms(3) mset_eq_setD by metis
  ultimately show ?thesis using find_puts [OF assms(1)] assms(2) a by simp
next
  case False
  moreover have "set bs = set as" using assms(3) mset_eq_setD by metis
  ultimately show ?thesis using find_puts_other [OF assms(1)] by simp
qed

end

end
