(* ===== verification/Crypto.thy ===== *)
theory Crypto
  imports Prelude
begin

text \<open>
  The cryptographic interface of the consensus code (\<open>crypto/crypto.go\<close>,
  \<open>crypto/signature_cgo.go\<close>). Keccak-256 and the recovery of a public key from a
  secp256k1 signature are parameters of the model (fields of a record that every
  definition using them takes as its first argument): nothing the consensus code
  relies on depends on how they are computed. The range check on signature values is
  modelled.
\<close>

record crypto =
  keccak256 :: "bytes \<Rightarrow> hash"
  sigToAddress :: "hash \<Rightarrow> bytes \<Rightarrow> address option"
    \<comment> \<open>\<open>SigToPub\<close> followed by \<open>PubkeyToAddress\<close>; \<open>None\<close> is a recovery error\<close>

text \<open>\<open>crypto.Keccak256Hash(data ...[]byte)\<close> writes its arguments one after the other.\<close>

definition Keccak256Hash :: "crypto \<Rightarrow> bytes list \<Rightarrow> hash" where
  "Keccak256Hash cr data = keccak256 cr (concat data)"

definition SignatureLength :: nat where
  "SignatureLength = 65"

definition secp256k1N :: nat where
  "secp256k1N = 0xFFFFFFFFFFFFFFFFFFFFFFFFFFFFFFFEBAAEDCE6AF48A03BBFD25E8CD0364141"

definition secp256k1halfN :: nat where
  "secp256k1halfN = secp256k1N div 2"

definition ValidateSignatureValues :: "byte \<Rightarrow> nat \<Rightarrow> nat \<Rightarrow> bool \<Rightarrow> bool" where
  "ValidateSignatureValues v r s homestead =
     (if r < 1 \<or> s < 1 then False
      else if homestead \<and> s > secp256k1halfN then False
      else r < secp256k1N \<and> s < secp256k1N \<and> (v = 0 \<or> v = 1))"

text \<open>
  The checks on a 65-byte signature that \<open>RecoverRegistryOperationSigner\<close>,
  \<open>recoverProducerSeal\<close> and the work-ticket code share: \<open>r\<close> and \<open>s\<close> are the first two
  32-byte halves, \<open>v\<close> the last byte.
\<close>

definition sig_r :: "bytes \<Rightarrow> nat" where
  "sig_r sig = be_nat (take 32 sig)"

definition sig_s :: "bytes \<Rightarrow> nat" where
  "sig_s sig = be_nat (take 32 (drop 32 sig))"

definition sig_values_ok :: "bytes \<Rightarrow> bool" where
  "sig_values_ok sig = ValidateSignatureValues (sig ! 64) (sig_r sig) (sig_s sig) True"

text \<open>Low-\<open>s\<close> signatures are not malleable: the mirrored value \<open>N - s\<close> is rejected.\<close>

lemma ValidateSignatureValues_low_s:
  "ValidateSignatureValues v r s True \<Longrightarrow> \<not> ValidateSignatureValues v' r' (secp256k1N - s) True"
  by (auto simp: ValidateSignatureValues_def secp256k1halfN_def secp256k1N_def split: if_splits)


section \<open>Text\<close>

text \<open>Go strings and \<open>[]byte\<close> literals as bytes, \<open>%d\<close> of a non-negative number and
  the checksummed hexadecimal form of an address (\<open>common/types.go\<close>).\<close>

definition ascii :: "string \<Rightarrow> bytes" where
  "ascii s = map of_char s"

fun dec_bytes :: "nat \<Rightarrow> bytes" where
  "dec_bytes n = (if n < 10 then [of_nat (48 + n)] else dec_bytes (n div 10) @ [of_nat (48 + n mod 10)])"

declare dec_bytes.simps [simp del]

definition hex_digit :: "nat \<Rightarrow> byte" where
  "hex_digit d = (if d < 10 then of_nat (48 + d) else of_nat (87 + d))"

definition hex_encode :: "bytes \<Rightarrow> bytes" where
  "hex_encode bs = concat (map (\<lambda>b. [hex_digit (unat b div 16), hex_digit (unat b mod 16)]) bs)"

definition hex_of_address :: "address \<Rightarrow> bytes" where
  "hex_of_address a = ascii ''0x'' @ hex_encode (addr_bytes a)"

definition checksum_nibble :: "bytes \<Rightarrow> nat \<Rightarrow> nat" where
  "checksum_nibble h i =
     (let b = unat (h ! ((i - 2) div 2)) in if i mod 2 = 0 then b div 16 else b mod 16)"

definition checksumHex :: "crypto \<Rightarrow> address \<Rightarrow> bytes" where
  "checksumHex cr a =
     (let buf = hex_of_address a;
          h = hash_bytes (keccak256 cr (drop 2 buf))
      in map (\<lambda>i. let b = buf ! i in
              if i \<ge> 2 \<and> b > 57 \<and> checksum_nibble h i > 7 then b - 32 else b) [0..<length buf])"

lemma unat_of_nat_small: "k < 256 \<Longrightarrow> unat (of_nat k :: byte) = k"
  by (simp add: unat_of_nat)

lemma dec_bytes_digits: "b \<in> set (dec_bytes n) \<Longrightarrow> 48 \<le> unat b \<and> unat b \<le> 57"
proof (induction n rule: dec_bytes.induct)
  case (1 n)
  then show ?case
    by (cases "n < 10") (auto simp: dec_bytes.simps [of n] unat_of_nat_small simp del: of_nat_add)
qed

lemma newline_not_dec: "10 \<notin> set (dec_bytes n)"
  using dec_bytes_digits [of 10 n] by auto

definition undec :: "bytes \<Rightarrow> nat" where
  "undec bs = foldl (\<lambda>acc b. acc * 10 + (unat b - 48)) 0 bs"

lemma undec_dec_bytes: "undec (dec_bytes n) = n"
proof (induction n rule: dec_bytes.induct)
  case (1 n)
  then show ?case
    by (cases "n < 10") (auto simp: dec_bytes.simps [of n] undec_def unat_of_nat_small simp del: of_nat_add)
qed

lemma dec_bytes_inject [simp]: "dec_bytes m = dec_bytes n \<longleftrightarrow> m = n"
  by (metis undec_dec_bytes)

text \<open>A line ends at its first newline.\<close>

lemma line_inject:
  "c \<notin> set xs \<Longrightarrow> c \<notin> set ys \<Longrightarrow> xs @ c # us = ys @ c # vs \<longleftrightarrow> xs = ys \<and> us = vs"
proof (induction xs arbitrary: ys)
  case Nil
  then show ?case by (cases ys) auto
next
  case (Cons x xs)
  then show ?case by (cases ys) auto
qed

lemma length_hex_encode: "length (hex_encode bs) = 2 * length bs"
  by (induction bs) (simp_all add: hex_encode_def)

lemma unat_hex_digit: "d < 16 \<Longrightarrow> unat (hex_digit d) = (if d < 10 then 48 + d else 87 + d)"
  by (simp add: hex_digit_def unat_of_nat_small del: of_nat_add)

lemma hex_digit_inject: "a < 16 \<Longrightarrow> b < 16 \<Longrightarrow> hex_digit a = hex_digit b \<longleftrightarrow> a = b"
proof -
  assume a: "a < 16" "b < 16"
  have "hex_digit a = hex_digit b \<longleftrightarrow> unat (hex_digit a) = unat (hex_digit b)"
    by (rule word_unat_eq_iff)
  also have "\<dots> \<longleftrightarrow> (if a < 10 then 48 + a else 87 + a) = (if b < 10 then 48 + b else 87 + b)"
    by (simp only: unat_hex_digit a)
  also have "\<dots> \<longleftrightarrow> a = b" by auto
  finally show ?thesis .
qed

lemma hex_encode_inject: "hex_encode xs = hex_encode ys \<longleftrightarrow> xs = ys"
proof (induction xs arbitrary: ys)
  case Nil
  then show ?case by (cases ys) (simp_all add: hex_encode_def)
next
  case (Cons x xs)
  have b: "unat x div 16 = unat y div 16 \<and> unat x mod 16 = unat y mod 16 \<longleftrightarrow> x = y" for y :: byte
    by (metis div_mult_mod_eq word_unat_eq_iff)
  have lt: "unat (z :: byte) div 16 < 16" for z
    using unat_byte_less [of z] by (simp add: less_mult_imp_div_less del: unat_byte_less)
  show ?case
  proof (cases ys)
    case Nil
    then show ?thesis by (simp add: hex_encode_def)
  next
    case (Cons y ys')
    then have "hex_encode (x # xs) = hex_encode ys \<longleftrightarrow>
        (unat x div 16 = unat y div 16 \<and> unat x mod 16 = unat y mod 16) \<and> hex_encode xs = hex_encode ys'"
      using lt by (simp add: hex_encode_def hex_digit_inject)
    then show ?thesis using b Cons.IH Cons by simp
  qed
qed

text \<open>The checksum only changes the case of letters, so lower-casing recovers the digits.\<close>

definition lower_byte :: "byte \<Rightarrow> byte" where
  "lower_byte c = (if 65 \<le> unat c \<and> unat c \<le> 70 then c + 32 else c)"

lemma lower_hex_digit:
  assumes "d < 16"
  shows "lower_byte (hex_digit d) = hex_digit d"
    and "hex_digit d > 57 \<Longrightarrow> lower_byte (hex_digit d - 32) = hex_digit d"
proof -
  note u = unat_hex_digit [OF assms]
  show "lower_byte (hex_digit d) = hex_digit d"
    using u assms by (auto simp: lower_byte_def split: if_splits)
  assume "hex_digit d > 57"
  then have d: "10 \<le> d" using u by (auto simp: word_less_nat_alt split: if_splits)
  then have "unat (hex_digit d - 32) = 55 + d" using u assms by (simp add: unat_sub_if')
  then show "lower_byte (hex_digit d - 32) = hex_digit d"
    using d assms by (simp add: lower_byte_def)
qed

lemma hex_encode_digits: "b \<in> set (hex_encode bs) \<Longrightarrow> \<exists>d < 16. b = hex_digit d"
proof -
  assume "b \<in> set (hex_encode bs)"
  then have "\<exists>c :: byte. b = hex_digit (unat c div 16) \<or> b = hex_digit (unat c mod 16)"
    by (auto simp: hex_encode_def)
  then obtain c :: byte where "b = hex_digit (unat c div 16) \<or> b = hex_digit (unat c mod 16)" ..
  moreover have "unat (c :: byte) div 16 < 16"
    using unat_byte_less [of c] by (simp add: less_mult_imp_div_less del: unat_byte_less)
  moreover have "unat c mod 16 < 16" by simp
  ultimately show ?thesis by blast
qed

lemma length_hex_of_address: "length (hex_of_address a) = 42"
  by (simp add: hex_of_address_def length_hex_encode ascii_def)

lemma length_checksumHex: "length (checksumHex cr a) = 42"
  by (simp add: checksumHex_def length_hex_of_address Let_def)

lemma lower_checksumHex: "map lower_byte (checksumHex cr a) = hex_of_address a"
proof (rule nth_equalityI)
  fix i assume "i < length (map lower_byte (checksumHex cr a))"
  then have i: "i < 42" by (simp add: length_checksumHex)
  let ?b = "hex_of_address a ! i"
  show "map lower_byte (checksumHex cr a) ! i = ?b"
  proof (cases "i < 2")
    case True
    then have "i = 0 \<or> i = 1" by auto
    then show ?thesis
      by (auto simp: checksumHex_def length_hex_of_address hex_of_address_def ascii_def lower_byte_def
          Let_def length_hex_encode)
  next
    case False
    then have "?b = hex_encode (addr_bytes a) ! (i - 2)"
      by (simp add: hex_of_address_def ascii_def nth_append numeral_2_eq_2)
    moreover have "i - 2 < length (hex_encode (addr_bytes a))"
      using i by (simp add: length_hex_encode)
    ultimately obtain d where "d < 16" "?b = hex_digit d"
      using hex_encode_digits nth_mem by metis
    then show ?thesis
      using i lower_hex_digit [of d]
      by (auto simp: checksumHex_def length_hex_of_address Let_def)
  qed
qed (simp add: length_checksumHex length_hex_of_address)

lemma checksumHex_inject [simp]: "checksumHex cr a = checksumHex cr b \<longleftrightarrow> a = b"
proof
  assume "checksumHex cr a = checksumHex cr b"
  then have "hex_of_address a = hex_of_address b" by (metis lower_checksumHex)
  then show "a = b" by (simp add: hex_of_address_def hex_encode_inject)
qed simp

section \<open>A sample instance\<close>

text \<open>Concrete functions for the two parameters, used by the examples that evaluate the model.\<close>

definition sample_crypto :: crypto where
  "sample_crypto = \<lparr>keccak256 = (\<lambda>b. let h = of_nat (sum_list (map unat b)) in if h = 0 then 1 else h),
     sigToAddress = (\<lambda>h s. Some (of_be (take 20 (drop 12 s))))\<rparr>"

definition sample_signature :: "address \<Rightarrow> bytes" where
  "sample_signature a = replicate 12 0 @ addr_bytes a @ replicate 31 0 @ [1, 0]"

lemma sample_keccak_nonzero [simp]: "keccak256 sample_crypto b \<noteq> 0"
  by (simp add: sample_crypto_def Let_def)

lemma sample_sigToAddress [simp]: "sigToAddress sample_crypto h (sample_signature a) = Some a"
  by (simp add: sample_crypto_def sample_signature_def)

lemma length_sample_signature [simp]: "length (sample_signature a) = 65"
  by (simp add: sample_signature_def)

lemma sample_signature_ok [simp]:
  assumes "a \<noteq> 0"
  shows "sig_values_ok (sample_signature a)"
proof -
  have "sig_r (sample_signature a) = unat a" "sig_s (sample_signature a) = 1" "sample_signature a ! 64 = 0"
    by (simp_all add: sig_r_def sig_s_def sample_signature_def be_nat_append nth_append be_nat_Cons)
  moreover have "unat a < 2 ^ 160" "0 < unat a"
    using unsigned_less [of a, where ?'a = nat] assms by (simp_all add: unat_gt_0)
  ultimately show ?thesis
    by (simp add: sig_values_ok_def ValidateSignatureValues_def secp256k1halfN_def secp256k1N_def)
qed

end
