(* ===== verification/RLP.thy ===== *)
theory RLP
  imports Prelude "HOL-Library.Log_Nat"
begin

text \<open>
  The recursive-length-prefix codec (\<open>rlp/encode.go\<close>, \<open>rlp/encbuffer.go\<close>,
  \<open>rlp/decode.go\<close>) that every LQC commitment, signing payload and header envelope goes
  through. The reflection-driven writers and decoders of the package are recursive
  functions on a universe of values and types; the encoder's buffer with its deferred
  list headers is modelled as it is and refined to the recursive definition of RLP.
\<close>

section \<open>Values and types\<close>

text \<open>
  The kinds of Go values the LQC structures hold: unsigned integers and booleans, byte
  slices and byte arrays, \<open>*big.Int\<close> (non-negative; nil is written as 0), slices and
  structs.
\<close>

datatype rlp_val =
    VUint u64
  | VBool bool
  | VBytes bytes
  | VArray bytes
  | VBig nat
  | VSlice "rlp_val list"
  | VStruct "rlp_val list"

datatype rlp_type =
    TUint nat \<comment> \<open>width in bits\<close>
  | TBool
  | TBytes
  | TArray nat
  | TBig
  | TSlice rlp_type
  | TStruct "rlp_type list"

section \<open>Integers and headers\<close>

definition byte_at :: "u64 \<Rightarrow> nat \<Rightarrow> byte" where
  "byte_at i k = ucast (drop_bit k i)"

definition putint :: "u64 \<Rightarrow> bytes" where
  "putint i =
     (if i < 2 ^ 8 then [byte_at i 0]
      else if i < 2 ^ 16 then [byte_at i 8, byte_at i 0]
      else if i < 2 ^ 24 then [byte_at i 16, byte_at i 8, byte_at i 0]
      else if i < 2 ^ 32 then [byte_at i 24, byte_at i 16, byte_at i 8, byte_at i 0]
      else if i < 2 ^ 40 then
        [byte_at i 32, byte_at i 24, byte_at i 16, byte_at i 8, byte_at i 0]
      else if i < 2 ^ 48 then
        [byte_at i 40, byte_at i 32, byte_at i 24, byte_at i 16, byte_at i 8, byte_at i 0]
      else if i < 2 ^ 56 then
        [byte_at i 48, byte_at i 40, byte_at i 32, byte_at i 24, byte_at i 16, byte_at i 8,
         byte_at i 0]
      else
        [byte_at i 56, byte_at i 48, byte_at i 40, byte_at i 32, byte_at i 24, byte_at i 16,
         byte_at i 8, byte_at i 0])"

definition Len64 :: "u64 \<Rightarrow> nat" where
  "Len64 i = floorlog 2 (unat i)"

definition intsize :: "u64 \<Rightarrow> nat" where
  "intsize i = (if i = 0 then 1 else (Len64 i + 7) div 8)"

definition headsize :: "u64 \<Rightarrow> nat" where
  "headsize sz = (if sz < 56 then 1 else 1 + intsize sz)"

definition puthead :: "byte \<Rightarrow> byte \<Rightarrow> u64 \<Rightarrow> bytes" where
  "puthead smalltag largetag sz =
     (if sz < 56 then [smalltag + ucast sz]
      else let s = putint sz in (largetag + of_nat (length s)) # s)"

section \<open>The encoder's buffer\<close>

text \<open>
  \<open>encBuffer\<close> keeps the string data and, apart from it, the list headers with the offset
  where each belongs: a header can only be written once the size of the list is known.
  \<open>size\<close> of an open list holds \<open>lhsize\<close> at the moment the list was opened.
\<close>

record listhead =
  lh_offset :: nat
  lh_size :: nat

record encBuffer =
  eb_str :: bytes
  eb_lheads :: "listhead list"
  eb_lhsize :: nat

definition emptyBuffer :: encBuffer where
  "emptyBuffer = \<lparr>eb_str = [], eb_lheads = [], eb_lhsize = 0\<rparr>"

definition eb_size :: "encBuffer \<Rightarrow> nat" where
  "eb_size buf = length (eb_str buf) + eb_lhsize buf"

definition append_str :: "bytes \<Rightarrow> encBuffer \<Rightarrow> encBuffer" where
  "append_str bs buf = buf\<lparr>eb_str := eb_str buf @ bs\<rparr>"

definition listhead_encode :: "listhead \<Rightarrow> bytes" where
  "listhead_encode h = puthead 0xC0 0xF7 (of_nat (lh_size h))"

fun copyTo_from :: "nat \<Rightarrow> bytes \<Rightarrow> listhead list \<Rightarrow> bytes" where
  "copyTo_from strpos str [] = drop strpos str"
| "copyTo_from strpos str (h # hs) =
     (let chunk = take (lh_offset h - strpos) (drop strpos str)
      in chunk @ listhead_encode h @ copyTo_from (strpos + length chunk) str hs)"

definition makeBytes :: "encBuffer \<Rightarrow> bytes" where
  "makeBytes buf = copyTo_from 0 (eb_str buf) (eb_lheads buf)"

definition encodeStringHeader :: "nat \<Rightarrow> bytes" where
  "encodeStringHeader sz =
     (if sz < 56 then [0x80 + of_nat sz]
      else let s = putint (of_nat sz) in (0xB7 + of_nat (length s)) # s)"

definition writeBool :: "bool \<Rightarrow> encBuffer \<Rightarrow> encBuffer" where
  "writeBool b = append_str (if b then [0x01] else [0x80])"

definition writeUint64 :: "u64 \<Rightarrow> encBuffer \<Rightarrow> encBuffer" where
  "writeUint64 i = append_str
     (if i = 0 then [0x80]
      else if i < 128 then [ucast i]
      else let s = putint i in (0x80 + of_nat (length s)) # s)"

definition writeBytes :: "bytes \<Rightarrow> encBuffer \<Rightarrow> encBuffer" where
  "writeBytes b = append_str
     (if length b = 1 \<and> b ! 0 \<le> 0x7F then b else encodeStringHeader (length b) @ b)"

definition writeByteArray :: "bytes \<Rightarrow> encBuffer \<Rightarrow> encBuffer" where
  "writeByteArray b = append_str
     (case b of [] \<Rightarrow> [0x80]
      | [x] \<Rightarrow> (if x \<le> 0x7f then [x] else [0x81, x])
      | _ \<Rightarrow> encodeStringHeader (length b) @ b)"

definition writeBigInt :: "nat \<Rightarrow> encBuffer \<Rightarrow> encBuffer" where
  "writeBigInt n buf =
     (let bitlen = floorlog 2 n in
      if bitlen \<le> 64 then writeUint64 (of_nat n) buf
      else let len = (bitlen + 7) div 8
           in append_str (encodeStringHeader len @ be_bytes len n) buf)"

definition eb_list :: "encBuffer \<Rightarrow> encBuffer \<times> nat" where
  "eb_list buf =
     (buf\<lparr>eb_lheads := eb_lheads buf @ [\<lparr>lh_offset = length (eb_str buf), lh_size = eb_lhsize buf\<rparr>]\<rparr>,
      length (eb_lheads buf))"

definition eb_listEnd :: "nat \<Rightarrow> encBuffer \<Rightarrow> encBuffer" where
  "eb_listEnd index buf =
     (let lh = eb_lheads buf ! index;
          sz = eb_size buf - lh_offset lh - lh_size lh;
          extra = (if sz < 56 then 1 else 1 + intsize (of_nat sz))
      in buf\<lparr>eb_lheads := (eb_lheads buf)[index := lh\<lparr>lh_size := sz\<rparr>],
             eb_lhsize := eb_lhsize buf + extra\<rparr>)"

text \<open>The writers \<open>makeWriter\<close> selects by the kind of the value.\<close>

fun write_val :: "rlp_val \<Rightarrow> encBuffer \<Rightarrow> encBuffer"
  and write_vals :: "rlp_val list \<Rightarrow> encBuffer \<Rightarrow> encBuffer" where
  "write_val (VUint i) buf = writeUint64 i buf"
| "write_val (VBool b) buf = writeBool b buf"
| "write_val (VBytes b) buf = writeBytes b buf"
| "write_val (VArray b) buf = writeByteArray b buf"
| "write_val (VBig n) buf = writeBigInt n buf"
| "write_val (VSlice vs) buf =
     (if vs = [] then append_str [0xC0] buf
      else let (buf1, off) = eb_list buf in eb_listEnd off (write_vals vs buf1))"
| "write_val (VStruct vs) buf =
     (let (buf1, off) = eb_list buf in eb_listEnd off (write_vals vs buf1))"
| "write_vals [] buf = buf"
| "write_vals (v # vs) buf = write_vals vs (write_val v buf)"

definition EncodeToBytes :: "rlp_val \<Rightarrow> bytes" where
  "EncodeToBytes v = makeBytes (write_val v emptyBuffer)"


section \<open>The recursive definition of RLP\<close>

datatype rlp_item = RStr bytes | RList "rlp_item list"

text \<open>A header with tag offset \<open>off\<close> (0x80 for strings, 0xC0 for lists).\<close>

definition enc_len :: "nat \<Rightarrow> nat \<Rightarrow> bytes" where
  "enc_len off n =
     (if n < 56 then [of_nat (off + n)]
      else of_nat (off + 55 + length (be_min n)) # be_min n)"

fun rlp_encode :: "rlp_item \<Rightarrow> bytes" where
  "rlp_encode (RStr b) =
     (if length b = 1 \<and> b ! 0 \<le> 0x7F then b else enc_len 0x80 (length b) @ b)"
| "rlp_encode (RList is) =
     (let c = concat (map rlp_encode is) in enc_len 0xC0 (length c) @ c)"

fun item_of :: "rlp_val \<Rightarrow> rlp_item" where
  "item_of (VUint i) = RStr (be_min (unat i))"
| "item_of (VBool b) = RStr (if b then [1] else [])"
| "item_of (VBytes b) = RStr b"
| "item_of (VArray b) = RStr b"
| "item_of (VBig n) = RStr (be_min n)"
| "item_of (VSlice vs) = RList (map item_of vs)"
| "item_of (VStruct vs) = RList (map item_of vs)"

abbreviation rlp_bytes :: "rlp_val \<Rightarrow> bytes" where
  "rlp_bytes v \<equiv> rlp_encode (item_of v)"

section \<open>Integers and headers: the code computes the definition\<close>

lemma be_min_eq_be_bytes:
  "256 ^ n \<le> k \<Longrightarrow> k < 256 ^ Suc n \<Longrightarrow> be_min k = be_bytes (Suc n) k"
proof (induction n arbitrary: k)
  case 0
  then show ?case by (simp add: be_min.simps [of k])
next
  case (Suc n)
  have "256 ^ n \<le> k div 256" "k div 256 < 256 ^ Suc n"
    using Suc.prems by (simp_all add: less_eq_div_iff_mult_less_eq less_mult_imp_div_less mult.commute)
  from Suc.IH [OF this] Suc.prems show ?case
    by (subst be_min.simps) (auto simp: not_le dest: order.strict_trans1 [rotated])
qed

lemma byte_at_unat: "byte_at i k = of_nat (unat i div 2 ^ k)"
  unfolding byte_at_def
  by (rule word_unat_eq_iff [THEN iffD2])
     (use unsigned_less [of i, where ?'a = nat] in
       \<open>simp add: unat_of_nat unsigned_ucast_eq unsigned_drop_bit_eq take_bit_eq_mod
         flip: drop_bit_eq_div\<close>)

lemma of_nat_mod_byte: "(of_nat (k mod 256) :: byte) = of_nat k"
  by (rule word_unat_eq_iff [THEN iffD2]) (simp add: unat_of_nat)

lemma be_bytes_numeral:
  "be_bytes (numeral n) k = be_bytes (pred_numeral n) (k div 256) @ [of_nat (k mod 256)]"
  by (simp only: numeral_eq_Suc [of n] be_bytes.simps)

lemma putint_be_min:
  assumes "i \<noteq> 0"
  shows "putint i = be_min (unat i)"
proof -
  define m where "m = unat i"
  have "m < 256 ^ 8" using unsigned_less [of i, where ?'a = nat] by (simp add: m_def)
  moreover have "1 \<le> m" using assms by (simp add: m_def unat_eq_zero Suc_le_eq flip: neq0_conv)
  ultimately consider
      "256 ^ 0 \<le> m \<and> m < 256 ^ Suc 0" | "256 ^ 1 \<le> m \<and> m < 256 ^ Suc 1"
    | "256 ^ 2 \<le> m \<and> m < 256 ^ Suc 2" | "256 ^ 3 \<le> m \<and> m < 256 ^ Suc 3"
    | "256 ^ 4 \<le> m \<and> m < 256 ^ Suc 4" | "256 ^ 5 \<le> m \<and> m < 256 ^ Suc 5"
    | "256 ^ 6 \<le> m \<and> m < 256 ^ Suc 6" | "256 ^ 7 \<le> m \<and> m < 256 ^ Suc 7"
    by (simp add: power_Suc [symmetric]) linarith
  then show ?thesis
    unfolding putint_def byte_at_unat word_less_nat_alt m_def [symmetric]
    by cases (subst be_min_eq_be_bytes, blast, blast, simp add: be_bytes_numeral of_nat_mod_byte flip: div_mult2_eq)+
qed

lemma length_putint: "length (putint i) \<le> 8"
  by (simp add: putint_def)

lemma length_be_min_eq:
  assumes "256 ^ n \<le> k" and "k < 256 ^ Suc n"
  shows "length (be_min k) = Suc n"
  using be_min_eq_be_bytes [OF assms] by simp

text \<open>The size \<open>bits.Len64\<close> computes is the number of bytes \<open>putint\<close> writes.\<close>

lemma intsize_eq:
  assumes "0 < k"
  shows "(floorlog 2 k + 7) div 8 = length (be_min k)"
proof -
  define b where "b = floorlog 2 k"
  define n where "n = (b - 1) div 8"
  have b: "2 ^ (b - 1) \<le> k" "k < 2 ^ b" "0 < b"
    using assms floorlog_bounds [of k 2]
    by (auto simp: b_def floorlog_eq_zero_iff simp flip: neq0_conv)
  have n: "8 * n \<le> b - 1" "b \<le> 8 * Suc n" "(b + 7) div 8 = Suc n"
    using b(3) by (auto simp: n_def)
  have "(256::nat) ^ n = 2 ^ (8 * n)" "(256::nat) ^ Suc n = 2 ^ (8 * Suc n)"
    by (simp_all add: power_mult power_add)
  moreover have "(2::nat) ^ (8 * n) \<le> 2 ^ (b - 1)" "(2::nat) ^ b \<le> 2 ^ (8 * Suc n)"
    using n by (intro power_increasing; simp)+
  ultimately have "length (be_min k) = Suc n"
    using b by (intro length_be_min_eq) linarith+
  then show ?thesis using n(3) by (simp add: b_def)
qed

lemma enc_len_eq_header:
  assumes "n < 2 ^ 64"
  shows "encodeStringHeader n = enc_len 0x80 n"
    and "puthead 0xC0 0xF7 (of_nat n) = enc_len 0xC0 n"
proof -
  have u: "unat (of_nat n :: u64) = n" using assms by (simp add: unat_of_nat)
  have "\<not> n < 56 \<Longrightarrow> putint (of_nat n) = be_min n"
    using u putint_be_min [of "of_nat n"] by (metis not_gr_zero unat_0 zero_less_numeral)
  moreover have "(ucast (of_nat n :: u64) :: byte) = of_nat n"
    by (rule word_unat_eq_iff [THEN iffD2])
       (simp add: unsigned_ucast_eq unat_of_nat take_bit_eq_mod mod_mod_cancel)
  ultimately show "encodeStringHeader n = enc_len 0x80 n"
    and "puthead 0xC0 0xF7 (of_nat n) = enc_len 0xC0 n"
    using u by (simp_all add: encodeStringHeader_def puthead_def enc_len_def word_less_nat_alt
      Let_def)
qed

lemma length_enc_len:
  "length (enc_len off n) = (if n < 56 then 1 else 1 + (floorlog 2 n + 7) div 8)"
  by (simp add: enc_len_def intsize_eq)

lemma writeUint64_eq: "writeUint64 i = append_str (rlp_encode (RStr (be_min (unat i))))"
proof -
  consider "i = 0" | "i \<noteq> 0" "i < 128" | "\<not> i < 128" by blast
  then show ?thesis
  proof cases
    case 1
    then show ?thesis by (simp add: writeUint64_def enc_len_def)
  next
    case 2
    then have "be_min (unat i) = [ucast i]"
      by (simp add: be_min.simps [of "unat i"] word_less_nat_alt unat_eq_zero of_nat_mod_byte)
    moreover have "(ucast i :: byte) \<le> 0x7F"
      using 2 by (simp add: word_le_nat_alt word_less_nat_alt unsigned_ucast_eq take_bit_eq_mod)
    ultimately show ?thesis using 2 by (simp add: writeUint64_def)
  next
    case 3
    have ne: "i \<noteq> 0" using 3 by auto
    have n128: "128 \<le> unat i" using 3 by (simp add: word_less_nat_alt)
    have "length (be_min (unat i)) \<le> 8"
      using putint_be_min [OF ne] length_putint [of i] by simp
    moreover have "\<not> (length (be_min (unat i)) = 1 \<and> be_min (unat i) ! 0 \<le> 0x7F)"
    proof
      assume a: "length (be_min (unat i)) = 1 \<and> be_min (unat i) ! 0 \<le> 0x7F"
      then obtain b where "be_min (unat i) = [b]" by (cases "be_min (unat i)") auto
      with a be_nat_be_min [of "unat i"] n128 show False
        by (simp add: be_nat_def word_le_nat_alt)
    qed
    ultimately show ?thesis
      using 3 ne putint_be_min [OF ne]
      by (auto simp: writeUint64_def enc_len_def Let_def intro!: ext)
  qed
qed

lemma writeBytes_eq: "length b < 2 ^ 64 \<Longrightarrow> writeBytes b = append_str (rlp_encode (RStr b))"
  by (simp add: writeBytes_def enc_len_eq_header)

lemma writeByteArray_eq:
  "length b < 2 ^ 64 \<Longrightarrow> writeByteArray b = append_str (rlp_encode (RStr b))"
  by (auto simp: writeByteArray_def enc_len_eq_header enc_len_def split: list.splits)

lemma writeBool_eq: "writeBool b = append_str (rlp_encode (item_of (VBool b)))"
  by (simp add: writeBool_def enc_len_def)

lemma writeBigInt_eq:
  assumes "length (rlp_encode (RStr (be_min n))) < 2 ^ 64"
  shows "writeBigInt n = append_str (rlp_encode (RStr (be_min n)))"
proof (rule ext)
  fix buf
  show "writeBigInt n buf = append_str (rlp_encode (RStr (be_min n))) buf"
  proof (cases "floorlog 2 n \<le> 64")
    case True
    then have "n < 2 ^ 64" by (simp add: floorlog_le_iff)
    with True show ?thesis by (simp add: writeBigInt_def writeUint64_eq unat_of_nat)
  next
    case False
    then have n: "2 ^ 64 \<le> n" "n \<noteq> 0" by (auto simp: floorlog_le_iff)
    define l where "l = length (be_min n)"
    have l: "(floorlog 2 n + 7) div 8 = l" using n by (simp add: intsize_eq l_def)
    with False have "8 < l" by linarith
    have "be_bytes l n = be_min n"
      using be_bytes_be_nat [of "be_min n"] by (simp add: l_def)
    moreover have "l < 2 ^ 64" using assms \<open>8 < l\<close> by (simp add: l_def split: if_splits)
    ultimately show ?thesis
      using False l \<open>8 < l\<close> by (simp add: writeBigInt_def Let_def enc_len_eq_header flip: l_def)
  qed
qed


section \<open>The buffer writes the recursive definition\<close>

text \<open>
  \<open>wrote a b enc\<close>: \<open>b\<close> is \<open>a\<close> with string data and finished list headers appended that
  render to \<open>enc\<close>. Headers of enclosing lists, still open in \<open>a\<close>, are not touched.
\<close>

definition wrote :: "encBuffer \<Rightarrow> encBuffer \<Rightarrow> bytes \<Rightarrow> bool" where
  "wrote a b enc \<longleftrightarrow> (\<exists>s hs k.
     b = \<lparr>eb_str = eb_str a @ s, eb_lheads = eb_lheads a @ hs, eb_lhsize = eb_lhsize a + k\<rparr>
     \<and> sorted (map lh_offset hs)
     \<and> (\<forall>h \<in> set hs. length (eb_str a) \<le> lh_offset h \<and> lh_offset h \<le> length (eb_str a @ s))
     \<and> copyTo_from (length (eb_str a)) (eb_str a @ s) hs = enc
     \<and> length s + k = length enc)"

lemma copyTo_from_append:
  assumes "sorted (map lh_offset hs)" and "\<forall>h \<in> set hs. p \<le> lh_offset h \<and> lh_offset h \<le> length str"
    and "p \<le> length str" and "\<forall>h \<in> set hs'. length str \<le> lh_offset h \<and> lh_offset h \<le> length (str @ t)"
  shows "copyTo_from p (str @ t) (hs @ hs')
    = copyTo_from p str hs @ copyTo_from (length str) (str @ t) hs'"
  using assms
proof (induction hs arbitrary: p)
  case Nil
  show ?case
  proof (cases hs')
    case Nil
    with \<open>p \<le> length str\<close> show ?thesis by simp
  next
    case (Cons h hs'')
    with Nil.prems have "length str \<le> lh_offset h" "lh_offset h \<le> length str + length t" by auto
    with \<open>p \<le> length str\<close> Cons show ?thesis by (simp add: Let_def min_def)
  qed
next
  case (Cons h hs)
  then have h: "p \<le> lh_offset h" "lh_offset h \<le> length str" by auto
  have "copyTo_from (lh_offset h) (str @ t) (hs @ hs')
      = copyTo_from (lh_offset h) str hs @ copyTo_from (length str) (str @ t) hs'"
    using Cons.prems by (intro Cons.IH) auto
  moreover have "min (length str - p) (lh_offset h - p) = lh_offset h - p" using h by linarith
  ultimately show ?case using h by (simp add: Let_def)
qed

lemma wrote_refl: "wrote a a []"
  unfolding wrote_def by (rule exI [of _ "[]"], rule exI [of _ "[]"], rule exI [of _ 0]) simp

lemma wrote_append_str: "wrote a (append_str bs a) bs"
  unfolding wrote_def append_str_def
  by (rule exI [of _ bs], rule exI [of _ "[]"], rule exI [of _ 0]) simp

lemma wrote_trans:
  assumes "wrote a b e" and "wrote b c f"
  shows "wrote a c (e @ f)"
proof -
  from assms(1) obtain s hs k where
    b: "b = \<lparr>eb_str = eb_str a @ s, eb_lheads = eb_lheads a @ hs, eb_lhsize = eb_lhsize a + k\<rparr>"
    and hs: "sorted (map lh_offset hs)"
      "\<forall>h \<in> set hs. length (eb_str a) \<le> lh_offset h \<and> lh_offset h \<le> length (eb_str a @ s)"
    and e: "copyTo_from (length (eb_str a)) (eb_str a @ s) hs = e" "length s + k = length e"
    unfolding wrote_def by blast
  from assms(2) obtain s' hs' k' where
    c: "c = \<lparr>eb_str = eb_str b @ s', eb_lheads = eb_lheads b @ hs', eb_lhsize = eb_lhsize b + k'\<rparr>"
    and hs': "sorted (map lh_offset hs')"
      "\<forall>h \<in> set hs'. length (eb_str b) \<le> lh_offset h \<and> lh_offset h \<le> length (eb_str b @ s')"
    and f: "copyTo_from (length (eb_str b)) (eb_str b @ s') hs' = f" "length s' + k' = length f"
    unfolding wrote_def by blast
  have "copyTo_from (length (eb_str a)) ((eb_str a @ s) @ s') (hs @ hs') = e @ f"
    using copyTo_from_append [OF hs, of hs' s'] hs'(2) e(1) f(1) b by simp
  moreover have "sorted (map lh_offset (hs @ hs'))"
    using hs hs' b by (fastforce simp: sorted_append)
  moreover have "\<forall>h \<in> set (hs @ hs').
      length (eb_str a) \<le> lh_offset h \<and> lh_offset h \<le> length (eb_str a @ s @ s')"
    using hs(2) hs'(2) b by fastforce
  ultimately show ?thesis
    unfolding wrote_def using b c e(2) f(2)
    by (intro exI [of _ "s @ s'"] exI [of _ "hs @ hs'"] exI [of _ "k + k'"]) simp
qed

lemma wrote_list:
  assumes "wrote (fst (eb_list a)) b enc" and "length enc < 2 ^ 64"
  shows "wrote a (eb_listEnd (snd (eb_list a)) b) (enc_len 0xC0 (length enc) @ enc)"
proof -
  let ?open = "\<lparr>lh_offset = length (eb_str a), lh_size = eb_lhsize a\<rparr>"
  let ?head = "\<lparr>lh_offset = length (eb_str a), lh_size = length enc\<rparr>"
  from assms(1) obtain s hs k where
    b: "b = \<lparr>eb_str = eb_str a @ s, eb_lheads = (eb_lheads a @ [?open]) @ hs, eb_lhsize = eb_lhsize a + k\<rparr>"
    and hs: "sorted (map lh_offset hs)"
      "\<forall>h \<in> set hs. length (eb_str a) \<le> lh_offset h \<and> lh_offset h \<le> length (eb_str a @ s)"
    and e: "copyTo_from (length (eb_str a)) (eb_str a @ s) hs = enc" "length s + k = length enc"
    unfolding wrote_def by (auto simp: eb_list_def)
  define extra where "extra = length (enc_len 0xC0 (length enc))"
  have extra: "(if length enc < 56 then 1 else 1 + intsize (of_nat (length enc))) = extra"
    using assms(2)
    by (auto simp: extra_def length_enc_len intsize_def Len64_def unat_of_nat word_unat_eq_iff)
  have sz: "eb_size b - length (eb_str a) - eb_lhsize a = length enc"
    using e(2) by (simp add: eb_size_def b)
  have "eb_listEnd (snd (eb_list a)) b = \<lparr>eb_str = eb_str a @ s, eb_lheads = eb_lheads a @ ?head # hs,
      eb_lhsize = eb_lhsize a + (k + extra)\<rparr>"
    using sz extra
    by (cases "length enc < 56") (simp_all add: eb_listEnd_def eb_list_def b Let_def nth_append)
  moreover have "copyTo_from (length (eb_str a)) (eb_str a @ s) (?head # hs)
      = enc_len 0xC0 (length enc) @ enc"
    using e(1) enc_len_eq_header(2) [OF assms(2)] by (simp add: listhead_encode_def)
  ultimately show ?thesis
    unfolding wrote_def using hs e(2)
    by (intro exI [of _ s] exI [of _ "?head # hs"] exI [of _ "k + extra"]) (auto simp: extra_def)
qed

lemma wrote_vals:
  assumes "\<And>v a. v \<in> set vs \<Longrightarrow> wrote a (write_val v a) (rlp_bytes v)"
  shows "wrote a (write_vals vs a) (concat (map rlp_bytes vs))"
  using assms
proof (induction vs arbitrary: a)
  case Nil
  show ?case by (simp add: wrote_refl)
next
  case (Cons v vs)
  then show ?case by (auto intro!: wrote_trans [of _ "write_val v a"])
qed

lemma length_rlp_bytes_mem:
  assumes "v \<in> set vs"
  shows "length (rlp_bytes v) \<le> length (concat (map rlp_bytes vs))"
  using assms by (induction vs) auto

lemma map_item_of [simp]: "map (rlp_encode \<circ> item_of) vs = map rlp_bytes vs"
  by simp

lemma wrote_val:
  "length (rlp_bytes v) < 2 ^ 64 \<Longrightarrow> wrote a (write_val v a) (rlp_bytes v)"
proof (induction v arbitrary: a)
  case (VUint i)
  show ?case using wrote_append_str by (simp only: write_val.simps writeUint64_eq item_of.simps)
next
  case (VBool b)
  show ?case using wrote_append_str by (simp only: write_val.simps writeBool_eq)
next
  case (VBytes b)
  then have "length b < 2 ^ 64" by (auto split: if_splits)
  then show ?case using wrote_append_str by (simp only: write_val.simps writeBytes_eq item_of.simps)
next
  case (VArray b)
  then have "length b < 2 ^ 64" by (auto split: if_splits)
  then show ?case using wrote_append_str
    by (simp only: write_val.simps writeByteArray_eq item_of.simps)
next
  case (VBig n)
  then show ?case using wrote_append_str
    by (simp only: write_val.simps writeBigInt_eq item_of.simps)
next
  case (VSlice vs)
  let ?c = "concat (map rlp_bytes vs)"
  have len: "length ?c < 2 ^ 64" using VSlice.prems by (simp add: Let_def)
  show ?case
  proof (cases "vs = []")
    case True
    then show ?thesis using wrote_append_str by (simp add: enc_len_def)
  next
    case False
    have "wrote b (write_vals vs b) ?c" for b
      using VSlice.IH len length_rlp_bytes_mem by (intro wrote_vals) (meson le_less_trans)
    from wrote_list [OF this len] False show ?thesis by (simp add: Let_def split_def)
  qed
next
  case (VStruct vs)
  let ?c = "concat (map rlp_bytes vs)"
  have len: "length ?c < 2 ^ 64" using VStruct.prems by (simp add: Let_def)
  have "wrote b (write_vals vs b) ?c" for b
    using VStruct.IH len length_rlp_bytes_mem by (intro wrote_vals) (meson le_less_trans)
  from wrote_list [OF this len] show ?case by (simp add: Let_def split_def)
qed

lemma EncodeToBytes_eq:
  assumes "length (rlp_bytes v) < 2 ^ 64"
  shows "EncodeToBytes v = rlp_bytes v" and "eb_size (write_val v emptyBuffer) = length (rlp_bytes v)"
proof -
  from wrote_val [OF assms, of emptyBuffer] obtain s hs k where
    b: "write_val v emptyBuffer = \<lparr>eb_str = s, eb_lheads = hs, eb_lhsize = k\<rparr>"
    and e: "copyTo_from 0 s hs = rlp_bytes v" "length s + k = length (rlp_bytes v)"
    unfolding wrote_def by (auto simp: emptyBuffer_def)
  show "EncodeToBytes v = rlp_bytes v"
    using e(1) by (simp add: EncodeToBytes_def makeBytes_def b)
  show "eb_size (write_val v emptyBuffer) = length (rlp_bytes v)"
    using e(2) by (simp add: b eb_size_def)
qed

end
