(* ===== verification/RLP_Decode.thy ===== *)
theory RLP_Decode
  imports RLP
begin

text \<open>
  The decoding half of the codec (\<open>rlp/decode.go\<close>). A \<open>Stream\<close> over a byte slice is
  the slice of bytes still to be read in the innermost list; an error of any kind is \<open>None\<close>,
  as the callers in \<open>consensus/lqc\<close> look only at whether there was one. \<open>Kind\<close> compares
  the size of an element with what the enclosing list had left before the element's header
  was read; an element that fits this limit but not the list makes the limit of the list wrap
  and every later \<open>ListEnd\<close> of it fail, so the model rejects it at once.
\<close>

section \<open>Reading headers\<close>

datatype rlp_kind = KByte | KString | KList

definition readUint :: "nat \<Rightarrow> bytes \<Rightarrow> (nat \<times> bytes) option" where
  "readUint n bs =
     (if n = 0 then Some (0, bs)
      else if length bs < n then None
      else if n = 1 then Some (unat (hd bs), tl bs)
      else if hd bs = 0 then None
      else Some (be_nat (take n bs), drop n bs))"

text \<open>The kind, \<open>byteval\<close>, the size and the bytes after the header.\<close>

definition readKind :: "bytes \<Rightarrow> (rlp_kind \<times> byte \<times> nat \<times> bytes) option" where
  "readKind bs = (case bs of [] \<Rightarrow> None
    | b # r \<Rightarrow>
       if b < 0x80 then Some (KByte, b, 0, r)
       else if b < 0xB8 then Some (KString, 0, unat (b - 0x80), r)
       else if b < 0xC0 then
         (case readUint (unat (b - 0xB7)) r of None \<Rightarrow> None
          | Some (sz, r') \<Rightarrow> if sz < 56 then None else Some (KString, 0, sz, r'))
       else if b < 0xF8 then Some (KList, 0, unat (b - 0xC0), r)
       else
         (case readUint (unat (b - 0xF7)) r of None \<Rightarrow> None
          | Some (sz, r') \<Rightarrow> if sz < 56 then None else Some (KList, 0, sz, r')))"

definition Kind :: "bytes \<Rightarrow> (rlp_kind \<times> byte \<times> nat \<times> bytes) option" where
  "Kind bs = (case readKind bs of None \<Rightarrow> None
    | Some (k, bv, sz, r) \<Rightarrow> if sz > length r then None else Some (k, bv, sz, r))"

section \<open>Decoders of the basic kinds\<close>

definition stream_uint :: "nat \<Rightarrow> bytes \<Rightarrow> (u64 \<times> bytes) option" where
  "stream_uint maxbits bs = (case Kind bs of None \<Rightarrow> None
    | Some (k, bv, sz, r) \<Rightarrow> (case k of
        KByte \<Rightarrow> if bv = 0 then None else Some (ucast bv, r)
      | KString \<Rightarrow>
          if sz > maxbits div 8 then None
          else (case readUint sz r of None \<Rightarrow> None
            | Some (v, r') \<Rightarrow> if sz > 0 \<and> v < 128 then None else Some (of_nat v, r'))
      | KList \<Rightarrow> None))"

definition stream_Bool :: "bytes \<Rightarrow> (bool \<times> bytes) option" where
  "stream_Bool bs = (case stream_uint 8 bs of None \<Rightarrow> None
    | Some (num, r) \<Rightarrow> if num = 0 then Some (False, r) else if num = 1 then Some (True, r) else None)"

definition stream_Bytes :: "bytes \<Rightarrow> (bytes \<times> bytes) option" where
  "stream_Bytes bs = (case Kind bs of None \<Rightarrow> None
    | Some (k, bv, sz, r) \<Rightarrow> (case k of
        KByte \<Rightarrow> Some ([bv], r)
      | KString \<Rightarrow>
          if sz = 1 \<and> hd r < 128 then None else Some (take sz r, drop sz r)
      | KList \<Rightarrow> None))"

definition decodeByteArray :: "nat \<Rightarrow> bytes \<Rightarrow> (bytes \<times> bytes) option" where
  "decodeByteArray n bs = (case Kind bs of None \<Rightarrow> None
    | Some (k, bv, sz, r) \<Rightarrow> (case k of
        KByte \<Rightarrow> if n = 0 then None else if n > 1 then None else Some ([bv], r)
      | KString \<Rightarrow>
          if n < sz then None else if n > sz then None
          else if sz = 1 \<and> hd r < 128 then None
          else Some (take sz r, drop sz r)
      | KList \<Rightarrow> None))"

definition stream_decodeBigInt :: "bytes \<Rightarrow> (nat \<times> bytes) option" where
  "stream_decodeBigInt bs = (case Kind bs of None \<Rightarrow> None
    | Some (k, bv, sz, r) \<Rightarrow>
      if k = KList then None
      else
        let (buffer, r') =
          (if k = KByte then ([bv], r) else if sz = 0 then ([], r) else (take sz r, drop sz r))
        in if k = KString \<and> sz = 1 \<and> hd buffer < 128 then None
           else if buffer \<noteq> [] \<and> hd buffer = 0 then None
           else Some (be_nat buffer, r'))"

definition stream_List :: "bytes \<Rightarrow> (bytes \<times> bytes) option" where
  "stream_List bs = (case Kind bs of None \<Rightarrow> None
    | Some (k, bv, sz, r) \<Rightarrow> if k = KList then Some (take sz r, drop sz r) else None)"

section \<open>Decoding by type\<close>

text \<open>The fuel of the element loop is the number of bytes of the list: each element takes
  at least one (lemma \<open>decode_consumes\<close>).\<close>

fun decodeSliceElems ::
  "(bytes \<Rightarrow> (rlp_val \<times> bytes) option) \<Rightarrow> nat \<Rightarrow> bytes \<Rightarrow> rlp_val list option" where
  "decodeSliceElems dec n [] = Some []"
| "decodeSliceElems dec 0 bs = None"
| "decodeSliceElems dec (Suc n) bs = (case dec bs of None \<Rightarrow> None
    | Some (v, r) \<Rightarrow> map_option (Cons v) (decodeSliceElems dec n r))"

fun decodeFields ::
  "(bytes \<Rightarrow> (rlp_val \<times> bytes) option) list \<Rightarrow> bytes \<Rightarrow> rlp_val list option" where
  "decodeFields [] bs = (if bs = [] then Some [] else None)"
| "decodeFields (dec # decs) bs = (case dec bs of None \<Rightarrow> None
    | Some (v, r) \<Rightarrow> map_option (Cons v) (decodeFields decs r))"

primrec decode_val :: "rlp_type \<Rightarrow> bytes \<Rightarrow> (rlp_val \<times> bytes) option" where
  "decode_val (TUint w) = (\<lambda>bs. map_option (map_prod VUint id) (stream_uint w bs))"
| "decode_val TBool = (\<lambda>bs. map_option (map_prod VBool id) (stream_Bool bs))"
| "decode_val TBytes = (\<lambda>bs. map_option (map_prod VBytes id) (stream_Bytes bs))"
| "decode_val (TArray n) = (\<lambda>bs. map_option (map_prod VArray id) (decodeByteArray n bs))"
| "decode_val TBig = (\<lambda>bs. map_option (map_prod VBig id) (stream_decodeBigInt bs))"
| "decode_val (TSlice t) = (\<lambda>bs. case stream_List bs of None \<Rightarrow> None
     | Some (c, r) \<Rightarrow> map_option (\<lambda>vs. (VSlice vs, r)) (decodeSliceElems (decode_val t) (length c) c))"
| "decode_val (TStruct ts) = (\<lambda>bs. case stream_List bs of None \<Rightarrow> None
     | Some (c, r) \<Rightarrow> map_option (\<lambda>vs. (VStruct vs, r)) (decodeFields (map decode_val ts) c))"

definition DecodeBytes :: "rlp_type \<Rightarrow> bytes \<Rightarrow> rlp_val option" where
  "DecodeBytes t b = (case decode_val t b of None \<Rightarrow> None
    | Some (v, r) \<Rightarrow> if r \<noteq> [] then None else Some v)"

text \<open>Values of a type, and the types the LQC structures use.\<close>

primrec has_type :: "rlp_type \<Rightarrow> rlp_val \<Rightarrow> bool" where
  "has_type (TUint w) = (\<lambda>v. case v of VUint i \<Rightarrow> unat i < 2 ^ w | _ \<Rightarrow> False)"
| "has_type TBool = (\<lambda>v. case v of VBool b \<Rightarrow> True | _ \<Rightarrow> False)"
| "has_type TBytes = (\<lambda>v. case v of VBytes b \<Rightarrow> True | _ \<Rightarrow> False)"
| "has_type (TArray n) = (\<lambda>v. case v of VArray b \<Rightarrow> length b = n | _ \<Rightarrow> False)"
| "has_type TBig = (\<lambda>v. case v of VBig n \<Rightarrow> True | _ \<Rightarrow> False)"
| "has_type (TSlice t) = (\<lambda>v. case v of VSlice vs \<Rightarrow> list_all (has_type t) vs | _ \<Rightarrow> False)"
| "has_type (TStruct ts) = (\<lambda>v. case v of
     VStruct vs \<Rightarrow> list_all2 (\<lambda>p w. p w) (map has_type ts) vs | _ \<Rightarrow> False)"

primrec type_ok :: "rlp_type \<Rightarrow> bool" where
  "type_ok (TUint w) = (w \<in> {8, 16, 32, 64})"
| "type_ok TBool = True"
| "type_ok TBytes = True"
| "type_ok (TArray n) = True"
| "type_ok TBig = True"
| "type_ok (TSlice t) = type_ok t"
| "type_ok (TStruct ts) = list_all id (map type_ok ts)"

section \<open>Headers\<close>

lemma be_min_len_le_8: "k < 2 ^ 64 \<Longrightarrow> length (be_min k) \<le> 8"
proof (cases "k = 0")
  case False
  assume "k < 2 ^ 64"
  then have "putint (of_nat k) = be_min k"
    using putint_be_min [of "of_nat k"] False by (simp add: unat_of_nat word_unat_eq_iff)
  then show ?thesis using length_putint [of "of_nat k"] by simp
qed simp

lemma length_be_min_pos: "0 < k \<Longrightarrow> 0 < length (be_min k)"
  by simp

lemma readUint_be_min:
  assumes "56 \<le> k"
  shows "readUint (length (be_min k)) (be_min k @ r) = Some (k, r)"
proof -
  obtain b bs where b: "be_min k = b # bs" using assms by (cases "be_min k") auto
  have "b \<noteq> 0" using hd_be_min [of k] assms b by auto
  moreover have "unat b = k" if "bs = []"
    using be_nat_be_min [of k] b that by (simp add: be_nat_def)
  ultimately show ?thesis
    using be_nat_be_min [of k] unfolding readUint_def b by (cases bs) auto
qed

lemma readKind_tag:
  assumes "m < 256"
  shows "readKind (of_nat m # r) =
    (if m < 0x80 then Some (KByte, of_nat m, 0, r)
     else if m < 0xB8 then Some (KString, 0, m - 0x80, r)
     else if m < 0xC0 then
       (case readUint (m - 0xB7) r of None \<Rightarrow> None
        | Some (sz, r') \<Rightarrow> if sz < 56 then None else Some (KString, 0, sz, r'))
     else if m < 0xF8 then Some (KList, 0, m - 0xC0, r)
     else
       (case readUint (m - 0xF7) r of None \<Rightarrow> None
        | Some (sz, r') \<Rightarrow> if sz < 56 then None else Some (KList, 0, sz, r')))"
proof -
  have u: "unat (of_nat m :: byte) = m" using assms by (simp add: unat_of_nat)
  show ?thesis by (simp add: readKind_def word_less_nat_alt unat_sub_if' u)
qed

lemma readKind_enc_len:
  assumes "n < 2 ^ 64"
  shows "readKind (enc_len 0x80 n @ r) = Some (KString, 0, n, r)"
    and "readKind (enc_len 0xC0 n @ r) = Some (KList, 0, n, r)"
proof -
  let ?l = "length (be_min n)"
  have l: "?l \<le> 8" "\<not> n < 56 \<Longrightarrow> 0 < ?l" using be_min_len_le_8 [OF assms] by auto
  show "readKind (enc_len 0x80 n @ r) = Some (KString, 0, n, r)"
    using l by (cases "n < 56") (simp_all add: readKind_tag enc_len_def readUint_be_min del: of_nat_add)
  show "readKind (enc_len 0xC0 n @ r) = Some (KList, 0, n, r)"
    using l by (cases "n < 56") (simp_all add: readKind_tag enc_len_def readUint_be_min del: of_nat_add)
qed

lemma Kind_enc_len:
  assumes "n < 2 ^ 64" and "n \<le> length r"
  shows "Kind (enc_len 0x80 n @ r) = Some (KString, 0, n, r)"
    and "Kind (enc_len 0xC0 n @ r) = Some (KList, 0, n, r)"
  using assms by (simp_all add: Kind_def readKind_enc_len)

text \<open>Conversely every accepted header is the one the encoder writes.\<close>

lemma readUint_canon:
  assumes "readUint l bs = Some (n, r)" and "56 \<le> n" and "l \<le> 8"
  shows "bs = be_min n @ r" and "l = length (be_min n)" and "n < 2 ^ 64"
proof -
  have l: "0 < l" "l \<le> length bs" using assms by (auto simp: readUint_def split: if_splits)
  have n: "n = be_nat (take l bs)" and r: "r = drop l bs" and h: "hd bs \<noteq> 0"
    using assms l by (cases bs; auto simp: readUint_def be_nat_def split: if_splits)+
  have "be_min n = take l bs"
    unfolding n using h l by (intro be_min_be_nat) (cases bs; cases l; simp)
  then show "bs = be_min n @ r" "l = length (be_min n)" using r l by simp_all
  have "n < 256 ^ l" using be_nat_less [of "take l bs"] l by (simp add: n min_absorb2)
  also have "(256::nat) ^ l \<le> 256 ^ 8" using assms(3) by (intro power_increasing) simp_all
  finally show "n < 2 ^ 64" by simp
qed

lemma readKind_canon:
  assumes "readKind bs = Some (k, bv, n, r)"
  shows "n < 2 ^ 64 \<and> (case k of
      KByte \<Rightarrow> bs = bv # r \<and> bv \<le> 0x7F \<and> n = 0
    | KString \<Rightarrow> bs = enc_len 0x80 n @ r
    | KList \<Rightarrow> bs = enc_len 0xC0 n @ r)"
proof -
  obtain b r0 where bs: "bs = b # r0" using assms by (cases bs) (auto simp: readKind_def)
  define m where "m = unat b"
  have b: "b = of_nat m" and m: "m < 256" by (simp_all add: m_def)
  have tag: "of_nat (t + (m - t)) = b" if "t \<le> m" for t using that b by simp
  consider "m < 0x80" | "0x80 \<le> m" "m < 0xB8" | "0xB8 \<le> m" "m < 0xC0"
    | "0xC0 \<le> m" "m < 0xF8" | "0xF8 \<le> m" by linarith
  then show ?thesis
  proof cases
    case 1
    then show ?thesis using assms m unfolding bs b
      by (auto simp: readKind_tag word_le_nat_alt unat_of_nat)
  next
    case 2
    then show ?thesis using assms m tag [of "0x80"] unfolding bs b
      by (auto simp: readKind_tag enc_len_def simp del: of_nat_add)
  next
    case 3
    then have ru: "readUint (m - 0xB7) r0 = Some (n, r)" "56 \<le> n" "k = KString"
      using assms m unfolding bs b by (auto simp: readKind_tag split: option.splits if_splits)
    have c: "r0 = be_min n @ r" "m = 0x80 + 55 + length (be_min n)" "n < 2 ^ 64"
      using readUint_canon [OF ru(1,2)] 3 by auto
    show ?thesis using c(1,3) ru(2,3) unfolding bs b c(2) by (simp add: enc_len_def)
  next
    case 4
    then show ?thesis using assms m tag [of "0xC0"] unfolding bs b
      by (auto simp: readKind_tag enc_len_def simp del: of_nat_add)
  next
    case 5
    then have ru: "readUint (m - 0xF7) r0 = Some (n, r)" "56 \<le> n" "k = KList"
      using assms m unfolding bs b by (auto simp: readKind_tag split: option.splits if_splits)
    have c: "r0 = be_min n @ r" "m = 0xC0 + 55 + length (be_min n)" "n < 2 ^ 64"
      using readUint_canon [OF ru(1,2)] 5 m by auto
    show ?thesis using c(1,3) ru(2,3) unfolding bs b c(2) by (simp add: enc_len_def)
  qed
qed


section \<open>Strings\<close>

lemma Kind_str:
  assumes "length b < 2 ^ 64"
  shows "Kind (rlp_encode (RStr b) @ r) =
    (if length b = 1 \<and> b ! 0 \<le> 0x7F then Some (KByte, b ! 0, 0, r)
     else Some (KString, 0, length b, b @ r))"
proof (cases "length b = 1 \<and> b ! 0 \<le> 0x7F")
  case True
  then obtain x where x: "b = [x]" "x \<le> 0x7F" by (cases b) auto
  then have "x < 0x80" by (simp add: word_le_nat_alt word_less_nat_alt)
  with x show ?thesis by (simp add: Kind_def readKind_def)
next
  case False
  then have "rlp_encode (RStr b) @ r = enc_len 0x80 (length b) @ b @ r" by auto
  then show ?thesis using False Kind_enc_len(1) [OF assms, of "b @ r"] by auto
qed

lemma Kind_canon:
  assumes "Kind bs = Some (k, bv, n, r)"
  shows "n < 2 ^ 64" and "n \<le> length r"
    and "k = KByte \<Longrightarrow> bs = bv # r \<and> bv \<le> 0x7F"
    and "k = KString \<Longrightarrow> bs = enc_len 0x80 n @ take n r @ drop n r"
    and "k = KList \<Longrightarrow> bs = enc_len 0xC0 n @ take n r @ drop n r"
proof -
  have "readKind bs = Some (k, bv, n, r)" and "n \<le> length r"
    using assms by (auto simp: Kind_def split: option.splits if_splits)
  then show "n < 2 ^ 64" "n \<le> length r" "k = KByte \<Longrightarrow> bs = bv # r \<and> bv \<le> 0x7F"
    "k = KString \<Longrightarrow> bs = enc_len 0x80 n @ take n r @ drop n r"
    "k = KList \<Longrightarrow> bs = enc_len 0xC0 n @ take n r @ drop n r"
    using readKind_canon [of bs k bv n r] by auto
qed

lemma byte_le_7F: "(x :: byte) \<le> 0x7F \<longleftrightarrow> x < 128"
  by (auto simp: word_le_nat_alt word_less_nat_alt)

text \<open>\<open>Bytes\<close> accepts exactly the encodings of byte strings.\<close>

lemma stream_Bytes_iff:
  "stream_Bytes bs = Some (b, r) \<longleftrightarrow> bs = rlp_encode (RStr b) @ r \<and> length b < 2 ^ 64"
proof
  assume a: "stream_Bytes bs = Some (b, r)"
  then obtain k bv n r' where k: "Kind bs = Some (k, bv, n, r')"
    by (auto simp: stream_Bytes_def split: option.splits)
  note c = Kind_canon [OF k]
  show "bs = rlp_encode (RStr b) @ r \<and> length b < 2 ^ 64"
  proof (cases k)
    case KByte
    then have "b = [bv]" "r = r'" using a by (simp_all add: stream_Bytes_def k)
    then show ?thesis using c(3) [OF KByte] by simp
  next
    case KString
    then have b: "b = take n r'" "r = drop n r'" "\<not> (n = 1 \<and> hd r' < 128)"
      using a by (auto simp: stream_Bytes_def k split: if_splits)
    then have "\<not> (length b = 1 \<and> b ! 0 \<le> 0x7F)"
      using c(2) by (cases r') (auto simp: byte_le_7F min_def take_Cons')
    then show ?thesis using c(1,2) c(4) [OF KString] b by (auto simp: min_absorb2)
  next
    case KList
    then show ?thesis using a by (simp add: stream_Bytes_def k)
  qed
next
  assume a: "bs = rlp_encode (RStr b) @ r \<and> length b < 2 ^ 64"
  then have "length b = 1 \<Longrightarrow> b = [b ! 0]" by (cases b) auto
  moreover have "length b = 1 \<Longrightarrow> hd (b @ r) = b ! 0" by (cases b) auto
  ultimately show "stream_Bytes bs = Some (b, r)"
    using a by (auto simp: stream_Bytes_def Kind_str byte_le_7F simp del: rlp_encode.simps)
qed

text \<open>Every decoder of a string kind reads the string \<open>Bytes\<close> reads and checks it.\<close>

lemma decodeByteArray_eq:
  "decodeByteArray n bs = (case stream_Bytes bs of None \<Rightarrow> None
     | Some (b, r) \<Rightarrow> if length b = n then Some (b, r) else None)"
  using Kind_canon(2) [of bs]
  by (auto simp: decodeByteArray_def stream_Bytes_def min_absorb2
    split: option.splits rlp_kind.splits prod.splits)

lemma decodeByteArray_iff:
  "decodeByteArray n bs = Some (b, r) \<longleftrightarrow> stream_Bytes bs = Some (b, r) \<and> length b = n"
  by (auto simp: decodeByteArray_eq split: option.splits)

lemma stream_decodeBigInt_eq:
  "stream_decodeBigInt bs = (case stream_Bytes bs of None \<Rightarrow> None
     | Some (b, r) \<Rightarrow> if b \<noteq> [] \<and> hd b = 0 then None else Some (be_nat b, r))"
proof (cases "Kind bs")
  case None
  then show ?thesis by (simp add: stream_decodeBigInt_def stream_Bytes_def)
next
  case (Some a)
  obtain k bv n r where a: "a = (k, bv, n, r)" by (cases a) auto
  have "n \<le> length r" using Kind_canon(2) [of bs] Some a by simp
  then show ?thesis
    by (cases k; cases r; cases n) (auto simp: stream_decodeBigInt_def stream_Bytes_def Some a)
qed

lemma be_nat_single: "be_nat [b] = unat b"
  by (simp add: be_nat_def)

lemma be_nat_ge: "xs \<noteq> [] \<Longrightarrow> hd xs \<noteq> 0 \<Longrightarrow> 256 ^ (length xs - 1) \<le> be_nat xs"
  by (cases xs) (simp_all add: be_nat_Cons unat_gt_0 trans_le_add1 unat_eq_zero Suc_le_eq)

lemma stream_uint_eq:
  assumes "8 \<le> w"
  shows "stream_uint w bs = (case stream_Bytes bs of None \<Rightarrow> None
     | Some (b, r) \<Rightarrow> if length b > w div 8 \<or> b \<noteq> [] \<and> hd b = 0 then None
        else Some (of_nat (be_nat b), r))"
proof (cases "Kind bs")
  case None
  then show ?thesis by (simp add: stream_uint_def stream_Bytes_def)
next
  case (Some a)
  obtain k bv n r where a: "a = (k, bv, n, r)" by (cases a) auto
  have n: "n \<le> length r" using Kind_canon(2) [of bs] Some a by simp
  have w: "1 \<le> w div 8" using assms by simp
  show ?thesis
  proof (cases k)
    case KByte
    then show ?thesis using w by (simp add: stream_uint_def stream_Bytes_def Some a be_nat_single)
  next
    case KString
    consider "n = 0" | "n = 1" | "1 < n" by linarith
    then show ?thesis
    proof cases
      case 1
      with KString show ?thesis
        by (simp add: stream_uint_def stream_Bytes_def readUint_def Some a)
    next
      case 2
      with n obtain x r' where "r = x # r'" by (cases r) auto
      with 2 KString w show ?thesis
        by (auto simp: stream_uint_def stream_Bytes_def readUint_def Some a be_nat_single word_less_nat_alt)
    next
      case 3
      with n obtain x r' where r: "r = x # r'" "take n r \<noteq> []" "hd (take n r) = x"
        by (cases r; cases n) auto
      have "256 ^ 1 \<le> (256::nat) ^ (n - 1)" using 3 by (intro power_increasing) auto
      then have "hd (take n r) \<noteq> 0 \<Longrightarrow> 128 \<le> be_nat (take n r)"
        using be_nat_ge [OF r(2)] n by (simp add: min_absorb2)
      with 3 KString n r show ?thesis
        by (cases "x = 0") (auto simp: stream_uint_def stream_Bytes_def readUint_def Some a)
    qed
  next
    case KList
    then show ?thesis by (simp add: stream_uint_def stream_Bytes_def Some a)
  qed
qed

lemma stream_decodeBigInt_iff:
  "stream_decodeBigInt bs = Some (n, r) \<longleftrightarrow>
     bs = rlp_encode (RStr (be_min n)) @ r \<and> length (be_min n) < 2 ^ 64"
proof
  assume "stream_decodeBigInt bs = Some (n, r)"
  then obtain b where "stream_Bytes bs = Some (b, r)" "b = [] \<or> hd b \<noteq> 0" "n = be_nat b"
    by (auto simp: stream_decodeBigInt_eq split: option.splits if_splits)
  then show "bs = rlp_encode (RStr (be_min n)) @ r \<and> length (be_min n) < 2 ^ 64"
    using be_min_be_nat [of b] by (simp add: stream_Bytes_iff del: rlp_encode.simps)
next
  assume "bs = rlp_encode (RStr (be_min n)) @ r \<and> length (be_min n) < 2 ^ 64"
  then have "stream_Bytes bs = Some (be_min n, r)" by (simp only: stream_Bytes_iff simp_thms)
  then show "stream_decodeBigInt bs = Some (n, r)"
    using hd_be_min [of n] by (cases "n = 0") (simp_all add: stream_decodeBigInt_eq)
qed

lemma be_min_length_le: "k < 256 ^ l \<Longrightarrow> length (be_min k) \<le> l"
proof (cases "k = 0")
  case False
  assume k: "k < 256 ^ l"
  have "256 ^ (length (be_min k) - 1) \<le> k"
    using be_nat_ge [of "be_min k"] hd_be_min [of k] False by simp
  from this k have "(256::nat) ^ (length (be_min k) - 1) < 256 ^ l" by (rule le_less_trans)
  then have "length (be_min k) - 1 < l" by (rule power_less_imp_less_exp [rotated]) simp
  then show ?thesis by simp
qed simp

lemma stream_uint_iff:
  assumes w: "w \<in> {8, 16, 32, 64}"
  shows "stream_uint w bs = Some (i, r) \<longleftrightarrow>
     bs = rlp_encode (RStr (be_min (unat i))) @ r \<and> unat i < 2 ^ w"
proof
  assume "stream_uint w bs = Some (i, r)"
  then obtain b where b: "stream_Bytes bs = Some (b, r)" "length b \<le> w div 8"
      "b = [] \<or> hd b \<noteq> 0" "i = of_nat (be_nat b)"
    using w by (auto simp: stream_uint_eq split: option.splits if_splits)
  have "be_nat b < 256 ^ length b" by (rule be_nat_less)
  also have "(256::nat) ^ length b \<le> 256 ^ (w div 8)" using b(2) by (intro power_increasing) simp_all
  also have "(256::nat) ^ (w div 8) = 2 ^ w" using w by auto
  finally have lt: "be_nat b < 2 ^ w" .
  also have "(2::nat) ^ w \<le> 2 ^ 64" using w by auto
  finally have "unat i = be_nat b" using b(4) by (simp add: unat_of_nat)
  then show "bs = rlp_encode (RStr (be_min (unat i))) @ r \<and> unat i < 2 ^ w"
    using b(1,3) lt be_min_be_nat [of b] by (simp add: stream_Bytes_iff del: rlp_encode.simps)
next
  assume a: "bs = rlp_encode (RStr (be_min (unat i))) @ r \<and> unat i < 2 ^ w"
  moreover have "(2::nat) ^ w = 256 ^ (w div 8)" using w by auto
  ultimately have "length (be_min (unat i)) \<le> w div 8" by (intro be_min_length_le) simp
  moreover from this have "stream_Bytes bs = Some (be_min (unat i), r)"
    using a w by (auto simp: stream_Bytes_iff simp del: rlp_encode.simps)
  ultimately show "stream_uint w bs = Some (i, r)"
    using w hd_be_min [of "unat i"] by (auto simp: stream_uint_eq)
qed

lemma length_be_min_256: "k < 2 ^ 256 \<Longrightarrow> length (be_min k) \<le> 32"
  using be_min_length_le [of k 32] by simp


section \<open>Lists and whole values\<close>

lemma stream_List_iff:
  "stream_List bs = Some (c, r) \<longleftrightarrow> bs = enc_len 0xC0 (length c) @ c @ r \<and> length c < 2 ^ 64"
proof
  assume a: "stream_List bs = Some (c, r)"
  then obtain bv n r' where k: "Kind bs = Some (KList, bv, n, r')"
      and c: "c = take n r'" "r = drop n r'"
    by (auto simp: stream_List_def split: option.splits if_splits)
  show "bs = enc_len 0xC0 (length c) @ c @ r \<and> length c < 2 ^ 64"
    using Kind_canon [OF k] c by (simp add: min_absorb2)
next
  assume "bs = enc_len 0xC0 (length c) @ c @ r \<and> length c < 2 ^ 64"
  then show "stream_List bs = Some (c, r)"
    using Kind_enc_len(2) [of "length c" "c @ r"] by (simp add: stream_List_def)
qed

fun payload_len :: "rlp_item \<Rightarrow> nat" where
  "payload_len (RStr b) = length b"
| "payload_len (RList is) = length (concat (map rlp_encode is))"

text \<open>A value whose encoding fits 64-bit sizes.\<close>

abbreviation fits :: "rlp_val \<Rightarrow> bool" where
  "fits v \<equiv> payload_len (item_of v) < 2 ^ 64"

lemma payload_len_le: "payload_len i \<le> length (rlp_encode i)"
  by (cases i) (auto simp: Let_def)

lemma rlp_encode_ne [simp]: "rlp_encode i \<noteq> []"
  by (cases i) (auto simp: Let_def enc_len_def)

lemma fits_mem: "length (concat (map rlp_bytes vs)) < 2 ^ 64 \<Longrightarrow> v \<in> set vs \<Longrightarrow> fits v"
  using length_rlp_bytes_mem [of v vs] payload_len_le [of "item_of v"] by linarith

lemma decodeSliceElems_iff:
  assumes dec: "\<And>bs v r. dec bs = Some (v, r) \<longleftrightarrow> P v \<and> bs = rlp_bytes v @ r"
    and "length bs \<le> n"
  shows "decodeSliceElems dec n bs = Some vs \<longleftrightarrow> list_all P vs \<and> bs = concat (map rlp_bytes vs)"
  using assms(2)
proof (induction n arbitrary: bs vs)
  case 0
  then show ?case by (cases vs) auto
next
  case (Suc n)
  show ?case
  proof (cases "bs = [] \<or> vs = []")
    case True
    then show ?thesis by (cases bs; cases vs) (auto split: option.splits)
  next
    case False
    then obtain b bs' v vs' where bs: "bs = b # bs'" and vs: "vs = v # vs'"
      by (meson neq_Nil_conv)
    have "length r \<le> n" if "bs = rlp_bytes v @ r" for r
      using Suc.prems that rlp_encode_ne [of "item_of v"] by (cases "rlp_bytes v") auto
    then have IH: "decodeSliceElems dec n r = Some vs' \<longleftrightarrow> list_all P vs' \<and> r = concat (map rlp_bytes vs')"
      if "bs = rlp_bytes v @ r" for r using that by (intro Suc.IH) simp
    have "decodeSliceElems dec (Suc n) bs = Some vs
        \<longleftrightarrow> (\<exists>r. dec bs = Some (v, r) \<and> decodeSliceElems dec n r = Some vs')"
      by (auto simp: bs vs split: option.splits)
    also have "\<dots> \<longleftrightarrow> (\<exists>r. P v \<and> bs = rlp_bytes v @ r \<and> list_all P vs' \<and> r = concat (map rlp_bytes vs'))"
      using IH by (auto simp: dec)
    finally show ?thesis by (auto simp: vs)
  qed
qed

lemma decodeFields_iff:
  assumes "list_all2 (\<lambda>dec P. \<forall>bs v r. dec bs = Some (v, r) \<longleftrightarrow> P v \<and> bs = rlp_bytes v @ r) decs Ps"
  shows "decodeFields decs bs = Some vs \<longleftrightarrow>
    list_all2 (\<lambda>P v. P v) Ps vs \<and> bs = concat (map rlp_bytes vs)"
  using assms
proof (induction decs Ps arbitrary: bs vs rule: list_all2_induct)
  case Nil
  then show ?case by (cases vs) auto
next
  case (Cons dec decs P Ps)
  show ?case
  proof (cases vs)
    case Nil
    then show ?thesis by (auto split: option.splits)
  next
    case (Cons v vs')
    have "decodeFields (dec # decs) bs = Some vs
        \<longleftrightarrow> (\<exists>r. dec bs = Some (v, r) \<and> decodeFields decs r = Some vs')"
      by (auto simp: \<open>vs = v # vs'\<close> split: option.splits)
    then show ?thesis using Cons.IH Cons.hyps by (auto simp: \<open>vs = v # vs'\<close>)
  qed
qed

lemma length_be_min_u64: "length (be_min (unat (i :: u64))) < 18446744073709551616"
  using be_min_len_le_8 [of "unat i"] unsigned_less [of i, where ?'a = nat] by simp

lemma stream_Bool_iff:
  "stream_Bool bs = Some (b, r) \<longleftrightarrow> bs = rlp_encode (RStr (if b then [1] else [])) @ r"
proof -
  have one: "be_min (Suc 0) = [1]" by (simp add: be_min.simps)
  have "stream_Bool bs = Some (b, r) \<longleftrightarrow> stream_uint 8 bs = Some (if b then 1 else 0, r)"
    by (auto simp: stream_Bool_def split: option.splits)
  then show ?thesis by (simp add: stream_uint_iff one del: rlp_encode.simps)
qed

text \<open>
  The decoder of a type accepts exactly the encodings of the values of that type: decoding
  inverts encoding, and no second byte string decodes to the same value.
\<close>

lemma decode_val_iff:
  "type_ok t \<Longrightarrow>
     decode_val t bs = Some (v, r) \<longleftrightarrow> (has_type t v \<and> fits v) \<and> bs = rlp_bytes v @ r"
proof (induction t arbitrary: bs v r)
  case (TUint w)
  then show ?case
    by (cases v) (auto simp: stream_uint_iff length_be_min_u64 simp del: rlp_encode.simps)
next
  case TBool
  then show ?case
    by (cases v) (auto simp: stream_Bool_iff simp del: rlp_encode.simps)
next
  case TBytes
  then show ?case
    by (cases v) (auto simp: stream_Bytes_iff simp del: rlp_encode.simps)
next
  case (TArray n)
  then show ?case
    by (cases v) (auto simp: decodeByteArray_iff stream_Bytes_iff simp del: rlp_encode.simps)
next
  case TBig
  then show ?case
    by (cases v) (auto simp: stream_decodeBigInt_iff simp del: rlp_encode.simps)
next
  case (TSlice t)
  have dec: "decode_val t bs = Some (v, r) \<longleftrightarrow> (has_type t v \<and> fits v) \<and> bs = rlp_bytes v @ r" for bs v r
    using TSlice by simp
  have "decode_val (TSlice t) bs = Some (v, r) \<longleftrightarrow> (\<exists>c vs. v = VSlice vs \<and> stream_List bs = Some (c, r)
      \<and> decodeSliceElems (decode_val t) (length c) c = Some vs)"
    by (auto split: option.splits)
  also have "\<dots> \<longleftrightarrow> (\<exists>c vs. v = VSlice vs \<and> (bs = enc_len 0xC0 (length c) @ c @ r \<and> length c < 2 ^ 64)
      \<and> list_all (\<lambda>v. has_type t v \<and> fits v) vs \<and> c = concat (map rlp_bytes vs))"
    by (simp add: stream_List_iff decodeSliceElems_iff [OF dec])
  also have "\<dots> \<longleftrightarrow> (has_type (TSlice t) v \<and> fits v) \<and> bs = rlp_bytes v @ r"
    using fits_mem by (cases v) (auto simp: list_all_iff Let_def)
  finally show ?case .
next
  case (TStruct ts)
  let ?P = "\<lambda>t v. has_type t v \<and> fits v"
  have dec: "list_all2 (\<lambda>dec P. \<forall>bs v r. dec bs = Some (v, r) \<longleftrightarrow> P v \<and> bs = rlp_bytes v @ r)
      (map decode_val ts) (map ?P ts)"
    using TStruct by (auto simp: list_all2_conv_all_nth list_all_iff)
  have "decode_val (TStruct ts) bs = Some (v, r) \<longleftrightarrow> (\<exists>c vs. v = VStruct vs \<and> stream_List bs = Some (c, r)
      \<and> decodeFields (map decode_val ts) c = Some vs)"
    by (auto split: option.splits)
  also have "\<dots> \<longleftrightarrow> (\<exists>c vs. v = VStruct vs \<and> (bs = enc_len 0xC0 (length c) @ c @ r \<and> length c < 2 ^ 64)
      \<and> list_all2 ?P ts vs \<and> c = concat (map rlp_bytes vs))"
    by (simp add: stream_List_iff decodeFields_iff [OF dec] list_all2_map1)
  also have "\<dots> \<longleftrightarrow> (has_type (TStruct ts) v \<and> fits v) \<and> bs = rlp_bytes v @ r"
    using fits_mem by (cases v) (auto simp: list_all2_conv_all_nth Let_def)
  finally show ?case .
qed

lemma DecodeBytes_iff:
  "type_ok t \<Longrightarrow> DecodeBytes t b = Some v \<longleftrightarrow> has_type t v \<and> fits v \<and> b = rlp_bytes v"
  using decode_val_iff [of t b v "[]"]
  by (auto simp: DecodeBytes_def split: option.splits if_splits)

lemma fits_of_length: "length (rlp_bytes v) < 2 ^ 64 \<Longrightarrow> fits v"
  using payload_len_le [of "item_of v"] by linarith

text \<open>Encoding then decoding gives the value back.\<close>

lemma DecodeBytes_EncodeToBytes:
  assumes "type_ok t" and "has_type t v" and "length (rlp_bytes v) < 2 ^ 64"
  shows "DecodeBytes t (EncodeToBytes v) = Some v"
  using assms fits_of_length [OF assms(3)] by (simp add: DecodeBytes_iff EncodeToBytes_eq)

text \<open>Two values of a type with the same encoding are equal.\<close>

lemma rlp_bytes_inject:
  assumes "type_ok t" and "has_type t v" and "has_type t w" and "fits v" and "fits w"
  shows "rlp_bytes v = rlp_bytes w \<longleftrightarrow> v = w"
proof
  assume "rlp_bytes v = rlp_bytes w"
  with assms have "DecodeBytes t (rlp_bytes v) = Some v" "DecodeBytes t (rlp_bytes v) = Some w"
    by (simp_all add: DecodeBytes_iff)
  then show "v = w" by simp
qed simp

text \<open>Every successful decoding consumes input, so the element loop ends.\<close>

lemma decode_consumes:
  "type_ok t \<Longrightarrow> decode_val t bs = Some (v, r) \<Longrightarrow> length r < length bs"
  using rlp_encode_ne [of "item_of v"] by (simp add: decode_val_iff)


section \<open>Size bounds\<close>

text \<open>Upper bounds on encodings, to show that the structures of the protocol fit.\<close>

lemma length_enc_len_le: "n < 2 ^ 64 \<Longrightarrow> length (enc_len off n) \<le> 9"
  using be_min_len_le_8 [of n] by (simp add: enc_len_def)

lemma length_rlp_uint: "length (rlp_bytes (VUint i)) \<le> 9"
proof -
  have "length (be_min (unat i)) \<le> 8"
    using be_min_len_le_8 [of "unat i"] unsigned_less [of i, where ?'a = nat] by simp
  then show ?thesis by (simp add: enc_len_def)
qed

lemma length_rlp_bool: "length (rlp_bytes (VBool b)) \<le> 1"
  by (simp add: enc_len_def)

lemma length_rlp_str: "length b < 2 ^ 64 \<Longrightarrow> length (rlp_encode (RStr b)) \<le> 9 + length b"
  using length_enc_len_le [of "length b" "0x80"] by simp

lemma length_rlp_list:
  assumes "length (concat (map rlp_bytes vs)) \<le> n" and "n < 2 ^ 64"
  shows "length (rlp_encode (RList (map item_of vs))) \<le> 9 + n"
  using length_enc_len_le [of "length (concat (map rlp_bytes vs))" "0xC0"] assms by (simp add: Let_def)

lemma length_concat_le:
  assumes "\<And>x. x \<in> set xs \<Longrightarrow> length (f x) \<le> k"
  shows "length (concat (map f xs)) \<le> k * length xs"
  using assms
proof (induction xs)
  case (Cons x xs)
  have "length (f x) \<le> k" "length (concat (map f xs)) \<le> k * length xs" using Cons by auto
  then show ?case by simp
qed simp

section \<open>Items\<close>

text \<open>Without any type, an encoding is never a prefix of another: items are recovered from bytes.\<close>

lemma Kind_list:
  "length (concat (map rlp_encode is)) < 2 ^ 64 \<Longrightarrow>
     Kind (rlp_encode (RList is) @ r)
       = Some (KList, 0, length (concat (map rlp_encode is)), concat (map rlp_encode is) @ r)"
  using Kind_enc_len(2) [of "length (concat (map rlp_encode is))" "concat (map rlp_encode is) @ r"]
  by (simp add: Let_def)

lemma payload_len_mem:
  assumes "payload_len (RList is) < 2 ^ 64" and "i \<in> set is"
  shows "payload_len i < 2 ^ 64"
proof -
  have "length (rlp_encode i) \<le> length (concat (map rlp_encode is))"
    using assms(2) by (induction "is") auto
  then show ?thesis using assms(1) payload_len_le [of i] by simp
qed

lemma rlp_encode_concat_inject:
  assumes "\<And>x y r s. x \<in> set is \<Longrightarrow> payload_len x < 2 ^ 64 \<Longrightarrow> payload_len y < 2 ^ 64
      \<Longrightarrow> rlp_encode x @ r = rlp_encode y @ s \<Longrightarrow> x = y \<and> r = s"
    and "\<forall>x \<in> set is. payload_len x < 2 ^ 64" and "\<forall>x \<in> set js. payload_len x < 2 ^ 64"
    and "concat (map rlp_encode is) = concat (map rlp_encode js)"
  shows "is = js"
  using assms
proof (induction "is" arbitrary: js)
  case Nil
  then show ?case by (cases js) simp_all
next
  case (Cons x xs)
  then obtain y ys where js: "js = y # ys" by (cases js) auto
  have "x = y \<and> concat (map rlp_encode xs) = concat (map rlp_encode ys)"
    using Cons.prems(2,3,4) js by (intro Cons.prems(1)) simp_all
  moreover have "xs = ys" if "concat (map rlp_encode xs) = concat (map rlp_encode ys)"
    using Cons.prems(2,3) js that by (intro Cons.IH Cons.prems(1)) simp_all
  ultimately show ?case using js by simp
qed

lemma rlp_encode_prefix_free:
  "payload_len i < 2 ^ 64 \<Longrightarrow> payload_len j < 2 ^ 64 \<Longrightarrow> rlp_encode i @ r = rlp_encode j @ s
     \<Longrightarrow> i = j \<and> r = s"
proof (induction i arbitrary: j r s)
  case (RStr b)
  have b: "stream_Bytes (rlp_encode (RStr b) @ r) = Some (b, r)"
    using RStr.prems(1) by (simp only: stream_Bytes_iff payload_len.simps simp_thms)
  show ?case
  proof (cases j)
    case j: (RStr c)
    have "stream_Bytes (rlp_encode (RStr c) @ s) = Some (c, s)"
      using RStr.prems(2) j by (simp only: stream_Bytes_iff payload_len.simps simp_thms)
    then have "Some (b, r) = Some (c, s)" using b RStr.prems(3) j by metis
    then show ?thesis using j by simp
  next
    case j: (RList js)
    then have "Kind (rlp_encode j @ s) = Some (KList, 0, payload_len j, concat (map rlp_encode js) @ s)"
      using Kind_list [of js s] RStr.prems(2) by (simp only: payload_len.simps)
    then have "stream_Bytes (rlp_encode j @ s) = None" by (simp add: stream_Bytes_def)
    then show ?thesis using b RStr.prems(3) by (metis option.distinct(1))
  qed
next
  case (RList "is")
  let ?c = "concat (map rlp_encode is)"
  have K: "Kind (rlp_encode (RList is) @ r) = Some (KList, 0, length ?c, ?c @ r)"
    using Kind_list [of "is" r] RList.prems(1) by (simp only: payload_len.simps)
  show ?case
  proof (cases j)
    case j: (RStr c)
    have "stream_Bytes (rlp_encode j @ s) = Some (c, s)"
      using RList.prems(2) j by (simp only: stream_Bytes_iff payload_len.simps simp_thms)
    moreover have "stream_Bytes (rlp_encode (RList is) @ r) = None"
      using K by (simp add: stream_Bytes_def)
    ultimately show ?thesis using RList.prems(3) by (metis option.distinct(1))
  next
    case j: (RList js)
    let ?d = "concat (map rlp_encode js)"
    have "Kind (rlp_encode (RList js) @ s) = Some (KList, 0, length ?d, ?d @ s)"
      using Kind_list [of js s] RList.prems(2) j by (simp only: payload_len.simps)
    then have "Some (KList, 0 :: byte, length ?c, ?c @ r) = Some (KList, 0, length ?d, ?d @ s)"
      using K RList.prems(3) j by metis
    then have cd: "?c = ?d" "r = s" by auto
    have "\<forall>x \<in> set is. payload_len x < 2 ^ 64" "\<forall>x \<in> set js. payload_len x < 2 ^ 64"
      using RList.prems(1,2) j payload_len_mem by blast+
    then have "is = js" using cd(1) RList.IH by (intro rlp_encode_concat_inject)
    then show ?thesis using cd j by simp
  qed
qed

lemma rlp_encode_inject:
  "payload_len i < 2 ^ 64 \<Longrightarrow> payload_len j < 2 ^ 64 \<Longrightarrow> rlp_encode i = rlp_encode j \<longleftrightarrow> i = j"
  using rlp_encode_prefix_free [of i j "[]" "[]"] by auto

section \<open>Sizes and payloads\<close>

text \<open>An upper bound of the encoded size, in which every header counts for its nine bytes at most.\<close>

fun vsize :: "rlp_val \<Rightarrow> nat" where
  "vsize (VUint i) = 9"
| "vsize (VBool b) = 1"
| "vsize (VBytes b) = 9 + length b"
| "vsize (VArray b) = 9 + length b"
| "vsize (VBig k) = 9 + length (be_min k)"
| "vsize (VSlice vs) = 9 + sum_list (map vsize vs)"
| "vsize (VStruct vs) = 9 + sum_list (map vsize vs)"

lemma length_rlp_list_le:
  assumes "9 + sum_list (map vsize vs) < 2 ^ 64"
    and "\<And>v. v \<in> set vs \<Longrightarrow> vsize v < 2 ^ 64 \<Longrightarrow> length (rlp_bytes v) \<le> vsize v"
  shows "length (rlp_encode (RList (map item_of vs))) \<le> 9 + sum_list (map vsize vs)"
proof -
  have "vsize v < 2 ^ 64" if "v \<in> set vs" for v
    using member_le_sum_list [of "vsize v" "map vsize vs"] that assms(1) by auto
  then have "length (concat (map rlp_bytes vs)) \<le> sum_list (map vsize vs)"
    unfolding length_concat map_map comp_def using assms(2) by (intro sum_list_mono) blast
  then show ?thesis by (rule length_rlp_list) (use assms(1) in linarith)
qed

lemma length_rlp_le_vsize: "vsize v < 2 ^ 64 \<Longrightarrow> length (rlp_bytes v) \<le> vsize v"
proof (induction v)
  case (VUint i)
  then show ?case using length_rlp_uint [of i] by simp
next
  case (VBool b)
  then show ?case using length_rlp_bool [of b] by simp
next
  case (VSlice vs)
  then show ?case using length_rlp_list_le [of vs] by (simp del: rlp_encode.simps)
next
  case (VStruct vs)
  then show ?case using length_rlp_list_le [of vs] by (simp del: rlp_encode.simps)
next
  case (VBytes b)
  then show ?case using length_rlp_str [of b] by (simp del: rlp_encode.simps)
next
  case (VArray b)
  then show ?case using length_rlp_str [of b] by (simp del: rlp_encode.simps)
next
  case (VBig k)
  then show ?case using length_rlp_str [of "be_min k"] by (simp del: rlp_encode.simps)
qed

lemma rlp_bytes_sized: "vsize v < 2 ^ 64 \<Longrightarrow> length (rlp_bytes v) < 2 ^ 64"
  using length_rlp_le_vsize [of v] by linarith

lemma length_rlp_bound: "vsize v \<le> n \<Longrightarrow> n < 2 ^ 64 \<Longrightarrow> length (rlp_bytes v) \<le> n"
  using length_rlp_le_vsize [of v] by linarith

lemma sum_vsize_le:
  "(\<And>x. x \<in> set xs \<Longrightarrow> vsize (f x) \<le> k) \<Longrightarrow> sum_list (map vsize (map f xs)) \<le> k * length xs"
  by (induction xs) (auto simp: add_mono)

text \<open>A struct that the program encodes: its encoding determines it.\<close>

locale rlp_payload =
  fixes ty :: rlp_type
    and to_val :: "'a \<Rightarrow> rlp_val"
    and sized :: "'a \<Rightarrow> bool"
  assumes type_is_ok: "type_ok ty"
    and typed: "has_type ty (to_val x)"
    and to_val_inj: "to_val x = to_val y \<Longrightarrow> x = y"
    and size_bound: "sized x \<Longrightarrow> vsize (to_val x) < 2 ^ 64"
begin

lemma encoded: "sized x \<Longrightarrow> EncodeToBytes (to_val x) = rlp_bytes (to_val x)"
  using EncodeToBytes_eq(1) rlp_bytes_sized size_bound by blast

lemma decode_encode: "sized x \<Longrightarrow> DecodeBytes ty (EncodeToBytes (to_val x)) = Some (to_val x)"
  using DecodeBytes_EncodeToBytes type_is_ok typed rlp_bytes_sized size_bound by blast

lemma encode_inject:
  assumes "sized x" and "sized y"
  shows "EncodeToBytes (to_val x) = EncodeToBytes (to_val y) \<longleftrightarrow> x = y"
  using decode_encode [OF assms(1)] decode_encode [OF assms(2)] to_val_inj by (metis option.inject)

end

text \<open>A struct the program also decodes.\<close>

locale rlp_codec = rlp_payload +
  fixes of_val :: "rlp_val \<Rightarrow> 'a"
  assumes of_to: "of_val (to_val x) = x"
    and to_of: "has_type ty v \<Longrightarrow> to_val (of_val v) = v"
begin

lemma decode_iff: "DecodeBytes ty b = Some v \<longleftrightarrow> v = to_val (of_val v) \<and> fits v \<and> b = rlp_bytes v"
  using DecodeBytes_iff [OF type_is_ok] typed to_of by metis

lemma decode_sized: "sized x \<Longrightarrow> DecodeBytes ty (rlp_bytes (to_val x)) = Some (to_val x)"
  using decode_encode encoded by simp

end

section \<open>Properties\<close>

text \<open>Claim C28: \<open>rlp.DecodeBytes\<close> after \<open>rlp.EncodeToBytes\<close> is the identity on every value of a type the consensus
  code encodes, as long as the encoding has fewer than \<open>2 ^ 64\<close> bytes.\<close>

theorem rlp_roundtrip:
  assumes "type_ok t" and "has_type t v" and "length (rlp_bytes v) < 2 ^ 64"
  shows "DecodeBytes t (EncodeToBytes v) = Some v"
  using assms by (rule DecodeBytes_EncodeToBytes)

theorem rlp_roundtrip_witness:
  "DecodeBytes (TStruct [TUint 64, TBytes, TSlice TBool])
     (EncodeToBytes (VStruct [VUint 1024, VBytes [1, 2, 3], VSlice [VBool True, VBool False]]))
   = Some (VStruct [VUint 1024, VBytes [1, 2, 3], VSlice [VBool True, VBool False]])"
  using rlp_roundtrip [of "TStruct [TUint 64, TBytes, TSlice TBool]"
      "VStruct [VUint 1024, VBytes [1, 2, 3], VSlice [VBool True, VBool False]]"]
    rlp_bytes_sized [of "VStruct [VUint 1024, VBytes [1, 2, 3], VSlice [VBool True, VBool False]]"]
  by simp

text \<open>Claim C29: decoding is canonical. A byte string that decodes is the encoding of the decoded value, so no value
  has two accepted encodings and nothing follows the value.\<close>

theorem rlp_canonical:
  assumes "type_ok t" and "DecodeBytes t b = Some v" and "length b < 2 ^ 64"
  shows "b = EncodeToBytes v
    \<and> has_type t v"
  using assms DecodeBytes_iff EncodeToBytes_eq(1) by auto

theorem rlp_canonical_witness: "[0x83, 1, 2, 3] = EncodeToBytes (VBytes [1, 2, 3]) \<and> has_type TBytes (VBytes [1, 2, 3])"
proof -
  have "DecodeBytes TBytes [0x83, 1, 2, 3] = Some (VBytes [1, 2, 3])" by code_simp
  then show ?thesis using rlp_canonical [of TBytes "[0x83, 1, 2, 3]" "VBytes [1, 2, 3]"] by simp
qed

text \<open>Claim C30: the two-pass encoder with its list-header table computes the recursive definition of RLP, and the size it
  announces to its caller before copying is the size of the result.\<close>

theorem rlp_encoder_refines:
  assumes "length (rlp_bytes v) < 2 ^ 64"
  shows "EncodeToBytes v = rlp_bytes v
    \<and> eb_size (write_val v emptyBuffer) = length (EncodeToBytes v)"
  using EncodeToBytes_eq [OF assms] by simp

theorem rlp_encoder_refines_witness:
  "EncodeToBytes (VSlice [VUint 5, VSlice []]) = rlp_bytes (VSlice [VUint 5, VSlice []])
   \<and> eb_size (write_val (VSlice [VUint 5, VSlice []]) emptyBuffer) = length (EncodeToBytes (VSlice [VUint 5, VSlice []]))"
  using rlp_encoder_refines [of "VSlice [VUint 5, VSlice []]"] rlp_bytes_sized [of "VSlice [VUint 5, VSlice []]"] by simp

end
