(* ===== verification/Hybrid.thy ===== *)
theory Hybrid
  imports Crypto
begin

text \<open>
  The participants of the LQC queue and the selection of producer, fallbacks and committee
  from them (\<open>consensus/lqc/open_registry_hybrid.go\<close>): merging of bootstrap and
  registered participants, the eligibility rule, the ordering by a hash of the parent block,
  the roles, and the penalty for a missed turn.
\<close>

section \<open>Participants and configuration\<close>

datatype HybridParticipantStatus =
  ParticipantPendingActivation | ParticipantActiveCandidate | ParticipantJailed | ParticipantExited

record HybridParticipant =
  hp_Address :: address
  hp_Payout :: address
  hp_NodeID :: string
  hp_Bond :: "int option"
  hp_RegisteredAt :: u64
  hp_LastHeartbeat :: u64
  hp_JailedUntil :: u64
  hp_MissedTurns :: u64
  hp_Status :: HybridParticipantStatus
  hp_IsBootstrap :: bool

record HybridLQCConfig =
  hc_MinBond :: "int option"
  hc_ActivationDelay :: u64
  hc_HeartbeatWindow :: u64
  hc_HeartbeatGrace :: u64
  hc_CommitteeSize :: u64
  hc_FallbackCount :: u64
  hc_JailBlocks :: u64
  hc_MaxMissedTurns :: u64
  hc_MinorSlashBps :: u64
  hc_MajorSlashBps :: u64
  hc_BootstrapOnlyUntil :: u64

record HybridSelection =
  sel_Ordered :: "HybridParticipant list"
  sel_Producer :: "HybridParticipant option"
  sel_Fallbacks :: "HybridParticipant list"
  sel_Committee :: "HybridParticipant list"

definition DefaultDevnetBootstrapParticipants :: "address list" where
  "DefaultDevnetBootstrapParticipants = []"

definition NormalizeBootstrapParticipants :: "address list \<Rightarrow> address list" where
  "NormalizeBootstrapParticipants addrs =
     (let out = filter (\<lambda>a. a \<noteq> 0) addrs
      in if addrs \<noteq> [] \<and> out \<noteq> [] then out else DefaultDevnetBootstrapParticipants)"

text \<open>Values are not shared in the model, so a deep copy is the value itself.\<close>

definition cloneParticipant :: "HybridParticipant \<Rightarrow> HybridParticipant" where
  "cloneParticipant p = p"

definition nonzero_or :: "u64 \<Rightarrow> u64 \<Rightarrow> u64" where
  "nonzero_or d x = (if x = 0 then d else x)"

definition normalizeHybridConfig :: "HybridLQCConfig \<Rightarrow> HybridLQCConfig" where
  "normalizeHybridConfig cfg = cfg\<lparr>
     hc_MinBond := (case hc_MinBond cfg of None \<Rightarrow> Some 25 | Some b \<Rightarrow> Some b),
     hc_HeartbeatWindow := nonzero_or 64 (hc_HeartbeatWindow cfg),
     hc_HeartbeatGrace := nonzero_or 16 (hc_HeartbeatGrace cfg),
     hc_CommitteeSize := nonzero_or 6 (hc_CommitteeSize cfg),
     hc_FallbackCount := nonzero_or 2 (hc_FallbackCount cfg),
     hc_JailBlocks := nonzero_or 256 (hc_JailBlocks cfg),
     hc_MaxMissedTurns := nonzero_or 3 (hc_MaxMissedTurns cfg),
     hc_MinorSlashBps := nonzero_or 500 (hc_MinorSlashBps cfg),
     hc_MajorSlashBps := nonzero_or 2000 (hc_MajorSlashBps cfg)\<rparr>"

definition minBond :: "HybridLQCConfig \<Rightarrow> int" where
  "minBond cfg = the (hc_MinBond (normalizeHybridConfig cfg))"

section \<open>The participants of a block\<close>

definition bootstrapParticipant :: "HybridLQCConfig \<Rightarrow> u64 \<Rightarrow> address \<Rightarrow> HybridParticipant" where
  "bootstrapParticipant cfg block addr = \<lparr>hp_Address = addr, hp_Payout = addr, hp_NodeID = '''',
     hp_Bond = Some (minBond cfg), hp_RegisteredAt = 0, hp_LastHeartbeat = block,
     hp_JailedUntil = 0, hp_MissedTurns = 0, hp_Status = ParticipantActiveCandidate,
     hp_IsBootstrap = True\<rparr>"

definition synthesizeBootstrapParticipants ::
  "address list \<Rightarrow> u64 \<Rightarrow> HybridLQCConfig \<Rightarrow> HybridParticipant list" where
  "synthesizeBootstrapParticipants bootstrap block cfg =
     map (bootstrapParticipant (normalizeHybridConfig cfg) block) (filter (\<lambda>a. a \<noteq> 0) bootstrap)"

type_synonym participant_map = "(address, HybridParticipant) fmap"

definition merge_bootstrap :: "HybridParticipant \<Rightarrow> participant_map \<Rightarrow> participant_map" where
  "merge_bootstrap p byAddr = fmupd (hp_Address p) p byAddr"

text \<open>The two loops over the on-chain participants, before and after the bootstrap-only phase.\<close>

definition merge_early :: "HybridParticipant \<Rightarrow> participant_map \<Rightarrow> participant_map" where
  "merge_early p byAddr =
     (let cp = cloneParticipant p
      in if hp_Address cp \<noteq> 0 then fmupd (hp_Address cp) cp byAddr else byAddr)"

definition merge_onchain :: "HybridParticipant \<Rightarrow> participant_map \<Rightarrow> participant_map" where
  "merge_onchain p byAddr =
     (let cp = cloneParticipant p in
      if hp_Address cp = 0 then byAddr
      else
        let cp = (if hp_Payout cp = 0 then cp\<lparr>hp_Payout := hp_Address cp\<rparr> else cp);
            cp = (if hp_Bond cp = None then cp\<lparr>hp_Bond := Some 0\<rparr> else cp);
            cp = (case fmlookup byAddr (hp_Address cp) of
                    Some existing \<Rightarrow> cp\<lparr>hp_IsBootstrap := hp_IsBootstrap existing \<or> hp_IsBootstrap cp\<rparr>
                  | None \<Rightarrow> cp)
        in fmupd (hp_Address cp) cp byAddr)"

definition MergeParticipants ::
  "address list \<Rightarrow> HybridParticipant list \<Rightarrow> u64 \<Rightarrow> HybridLQCConfig \<Rightarrow> HybridParticipant list" where
  "MergeParticipants bootstrap onchain block cfg0 =
     (let cfg = normalizeHybridConfig cfg0;
          bootstrapSet = synthesizeBootstrapParticipants bootstrap block cfg;
          byAddr0 = fold merge_bootstrap bootstrapSet fmempty;
          byAddr = (if block \<le> hc_BootstrapOnlyUntil cfg
                    then fold merge_early onchain byAddr0
                    else fold merge_onchain onchain byAddr0)
      in sort_key hp_Address (fmvals byAddr))"

definition IsHybridEligible :: "HybridParticipant \<Rightarrow> u64 \<Rightarrow> HybridLQCConfig \<Rightarrow> bool" where
  "IsHybridEligible p block cfg0 =
     (let cfg = normalizeHybridConfig cfg0 in
      if hp_Address p = 0 then False
      else if hp_Status p = ParticipantExited then False
      else if hp_JailedUntil p > block then False
      else if hp_Status p = ParticipantJailed then False
      else if (case hp_Bond p of None \<Rightarrow> True | Some b \<Rightarrow> b < the (hc_MinBond cfg)) then False
      else if block < hp_RegisteredAt p + hc_ActivationDelay cfg then False
      else if hp_LastHeartbeat p = 0 \<and> block > 1 then False
      else if block > hp_LastHeartbeat p + hc_HeartbeatWindow cfg + hc_HeartbeatGrace cfg then False
      else if hp_Status p \<noteq> ParticipantActiveCandidate \<and> hp_Status p \<noteq> ParticipantPendingActivation
        then False
      else True)"

definition EligibleHybridParticipants ::
  "HybridParticipant list \<Rightarrow> u64 \<Rightarrow> HybridLQCConfig \<Rightarrow> HybridParticipant list" where
  "EligibleHybridParticipants input block cfg0 =
     (let cfg = normalizeHybridConfig cfg0
      in sort_key hp_Address
           (map cloneParticipant (filter (\<lambda>p. IsHybridEligible p block cfg) input)))"

section \<open>The order of a block and its roles\<close>

definition buildSelectionSeed :: "crypto \<Rightarrow> hash \<Rightarrow> u64 \<Rightarrow> hash" where
  "buildSelectionSeed cr parentHash block = Keccak256Hash cr [hash_bytes parentHash, u64_be block]"

definition participantScore :: "crypto \<Rightarrow> hash \<Rightarrow> HybridParticipant \<Rightarrow> hash" where
  "participantScore cr seed p = Keccak256Hash cr [hash_bytes seed, addr_bytes (hp_Address p)]"

definition DeterministicallyOrderParticipants ::
  "crypto \<Rightarrow> HybridParticipant list \<Rightarrow> hash \<Rightarrow> u64 \<Rightarrow> HybridParticipant list" where
  "DeterministicallyOrderParticipants cr input parentHash block =
     (if input = [] then []
      else
        let seed = buildSelectionSeed cr parentHash block;
            scored = map (\<lambda>p. (cloneParticipant p, participantScore cr seed p)) input
        in map fst (sort_key (\<lambda>(p, score). (score, hp_Address p)) scored))"

text \<open>The split of the ordered queue that both selection functions share. \<open>None\<close> is a panic:
  a configured count that is negative as an \<open>int\<close> makes a slice bound negative.\<close>

definition assign_roles ::
  "HybridLQCConfig \<Rightarrow> HybridParticipant list \<Rightarrow> HybridSelection option" where
  "assign_roles cfg ordered =
     (if ordered = [] then
        Some \<lparr>sel_Ordered = ordered, sel_Producer = None, sel_Fallbacks = [], sel_Committee = []\<rparr>
      else
        let len = int (length ordered);
            fallbackEnd = go_int (1 + sint (hc_FallbackCount cfg));
            fallbackEnd = (if fallbackEnd > len then len else fallbackEnd);
            fallbacks = (if fallbackEnd > 1 then go_slice ordered 1 fallbackEnd else Some []);
            committeeStart = fallbackEnd;
            committeeEnd = go_int (committeeStart + sint (hc_CommitteeSize cfg));
            committeeEnd = (if committeeEnd > len then len else committeeEnd);
            committee =
              (if committeeEnd > committeeStart then go_slice ordered committeeStart committeeEnd
               else Some [])
        in case fallbacks of None \<Rightarrow> None | Some fs \<Rightarrow>
           case committee of None \<Rightarrow> None | Some cs \<Rightarrow>
             Some \<lparr>sel_Ordered = ordered, sel_Producer = Some (ordered ! 0),
                   sel_Fallbacks = fs, sel_Committee = cs\<rparr>)"

definition BuildHybridSelection ::
  "crypto \<Rightarrow> address list \<Rightarrow> HybridParticipant list \<Rightarrow> hash \<Rightarrow> u64 \<Rightarrow> HybridLQCConfig
    \<Rightarrow> HybridSelection option" where
  "BuildHybridSelection cr bootstrap onchain parentHash block cfg0 =
     (let cfg = normalizeHybridConfig cfg0;
          merged = MergeParticipants bootstrap onchain block cfg;
          eligible = EligibleHybridParticipants merged block cfg;
          ordered = DeterministicallyOrderParticipants cr eligible parentHash block
      in assign_roles cfg ordered)"

definition BuildDevnetBootstrapSelection ::
  "crypto \<Rightarrow> hash \<Rightarrow> u64 \<Rightarrow> HybridLQCConfig \<Rightarrow> HybridSelection option" where
  "BuildDevnetBootstrapSelection cr parentHash block cfg0 =
     (let cfg = normalizeHybridConfig cfg0;
          parts = map (bootstrapParticipant cfg block) (filter (\<lambda>a. a \<noteq> 0) []);
          ordered = DeterministicallyOrderParticipants cr parts parentHash block
      in assign_roles cfg ordered)"

definition ProducerAddress :: "HybridSelection \<Rightarrow> address" where
  "ProducerAddress sel = (case sel_Producer sel of None \<Rightarrow> 0 | Some p \<Rightarrow> hp_Address p)"

definition FallbackAddresses :: "HybridSelection \<Rightarrow> address list" where
  "FallbackAddresses sel = map hp_Address (sel_Fallbacks sel)"

text \<open>The position of an address in a list of participants, counting from \<open>i\<close>.\<close>

fun author_pos :: "HybridParticipant list \<Rightarrow> address \<Rightarrow> int \<Rightarrow> bool \<times> int" where
  "author_pos [] author i = (False, -1)"
| "author_pos (p # ps) author i =
     (if hp_Address p = author then (True, i) else author_pos ps author (i + 1))"

definition IsAuthorAllowed :: "HybridSelection \<Rightarrow> address \<Rightarrow> bool \<times> int" where
  "IsAuthorAllowed sel author = author_pos (sel_Ordered sel) author 0"

definition IsAuthorAllowedBounded :: "HybridSelection \<Rightarrow> address \<Rightarrow> bool \<times> int" where
  "IsAuthorAllowedBounded sel author =
     (if (case sel_Producer sel of None \<Rightarrow> False | Some p \<Rightarrow> hp_Address p = author) then (True, 0)
      else author_pos (sel_Fallbacks sel) author 1)"

section \<open>Turns\<close>

definition ApplySuccessfulTurn :: "HybridParticipant \<Rightarrow> HybridParticipant" where
  "ApplySuccessfulTurn p =
     (let out = (cloneParticipant p)\<lparr>hp_MissedTurns := 0\<rparr>
      in if hp_Status out = ParticipantJailed then out\<lparr>hp_Status := ParticipantActiveCandidate\<rparr>
         else out)"

definition ApplyMissedTurnPenalty ::
  "HybridParticipant \<Rightarrow> u64 \<Rightarrow> HybridLQCConfig \<Rightarrow> HybridParticipant" where
  "ApplyMissedTurnPenalty p block cfg0 =
     (let cfg = normalizeHybridConfig cfg0;
          out = (cloneParticipant p)\<lparr>hp_MissedTurns := hp_MissedTurns p + 1\<rparr>
      in if hp_MissedTurns out \<ge> hc_MaxMissedTurns cfg then
           let out = out\<lparr>hp_Status := ParticipantJailed,
                         hp_JailedUntil := block + hc_JailBlocks cfg\<rparr>
           in case hp_Bond out of None \<Rightarrow> out
              | Some bond \<Rightarrow>
                  if bond > 0 then
                    let slash = bond * uint (hc_MinorSlashBps cfg) div 10000
                    in if slash > 0 \<and> bond \<ge> slash then out\<lparr>hp_Bond := Some (bond - slash)\<rparr>
                       else out\<lparr>hp_Bond := Some 0\<rparr>
                  else out
         else out)"

definition SplitReward :: "int option \<Rightarrow> u64 \<Rightarrow> int \<times> int" where
  "SplitReward tot producerBps = (case tot of None \<Rightarrow> (0, 0)
     | Some t \<Rightarrow>
         let bps = (if producerBps > 10000 then 10000 else producerBps);
             producer = t * uint bps div 10000
         in (producer, t - producer))"


section \<open>The ordering\<close>

abbreviation order_key :: "crypto \<Rightarrow> hash \<Rightarrow> u64 \<Rightarrow> HybridParticipant \<Rightarrow> hash \<times> address" where
  "order_key cr parentHash block p \<equiv>
     (participantScore cr (buildSelectionSeed cr parentHash block) p, hp_Address p)"

lemma DeterministicallyOrderParticipants_eq:
  "DeterministicallyOrderParticipants cr input parentHash block =
     sort_key (order_key cr parentHash block) input"
  by (simp add: DeterministicallyOrderParticipants_def Let_def sort_key_map comp_def
      cloneParticipant_def)

lemma order_key_inj:
  "distinct (map hp_Address ps) \<Longrightarrow> inj_on (order_key cr parentHash block) (set ps)"
  by (auto simp: distinct_map inj_on_def)

lemma order_key_distinct:
  "distinct (map hp_Address ps) \<Longrightarrow> distinct (map (order_key cr parentHash block) ps)"
  using order_key_inj [of ps cr parentHash block] by (simp add: distinct_map)

lemma DeterministicallyOrder_perm:
  assumes "distinct (map hp_Address ps)" and "mset qs = mset ps"
  shows "DeterministicallyOrderParticipants cr qs parentHash block
    = DeterministicallyOrderParticipants cr ps parentHash block"
  unfolding DeterministicallyOrderParticipants_eq
  using assms by (intro sort_key_perm_cong order_key_inj)

lemma DeterministicallyOrder_mset [simp]:
  "mset (DeterministicallyOrderParticipants cr ps parentHash block) = mset ps"
  by (simp add: DeterministicallyOrderParticipants_eq)

lemma DeterministicallyOrder_set [simp]:
  "set (DeterministicallyOrderParticipants cr ps parentHash block) = set ps"
  by (simp add: DeterministicallyOrderParticipants_eq)

lemma DeterministicallyOrder_length [simp]:
  "length (DeterministicallyOrderParticipants cr ps parentHash block) = length ps"
  by (simp add: DeterministicallyOrderParticipants_eq)

lemma DeterministicallyOrder_distinct:
  "distinct (map hp_Address (DeterministicallyOrderParticipants cr ps parentHash block))
     \<longleftrightarrow> distinct (map hp_Address ps)"
  by (simp add: DeterministicallyOrderParticipants_eq distinct_sort_key_map)

lemma DeterministicallyOrder_strict:
  assumes "distinct (map hp_Address ps)"
  shows "sorted_wrt (\<lambda>p q. order_key cr parentHash block p < order_key cr parentHash block q)
    (DeterministicallyOrderParticipants cr ps parentHash block)"
  unfolding DeterministicallyOrderParticipants_eq
  using order_key_distinct [OF assms]
  by (intro sorted_distinct_strict sorted_sort_key) (simp add: distinct_sort_key_map)

section \<open>Merging\<close>

definition addr_keyed :: "participant_map \<Rightarrow> bool" where
  "addr_keyed m \<longleftrightarrow> (\<forall>k p. fmlookup m k = Some p \<longrightarrow> hp_Address p = k \<and> k \<noteq> 0)"

lemma addr_keyed_empty [wf_intros]: "addr_keyed fmempty"
  by (simp add: addr_keyed_def)

lemma addr_keyed_bootstrap [wf_intros]:
  "hp_Address p \<noteq> 0 \<Longrightarrow> addr_keyed m \<Longrightarrow> addr_keyed (merge_bootstrap p m)"
  by (simp add: addr_keyed_def merge_bootstrap_def)

lemma addr_keyed_early [wf_intros]: "addr_keyed m \<Longrightarrow> addr_keyed (merge_early p m)"
  by (simp add: addr_keyed_def merge_early_def Let_def cloneParticipant_def)

lemma addr_keyed_onchain [wf_intros]: "addr_keyed m \<Longrightarrow> addr_keyed (merge_onchain p m)"
  by (auto simp: addr_keyed_def merge_onchain_def Let_def cloneParticipant_def split: option.splits)

lemma addr_keyed_fold:
  assumes "\<And>p m. p \<in> set ps \<Longrightarrow> addr_keyed m \<Longrightarrow> addr_keyed (f p m)" and "addr_keyed m"
  shows "addr_keyed (fold f ps m)"
  using assms by (induction ps arbitrary: m) auto

text \<open>The map both loops build.\<close>

definition merged_map ::
  "address list \<Rightarrow> HybridParticipant list \<Rightarrow> u64 \<Rightarrow> HybridLQCConfig \<Rightarrow> participant_map" where
  "merged_map bootstrap onchain block cfg0 =
     (let cfg = normalizeHybridConfig cfg0;
          byAddr0 = fold merge_bootstrap (synthesizeBootstrapParticipants bootstrap block cfg) fmempty
      in if block \<le> hc_BootstrapOnlyUntil cfg then fold merge_early onchain byAddr0
         else fold merge_onchain onchain byAddr0)"

lemma MergeParticipants_eq:
  "MergeParticipants bootstrap onchain block cfg = sort_key hp_Address (fmvals (merged_map bootstrap onchain block cfg))"
  by (simp add: MergeParticipants_def merged_map_def Let_def)

lemma addr_keyed_merged: "addr_keyed (merged_map bootstrap onchain block cfg)"
proof -
  have "addr_keyed (fold merge_bootstrap (synthesizeBootstrapParticipants bootstrap block c) fmempty)" for c
    by (rule addr_keyed_fold)
       (auto simp: synthesizeBootstrapParticipants_def bootstrapParticipant_def intro: wf_intros)
  then show ?thesis
    by (auto simp: merged_map_def Let_def
      intro!: addr_keyed_fold [of onchain] addr_keyed_early addr_keyed_onchain)
qed

lemma map_Address_fmvals: "addr_keyed m \<Longrightarrow> map hp_Address (fmvals m) = fmkeys m"
  by (intro map_fmvals) (simp add: addr_keyed_def)

lemma MergeParticipants_vals:
  "MergeParticipants bootstrap onchain block cfg = fmvals (merged_map bootstrap onchain block cfg)"
  unfolding MergeParticipants_eq
  by (rule sort_key_sorted_id) (simp_all add: map_Address_fmvals addr_keyed_merged)

lemma MergeParticipants_distinct:
  "distinct (map hp_Address (MergeParticipants bootstrap onchain block cfg))"
  by (simp add: MergeParticipants_vals map_Address_fmvals addr_keyed_merged)

lemma MergeParticipants_sorted:
  "sorted (map hp_Address (MergeParticipants bootstrap onchain block cfg))"
  by (simp add: MergeParticipants_eq)

lemma MergeParticipants_nonzero:
  "p \<in> set (MergeParticipants bootstrap onchain block cfg) \<Longrightarrow> hp_Address p \<noteq> 0"
  using addr_keyed_merged [of bootstrap onchain block cfg]
  by (auto simp: MergeParticipants_vals mem_fmvals addr_keyed_def)


text \<open>What the map holds for an address: the last on-chain record of it, whatever the bootstrap
  list says.\<close>

lemma merge_onchain_other:
  "hp_Address q \<noteq> k \<Longrightarrow> fmlookup (merge_onchain q m) k = fmlookup m k"
  by (auto simp: merge_onchain_def Let_def cloneParticipant_def split: option.splits)

lemma merge_early_other:
  "hp_Address q \<noteq> k \<Longrightarrow> fmlookup (merge_early q m) k = fmlookup m k"
  by (auto simp: merge_early_def Let_def cloneParticipant_def)

lemma fold_merge_other:
  assumes "\<And>q m. hp_Address q \<noteq> k \<Longrightarrow> fmlookup (f q m) k = fmlookup m k"
    and "k \<notin> hp_Address ` set ps"
  shows "fmlookup (fold f ps m) k = fmlookup m k"
  using assms by (induction ps arbitrary: m) auto

text \<open>The fields an on-chain record keeps through the merge.\<close>

definition same_record :: "HybridParticipant \<Rightarrow> HybridParticipant \<Rightarrow> bool" where
  "same_record p q \<longleftrightarrow> hp_Address q = hp_Address p \<and> hp_NodeID q = hp_NodeID p
     \<and> hp_RegisteredAt q = hp_RegisteredAt p \<and> hp_LastHeartbeat q = hp_LastHeartbeat p
     \<and> hp_JailedUntil q = hp_JailedUntil p \<and> hp_MissedTurns q = hp_MissedTurns p
     \<and> hp_Status q = hp_Status p \<and> (\<forall>b. hp_Bond p = Some b \<longrightarrow> hp_Bond q = Some b)
     \<and> (hp_Payout p \<noteq> 0 \<longrightarrow> hp_Payout q = hp_Payout p)"

lemma merge_onchain_self:
  assumes "hp_Address p \<noteq> 0"
  shows "\<exists>q. fmlookup (merge_onchain p m) (hp_Address p) = Some q \<and> same_record p q"
  using assms
  by (auto simp: merge_onchain_def Let_def cloneParticipant_def same_record_def split: option.splits)

lemma merge_early_self:
  assumes "hp_Address p \<noteq> 0"
  shows "\<exists>q. fmlookup (merge_early p m) (hp_Address p) = Some q \<and> same_record p q"
  using assms by (auto simp: merge_early_def Let_def cloneParticipant_def same_record_def)

lemma fold_merge_self:
  assumes other: "\<And>q k m. hp_Address q \<noteq> k \<Longrightarrow> fmlookup (f q m) k = fmlookup m k"
    and self: "\<And>m. \<exists>q. fmlookup (f p m) (hp_Address p) = Some q \<and> same_record p q"
    and dist: "distinct (map hp_Address ps)" and "p \<in> set ps"
  shows "\<exists>q. fmlookup (fold f ps m) (hp_Address p) = Some q \<and> same_record p q"
proof -
  from \<open>p \<in> set ps\<close> obtain xs ys where ps: "ps = xs @ p # ys" by (auto dest: split_list)
  have "hp_Address p \<notin> hp_Address ` set ys" using dist ps by auto
  then have "fmlookup (fold f ys m') (hp_Address p) = fmlookup m' (hp_Address p)" for m'
    using other by (intro fold_merge_other) auto
  with self show ?thesis by (simp add: ps)
qed

lemma MergeParticipants_onchain:
  assumes "distinct (map hp_Address onchain)" and "p \<in> set onchain" and "hp_Address p \<noteq> 0"
  shows "\<exists>q \<in> set (MergeParticipants bootstrap onchain block cfg). same_record p q"
proof -
  have "\<exists>q. fmlookup (merged_map bootstrap onchain block cfg) (hp_Address p) = Some q \<and> same_record p q"
    using assms
    by (auto simp: merged_map_def Let_def
      intro!: fold_merge_self merge_early_other merge_onchain_other merge_early_self merge_onchain_self)
  then show ?thesis unfolding MergeParticipants_vals by (metis mem_fmvals)
qed

section \<open>Eligible participants and roles\<close>

lemma EligibleHybridParticipants_set:
  "set (EligibleHybridParticipants input block cfg)
    = {p \<in> set input. IsHybridEligible p block (normalizeHybridConfig cfg)}"
  by (auto simp: EligibleHybridParticipants_def Let_def cloneParticipant_def)

lemma EligibleHybridParticipants_distinct:
  "distinct (map hp_Address input) \<Longrightarrow>
     distinct (map hp_Address (EligibleHybridParticipants input block cfg))"
  by (simp add: EligibleHybridParticipants_def Let_def cloneParticipant_def distinct_sort_key_map
      distinct_map_filter comp_def)

lemma normalizeHybridConfig_idem [simp]:
  "normalizeHybridConfig (normalizeHybridConfig cfg) = normalizeHybridConfig cfg"
  by (auto simp: normalizeHybridConfig_def nonzero_or_def split: option.splits)

lemma IsHybridEligible_normalize [simp]:
  "IsHybridEligible p block (normalizeHybridConfig cfg) = IsHybridEligible p block cfg"
  by (simp add: IsHybridEligible_def)

lemma go_slice_take:
  "0 \<le> lo \<Longrightarrow> lo \<le> hi \<Longrightarrow> hi \<le> length xs \<Longrightarrow>
     go_slice xs (int lo) (int hi) = Some (take (hi - lo) (drop lo xs))"
  by (simp add: go_slice_def)

lemma assign_roles_eq:
  fixes cfg :: HybridLQCConfig
  defines "fc \<equiv> unat (hc_FallbackCount cfg)" and "cs \<equiv> unat (hc_CommitteeSize cfg)"
  assumes fc: "fc < 2 ^ 62" and cs: "cs < 2 ^ 62" and "ordered \<noteq> []"
  shows "assign_roles cfg ordered = Some \<lparr>sel_Ordered = ordered, sel_Producer = Some (hd ordered),
    sel_Fallbacks = take fc (tl ordered), sel_Committee = take cs (drop (Suc fc) ordered)\<rparr>"
proof -
  let ?n = "length ordered"
  define fe where "fe = min (Suc fc) ?n"
  define ce where "ce = min (fe + cs) ?n"
  have s: "sint (hc_FallbackCount cfg) = int fc" "sint (hc_CommitteeSize cfg) = int cs"
    using fc cs sint_eq_unat [of "hc_FallbackCount cfg"] sint_eq_unat [of "hc_CommitteeSize cfg"]
    by (simp_all add: fc_def cs_def)
  have n: "1 \<le> ?n" using \<open>ordered \<noteq> []\<close> by (cases ordered) auto
  have "go_int (1 + int fc) = int (Suc fc)" using fc by (subst go_int_id) auto
  then have fe: "(if go_int (1 + int fc) > int ?n then int ?n else go_int (1 + int fc)) = int fe"
    by (auto simp: fe_def min_def)
  have "go_int (int fe + int cs) = int (fe + cs)" using fc cs by (subst go_int_id) (auto simp: fe_def)
  then have ce: "(if go_int (int fe + int cs) > int ?n then int ?n else go_int (int fe + int cs)) = int ce"
    by (auto simp: ce_def min_def)
  have le: "1 \<le> fe" "fe \<le> ce" "ce \<le> ?n" using n by (auto simp: fe_def ce_def)
  have "go_slice ordered 1 (int fe) = Some (take (fe - 1) (tl ordered))"
    using go_slice_take [of 1 fe ordered] le by (simp add: drop_Suc)
  moreover have "take (fe - 1) (tl ordered) = take fc (tl ordered)"
    by (auto simp: fe_def min_def)
  moreover have "go_slice ordered (int fe) (int ce) = Some (take (ce - fe) (drop fe ordered))"
    using le by (intro go_slice_take) auto
  moreover have "take (ce - fe) (drop fe ordered) = take cs (drop (Suc fc) ordered)"
    by (auto simp: ce_def fe_def min_def)
  ultimately show ?thesis
    using le \<open>ordered \<noteq> []\<close> fe ce
    by (auto simp: assign_roles_def s Let_def hd_conv_nth)
qed


text \<open>Counts that are small as an \<open>int\<close>, as every chain configuration has them.\<close>

definition small_counts :: "HybridLQCConfig \<Rightarrow> bool" where
  "small_counts cfg \<longleftrightarrow> unat (hc_FallbackCount cfg) < 2 ^ 62 \<and> unat (hc_CommitteeSize cfg) < 2 ^ 62"

lemma small_counts_normalize: "small_counts cfg \<Longrightarrow> small_counts (normalizeHybridConfig cfg)"
  by (simp add: small_counts_def normalizeHybridConfig_def nonzero_or_def)

definition queue_of :: "crypto \<Rightarrow> address list \<Rightarrow> HybridParticipant list \<Rightarrow> hash \<Rightarrow> u64
    \<Rightarrow> HybridLQCConfig \<Rightarrow> HybridParticipant list" where
  "queue_of cr bootstrap onchain parentHash block cfg =
     DeterministicallyOrderParticipants cr
       (EligibleHybridParticipants (MergeParticipants bootstrap onchain block (normalizeHybridConfig cfg))
         block (normalizeHybridConfig cfg)) parentHash block"

lemma BuildHybridSelection_assign:
  "BuildHybridSelection cr bootstrap onchain parentHash block cfg =
     assign_roles (normalizeHybridConfig cfg) (queue_of cr bootstrap onchain parentHash block cfg)"
  by (simp add: BuildHybridSelection_def queue_of_def Let_def)

lemma queue_of_distinct:
  "distinct (map hp_Address (queue_of cr bootstrap onchain parentHash block cfg))"
  by (simp add: queue_of_def DeterministicallyOrder_distinct EligibleHybridParticipants_distinct
      MergeParticipants_distinct)

lemma queue_of_set:
  "set (queue_of cr bootstrap onchain parentHash block cfg)
     = {p \<in> set (MergeParticipants bootstrap onchain block (normalizeHybridConfig cfg)).
          IsHybridEligible p block cfg}"
  by (auto simp: queue_of_def EligibleHybridParticipants_set)

text \<open>The roles of a selection partition a prefix of its queue.\<close>

definition roles_ok :: "HybridLQCConfig \<Rightarrow> HybridSelection \<Rightarrow> bool" where
  "roles_ok cfg sel \<longleftrightarrow>
     (case sel_Producer sel of
        None \<Rightarrow> sel_Ordered sel = [] \<and> sel_Fallbacks sel = [] \<and> sel_Committee sel = []
      | Some p \<Rightarrow>
          (\<exists>rest. sel_Ordered sel = p # sel_Fallbacks sel @ sel_Committee sel @ rest)
          \<and> length (sel_Fallbacks sel)
              = min (unat (hc_FallbackCount cfg)) (length (sel_Ordered sel) - 1)
          \<and> length (sel_Committee sel)
              = min (unat (hc_CommitteeSize cfg))
                  (length (sel_Ordered sel) - 1 - length (sel_Fallbacks sel)))"

lemma assign_roles_ok:
  assumes "small_counts cfg"
  shows "\<exists>sel. assign_roles cfg ordered = Some sel \<and> sel_Ordered sel = ordered \<and> roles_ok cfg sel"
proof (cases ordered)
  case Nil
  then show ?thesis by (simp add: assign_roles_def roles_ok_def)
next
  case (Cons p ps)
  let ?fc = "unat (hc_FallbackCount cfg)" and ?cs = "unat (hc_CommitteeSize cfg)"
  have "take ?fc ps @ take ?cs (drop ?fc ps) @ drop ?cs (drop ?fc ps) = ps"
    by (simp only: append_take_drop_id)
  then have "\<exists>rest. take ?fc ps @ take ?cs (drop ?fc ps) @ rest = ps" ..
  then show ?thesis
    using assign_roles_eq [of cfg ordered] assms Cons
    by (auto simp: small_counts_def roles_ok_def eq_commute [of ps])
qed

section \<open>Authors\<close>

lemma author_pos_True:
  "author_pos ps a i = (True, j) \<longleftrightarrow>
     (\<exists>n < length ps. j = i + int n \<and> hp_Address (ps ! n) = a \<and> (\<forall>m < n. hp_Address (ps ! m) \<noteq> a))"
proof (induction ps arbitrary: i)
  case Nil
  then show ?case by simp
next
  case (Cons p ps)
  show ?case
  proof (cases "hp_Address p = a")
    case True
    then show ?thesis by (auto simp: less_Suc_eq_0_disj nth_Cons')
  next
    case False
    have "author_pos (p # ps) a i = (True, j) \<longleftrightarrow> (\<exists>n < length ps. j = (i + 1) + int n
        \<and> hp_Address (ps ! n) = a \<and> (\<forall>m < n. hp_Address (ps ! m) \<noteq> a))"
      using False Cons.IH by simp
    also have "\<dots> \<longleftrightarrow> (\<exists>n < length (p # ps). j = i + int n \<and> hp_Address ((p # ps) ! n) = a
        \<and> (\<forall>m < n. hp_Address ((p # ps) ! m) \<noteq> a))"
      using False by (simp add: Ex_less_Suc2 All_less_Suc2 algebra_simps)
    finally show ?thesis .
  qed
qed

lemma author_pos_distinct:
  assumes "distinct (map hp_Address ps)"
  shows "author_pos ps a i = (True, j) \<longleftrightarrow>
     (\<exists>n < length ps. j = i + int n \<and> hp_Address (ps ! n) = a)"
  unfolding author_pos_True
  using assms by (fastforce simp: distinct_conv_nth)

lemma author_pos_mem: "fst (author_pos ps a i) \<longleftrightarrow> a \<in> hp_Address ` set ps"
  by (induction ps arbitrary: i) auto

lemma author_pos_append:
  "author_pos (xs @ ys) a i =
     (if fst (author_pos xs a i) then author_pos xs a i else author_pos ys a (i + int (length xs)))"
  by (induction xs arbitrary: i) (auto simp: algebra_simps)

lemma IsAuthorAllowedBounded_agrees:
  assumes "roles_ok cfg sel" and "IsAuthorAllowedBounded sel a = (True, i)"
  shows "IsAuthorAllowed sel a = (True, i)" and "0 \<le> i" and "i \<le> int (unat (hc_FallbackCount cfg))"
proof -
  obtain p where p: "sel_Producer sel = Some p"
    using assms by (cases "sel_Producer sel") (simp_all add: roles_ok_def IsAuthorAllowedBounded_def)
  have r: "\<exists>rest. sel_Ordered sel = p # sel_Fallbacks sel @ sel_Committee sel @ rest"
      "length (sel_Fallbacks sel) = min (unat (hc_FallbackCount cfg)) (length (sel_Ordered sel) - 1)"
    using assms(1) unfolding roles_ok_def p option.case by blast+
  from r(1) obtain rest where ord: "sel_Ordered sel = p # sel_Fallbacks sel @ sel_Committee sel @ rest" ..
  have len: "length (sel_Fallbacks sel) \<le> unat (hc_FallbackCount cfg)" by (subst r(2)) (rule min.cobounded1)
  show "IsAuthorAllowed sel a = (True, i)"
    using assms(2) p by (auto simp: IsAuthorAllowed_def IsAuthorAllowedBounded_def ord author_pos_append)
  have "i = 0 \<or> (\<exists>n < length (sel_Fallbacks sel). i = 1 + int n)"
    using assms(2) p by (auto simp: IsAuthorAllowedBounded_def author_pos_True split: if_splits)
  then show "0 \<le> i" "i \<le> int (unat (hc_FallbackCount cfg))"
    using len by (auto simp del: of_nat_unat)
qed

section \<open>Penalties\<close>

lemma slash_bounds:
  assumes "0 < (bond::int)" and "0 \<le> bps" and "bps \<le> 10000"
  shows "0 \<le> bond * bps div 10000" and "bond * bps div 10000 \<le> bond"
proof -
  have "bond * bps div 10000 \<le> bond * 10000 div 10000"
    using assms by (intro zdiv_mono1 mult_left_mono) auto
  then show "bond * bps div 10000 \<le> bond" by simp
qed (use assms in \<open>simp add: pos_imp_zdiv_nonneg_iff\<close>)

lemma uint_le_10000: "(x :: u64) \<le> 10000 \<Longrightarrow> uint x \<le> 10000"
  by (simp add: word_le_def)

lemma ApplyMissedTurnPenalty_bond:
  assumes "hp_Bond p = Some b" and "0 \<le> b" and "hc_MinorSlashBps cfg \<le> 10000"
  shows "\<exists>b'. hp_Bond (ApplyMissedTurnPenalty p block cfg) = Some b' \<and> 0 \<le> b' \<and> b' \<le> b"
proof -
  let ?bps = "uint (hc_MinorSlashBps (normalizeHybridConfig cfg))"
  have "?bps \<le> 10000" using assms(3) by (simp add: normalizeHybridConfig_def nonzero_or_def uint_le_10000)
  then have "0 < b \<Longrightarrow> 0 \<le> b * ?bps div 10000 \<and> b * ?bps div 10000 \<le> b" by (simp add: slash_bounds)
  then show ?thesis
    using assms by (auto simp: ApplyMissedTurnPenalty_def Let_def cloneParticipant_def)
qed

lemma SplitReward_sum: "fst (SplitReward (Some t) bps) + snd (SplitReward (Some t) bps) = t"
  by (simp add: SplitReward_def Let_def)

lemma SplitReward_bounds:
  assumes "0 \<le> t"
  shows "0 \<le> fst (SplitReward (Some t) bps)" and "0 \<le> snd (SplitReward (Some t) bps)"
proof -
  let ?b = "uint (if bps > 10000 then 10000 else bps)"
  have b: "0 \<le> ?b" "?b \<le> 10000" by (auto simp: uint_le_10000 not_less)
  have "0 \<le> t * ?b div 10000 \<and> t * ?b div 10000 \<le> t"
    using slash_bounds [of t ?b] b assms by (cases "t = 0") auto
  then show "0 \<le> fst (SplitReward (Some t) bps)" and "0 \<le> snd (SplitReward (Some t) bps)"
    by (simp_all add: SplitReward_def Let_def)
qed

section \<open>Properties\<close>

text \<open>Participants and a configuration for the examples.\<close>

definition sample_participant :: "address \<Rightarrow> HybridParticipant" where
  "sample_participant a = \<lparr>hp_Address = a, hp_Payout = a, hp_NodeID = '''', hp_Bond = Some 25,
     hp_RegisteredAt = 1, hp_LastHeartbeat = 9, hp_JailedUntil = 0, hp_MissedTurns = 0,
     hp_Status = ParticipantActiveCandidate, hp_IsBootstrap = False\<rparr>"

definition sample_config :: HybridLQCConfig where
  "sample_config = \<lparr>hc_MinBond = None, hc_ActivationDelay = 0, hc_HeartbeatWindow = 0, hc_HeartbeatGrace = 0,
     hc_CommitteeSize = 2, hc_FallbackCount = 1, hc_JailBlocks = 0, hc_MaxMissedTurns = 0,
     hc_MinorSlashBps = 0, hc_MajorSlashBps = 0, hc_BootstrapOnlyUntil = 0\<rparr>"

text \<open>The production order is a function of the set of participants, the parent hash and the block number.
  Whatever order the participants are listed in, \<open>DeterministicallyOrderParticipants\<close> returns the same queue,
  a permutation of its input in strictly increasing order of score, ties broken by address.\<close>

theorem order_deterministic:
  assumes "distinct (map hp_Address ps)" and "mset qs = mset ps"
  shows "DeterministicallyOrderParticipants cr qs parentHash block = DeterministicallyOrderParticipants cr ps parentHash block
    \<and> mset (DeterministicallyOrderParticipants cr qs parentHash block) = mset ps
    \<and> sorted_wrt (\<lambda>p q. order_key cr parentHash block p < order_key cr parentHash block q)
      (DeterministicallyOrderParticipants cr qs parentHash block)"
  using DeterministicallyOrder_perm [OF assms] DeterministicallyOrder_strict [OF assms(1)] assms(2) by simp

theorem order_deterministic_witness:
  "DeterministicallyOrderParticipants sample_crypto [sample_participant 2, sample_participant 1] 7 9
     = DeterministicallyOrderParticipants sample_crypto [sample_participant 1, sample_participant 2] 7 9
   \<and> mset (DeterministicallyOrderParticipants sample_crypto [sample_participant 2, sample_participant 1] 7 9)
     = mset [sample_participant 1, sample_participant 2]"
proof -
  have "distinct (map hp_Address [sample_participant 1, sample_participant 2])"
    and "mset [sample_participant 2, sample_participant 1] = mset [sample_participant 1, sample_participant 2]"
    by (simp_all add: sample_participant_def add_mset_commute)
  from order_deterministic [OF this] show ?thesis by simp
qed

text \<open>Claim C31: with fallback and committee counts below \<open>2 ^ 62\<close>, \<open>BuildHybridSelection\<close> never panics on a slice bound. Its
  queue holds each eligible participant exactly once, and producer, fallbacks and committee are consecutive
  disjoint segments of it with the configured lengths (as far as the queue reaches).\<close>

theorem selection_roles:
  assumes "small_counts cfg"
  shows "\<exists>sel. BuildHybridSelection cr bootstrap onchain parentHash block cfg = Some sel
    \<and> roles_ok (normalizeHybridConfig cfg) sel \<and> distinct (map hp_Address (sel_Ordered sel))
    \<and> set (sel_Ordered sel) = {p \<in> set (MergeParticipants bootstrap onchain block (normalizeHybridConfig cfg)).
          IsHybridEligible p block cfg}"
proof -
  let ?q = "queue_of cr bootstrap onchain parentHash block cfg"
  obtain sel where "assign_roles (normalizeHybridConfig cfg) ?q = Some sel" "sel_Ordered sel = ?q"
      "roles_ok (normalizeHybridConfig cfg) sel"
    using assign_roles_ok [OF small_counts_normalize [OF assms]] by blast
  then show ?thesis
    by (auto simp: BuildHybridSelection_assign queue_of_distinct queue_of_set)
qed

theorem selection_roles_witness:
  "\<exists>sel. BuildHybridSelection sample_crypto [] (map sample_participant [1, 2, 3]) 7 9 sample_config = Some sel
    \<and> roles_ok (normalizeHybridConfig sample_config) sel"
proof -
  have "small_counts sample_config" by (simp add: small_counts_def sample_config_def)
  from selection_roles [OF this, of sample_crypto "[]" "map sample_participant [1, 2, 3]" 7 9] show ?thesis by blast
qed

text \<open>The merged participant list is sorted by address without duplicates or the zero address, and every
  on-chain registration is in it with its own record (bond, registration, heartbeat, penalty and status), whether
  or not the address is also a bootstrap participant.\<close>

theorem merge_participants:
  assumes "distinct (map hp_Address onchain)"
  shows "sorted (map hp_Address (MergeParticipants bootstrap onchain block cfg))
    \<and> distinct (map hp_Address (MergeParticipants bootstrap onchain block cfg))
    \<and> (\<forall>p \<in> set (MergeParticipants bootstrap onchain block cfg). hp_Address p \<noteq> 0)
    \<and> (\<forall>p \<in> set onchain. hp_Address p \<noteq> 0 \<longrightarrow>
      (\<exists>q \<in> set (MergeParticipants bootstrap onchain block cfg). same_record p q))"
  using MergeParticipants_sorted MergeParticipants_distinct MergeParticipants_nonzero
    MergeParticipants_onchain [OF assms] by blast

theorem merge_participants_witness:
  "\<exists>q \<in> set (MergeParticipants [5, 4] [sample_participant 4] 9 sample_config). same_record (sample_participant 4) q"
  using merge_participants [of "[sample_participant 4]" "[5, 4]" 9 sample_config] by (simp add: sample_participant_def)

text \<open>\<open>IsAuthorAllowedBounded\<close> is the restriction of \<open>IsAuthorAllowed\<close> to the producer and the fallbacks: an author
  it admits gets the same queue position from both, and that position is at most the configured fallback count.\<close>

theorem bounded_author:
  assumes "roles_ok cfg sel" and "IsAuthorAllowedBounded sel a = (True, i)"
  shows "IsAuthorAllowed sel a = (True, i)
    \<and> (0 \<le> i \<and> i \<le> int (unat (hc_FallbackCount cfg)))"
  using IsAuthorAllowedBounded_agrees [OF assms] by blast

theorem bounded_author_witness:
  "IsAuthorAllowed (the (assign_roles sample_config (map sample_participant [3, 1, 2]))) 1 = (True, 1)"
proof -
  let ?sel = "the (assign_roles sample_config (map sample_participant [3, 1, 2]))"
  have "small_counts sample_config" by (simp add: small_counts_def sample_config_def)
  then have "roles_ok sample_config ?sel"
    using assign_roles_ok [of sample_config "map sample_participant [3, 1, 2]"] by force
  moreover have "IsAuthorAllowedBounded ?sel 1 = (True, 1)"
    by (simp add: assign_roles_eq sample_config_def IsAuthorAllowedBounded_def sample_participant_def)
  ultimately show ?thesis by (rule bounded_author [THEN conjunct1])
qed

text \<open>A missed-turn penalty never makes a bond negative or larger, for any slash rate of at most 10000 basis
  points, and \<open>SplitReward\<close> splits a reward into two non-negative parts that add up to it at every rate.\<close>

theorem penalty_and_split_bounds:
  assumes "hp_Bond p = Some b" and "0 \<le> b" and "hc_MinorSlashBps cfg \<le> 10000"
  shows "(\<exists>b'. hp_Bond (ApplyMissedTurnPenalty p block cfg) = Some b' \<and> 0 \<le> b' \<and> b' \<le> b)
    \<and> fst (SplitReward (Some b) bps) + snd (SplitReward (Some b) bps) = b
    \<and> 0 \<le> fst (SplitReward (Some b) bps)
    \<and> 0 \<le> snd (SplitReward (Some b) bps)"
  using ApplyMissedTurnPenalty_bond [OF assms] SplitReward_sum SplitReward_bounds [OF assms(2)] by blast

theorem penalty_and_split_bounds_witness:
  "\<exists>b'. hp_Bond (ApplyMissedTurnPenalty (sample_participant 4) 9 sample_config) = Some b' \<and> 0 \<le> b' \<and> b' \<le> 25"
  by (rule penalty_and_split_bounds [THEN conjunct1]) (simp_all add: sample_participant_def sample_config_def)

end
