(* ===== verification/Runtime_Registry.thy ===== *)
theory Runtime_Registry
  imports Hybrid
begin

text \<open>
  The in-memory registry of the engine (\<open>consensus/lqc/registry.go\<close>), the committee
  drawn from a snapshot of it (\<open>committee.go\<close>, \<open>snapshot.go\<close>, \<open>queue.go\<close>), the
  fallback windows (\<open>fallback.go\<close>), the seeds (\<open>seed.go\<close>), the producer modes
  (\<open>mode.go\<close>) and the participant set (\<open>participant_set.go\<close>). \<open>Find\<close> returns a
  pointer into the slice of entries; the model returns the index, and a write through the
  pointer is an update at the index. The package-level registry behind a mutex is passed as a value.
\<close>

section \<open>The registry\<close>

record RegistryEntry =
  re_Address :: address
  re_Registered :: bool
  re_Active :: bool
  re_JoinedBlock :: u64
  re_LastSeenBlock :: u64
  re_Weight :: u64

type_synonym Registry = "RegistryEntry list"

fun Find :: "Registry \<Rightarrow> address \<Rightarrow> nat option" where
  "Find [] addr = None"
| "Find (e # es) addr = (if re_Address e = addr then Some 0 else map_option Suc (Find es addr))"

definition refresh_entry :: "u64 \<Rightarrow> RegistryEntry \<Rightarrow> RegistryEntry" where
  "refresh_entry blockNumber e =
     (let e = e\<lparr>re_Registered := True, re_Active := True\<rparr>;
          e = (if re_JoinedBlock e = 0 then e\<lparr>re_JoinedBlock := blockNumber\<rparr> else e);
          e = (if re_Weight e = 0 then e\<lparr>re_Weight := 1\<rparr> else e)
      in e\<lparr>re_LastSeenBlock := blockNumber\<rparr>)"

definition new_entry :: "address \<Rightarrow> u64 \<Rightarrow> RegistryEntry" where
  "new_entry addr blockNumber = \<lparr>re_Address = addr, re_Registered = True, re_Active = True,
     re_JoinedBlock = blockNumber, re_LastSeenBlock = blockNumber, re_Weight = 1\<rparr>"

definition Register :: "Registry \<Rightarrow> address \<Rightarrow> u64 \<Rightarrow> Registry" where
  "Register r addr blockNumber =
     (if addr = 0 then r
      else case Find r addr of
        Some i \<Rightarrow> r[i := refresh_entry blockNumber (r ! i)]
      | None \<Rightarrow> r @ [new_entry addr blockNumber])"

definition seen_entry :: "u64 \<Rightarrow> RegistryEntry \<Rightarrow> RegistryEntry" where
  "seen_entry blockNumber e =
     (let e = e\<lparr>re_Active := True, re_LastSeenBlock := blockNumber\<rparr>
      in if re_Weight e = 0 then e\<lparr>re_Weight := 1\<rparr> else e)"

definition MarkSeen :: "Registry \<Rightarrow> address \<Rightarrow> u64 \<Rightarrow> Registry" where
  "MarkSeen r addr blockNumber =
     (if addr = 0 then r
      else
        let r = (case Find r addr of None \<Rightarrow> Register r addr blockNumber | Some _ \<Rightarrow> r)
        in case Find r addr of None \<Rightarrow> r
           | Some i \<Rightarrow> r[i := seen_entry blockNumber (r ! i)])"

definition activity_entry :: "u64 \<Rightarrow> u64 \<Rightarrow> RegistryEntry \<Rightarrow> RegistryEntry" where
  "activity_entry currentBlock activityWindow e =
     (if \<not> re_Registered e then e\<lparr>re_Active := False\<rparr>
      else if activityWindow = 0 then e\<lparr>re_Active := True\<rparr>
      else if currentBlock \<ge> re_LastSeenBlock e
              \<and> currentBlock - re_LastSeenBlock e \<le> activityWindow
        then e\<lparr>re_Active := True\<rparr>
      else e\<lparr>re_Active := False\<rparr>)"

definition ApplyActivityWindow :: "Registry \<Rightarrow> u64 \<Rightarrow> u64 \<Rightarrow> Registry" where
  "ApplyActivityWindow r currentBlock activityWindow =
     map (activity_entry currentBlock activityWindow) r"

definition ActiveEntries :: "Registry \<Rightarrow> RegistryEntry list" where
  "ActiveEntries r = filter (\<lambda>e. re_Registered e \<and> re_Active e) r"

record Participant =
  pt_Address :: address
  pt_Active :: bool
  pt_LastActiveBlock :: u64
  pt_Weight :: u64

record Snapshot =
  sn_BlockNumber :: u64
  sn_Participants :: "Participant list"

definition ToSnapshot :: "Registry \<Rightarrow> u64 \<Rightarrow> Snapshot" where
  "ToSnapshot r blockNumber = \<lparr>sn_BlockNumber = blockNumber,
     sn_Participants = map (\<lambda>e. \<lparr>pt_Address = re_Address e, pt_Active = True,
       pt_LastActiveBlock = re_LastSeenBlock e, pt_Weight = re_Weight e\<rparr>) (ActiveEntries r)\<rparr>"

definition ToHybridParticipants :: "Registry \<Rightarrow> HybridParticipant list" where
  "ToHybridParticipants r = map (\<lambda>e. \<lparr>hp_Address = re_Address e, hp_Payout = re_Address e,
     hp_NodeID = '''', hp_Bond = Some 25, hp_RegisteredAt = re_JoinedBlock e,
     hp_LastHeartbeat = re_LastSeenBlock e, hp_JailedUntil = 0, hp_MissedTurns = 0,
     hp_Status = (if re_Registered e \<and> re_Active e then ParticipantActiveCandidate
                  else ParticipantPendingActivation),
     hp_IsBootstrap = False\<rparr>) r"

definition merged_entry :: "RegistryEntry \<Rightarrow> RegistryEntry \<Rightarrow> RegistryEntry" where
  "merged_entry e existing =
     (let x = existing\<lparr>re_Registered := True, re_Active := True\<rparr>;
          x = (if re_JoinedBlock e > 0 then x\<lparr>re_JoinedBlock := re_JoinedBlock e\<rparr> else x)
      in if re_LastSeenBlock e > 0 then x\<lparr>re_LastSeenBlock := re_LastSeenBlock e\<rparr> else x)"

definition merge_entry :: "RegistryEntry \<Rightarrow> Registry \<Rightarrow> Registry" where
  "merge_entry e dst =
     (let dst = Register dst (re_Address e) (re_JoinedBlock e)
      in case Find dst (re_Address e) of None \<Rightarrow> dst
         | Some i \<Rightarrow> dst[i := merged_entry e (dst ! i)])"

definition mergeRegistry :: "Registry \<Rightarrow> Registry \<Rightarrow> Registry" where
  "mergeRegistry dst src = fold merge_entry src dst"

definition StaticTestParticipants :: "address list" where
  "StaticTestParticipants = []"

definition DevnetRegistry :: "address \<Rightarrow> Registry" where
  "DevnetRegistry coinbase0 =
     (let coinbase = (if coinbase0 = 0 then 0x74b8db40d1bC5B590bB8dBB62dCc60Eb2DaD8f12 else coinbase0)
      in MarkSeen (Register [] coinbase 0) coinbase 0)"

definition bootstrap_step :: "u64 \<Rightarrow> address \<Rightarrow> Registry \<Rightarrow> Registry" where
  "bootstrap_step blockNumber addr reg = MarkSeen (Register reg addr 0) addr blockNumber"

definition BootstrapRegistry :: "address list \<Rightarrow> u64 \<Rightarrow> Registry" where
  "BootstrapRegistry addrs blockNumber =
     fold (bootstrap_step blockNumber) (filter (\<lambda>a. a \<noteq> 0) addrs) []"

definition RealRegistry :: "Registry \<Rightarrow> u64 \<Rightarrow> address list \<Rightarrow> string \<Rightarrow> Registry" where
  "RealRegistry runtime blockNumber bootstrap mode =
     (if mode = ''bootstrap'' then mergeRegistry [] (BootstrapRegistry bootstrap blockNumber)
      else if mode = ''static'' then fold (bootstrap_step blockNumber) StaticTestParticipants []
      else fold (bootstrap_step blockNumber) StaticTestParticipants
             (mergeRegistry (mergeRegistry [] (BootstrapRegistry bootstrap blockNumber)) runtime))"

text \<open>\<open>RegisterParticipant\<close> and \<open>UpdateParticipantActivity\<close> change the package's registry and
  ignore the one they are given.\<close>

definition RegisterParticipant :: "Registry \<Rightarrow> Registry \<Rightarrow> address \<Rightarrow> u64 \<Rightarrow> Registry" where
  "RegisterParticipant runtime reg addr blockNumber = Register runtime addr blockNumber"

definition UpdateParticipantActivity :: "Registry \<Rightarrow> Registry \<Rightarrow> address \<Rightarrow> u64 \<Rightarrow> Registry" where
  "UpdateParticipantActivity runtime reg addr blockNumber = MarkSeen runtime addr blockNumber"

definition EligibleEntries :: "Registry \<Rightarrow> u64 \<Rightarrow> u64 \<Rightarrow> RegistryEntry list" where
  "EligibleEntries reg blockNumber activityWindow =
     ActiveEntries (ApplyActivityWindow reg blockNumber activityWindow)"

section \<open>Committee, queue and windows\<close>

definition Snapshot_ActiveParticipants :: "Snapshot \<Rightarrow> Participant list" where
  "Snapshot_ActiveParticipants s = filter pt_Active (sn_Participants s)"

definition DevnetSnapshot :: "address \<Rightarrow> u64 \<Rightarrow> u64 \<Rightarrow> Snapshot" where
  "DevnetSnapshot coinbase blockNumber activityWindow =
     (let reg = MarkSeen (DevnetRegistry coinbase) coinbase blockNumber;
          reg = ApplyActivityWindow reg blockNumber activityWindow
      in ToSnapshot reg blockNumber)"

definition ComputeCommitteeSizeWithBounds :: "u64 \<Rightarrow> u64 \<Rightarrow> u64 \<Rightarrow> u64" where
  "ComputeCommitteeSizeWithBounds active minSize maxSize =
     (let sz = (active + 9) div 10;
          sz = (if minSize > 0 \<and> sz < minSize then minSize else sz)
      in if maxSize > 0 \<and> sz > maxSize then maxSize else sz)"

definition ComputeCommitteeSize :: "u64 \<Rightarrow> u64" where
  "ComputeCommitteeSize active = ComputeCommitteeSizeWithBounds active 32 128"

definition participantOrderKey :: "crypto \<Rightarrow> hash \<Rightarrow> address \<Rightarrow> hash" where
  "participantOrderKey cr seed addr = Keccak256Hash cr [hash_bytes seed @ addr_bytes addr]"

definition SelectCommittee :: "crypto \<Rightarrow> Snapshot \<Rightarrow> hash \<Rightarrow> Participant list" where
  "SelectCommittee cr snapshot seed =
     (let active = sort_key (\<lambda>p. participantOrderKey cr seed (pt_Address p)) (Snapshot_ActiveParticipants snapshot);
          target = ComputeCommitteeSize (of_nat (length active))
      in if of_nat (length active) \<le> target then active else take (unat target) active)"

definition CommitteeAddresses :: "Participant list \<Rightarrow> address list" where
  "CommitteeAddresses committee = map pt_Address committee"

definition BuildQueue :: "Participant list \<Rightarrow> address list" where
  "BuildQueue committee = map pt_Address committee"

fun queue_pos_from :: "nat \<Rightarrow> address list \<Rightarrow> address \<Rightarrow> int" where
  "queue_pos_from i [] addr = -1"
| "queue_pos_from i (a # as) addr = (if a = addr then int i else queue_pos_from (Suc i) as addr)"

definition QueuePosition :: "address list \<Rightarrow> address \<Rightarrow> int" where
  "QueuePosition queue addr = queue_pos_from 0 queue addr"

definition BuildSeed :: "crypto \<Rightarrow> hash \<Rightarrow> u64 \<Rightarrow> hash" where
  "BuildSeed cr parentHash blockNumber = Keccak256Hash cr [hash_bytes parentHash @ u64_be blockNumber]"

record FallbackWindow =
  fw_SlotIndex :: "16 word"
  fw_StartSec :: u64
  fw_EndSec :: u64

definition BuildFallbackWindows :: "u64 \<Rightarrow> u64 \<Rightarrow> FallbackWindow list" where
  "BuildFallbackWindows fallbackSlots windowSec =
     (if fallbackSlots = 0 \<or> windowSec = 0 then []
      else map (\<lambda>i. \<lparr>fw_SlotIndex = of_nat i, fw_StartSec = of_nat i * windowSec,
                     fw_EndSec = of_nat i * windowSec + windowSec\<rparr>) [0..<unat fallbackSlots])"

datatype ProducerMode = ProducerModeByte byte

definition ProducerMode_Valid :: "ProducerMode \<Rightarrow> bool" where
  "ProducerMode_Valid m = (case m of ProducerModeByte b \<Rightarrow> b = 1 \<or> b = 2 \<or> b = 3)"

definition ProducerMode_String :: "ProducerMode \<Rightarrow> string" where
  "ProducerMode_String m = (case m of ProducerModeByte b \<Rightarrow>
     if b = 1 then ''devnet-single'' else if b = 2 then ''committee-queue''
     else if b = 3 then ''fallback-queue'' else ''unknown'')"

type_synonym ParticipantSet = "HybridParticipant list"

definition ParticipantSet_Count :: "ParticipantSet \<Rightarrow> nat" where
  "ParticipantSet_Count ps = length ps"

definition ParticipantSet_Add :: "ParticipantSet \<Rightarrow> HybridParticipant \<Rightarrow> ParticipantSet" where
  "ParticipantSet_Add ps p = ps @ [p]"


section \<open>Lookups and the invariant\<close>

lemma Find_None: "Find r a = None \<longleftrightarrow> a \<notin> re_Address ` set r"
  by (induction r) auto

lemma Find_Some: "Find r a = Some i \<Longrightarrow> i < length r \<and> re_Address (r ! i) = a"
  by (induction r arbitrary: i) (auto split: if_splits)

lemma Find_map:
  "(\<And>e. re_Address (f e) = re_Address e) \<Longrightarrow> Find (map f r) a = Find r a"
  by (induction r) auto

lemma Find_update:
  "i < length r \<Longrightarrow> re_Address e = re_Address (r ! i) \<Longrightarrow> Find (r[i := e]) a = Find r a"
  by (induction r arbitrary: i) (auto split: nat.splits)

lemma Find_append:
  "Find (r @ s) a = (case Find r a of Some i \<Rightarrow> Some i | None \<Rightarrow> map_option (\<lambda>i. i + length r) (Find s a))"
  by (induction r) (auto split: option.splits simp: option.map_comp comp_def option.map_ident)

definition entry :: "Registry \<Rightarrow> address \<Rightarrow> RegistryEntry option" where
  "entry r a = map_option (\<lambda>i. r ! i) (Find r a)"

definition reg_wf :: "Registry \<Rightarrow> bool" where
  "reg_wf r \<longleftrightarrow> distinct (map re_Address r) \<and> (\<forall>e \<in> set r. re_Address e \<noteq> 0 \<and> re_Registered e \<and> re_Weight e \<noteq> 0)"

lemma Find_nth_unique:
  assumes "distinct (map re_Address r)" and "j < length r"
  shows "Find r (re_Address (r ! j)) = Some j"
proof (cases "Find r (re_Address (r ! j))")
  case None
  then show ?thesis using assms(2) by (auto simp: Find_None)
next
  case (Some i)
  then show ?thesis
    using Find_Some [OF Some] assms by (auto simp: distinct_conv_nth)
qed

lemma entry_update:
  assumes "Find r a = Some i" and "re_Address e = a"
  shows "entry (r[i := e]) b = (if b = a then Some e else entry r b)"
proof -
  have i: "i < length r" "re_Address (r ! i) = a" using Find_Some [OF assms(1)] by auto
  have F: "Find (r[i := e]) b = Find r b" using i assms(2) by (intro Find_update) auto
  show ?thesis
  proof (cases "b = a")
    case True
    then show ?thesis using F assms(1) i by (simp add: entry_def)
  next
    case False
    then have "Find r b \<noteq> Some i" using Find_Some [of r b i] i(2) by auto
    then show ?thesis using False F by (cases "Find r b") (auto simp: entry_def)
  qed
qed

lemma entry_snoc: "Find r (re_Address e) = None \<Longrightarrow>
    entry (r @ [e]) b = (if b = re_Address e then Some e else entry r b)"
  using Find_Some [of r b] by (auto simp: entry_def Find_append nth_append split: option.splits)

lemma reg_wf_update:
  assumes "reg_wf r" and "i < length r" and "re_Address e = re_Address (r ! i)"
    and "re_Registered e" and "re_Weight e \<noteq> 0"
  shows "reg_wf (r[i := e])"
proof -
  have "map re_Address (r[i := e]) = map re_Address r"
    using assms(2,3) by (simp add: map_update list_update_same_conv)
  moreover have "re_Address e \<noteq> 0" using assms(1-3) by (simp add: reg_wf_def)
  ultimately show ?thesis
    using assms by (auto simp: reg_wf_def dest!: set_update_subset_insert [THEN subsetD])
qed

lemma reg_wf_snoc:
  "reg_wf r \<Longrightarrow> Find r (re_Address e) = None \<Longrightarrow> re_Address e \<noteq> 0 \<Longrightarrow> re_Registered e
     \<Longrightarrow> re_Weight e \<noteq> 0 \<Longrightarrow> reg_wf (r @ [e])"
  by (auto simp: reg_wf_def Find_None)

lemma entry_fields [simp]:
  "re_Address (refresh_entry n e) = re_Address e" "re_Registered (refresh_entry n e)"
  "re_Weight (refresh_entry n e) \<noteq> 0"
  "re_Address (seen_entry n e) = re_Address e" "re_Registered (seen_entry n e) = re_Registered e"
  "re_Weight (seen_entry n e) \<noteq> 0"
  "re_Address (merged_entry d e) = re_Address e" "re_Registered (merged_entry d e)"
  "re_Weight (merged_entry d e) = re_Weight e"
  "re_Address (activity_entry n w e) = re_Address e"
  "re_Registered (activity_entry n w e) = re_Registered e"
  "re_Weight (activity_entry n w e) = re_Weight e"
  "re_Address (new_entry a n) = a" "re_Registered (new_entry a n)" "re_Weight (new_entry a n) \<noteq> 0"
  by (simp_all add: refresh_entry_def seen_entry_def new_entry_def merged_entry_def
      activity_entry_def Let_def)

lemma reg_wf_nth: "reg_wf r \<Longrightarrow> i < length r \<Longrightarrow> re_Registered (r ! i) \<and> re_Weight (r ! i) \<noteq> 0"
  by (simp add: reg_wf_def)

lemma reg_wf_Nil [wf_intros]: "reg_wf []"
  by (simp add: reg_wf_def)

lemma reg_wf_Register [wf_intros]: "reg_wf r \<Longrightarrow> reg_wf (Register r a n)"
  unfolding Register_def
  by (auto split: option.splits dest: Find_Some intro!: reg_wf_update reg_wf_snoc)

lemma entry_Register:
  "entry (Register r a n) b =
     (if a \<noteq> 0 \<and> b = a
      then Some (case entry r a of Some e \<Rightarrow> refresh_entry n e | None \<Rightarrow> new_entry a n)
      else entry r b)"
proof (cases "a = 0 \<or> Find r a = None")
  case True
  then show ?thesis by (auto simp: Register_def entry_snoc) (simp add: entry_def)
next
  case False
  then obtain i where i: "a \<noteq> 0" "Find r a = Some i" by auto
  then show ?thesis
    using Find_Some [OF i(2)] entry_update [OF i(2), of "refresh_entry n (r ! i)" b]
    by (auto simp: Register_def entry_def [of r a])
qed

lemma reg_wf_MarkSeen [wf_intros]:
  assumes "reg_wf r"
  shows "reg_wf (MarkSeen r a n)"
proof -
  have "reg_wf s \<Longrightarrow> Find s a = Some i \<Longrightarrow> reg_wf (s[i := seen_entry n (s ! i)])" for s i
    using reg_wf_nth [of s i] by (auto dest: Find_Some intro!: reg_wf_update)
  then show ?thesis
    using assms reg_wf_Register [OF assms] by (auto simp: MarkSeen_def Let_def split: option.splits)
qed

lemma entry_seen:
  "Find r a = Some i \<Longrightarrow> entry (r[i := f (r ! i)]) b = (if b = a then map_option f (entry r a) else entry r b)"
  if "\<And>e. re_Address (f e) = re_Address e" for f
  using that entry_update [of r a i "f (r ! i)" b] by (auto simp: entry_def [of r a] dest: Find_Some)

lemma Find_entry: "Find r a = None \<longleftrightarrow> entry r a = None"
  by (simp add: entry_def)

lemma entry_MarkSeen:
  "entry (MarkSeen r a n) b =
     (if a \<noteq> 0 \<and> b = a
      then Some (seen_entry n (case entry r a of Some e \<Rightarrow> e | None \<Rightarrow> new_entry a n))
      else entry r b)"
proof (cases "a = 0")
  case True
  then show ?thesis by (simp add: MarkSeen_def)
next
  case False
  let ?s = "case Find r a of None \<Rightarrow> Register r a n | Some _ \<Rightarrow> r"
  have s: "entry ?s b = (if b = a then Some (case entry r a of Some e \<Rightarrow> e | None \<Rightarrow> new_entry a n)
      else entry r b)" for b
    using False by (cases "Find r a") (auto simp: entry_Register entry_def [of r a])
  then obtain i where i: "Find ?s a = Some i" using Find_entry [of ?s a] by fastforce
  have "entry (MarkSeen r a n) b = entry (?s[i := seen_entry n (?s ! i)]) b"
    using False i by (simp add: MarkSeen_def Let_def)
  also have "\<dots> = (if b = a then map_option (seen_entry n) (entry ?s a) else entry ?s b)"
    by (rule entry_seen [OF _ i]) simp
  finally show ?thesis using s False by simp
qed

lemma reg_wf_ApplyActivityWindow [wf_intros]:
  "reg_wf r \<Longrightarrow> reg_wf (ApplyActivityWindow r n w)"
  by (auto simp: reg_wf_def ApplyActivityWindow_def comp_def)

lemma reg_wf_merge_entry [wf_intros]:
  assumes "reg_wf r"
  shows "reg_wf (merge_entry e r)"
proof -
  have "reg_wf (Register r (re_Address e) (re_JoinedBlock e))" using assms by (rule wf_intros)
  then show ?thesis
    by (auto simp: merge_entry_def Let_def split: option.splits dest!: Find_Some
        intro!: reg_wf_update dest: reg_wf_nth)
qed

lemma reg_wf_fold:
  "(\<And>x r. reg_wf r \<Longrightarrow> reg_wf (f x r)) \<Longrightarrow> reg_wf r \<Longrightarrow> reg_wf (fold f xs r)"
  by (induction xs arbitrary: r) auto

lemma reg_wf_RealRegistry: "reg_wf (RealRegistry runtime n bootstrap mode)"
  unfolding RealRegistry_def mergeRegistry_def BootstrapRegistry_def bootstrap_step_def
    StaticTestParticipants_def
  by (auto intro!: reg_wf_fold wf_intros)

text \<open>The registry is a keyed store for registration and for activity.\<close>

interpretation reg: keyed_store entry reg_wf "\<lambda>(a, n) r. Register r a n" fst
  "\<lambda>(a, n) e. if a \<noteq> 0 then Some (case e of Some e \<Rightarrow> refresh_entry n e | None \<Rightarrow> new_entry a n) else e"
  by unfold_locales (auto simp: entry_Register intro: wf_intros)

interpretation seen: keyed_store entry reg_wf "\<lambda>(a, n) r. MarkSeen r a n" fst
  "\<lambda>(a, n) e. if a \<noteq> 0
     then Some (seen_entry n (case e of Some e \<Rightarrow> e | None \<Rightarrow> new_entry a n)) else e"
  by unfold_locales (auto simp: entry_MarkSeen intro: wf_intros)

section \<open>Properties\<close>

lemma ComputeCommitteeSize_bounds: "32 \<le> ComputeCommitteeSize n" "ComputeCommitteeSize n \<le> 128"
  by (auto simp: ComputeCommitteeSize_def ComputeCommitteeSizeWithBounds_def Let_def)

lemma SelectCommittee_take:
  assumes "length (Snapshot_ActiveParticipants s) < 2 ^ 64"
  shows "SelectCommittee cr s seed =
    take (unat (ComputeCommitteeSize (of_nat (length (Snapshot_ActiveParticipants s)))))
      (sort_key (\<lambda>p. participantOrderKey cr seed (pt_Address p)) (Snapshot_ActiveParticipants s))"
proof -
  have "unat (of_nat (length (Snapshot_ActiveParticipants s)) :: u64) = length (Snapshot_ActiveParticipants s)"
    using assms by (simp add: unat_of_nat)
  then show ?thesis by (auto simp: SelectCommittee_def Let_def word_le_nat_alt)
qed

text \<open>The committee of a snapshot consists of the active participants with the smallest keys for the seed: everyone
  when at most the target size is active, otherwise exactly the target size, which always lies between 32 and 128,
  and nobody left out has a smaller key than a member.\<close>

theorem committee_selected:
  assumes "length (Snapshot_ActiveParticipants s) < 2 ^ 64"
  defines "target \<equiv> ComputeCommitteeSize (of_nat (length (Snapshot_ActiveParticipants s)))"
  shows "length (SelectCommittee cr s seed) = min (length (Snapshot_ActiveParticipants s)) (unat target)
    \<and> 32 \<le> target
    \<and> target \<le> 128
    \<and> (\<exists>rest. mset (SelectCommittee cr s seed @ rest) = mset (Snapshot_ActiveParticipants s)
      \<and> (\<forall>p \<in> set (SelectCommittee cr s seed). \<forall>q \<in> set rest.
           participantOrderKey cr seed (pt_Address p) \<le> participantOrderKey cr seed (pt_Address q)))"
proof -
  let ?k = "\<lambda>p. participantOrderKey cr seed (pt_Address p)"
  let ?xs = "sort_key ?k (Snapshot_ActiveParticipants s)"
  have c: "SelectCommittee cr s seed = take (unat target) ?xs"
    unfolding target_def by (rule SelectCommittee_take [OF assms(1)])
  have c1: "length (SelectCommittee cr s seed) = min (length (Snapshot_ActiveParticipants s)) (unat target)"
    unfolding c by simp
  have c2: "32 \<le> target" "target \<le> 128" unfolding target_def by (rule ComputeCommitteeSize_bounds)+
  have "mset (take (unat target) ?xs @ drop (unat target) ?xs) = mset (Snapshot_ActiveParticipants s)"
    by (simp only: append_take_drop_id mset_sort)
  moreover have "\<forall>p \<in> set (take (unat target) ?xs). \<forall>q \<in> set (drop (unat target) ?xs). ?k p \<le> ?k q"
    using take_sorted_split [of ?k ?xs] sorted_sort_key [of ?k] by blast
  ultimately have c3: "\<exists>rest. mset (SelectCommittee cr s seed @ rest) = mset (Snapshot_ActiveParticipants s)
      \<and> (\<forall>p \<in> set (SelectCommittee cr s seed). \<forall>q \<in> set rest. ?k p \<le> ?k q)"
    unfolding c by blast
  from c1 c2 c3 show ?thesis by blast
qed

theorem committee_selected_witness:
  "length (SelectCommittee sample_crypto (DevnetSnapshot 7 5 10) 3) = 1"
proof -
  have a: "length (Snapshot_ActiveParticipants (DevnetSnapshot 7 5 10)) = 1"
    by (simp add: DevnetSnapshot_def DevnetRegistry_def MarkSeen_def Register_def new_entry_def seen_entry_def
        ApplyActivityWindow_def activity_entry_def ToSnapshot_def ActiveEntries_def Snapshot_ActiveParticipants_def Let_def)
  show ?thesis
    using committee_selected [of "DevnetSnapshot 7 5 10" sample_crypto 3]
      ComputeCommitteeSize_bounds(1) [of 1] by (simp add: a word_le_nat_alt)
qed

text \<open>The in-memory registry has at most one entry per address, each registered with a non-zero weight, whatever
  bootstrap list, mode and history it is built from; registering or seeing an address changes that address's entry
  only, and marking it seen leaves it active at that block.\<close>

theorem runtime_registry_updates:
  assumes "reg_wf r"
  shows "reg_wf (Register r a n)
    \<and> reg_wf (MarkSeen r a n)
    \<and> reg_wf (ApplyActivityWindow r n w)
    \<and> reg_wf (RealRegistry r n bootstrap mode)
    \<and> (b \<noteq> a \<longrightarrow> entry (Register r a n) b = entry r b \<and> entry (MarkSeen r a n) b = entry r b)
    \<and> (a \<noteq> 0 \<longrightarrow> (\<exists>e. entry (MarkSeen r a n) a = Some e \<and> re_Active e \<and> re_LastSeenBlock e = n
      \<and> (\<forall>e0. entry r a = Some e0 \<longrightarrow> re_JoinedBlock e = re_JoinedBlock e0)))"
  using assms reg_wf_Register reg_wf_MarkSeen reg_wf_ApplyActivityWindow reg_wf_RealRegistry
  by (auto simp: entry_Register entry_MarkSeen seen_entry_def Let_def split: option.splits)

theorem runtime_registry_updates_witness:
  "reg_wf (MarkSeen [] 7 5) \<and> (\<exists>e. entry (MarkSeen [] 7 5) 7 = Some e \<and> re_Active e \<and> re_LastSeenBlock e = 5)"
  using runtime_registry_updates [OF reg_wf_Nil, of 7 5 1 "[]" "[]" 8] by auto

end
