(* ===== verification/Canonical_Registry.thy ===== *)
theory Canonical_Registry
  imports Hybrid RLP_Decode
begin

text \<open>
  The consensus registry of producers (\<open>consensus/lqc/canonical_registry.go\<close>): signed
  operations, their validation and application, the eligible set and the production queue of a
  block, the liveness penalties, and the root every header commits to. The receiver
  of every method is a registry value (never nil); a method that changes it returns the new
  one, and every failing method leaves it as it was. \<open>big.Int\<close> chain identifiers are natural numbers, a nil
  one being 0 as the code replaces it.
\<close>

section \<open>Types and constants\<close>

text \<open>The errors of the registry, of its header envelope (\<open>registry_header.go\<close>), of the snapshots
  (\<open>registry_snapshot.go\<close>) and of the pool (\<open>registry_pool.go\<close>).\<close>

datatype registry_error =
    ErrInvalidRegistryVersion
  | ErrInvalidRegistryAction
  | ErrInvalidRegistryAddress
  | ErrInvalidRegistrySequence
  | ErrExpiredRegistryOperation
  | ErrRegistryOperationTooFar
  | ErrInvalidRegistrySignature
  | ErrInvalidLightHashProof
  | ErrParticipantNotActive
  | ErrParticipantAlreadyActive
  | ErrInvalidRegistryHeaderExtra
  | ErrUnsupportedRegistryHeader
  | ErrRegistryHeaderBlockMismatch
  | ErrInvalidRegistryRoot
  | ErrTooManyRegistryOperations
  | ErrDuplicateRegistryOperation
  | ErrNonCanonicalRegistryOperations
  | ErrInvalidRegistrySnapshot
  | ErrRegistrySnapshotChainMismatch
  | ErrRegistryRootMismatch
  | ErrUnauthorizedRegistryProducer
  | ErrRegistryPoolFull
  | ErrRegistryOperationKnown
  | ErrRegistryOperationPending

definition RegistryProtocolVersion :: u8 where
  "RegistryProtocolVersion = 1"

definition MaxRegistryOperationLifetime :: u64 where
  "MaxRegistryOperationLifetime = 256"

definition RegistryActionRegister :: u8 where
  "RegistryActionRegister = 1"

definition RegistryActionHeartbeat :: u8 where
  "RegistryActionHeartbeat = 2"

definition RegistryActionExit :: u8 where
  "RegistryActionExit = 3"

definition registrySigningDomain :: bytes where
  "registrySigningDomain = ascii ''RABBIT-LQC-REGISTRY-V1''"

definition registryRootDomain :: bytes where
  "registryRootDomain = ascii ''RABBIT-LQC-REGISTRY-ROOT-V1''"

record RegistryOperation =
  op_Version :: u8
  op_Action :: u8
  op_Address :: address
  op_Sequence :: u64
  op_ValidUntil :: u64
  op_ProofNonce :: u64
  op_Signature :: bytes

record CanonicalParticipant =
  cp_Address :: address
  cp_RegisteredAt :: u64
  cp_LastHeartbeat :: u64
  cp_MissedTurns :: u64
  cp_JailedUntil :: u64
  cp_Sequence :: u64
  cp_Active :: bool

type_synonym CanonicalRegistry = "(address, CanonicalParticipant) fmap"

definition zeroParticipant :: CanonicalParticipant where
  "zeroParticipant = \<lparr>cp_Address = 0, cp_RegisteredAt = 0, cp_LastHeartbeat = 0,
     cp_MissedTurns = 0, cp_JailedUntil = 0, cp_Sequence = 0, cp_Active = False\<rparr>"

definition NewCanonicalRegistry :: CanonicalRegistry where
  "NewCanonicalRegistry = fmempty"

definition Registry_Participant :: "CanonicalRegistry \<Rightarrow> address \<Rightarrow> CanonicalParticipant \<times> bool" where
  "Registry_Participant r addr =
     (case fmlookup r addr of Some p \<Rightarrow> (p, True) | None \<Rightarrow> (zeroParticipant, False))"

section \<open>Open activation and recovery\<close>

definition ActivatePermissionlessProducer ::
  "CanonicalRegistry \<Rightarrow> address \<Rightarrow> u64 \<Rightarrow> registry_error + CanonicalRegistry" where
  "ActivatePermissionlessProducer r addr blockNumber =
     (if addr = 0 then Inl ErrInvalidRegistryAddress
      else
        let participant = (case fmlookup r addr of
              None \<Rightarrow> zeroParticipant\<lparr>cp_Address := addr, cp_RegisteredAt := blockNumber,
                cp_LastHeartbeat := blockNumber, cp_Sequence := 0, cp_Active := True\<rparr>
            | Some p \<Rightarrow> p\<lparr>cp_Active := True, cp_RegisteredAt := blockNumber,
                cp_LastHeartbeat := blockNumber, cp_MissedTurns := 0, cp_JailedUntil := 0,
                cp_Sequence := 0\<rparr>)
        in Inr (fmupd addr participant r))"

definition RecoverPermissionlessProducer ::
  "CanonicalRegistry \<Rightarrow> address \<Rightarrow> u64 \<Rightarrow> registry_error + CanonicalRegistry" where
  "RecoverPermissionlessProducer r addr blockNumber =
     (if addr = 0 then Inl ErrInvalidRegistryAddress
      else case fmlookup r addr of
        None \<Rightarrow> ActivatePermissionlessProducer r addr blockNumber
      | Some p \<Rightarrow> Inr (fmupd addr (p\<lparr>cp_Active := True, cp_LastHeartbeat := blockNumber,
          cp_MissedTurns := 0, cp_JailedUntil := 0\<rparr>) r))"

section \<open>Participants, eligibility and the production queue\<close>

definition Participants :: "CanonicalRegistry \<Rightarrow> CanonicalParticipant list" where
  "Participants r = sort_key cp_Address (fmvals r)"

definition ActiveParticipants :: "CanonicalRegistry \<Rightarrow> u64 \<Rightarrow> u64 \<Rightarrow> u64 \<Rightarrow> CanonicalParticipant list" where
  "ActiveParticipants r blockNumber heartbeatWindow heartbeatGrace = filter cp_Active (Participants r)"

text \<open>\<open>checkedRegistryBlockAdd\<close>: the sum of its arguments unless it overflows.\<close>

fun checked_add_from :: "u64 \<Rightarrow> u64 list \<Rightarrow> u64 option" where
  "checked_add_from tot [] = Some tot"
| "checked_add_from tot (v # vs) =
     (if maxU64 - tot < v then None else checked_add_from (tot + v) vs)"

definition checkedRegistryBlockAdd :: "u64 list \<Rightarrow> u64 option" where
  "checkedRegistryBlockAdd values = checked_add_from 0 values"

definition participant_eligible :: "u64 \<Rightarrow> u64 \<Rightarrow> CanonicalParticipant \<Rightarrow> bool" where
  "participant_eligible blockNumber activationDelay p =
     (if \<not> cp_Active p then False
      else if cp_Sequence p \<noteq> 0 then
        (case checkedRegistryBlockAdd [cp_RegisteredAt p, 1, activationDelay] of
           None \<Rightarrow> False
         | Some eligibleAt \<Rightarrow> \<not> blockNumber < eligibleAt)
      else True)"

definition EligibleParticipants ::
  "CanonicalRegistry \<Rightarrow> u64 \<Rightarrow> u64 \<Rightarrow> u64 \<Rightarrow> u64 \<Rightarrow> CanonicalParticipant list" where
  "EligibleParticipants r blockNumber activationDelay heartbeatWindow heartbeatGrace =
     filter (participant_eligible blockNumber activationDelay) (Participants r)"

definition queue_candidate :: "CanonicalParticipant \<Rightarrow> HybridParticipant" where
  "queue_candidate p = \<lparr>hp_Address = cp_Address p, hp_Payout = cp_Address p, hp_NodeID = '''',
     hp_Bond = Some 0, hp_RegisteredAt = cp_RegisteredAt p, hp_LastHeartbeat = cp_LastHeartbeat p,
     hp_JailedUntil = cp_JailedUntil p, hp_MissedTurns = cp_MissedTurns p,
     hp_Status = ParticipantActiveCandidate, hp_IsBootstrap = False\<rparr>"

definition OrderedParticipantsForBlock ::
  "crypto \<Rightarrow> CanonicalRegistry \<Rightarrow> hash \<Rightarrow> u64 \<Rightarrow> u64 \<Rightarrow> u64 \<Rightarrow> u64 \<Rightarrow> HybridParticipant list" where
  "OrderedParticipantsForBlock cr r parentHash blockNumber activationDelay heartbeatWindow heartbeatGrace =
     (let eligible = EligibleParticipants r blockNumber activationDelay heartbeatWindow heartbeatGrace;
          penalized = map queue_candidate (filter (\<lambda>p. cp_JailedUntil p > blockNumber) eligible);
          ready = map queue_candidate (filter (\<lambda>p. \<not> cp_JailedUntil p > blockNumber) eligible);
          ordered = DeterministicallyOrderParticipants cr ready parentHash blockNumber
      in if penalized \<noteq> []
         then ordered @ DeterministicallyOrderParticipants cr penalized parentHash blockNumber
         else ordered)"

definition IsEligibleParticipant ::
  "CanonicalRegistry \<Rightarrow> address \<Rightarrow> u64 \<Rightarrow> u64 \<Rightarrow> u64 \<Rightarrow> u64 \<Rightarrow> bool" where
  "IsEligibleParticipant r addr blockNumber activationDelay heartbeatWindow heartbeatGrace =
     list_ex (\<lambda>p. cp_Address p = addr)
       (EligibleParticipants r blockNumber activationDelay heartbeatWindow heartbeatGrace)"

section \<open>Commitments and signatures\<close>

definition participant_val :: "CanonicalParticipant \<Rightarrow> rlp_val" where
  "participant_val p = VStruct [VArray (addr_bytes (cp_Address p)), VUint (cp_RegisteredAt p),
     VUint (cp_LastHeartbeat p), VUint (cp_MissedTurns p), VUint (cp_JailedUntil p),
     VUint (cp_Sequence p), VBool (cp_Active p)]"

definition registryRootPayload :: "CanonicalRegistry \<Rightarrow> rlp_val" where
  "registryRootPayload r =
     VStruct [VBytes registryRootDomain, VSlice (map participant_val (Participants r))]"

definition Root :: "crypto \<Rightarrow> CanonicalRegistry \<Rightarrow> hash" where
  "Root cr r = Keccak256Hash cr [EncodeToBytes (registryRootPayload r)]"

definition registrySigningPayload :: "nat \<Rightarrow> RegistryOperation \<Rightarrow> rlp_val" where
  "registrySigningPayload chainID operation = VStruct [VBytes registrySigningDomain,
     VUint (ucast (op_Version operation)), VBig chainID, VUint (ucast (op_Action operation)),
     VArray (addr_bytes (op_Address operation)), VUint (op_Sequence operation),
     VUint (op_ValidUntil operation), VUint (op_ProofNonce operation)]"

definition RegistryOperationSigningHash :: "crypto \<Rightarrow> nat \<Rightarrow> RegistryOperation \<Rightarrow> hash" where
  "RegistryOperationSigningHash cr chainID operation =
     Keccak256Hash cr [EncodeToBytes (registrySigningPayload chainID operation)]"

definition LightHashMeetsDifficulty :: "hash \<Rightarrow> u64 \<Rightarrow> bool" where
  "LightHashMeetsDifficulty h difficulty =
     (if difficulty = 0 then False else unat h < 2 ^ 256 div unat difficulty)"

definition RecoverRegistryOperationSigner ::
  "crypto \<Rightarrow> nat \<Rightarrow> RegistryOperation \<Rightarrow> registry_error + address" where
  "RecoverRegistryOperationSigner cr chainID operation =
     (if length (op_Signature operation) \<noteq> SignatureLength then Inl ErrInvalidRegistrySignature
      else if \<not> sig_values_ok (op_Signature operation) then Inl ErrInvalidRegistrySignature
      else case sigToAddress cr (RegistryOperationSigningHash cr chainID operation)
                  (op_Signature operation) of
        None \<Rightarrow> Inl ErrInvalidRegistrySignature
      | Some addr \<Rightarrow> Inr addr)"

definition RegistryOperationWalletMessage :: "crypto \<Rightarrow> nat \<Rightarrow> RegistryOperation \<Rightarrow> bytes" where
  "RegistryOperationWalletMessage cr chainID operation =
     ascii ''Rabbit Chain LQC Registry'' @ [10]
     @ ascii ''Domain: '' @ registrySigningDomain @ [10]
     @ ascii ''Chain ID: '' @ dec_bytes chainID @ [10]
     @ ascii ''Version: '' @ dec_bytes (unat (op_Version operation)) @ [10]
     @ ascii ''Action: '' @ dec_bytes (unat (op_Action operation)) @ [10]
     @ ascii ''Address: '' @ checksumHex cr (op_Address operation) @ [10]
     @ ascii ''Sequence: '' @ dec_bytes (unat (op_Sequence operation)) @ [10]
     @ ascii ''Valid Until: '' @ dec_bytes (unat (op_ValidUntil operation)) @ [10]
     @ ascii ''Proof Nonce: '' @ dec_bytes (unat (op_ProofNonce operation))"

definition RegistryOperationWalletSigningHash :: "crypto \<Rightarrow> nat \<Rightarrow> RegistryOperation \<Rightarrow> hash" where
  "RegistryOperationWalletSigningHash cr chainID operation =
     (let message = RegistryOperationWalletMessage cr chainID operation;
          prefix = [0x19] @ ascii ''Ethereum Signed Message:'' @ [10] @ dec_bytes (length message)
      in Keccak256Hash cr [prefix, message])"

definition RecoverRegistryOperationWalletSigner ::
  "crypto \<Rightarrow> nat \<Rightarrow> RegistryOperation \<Rightarrow> registry_error + address" where
  "RecoverRegistryOperationWalletSigner cr chainID operation =
     (if length (op_Signature operation) \<noteq> SignatureLength then Inl ErrInvalidRegistrySignature
      else
        let v0 = op_Signature operation ! 64;
            v = (if v0 \<ge> 27 then v0 - 27 else v0);
            signature = (op_Signature operation)[64 := v]
        in if v > 1 then Inl ErrInvalidRegistrySignature
           else if \<not> sig_values_ok signature then Inl ErrInvalidRegistrySignature
           else case sigToAddress cr (RegistryOperationWalletSigningHash cr chainID operation) signature of
             None \<Rightarrow> Inl ErrInvalidRegistrySignature
           | Some addr \<Rightarrow> Inr addr)"

section \<open>Operations\<close>

definition ValidateRegistryOperation ::
  "crypto \<Rightarrow> nat \<Rightarrow> u64 \<Rightarrow> u64 \<Rightarrow> RegistryOperation \<Rightarrow> registry_error option" where
  "ValidateRegistryOperation cr chainID blockNumber proofDifficulty operation =
     (if op_Version operation \<noteq> RegistryProtocolVersion then Some ErrInvalidRegistryVersion
      else if op_Action operation < RegistryActionRegister \<or> op_Action operation > RegistryActionExit
        then Some ErrInvalidRegistryAction
      else if op_Address operation = 0 then Some ErrInvalidRegistryAddress
      else if op_Sequence operation = 0 then Some ErrInvalidRegistrySequence
      else if op_ValidUntil operation < blockNumber then Some ErrExpiredRegistryOperation
      else if (case checkedRegistryBlockAdd [blockNumber, MaxRegistryOperationLifetime] of
                 None \<Rightarrow> True | Some maxValidUntil \<Rightarrow> op_ValidUntil operation > maxValidUntil)
        then Some ErrRegistryOperationTooFar
      else if RecoverRegistryOperationSigner cr chainID operation \<noteq> Inr (op_Address operation)
            \<and> RecoverRegistryOperationWalletSigner cr chainID operation \<noteq> Inr (op_Address operation)
        then Some ErrInvalidRegistrySignature
      else if op_Action operation = RegistryActionRegister
            \<and> \<not> LightHashMeetsDifficulty (RegistryOperationSigningHash cr chainID operation) proofDifficulty
        then Some ErrInvalidLightHashProof
      else None)"

definition ApplyOperation ::
  "crypto \<Rightarrow> nat \<Rightarrow> u64 \<Rightarrow> u64 \<Rightarrow> RegistryOperation \<Rightarrow> CanonicalRegistry
    \<Rightarrow> registry_error + CanonicalRegistry" where
  "ApplyOperation cr chainID blockNumber proofDifficulty operation r =
     (case ValidateRegistryOperation cr chainID blockNumber proofDifficulty operation of
        Some err \<Rightarrow> Inl err
      | None \<Rightarrow>
        let found = fmlookup r (op_Address operation);
            wantSequence = (case found of None \<Rightarrow> 1 | Some p \<Rightarrow> cp_Sequence p + 1)
        in if found \<noteq> None \<and> wantSequence = 0 then Inl ErrInvalidRegistrySequence
           else if op_Sequence operation \<noteq> wantSequence then Inl ErrInvalidRegistrySequence
           else if op_Action operation = RegistryActionRegister then
             (if (case found of None \<Rightarrow> False | Some p \<Rightarrow> cp_Active p) then Inl ErrParticipantAlreadyActive
              else Inr (fmupd (op_Address operation)
                (zeroParticipant\<lparr>cp_Address := op_Address operation, cp_RegisteredAt := blockNumber,
                   cp_LastHeartbeat := blockNumber, cp_Sequence := op_Sequence operation,
                   cp_Active := True\<rparr>) r))
           else if op_Action operation = RegistryActionHeartbeat then
             (case found of None \<Rightarrow> Inl ErrParticipantNotActive
              | Some p \<Rightarrow> Inr (fmupd (op_Address operation)
                  (p\<lparr>cp_LastHeartbeat := blockNumber, cp_Sequence := op_Sequence operation\<rparr>) r))
           else
             (case found of None \<Rightarrow> Inl ErrParticipantNotActive
              | Some p \<Rightarrow> if \<not> cp_Active p then Inl ErrParticipantNotActive
                  else Inr (fmupd (op_Address operation)
                    (p\<lparr>cp_Sequence := op_Sequence operation, cp_Active := False\<rparr>) r)))"


section \<open>Liveness\<close>

definition clear_liveness :: "CanonicalParticipant \<Rightarrow> CanonicalParticipant" where
  "clear_liveness p = p\<lparr>cp_MissedTurns := 0, cp_JailedUntil := 0\<rparr>"

definition reset_entry :: "address \<Rightarrow> CanonicalRegistry \<Rightarrow> CanonicalRegistry" where
  "reset_entry addr r =
     fmupd addr (clear_liveness (case fmlookup r addr of Some p \<Rightarrow> p | None \<Rightarrow> zeroParticipant)) r"

definition ResetWorkSeatLiveness ::
  "CanonicalRegistry \<Rightarrow> address list \<Rightarrow> registry_error + CanonicalRegistry" where
  "ResetWorkSeatLiveness r addresses =
     (case first_err (\<lambda>addr. if addr = 0 then Some ErrInvalidRegistryAddress
                             else if fmlookup r addr = None then Some ErrParticipantNotActive
                             else None) addresses of
        Some err \<Rightarrow> Inl err
      | None \<Rightarrow> Inr (fold reset_entry addresses r))"

fun check_seen :: "address set \<Rightarrow> address list \<Rightarrow> registry_error option" where
  "check_seen seen [] = None"
| "check_seen seen (addr # addrs) =
     (if addr = 0 then Some ErrInvalidRegistryAddress
      else if addr \<in> seen then Some ErrInvalidRegistryAddress
      else check_seen (insert addr seen) addrs)"

definition restore_entry :: "CanonicalParticipant \<Rightarrow> address \<Rightarrow> CanonicalRegistry \<Rightarrow> CanonicalRegistry" where
  "restore_entry fresh addr r =
     fmupd addr (clear_liveness (case fmlookup r addr of Some p \<Rightarrow> p
                                 | None \<Rightarrow> fresh\<lparr>cp_Address := addr\<rparr>)) r"

definition RestoreWorkSeatLiveness ::
  "CanonicalRegistry \<Rightarrow> address list \<Rightarrow> u64 \<Rightarrow> registry_error + CanonicalRegistry" where
  "RestoreWorkSeatLiveness r addresses blockNumber =
     (case check_seen {} addresses of
        Some err \<Rightarrow> Inl err
      | None \<Rightarrow> Inr (fold (restore_entry (zeroParticipant\<lparr>cp_RegisteredAt := blockNumber,
          cp_LastHeartbeat := blockNumber\<rparr>)) addresses r))"

definition RestoreWorkSeatLivenessLegacy ::
  "CanonicalRegistry \<Rightarrow> address list \<Rightarrow> u64 \<Rightarrow> registry_error + CanonicalRegistry" where
  "RestoreWorkSeatLivenessLegacy r addresses blockNumber =
     (case check_seen {} addresses of
        Some err \<Rightarrow> Inl err
      | None \<Rightarrow> Inr (fold (restore_entry (zeroParticipant\<lparr>cp_RegisteredAt := blockNumber\<rparr>))
          addresses r))"

definition MarkWorkSeatProducerHeartbeat ::
  "CanonicalRegistry \<Rightarrow> address \<Rightarrow> u64 \<Rightarrow> registry_error + CanonicalRegistry" where
  "MarkWorkSeatProducerHeartbeat r addr blockNumber =
     (if addr = 0 then Inl ErrInvalidRegistryAddress
      else
        let participant = (case fmlookup r addr of Some p \<Rightarrow> p
              | None \<Rightarrow> zeroParticipant\<lparr>cp_Address := addr, cp_RegisteredAt := blockNumber\<rparr>)
        in Inr (fmupd addr (participant\<lparr>cp_LastHeartbeat := blockNumber, cp_MissedTurns := 0,
             cp_JailedUntil := 0\<rparr>) r))"

text \<open>The step both missed-turn methods take on a participant that is not serving a penalty.\<close>

definition miss_turn :: "u64 \<Rightarrow> u64 \<Rightarrow> u64 \<Rightarrow> CanonicalParticipant \<Rightarrow> CanonicalParticipant" where
  "miss_turn blockNumber maxMissedTurns0 jailBlocks0 p =
     (let maxMissedTurns = (if maxMissedTurns0 = 0 then 3 else maxMissedTurns0);
          jailBlocks = (if jailBlocks0 = 0 then 256 else jailBlocks0);
          p = (if cp_MissedTurns p \<noteq> maxU64 then p\<lparr>cp_MissedTurns := cp_MissedTurns p + 1\<rparr> else p)
      in if cp_MissedTurns p \<ge> maxMissedTurns then
           p\<lparr>cp_MissedTurns := 0,
             cp_JailedUntil := (case checkedRegistryBlockAdd [blockNumber, jailBlocks] of
                                  Some until \<Rightarrow> until | None \<Rightarrow> maxU64)\<rparr>
         else p)"

definition ApplyWorkSeatMissedTurn ::
  "CanonicalRegistry \<Rightarrow> address \<Rightarrow> u64 \<Rightarrow> u64 \<Rightarrow> u64 \<Rightarrow> registry_error + CanonicalRegistry" where
  "ApplyWorkSeatMissedTurn r addr blockNumber maxMissedTurns jailBlocks =
     (case fmlookup r addr of
        None \<Rightarrow> Inl ErrParticipantNotActive
      | Some p \<Rightarrow>
          if cp_JailedUntil p > blockNumber then Inr r
          else Inr (fmupd addr (miss_turn blockNumber maxMissedTurns jailBlocks p) r))"

definition MarkProducerHeartbeat ::
  "CanonicalRegistry \<Rightarrow> address \<Rightarrow> u64 \<Rightarrow> registry_error + CanonicalRegistry" where
  "MarkProducerHeartbeat r addr blockNumber =
     (case fmlookup r addr of
        None \<Rightarrow> Inl ErrParticipantNotActive
      | Some p \<Rightarrow>
          if \<not> cp_Active p then Inl ErrParticipantNotActive
          else Inr (fmupd addr (p\<lparr>cp_LastHeartbeat := blockNumber, cp_MissedTurns := 0,
                 cp_JailedUntil := 0\<rparr>) r))"

definition ApplyMissedTurn ::
  "CanonicalRegistry \<Rightarrow> address \<Rightarrow> u64 \<Rightarrow> u64 \<Rightarrow> u64 \<Rightarrow> registry_error + CanonicalRegistry" where
  "ApplyMissedTurn r addr blockNumber maxMissedTurns jailBlocks =
     (case fmlookup r addr of
        None \<Rightarrow> Inl ErrParticipantNotActive
      | Some p \<Rightarrow>
          if \<not> cp_Active p then Inl ErrParticipantNotActive
          else if cp_JailedUntil p > blockNumber then Inr r
          else Inr (fmupd addr (miss_turn blockNumber maxMissedTurns jailBlocks p) r))"

section \<open>The invariant\<close>

definition registry_wf :: "CanonicalRegistry \<Rightarrow> bool" where
  "registry_wf r \<longleftrightarrow> (\<forall>addr p. fmlookup r addr = Some p \<longrightarrow> cp_Address p = addr \<and> addr \<noteq> 0)"

lemma registry_wf_new [wf_intros]: "registry_wf NewCanonicalRegistry"
  by (simp add: registry_wf_def NewCanonicalRegistry_def)

lemma registry_wf_lookup:
  "registry_wf r \<Longrightarrow> fmlookup r addr = Some p \<Longrightarrow> cp_Address p = addr \<and> addr \<noteq> 0"
  by (simp add: registry_wf_def)

lemma registry_wf_upd [wf_intros]:
  "registry_wf r \<Longrightarrow> cp_Address p = addr \<Longrightarrow> addr \<noteq> 0 \<Longrightarrow> registry_wf (fmupd addr p r)"
  by (simp add: registry_wf_def)

text \<open>What an update does to one participant, and that it touches no other.\<close>

lemma zeroParticipant_simps [simp]:
  "cp_Address zeroParticipant = 0" "cp_RegisteredAt zeroParticipant = 0"
  "cp_LastHeartbeat zeroParticipant = 0" "cp_MissedTurns zeroParticipant = 0"
  "cp_JailedUntil zeroParticipant = 0" "cp_Sequence zeroParticipant = 0"
  "\<not> cp_Active zeroParticipant"
  by (simp_all add: zeroParticipant_def)

lemma clear_liveness_simps [simp]:
  "cp_Address (clear_liveness p) = cp_Address p"
  "cp_Sequence (clear_liveness p) = cp_Sequence p"
  "cp_Active (clear_liveness p) = cp_Active p"
  "cp_RegisteredAt (clear_liveness p) = cp_RegisteredAt p"
  "cp_MissedTurns (clear_liveness p) = 0" "cp_JailedUntil (clear_liveness p) = 0"
  by (simp_all add: clear_liveness_def)

lemma miss_turn_simps [simp]:
  "cp_Address (miss_turn n m j p) = cp_Address p"
  "cp_Sequence (miss_turn n m j p) = cp_Sequence p"
  "cp_Active (miss_turn n m j p) = cp_Active p"
  "cp_RegisteredAt (miss_turn n m j p) = cp_RegisteredAt p"
  by (simp_all add: miss_turn_def Let_def)

lemmas registry_op_defs = ActivatePermissionlessProducer_def RecoverPermissionlessProducer_def
  MarkWorkSeatProducerHeartbeat_def ApplyWorkSeatMissedTurn_def MarkProducerHeartbeat_def
  ApplyMissedTurn_def Let_def

lemma fold_upd_wf:
  assumes "\<And>addr r. addr \<in> set addrs \<Longrightarrow> registry_wf r \<Longrightarrow> registry_wf (f addr r)" and "registry_wf r"
  shows "registry_wf (fold f addrs r)"
  using assms by (induction addrs arbitrary: r) auto

lemma check_seen_None:
  "check_seen seen addrs = None \<longleftrightarrow> 0 \<notin> set addrs \<and> distinct addrs \<and> set addrs \<inter> seen = {}"
  by (induction seen addrs rule: check_seen.induct) auto

lemma registry_wf_ops [wf_intros]:
  assumes "registry_wf r"
  shows "ActivatePermissionlessProducer r a n = Inr r' \<Longrightarrow> registry_wf r'"
    and "RecoverPermissionlessProducer r a n = Inr r' \<Longrightarrow> registry_wf r'"
    and "MarkWorkSeatProducerHeartbeat r a n = Inr r' \<Longrightarrow> registry_wf r'"
    and "ApplyWorkSeatMissedTurn r a n m j = Inr r' \<Longrightarrow> registry_wf r'"
    and "MarkProducerHeartbeat r a n = Inr r' \<Longrightarrow> registry_wf r'"
    and "ApplyMissedTurn r a n m j = Inr r' \<Longrightarrow> registry_wf r'"
  using assms
  by (auto simp: registry_op_defs intro!: registry_wf_upd dest: registry_wf_lookup
      split: if_splits option.splits)

lemma registry_wf_restore_entry [wf_intros]:
  "registry_wf r \<Longrightarrow> addr \<noteq> 0 \<Longrightarrow> registry_wf (restore_entry p addr r)"
  by (auto simp: restore_entry_def intro!: registry_wf_upd dest: registry_wf_lookup split: option.splits)

lemma registry_wf_bulk [wf_intros]:
  assumes "registry_wf r"
  shows "ResetWorkSeatLiveness r addrs = Inr r' \<Longrightarrow> registry_wf r'"
    and "RestoreWorkSeatLiveness r addrs n = Inr r' \<Longrightarrow> registry_wf r'"
    and "RestoreWorkSeatLivenessLegacy r addrs n = Inr r' \<Longrightarrow> registry_wf r'"
proof -
  have "registry_wf (fold reset_entry as s)" if "registry_wf s" "\<forall>a \<in> set as. fmlookup s a \<noteq> None" for as s
    using that
  proof (induction as arbitrary: s)
    case (Cons a as)
    then obtain p where p: "fmlookup s a = Some p" by auto
    have "registry_wf (reset_entry a s)"
      using Cons.prems(1) p by (auto simp: reset_entry_def intro!: registry_wf_upd dest: registry_wf_lookup)
    moreover have "\<forall>b \<in> set as. fmlookup (reset_entry a s) b \<noteq> None"
      using Cons.prems(2) by (simp add: reset_entry_def)
    ultimately show ?case using Cons.IH by simp
  qed simp
  then show "ResetWorkSeatLiveness r addrs = Inr r' \<Longrightarrow> registry_wf r'"
    using assms by (auto simp: ResetWorkSeatLiveness_def first_err_None_iff split: option.splits if_splits)
  show "RestoreWorkSeatLiveness r addrs n = Inr r' \<Longrightarrow> registry_wf r'"
    "RestoreWorkSeatLivenessLegacy r addrs n = Inr r' \<Longrightarrow> registry_wf r'"
    using assms unfolding RestoreWorkSeatLiveness_def RestoreWorkSeatLivenessLegacy_def
    by (auto simp: check_seen_None split: option.splits intro!: fold_upd_wf registry_wf_restore_entry)
qed

lemma registry_wf_ApplyOperation [wf_intros]:
  assumes "registry_wf r" and "ApplyOperation cr chainID n d operation r = Inr r'"
  shows "registry_wf r'"
  using assms
  by (auto simp: ApplyOperation_def ValidateRegistryOperation_def Let_def intro!: registry_wf_upd
      dest: registry_wf_lookup split: if_splits option.splits)


section \<open>Frame and stored order\<close>

text \<open>An operation on one address leaves every other participant alone.\<close>

lemma registry_ops_other:
  assumes "b \<noteq> a"
  shows "ActivatePermissionlessProducer r a n = Inr r' \<Longrightarrow> fmlookup r' b = fmlookup r b"
    and "RecoverPermissionlessProducer r a n = Inr r' \<Longrightarrow> fmlookup r' b = fmlookup r b"
    and "MarkWorkSeatProducerHeartbeat r a n = Inr r' \<Longrightarrow> fmlookup r' b = fmlookup r b"
    and "ApplyWorkSeatMissedTurn r a n m j = Inr r' \<Longrightarrow> fmlookup r' b = fmlookup r b"
    and "MarkProducerHeartbeat r a n = Inr r' \<Longrightarrow> fmlookup r' b = fmlookup r b"
    and "ApplyMissedTurn r a n m j = Inr r' \<Longrightarrow> fmlookup r' b = fmlookup r b"
    and "\<lbrakk>ApplyOperation cr chainID n d operation r = Inr r'; a = op_Address operation\<rbrakk>
      \<Longrightarrow> fmlookup r' b = fmlookup r b"
  using assms
  by (auto simp: registry_op_defs ApplyOperation_def split: if_splits option.splits)

text \<open>The loops over WorkSeat addresses write a keyed store.\<close>

interpretation restore: keyed_store fmlookup "\<lambda>_. True" "restore_entry fresh" "\<lambda>a. a"
  "\<lambda>a e. Some (clear_liveness (case e of Some p \<Rightarrow> p | None \<Rightarrow> fresh\<lparr>cp_Address := a\<rparr>))"
  for fresh
  by unfold_locales (auto simp: restore_entry_def)

interpretation reset: keyed_store fmlookup "\<lambda>_. True" reset_entry "\<lambda>a. a"
  "\<lambda>a e. Some (clear_liveness (case e of Some p \<Rightarrow> p | None \<Rightarrow> zeroParticipant))"
  by unfold_locales (auto simp: reset_entry_def)

lemma map_cp_Address: "registry_wf r \<Longrightarrow> map cp_Address (fmvals r) = fmkeys r"
  by (intro map_fmvals) (simp add: registry_wf_def)

lemma Participants_fmvals: "registry_wf r \<Longrightarrow> Participants r = fmvals r"
  unfolding Participants_def by (rule sort_key_sorted_id) (simp_all add: map_cp_Address)

lemma Participants_addresses: "registry_wf r \<Longrightarrow> map cp_Address (Participants r) = fmkeys r"
  by (simp add: Participants_fmvals map_cp_Address)

lemma Participants_mem: "p \<in> set (Participants r) \<longleftrightarrow> (\<exists>a. fmlookup r a = Some p)"
  by (simp add: Participants_def mem_fmvals)

text \<open>Whatever order the map is visited in, the sorted list is the same.\<close>

lemma Participants_any_order:
  assumes "registry_wf r" and "mset ps = mset (fmvals r)"
  shows "sort_key cp_Address ps = Participants r"
proof -
  have "distinct (map cp_Address (fmvals r))" using assms(1) by (simp add: map_cp_Address)
  then show ?thesis unfolding Participants_def
    using assms(2) by (intro sort_key_perm_cong) (simp_all add: distinct_map)
qed

lemma registry_of_Participants:
  assumes "registry_wf r"
  shows "fmlookup r a = Some p \<longleftrightarrow> p \<in> set (Participants r) \<and> cp_Address p = a"
  using assms by (auto simp: Participants_mem dest: registry_wf_lookup)

lemma Participants_inject:
  assumes "registry_wf r" and "registry_wf r'" and "Participants r = Participants r'"
  shows "r = r'"
proof (rule fmap_ext)
  fix a
  have "fmlookup r a = Some p \<longleftrightarrow> fmlookup r' a = Some p" for p
    using registry_of_Participants [OF assms(1)] registry_of_Participants [OF assms(2)] assms(3) by simp
  then show "fmlookup r a = fmlookup r' a" by (metis option.exhaust)
qed

section \<open>The root\<close>

definition participant_type :: rlp_type where
  "participant_type = TStruct [TArray 20, TUint 64, TUint 64, TUint 64, TUint 64, TUint 64, TBool]"

definition root_type :: rlp_type where
  "root_type = TStruct [TBytes, TSlice participant_type]"

lemma has_type_participant [simp]: "has_type participant_type (participant_val p)"
  by (simp add: participant_type_def participant_val_def)

lemma type_ok_root: "type_ok root_type" and has_type_root: "has_type root_type (registryRootPayload r)"
  by (simp_all add: root_type_def participant_type_def [THEN arg_cong, of type_ok]
      registryRootPayload_def list_all_iff)

lemma participant_val_inject [simp]: "participant_val p = participant_val q \<longleftrightarrow> p = q"
  by (auto simp: participant_val_def)

lemma map_participant_val_inject [simp]:
  "map participant_val ps = map participant_val qs \<longleftrightarrow> ps = qs"
  by (rule inj_map_eq_map) (auto simp: inj_def)


lemma vsize_participant [simp]: "vsize (participant_val p) = 84"
  by (simp add: participant_val_def)

text \<open>A registry of fewer than \<open>2 ^ 57\<close> participants has an encoding that fits.\<close>

abbreviation registry_small :: "CanonicalRegistry \<Rightarrow> bool" where
  "registry_small r \<equiv> length (fmkeys r) < 2 ^ 57"

lemma length_Participants: "length (Participants r) = length (fmkeys r)"
  by (simp add: Participants_def length_fmvals)

interpretation participants: rlp_payload root_type
  "\<lambda>ps. VStruct [VBytes registryRootDomain, VSlice (map participant_val ps)]" "\<lambda>ps. length ps < 2 ^ 57"
proof unfold_locales
  show "type_ok root_type" by (rule type_ok_root)
  show "has_type root_type (VStruct [VBytes registryRootDomain, VSlice (map participant_val ps)])" for ps
    by (simp add: root_type_def list_all_iff)
  show "vsize (VStruct [VBytes registryRootDomain, VSlice (map participant_val ps)]) < 2 ^ 64"
    if "length ps < 2 ^ 57" for ps
    using sum_vsize_le [of ps participant_val 84] that by (simp add: registryRootDomain_def ascii_def)
qed simp

lemma root_preimage_inject:
  assumes "registry_wf r" and "registry_wf r'" and "registry_small r" and "registry_small r'"
  shows "EncodeToBytes (registryRootPayload r) = EncodeToBytes (registryRootPayload r') \<longleftrightarrow> r = r'"
proof
  assume "EncodeToBytes (registryRootPayload r) = EncodeToBytes (registryRootPayload r')"
  then have "Participants r = Participants r'"
    using participants.encode_inject [of "Participants r" "Participants r'"] assms(3,4)
    by (simp add: registryRootPayload_def length_Participants)
  then show "r = r'" by (rule Participants_inject [OF assms(1,2)])
qed simp

section \<open>Eligibility and the queue\<close>

lemma checked_add_from_eq:
  "checked_add_from tot vs =
     (if unat tot + sum_list (map unat vs) < 2 ^ 64
      then Some (tot + sum_list vs) else None)"
proof (induction vs arbitrary: tot)
  case Nil
  then show ?case by simp
next
  case (Cons v vs)
  have m: "unat (maxU64 - tot) = 2 ^ 64 - 1 - unat tot"
    by (simp add: unat_sub unsigned_minus_1_eq_mask mask_eq_exp_minus_1)
  show ?case
  proof (cases "maxU64 - tot < v")
    case True
    then have "2 ^ 64 \<le> unat tot + unat v" using m by (simp add: word_less_nat_alt)
    with True show ?thesis by simp
  next
    case False
    then have "unat v \<le> 18446744073709551615 - unat tot" using m by (simp add: word_less_nat_alt)
    then have "unat tot + unat v < 18446744073709551616" using unat_u64_less [of tot] by linarith
    then have "unat (tot + v) = unat tot + unat v" by (simp add: unat_word_ariths)
    with False Cons.IH [of "tot + v"] show ?thesis by (simp add: algebra_simps)
  qed
qed

lemma checkedRegistryBlockAdd_eq:
  "checkedRegistryBlockAdd vs =
     (if sum_list (map unat vs) < 2 ^ 64 then Some (sum_list vs) else None)"
  by (simp add: checkedRegistryBlockAdd_def checked_add_from_eq)

lemma unat_sum_list:
  "sum_list (map unat vs) < 2 ^ 64 \<Longrightarrow> unat (sum_list vs :: u64) = sum_list (map unat vs)"
  by (induction vs) (auto simp: unat_word_ariths)

lemma participant_eligible_iff:
  "participant_eligible n d p \<longleftrightarrow>
     cp_Active p \<and> (cp_Sequence p = 0 \<or> unat (cp_RegisteredAt p) + 1 + unat d \<le> unat n)"
proof -
  let ?vs = "[cp_RegisteredAt p, 1, d]"
  have "\<not> n < sum_list ?vs \<longleftrightarrow> unat (cp_RegisteredAt p) + 1 + unat d \<le> unat n"
    if "sum_list (map unat ?vs) < 2 ^ 64"
    using unat_sum_list [OF that] by (simp add: word_less_nat_alt not_less add.assoc)
  moreover have "\<not> unat (cp_RegisteredAt p) + 1 + unat d \<le> unat n"
    if "\<not> sum_list (map unat ?vs) < 2 ^ 64"
  proof -
    have "18446744073709551616 \<le> unat (cp_RegisteredAt p) + 1 + unat d" using that by simp
    then show ?thesis using unat_u64_less [of n] by linarith
  qed
  ultimately show ?thesis
    unfolding participant_eligible_def checkedRegistryBlockAdd_eq by auto
qed

lemma EligibleParticipants_mem:
  "p \<in> set (EligibleParticipants r n d w g) \<longleftrightarrow> (\<exists>a. fmlookup r a = Some p) \<and> participant_eligible n d p"
  by (auto simp: EligibleParticipants_def Participants_mem)

lemma IsEligibleParticipant_iff:
  assumes "registry_wf r"
  shows "IsEligibleParticipant r a n d w g \<longleftrightarrow> (\<exists>p. fmlookup r a = Some p \<and> participant_eligible n d p)"
  unfolding IsEligibleParticipant_def list_ex_iff
  using EligibleParticipants_mem registry_wf_lookup [OF assms] by metis

lemma queue_candidate_Address [simp]: "hp_Address (queue_candidate p) = cp_Address p"
  by (simp add: queue_candidate_def)

lemma OrderedParticipants_eq:
  "OrderedParticipantsForBlock cr r h n d w g =
     DeterministicallyOrderParticipants cr
       (map queue_candidate (filter (\<lambda>p. \<not> cp_JailedUntil p > n) (EligibleParticipants r n d w g))) h n
     @ DeterministicallyOrderParticipants cr
       (map queue_candidate (filter (\<lambda>p. cp_JailedUntil p > n) (EligibleParticipants r n d w g))) h n"
  by (simp add: OrderedParticipantsForBlock_def Let_def DeterministicallyOrderParticipants_eq)

lemma OrderedParticipants_mset:
  "mset (OrderedParticipantsForBlock cr r h n d w g)
     = mset (map queue_candidate (EligibleParticipants r n d w g))"
proof -
  let ?e = "EligibleParticipants r n d w g" and ?P = "\<lambda>p. cp_JailedUntil p > n"
  have "mset (filter (\<lambda>p. \<not> ?P p) ?e) + mset (filter ?P ?e) = mset ?e"
    using multiset_partition [of "mset ?e" ?P] by (simp add: add.commute)
  then show ?thesis by (simp add: OrderedParticipants_eq flip: image_mset_union)
qed

lemma EligibleParticipants_distinct:
  "registry_wf r \<Longrightarrow> distinct (map cp_Address (EligibleParticipants r n d w g))"
  by (simp add: EligibleParticipants_def distinct_map_filter Participants_addresses)

lemma OrderedParticipants_distinct:
  assumes "registry_wf r"
  shows "distinct (map hp_Address (OrderedParticipantsForBlock cr r h n d w g))"
  using EligibleParticipants_distinct [OF assms, of n d w g]
  by (subst distinct_map_mset [OF OrderedParticipants_mset]) (simp add: comp_def)


section \<open>Penalties\<close>

text \<open>A counted miss either stays below the limit or becomes a penalty that ends after \<open>n\<close>.\<close>

definition miss_limit :: "u64 \<Rightarrow> nat" where
  "miss_limit m = (if m = 0 then 3 else unat m)"

definition jail_length :: "u64 \<Rightarrow> nat" where
  "jail_length j = (if j = 0 then 256 else unat j)"

lemma OrderedParticipants_address:
  "registry_wf r \<Longrightarrow> a \<in> hp_Address ` set (OrderedParticipantsForBlock cr r h n d w g)
     \<longleftrightarrow> IsEligibleParticipant r a n d w g"
proof -
  have "set (OrderedParticipantsForBlock cr r h n d w g) = queue_candidate ` set (EligibleParticipants r n d w g)"
    using OrderedParticipants_mset [of cr r h n d w g] by (metis list.set_map set_mset_mset)
  then show ?thesis by (auto simp: IsEligibleParticipant_def list_ex_iff image_image)
qed

lemma unat_incr_le: "unat (if (x :: u64) \<noteq> maxU64 then x + 1 else x) = min (unat x + 1) (2 ^ 64 - 1)"
proof (cases "x = maxU64")
  case True
  then show ?thesis by (simp add: unsigned_minus_1_eq_mask mask_eq_exp_minus_1)
next
  case False
  then have "x + 1 \<noteq> 0" by (metis add_eq_0_iff2 add.commute)
  then have "unat (x + 1) = Suc (unat x)" by (rule unat_u64_Suc)
  moreover have "unat (x + 1) < 18446744073709551616" by simp
  ultimately show ?thesis using False by simp
qed

lemma unat_miss_limit: "unat (if m = 0 then 3 else m) = miss_limit m"
  by (simp add: miss_limit_def)

lemma saturating_add:
  "unat (case checkedRegistryBlockAdd [n, k] of Some u \<Rightarrow> u | None \<Rightarrow> maxU64)
     = min (unat n + unat k) (2 ^ 64 - 1)"
  using unat_u64_plus [of n k]
  by (cases "unat n + unat k < 2 ^ 64")
     (auto simp: checkedRegistryBlockAdd_eq unsigned_minus_1_eq_mask mask_eq_exp_minus_1)

lemma miss_turn_penalty:
  assumes "miss_limit m \<le> min (unat (cp_MissedTurns p) + 1) (2 ^ 64 - 1)"
  shows "cp_MissedTurns (miss_turn n m j p) = 0"
    and "unat (cp_JailedUntil (miss_turn n m j p)) = min (unat n + jail_length j) (2 ^ 64 - 1)"
proof -
  let ?x = "cp_MissedTurns p"
  have lim: "(if m = 0 then 3 else m) \<le> (if ?x \<noteq> maxU64 then ?x + 1 else ?x)"
    using assms unfolding word_le_nat_alt unat_incr_le unat_miss_limit .
  have "unat (case checkedRegistryBlockAdd [n, if j = 0 then 256 else j] of Some u \<Rightarrow> u | None \<Rightarrow> maxU64)
      = min (unat n + jail_length j) (2 ^ 64 - 1)"
    unfolding saturating_add by (simp add: jail_length_def)
  then show "cp_MissedTurns (miss_turn n m j p) = 0"
    and "unat (cp_JailedUntil (miss_turn n m j p)) = min (unat n + jail_length j) (2 ^ 64 - 1)"
    using lim by (auto simp: miss_turn_def Let_def)
qed

lemma miss_turn_count:
  assumes "\<not> miss_limit m \<le> min (unat (cp_MissedTurns p) + 1) (2 ^ 64 - 1)"
  shows "unat (cp_MissedTurns (miss_turn n m j p)) = unat (cp_MissedTurns p) + 1"
    and "cp_JailedUntil (miss_turn n m j p) = cp_JailedUntil p"
proof -
  let ?x = "cp_MissedTurns p"
  have lim: "\<not> (if m = 0 then 3 else m) \<le> (if ?x \<noteq> maxU64 then ?x + 1 else ?x)"
    using assms unfolding word_le_nat_alt unat_incr_le unat_miss_limit .
  have "unat m \<le> 18446744073709551615" using unat_u64_less [of m] by linarith
  then have "miss_limit m \<le> 2 ^ 64 - 1" by (simp add: miss_limit_def)
  with assms have "unat ?x + 1 < 2 ^ 64 - 1" by linarith
  then have "unat (if ?x \<noteq> maxU64 then ?x + 1 else ?x) = unat ?x + 1" using unat_incr_le [of ?x] by linarith
  with lim show "unat (cp_MissedTurns (miss_turn n m j p)) = unat (cp_MissedTurns p) + 1"
    and "cp_JailedUntil (miss_turn n m j p) = cp_JailedUntil p"
    by (auto simp: miss_turn_def Let_def)
qed

section \<open>Steps, and sequences of signed operations\<close>

text \<open>
  The changes the engine makes to a registry between two blocks. \<open>reg_step\<close> has every
  operation that keeps the record of used sequence numbers; \<open>keeping_step\<close> below adds the activation of a
  producer, which resets the number of an address that already has an entry.
\<close>

inductive reg_step :: "crypto \<Rightarrow> nat \<Rightarrow> CanonicalRegistry \<Rightarrow> CanonicalRegistry \<Rightarrow> bool"
  for cr chainID where
  step_operation: "ApplyOperation cr chainID n d operation r = Inr r' \<Longrightarrow> reg_step cr chainID r r'"
| step_recover: "RecoverPermissionlessProducer r a n = Inr r' \<Longrightarrow> reg_step cr chainID r r'"
| step_heartbeat: "MarkProducerHeartbeat r a n = Inr r' \<Longrightarrow> reg_step cr chainID r r'"
| step_missed: "ApplyMissedTurn r a n m j = Inr r' \<Longrightarrow> reg_step cr chainID r r'"
| step_seat_heartbeat: "MarkWorkSeatProducerHeartbeat r a n = Inr r' \<Longrightarrow> reg_step cr chainID r r'"
| step_seat_missed: "ApplyWorkSeatMissedTurn r a n m j = Inr r' \<Longrightarrow> reg_step cr chainID r r'"
| step_reset: "ResetWorkSeatLiveness r as = Inr r' \<Longrightarrow> reg_step cr chainID r r'"
| step_restore: "RestoreWorkSeatLiveness r as n = Inr r' \<Longrightarrow> reg_step cr chainID r r'"
| step_restore_legacy: "RestoreWorkSeatLivenessLegacy r as n = Inr r' \<Longrightarrow> reg_step cr chainID r r'"

lemma reg_step_wf: "reg_step cr chainID r r' \<Longrightarrow> registry_wf r \<Longrightarrow> registry_wf r'"
  by (induction rule: reg_step.induct) (auto intro: wf_intros)

text \<open>The last sequence number an address has used, 0 before its first.\<close>

definition last_sequence :: "CanonicalRegistry \<Rightarrow> address \<Rightarrow> nat" where
  "last_sequence r a = (case fmlookup r a of None \<Rightarrow> 0 | Some p \<Rightarrow> unat (cp_Sequence p))"

lemma ApplyOperation_sequence:
  assumes "ApplyOperation cr chainID n d operation r = Inr r'"
  shows "unat (op_Sequence operation) = Suc (last_sequence r (op_Address operation))"
    and "last_sequence r' (op_Address operation) = unat (op_Sequence operation)"
proof -
  have seq: "op_Sequence operation = (case fmlookup r (op_Address operation) of None \<Rightarrow> 1
      | Some p \<Rightarrow> cp_Sequence p + 1)" and nz: "op_Sequence operation \<noteq> 0"
    using assms by (auto simp: ApplyOperation_def ValidateRegistryOperation_def Let_def
        split: if_splits option.splits)
  show "unat (op_Sequence operation) = Suc (last_sequence r (op_Address operation))"
    using seq nz unat_u64_Suc by (auto simp: last_sequence_def split: option.splits)
  show "last_sequence r' (op_Address operation) = unat (op_Sequence operation)"
    using assms by (auto simp: ApplyOperation_def last_sequence_def Let_def split: if_splits option.splits)
qed

text \<open>Every step keeps or advances the last sequence number of every address.\<close>

lemma last_sequence_fold_reset [simp]: "last_sequence (fold reset_entry as r) a = last_sequence r a"
  by (induction as arbitrary: r) (auto simp: last_sequence_def reset_entry_def split: option.splits)

lemma last_sequence_fold_restore:
  "cp_Sequence fresh = 0 \<Longrightarrow> last_sequence (fold (restore_entry fresh) as r) a = last_sequence r a"
  by (induction as arbitrary: r) (auto simp: last_sequence_def restore_entry_def split: option.splits)

lemma last_sequence_single:
  shows "RecoverPermissionlessProducer r a n = Inr r' \<Longrightarrow> last_sequence r' b = last_sequence r b"
    and "MarkWorkSeatProducerHeartbeat r a n = Inr r' \<Longrightarrow> last_sequence r' b = last_sequence r b"
    and "ApplyWorkSeatMissedTurn r a n m j = Inr r' \<Longrightarrow> last_sequence r' b = last_sequence r b"
    and "MarkProducerHeartbeat r a n = Inr r' \<Longrightarrow> last_sequence r' b = last_sequence r b"
    and "ApplyMissedTurn r a n m j = Inr r' \<Longrightarrow> last_sequence r' b = last_sequence r b"
  by (auto simp: registry_op_defs last_sequence_def split: if_splits option.splits)

lemma reg_step_last_sequence:
  "reg_step cr chainID r r' \<Longrightarrow> last_sequence r a \<le> last_sequence r' a"
proof (induction rule: reg_step.induct)
  case (step_operation n d operation r r')
  show ?case
  proof (cases "a = op_Address operation")
    case True
    then show ?thesis using ApplyOperation_sequence [OF step_operation] by simp
  next
    case False
    then show ?thesis using registry_ops_other(7) [OF _ step_operation] by (simp add: last_sequence_def)
  qed
qed (auto simp: last_sequence_single ResetWorkSeatLiveness_def RestoreWorkSeatLiveness_def
      RestoreWorkSeatLivenessLegacy_def last_sequence_fold_restore split: option.splits)

lemma reg_steps_last_sequence:
  "(reg_step cr chainID)\<^sup>*\<^sup>* r r' \<Longrightarrow> last_sequence r a \<le> last_sequence r' a"
  by (induction rule: rtranclp_induct) (auto dest: reg_step_last_sequence intro: order_trans)

lemma reg_steps_wf: "(reg_step cr chainID)\<^sup>*\<^sup>* r r' \<Longrightarrow> registry_wf r \<Longrightarrow> registry_wf r'"
  by (induction rule: rtranclp_induct) (auto dest: reg_step_wf)

text \<open>Every change of a registry that does not reset the record of one address: the steps above, and
  \<open>ActivatePermissionlessProducer\<close> on any other address or on one that has no entry yet.\<close>

inductive keeping_step :: "crypto \<Rightarrow> nat \<Rightarrow> address \<Rightarrow> CanonicalRegistry \<Rightarrow> CanonicalRegistry \<Rightarrow> bool"
  for cr chainID a where
  keep_step: "reg_step cr chainID r r' \<Longrightarrow> keeping_step cr chainID a r r'"
| keep_activate: "ActivatePermissionlessProducer r b n = Inr r' \<Longrightarrow> b \<noteq> a \<or> fmlookup r b = None \<Longrightarrow>
    keeping_step cr chainID a r r'"

lemma Activate_sequence:
  assumes "ActivatePermissionlessProducer r b n = Inr r'"
  shows "last_sequence r' b = 0" and "c \<noteq> b \<Longrightarrow> last_sequence r' c = last_sequence r c"
  using assms by (auto simp: ActivatePermissionlessProducer_def last_sequence_def Let_def zeroParticipant_def
      split: if_splits option.splits)

lemma keeping_step_sequence: "keeping_step cr chainID a r r' \<Longrightarrow> last_sequence r a \<le> last_sequence r' a"
proof (induction rule: keeping_step.induct)
  case (keep_activate r b n r')
  then show ?case using Activate_sequence [OF keep_activate(1)] by (cases "b = a") (simp_all add: last_sequence_def)
qed (rule reg_step_last_sequence)

lemma keeping_steps_sequence:
  "(keeping_step cr chainID a)\<^sup>*\<^sup>* r r' \<Longrightarrow> last_sequence r a \<le> last_sequence r' a"
  by (induction rule: rtranclp_induct) (auto dest: keeping_step_sequence intro: order_trans)

lemma last_sequence_new [simp]: "last_sequence NewCanonicalRegistry a = 0"
  by (simp add: last_sequence_def NewCanonicalRegistry_def)

section \<open>Validation\<close>

lemma ValidateRegistryOperation_None:
  assumes "ValidateRegistryOperation cr chainID n d operation = None"
  shows "op_Version operation = RegistryProtocolVersion"
    and "op_Action operation \<in> {RegistryActionRegister, RegistryActionHeartbeat, RegistryActionExit}"
    and "op_Address operation \<noteq> 0" and "op_Sequence operation \<noteq> 0"
    and "unat n \<le> unat (op_ValidUntil operation)"
    and "unat (op_ValidUntil operation) \<le> unat n + 256"
    and "RecoverRegistryOperationSigner cr chainID operation = Inr (op_Address operation)
      \<or> RecoverRegistryOperationWalletSigner cr chainID operation = Inr (op_Address operation)"
    and "op_Action operation = RegistryActionRegister \<Longrightarrow>
      LightHashMeetsDifficulty (RegistryOperationSigningHash cr chainID operation) d"
proof -
  let ?a = "op_Action operation"
  have "\<not> ?a < 1" "\<not> 3 < ?a"
    using assms by (auto simp: ValidateRegistryOperation_def RegistryActionRegister_def
        RegistryActionExit_def split: if_splits)
  then have "unat ?a = 1 \<or> unat ?a = 2 \<or> unat ?a = 3" by (auto simp: word_less_nat_alt)
  then show "?a \<in> {RegistryActionRegister, RegistryActionHeartbeat, RegistryActionExit}"
    by (auto simp: RegistryActionRegister_def RegistryActionHeartbeat_def RegistryActionExit_def
        word_unat_eq_iff)
  have "op_ValidUntil operation \<le> n + 256" "unat n + 256 < 2 ^ 64"
    using assms by (auto simp: ValidateRegistryOperation_def checkedRegistryBlockAdd_eq
        MaxRegistryOperationLifetime_def split: if_splits option.splits)
  then show "unat (op_ValidUntil operation) \<le> unat n + 256"
    using unat_u64_plus [of n 256] by (simp add: word_le_nat_alt)
qed (use assms in \<open>auto simp: ValidateRegistryOperation_def word_le_nat_alt word_less_nat_alt not_less
       split: if_splits option.splits\<close>)

lemma LightHash_mono:
  assumes "LightHashMeetsDifficulty h d" and "d' \<le> d" and "d' \<noteq> 0"
  shows "LightHashMeetsDifficulty h d'"
proof -
  have "2 ^ 256 div unat d \<le> (2 ^ 256 div unat d' :: nat)"
    using assms by (intro div_le_mono2) (simp_all add: word_le_nat_alt unat_gt_0)
  then show ?thesis using assms by (auto simp: LightHashMeetsDifficulty_def split: if_splits)
qed

text \<open>The text a wallet signs determines every field of the operation and the chain.\<close>

lemma wallet_message_inject:
  assumes "RegistryOperationWalletMessage cr c operation = RegistryOperationWalletMessage cr c' operation'"
  shows "c = c'" and "op_Signature operation = op_Signature operation' \<Longrightarrow> operation = operation'"
proof -
  note eq = assms [unfolded RegistryOperationWalletMessage_def]
  have "c = c' \<and> op_Version operation = op_Version operation' \<and> op_Action operation = op_Action operation'
      \<and> op_Address operation = op_Address operation' \<and> op_Sequence operation = op_Sequence operation'
      \<and> op_ValidUntil operation = op_ValidUntil operation' \<and> op_ProofNonce operation = op_ProofNonce operation'"
    using eq by (simp add: line_inject newline_not_dec append_eq_append_conv length_checksumHex word_unat_eq_iff)
  then show "c = c'" and "op_Signature operation = op_Signature operation' \<Longrightarrow> operation = operation'"
    by (simp_all add: RegistryOperation.equality)
qed

section \<open>Properties\<close>

text \<open>A signed operation for the examples: the sample recovery function reads the signer from the signature.\<close>

definition sample_operation :: "address \<Rightarrow> u64 \<Rightarrow> RegistryOperation" where
  "sample_operation a sq = \<lparr>op_Version = 1, op_Action = (if sq = 1 then 1 else 2), op_Address = a, op_Sequence = sq,
     op_ValidUntil = 20, op_ProofNonce = 0, op_Signature = sample_signature a\<rparr>"

definition sample_registry :: CanonicalRegistry where
  "sample_registry = fmupd 3 (zeroParticipant\<lparr>cp_Address := 3, cp_RegisteredAt := 5, cp_LastHeartbeat := 5,
     cp_Sequence := 1, cp_Active := True\<rparr>) fmempty"

lemma sample_signer:
  "a \<noteq> 0 \<Longrightarrow> RecoverRegistryOperationSigner sample_crypto chainID (sample_operation a sq) = Inr a"
  by (simp add: RecoverRegistryOperationSigner_def sample_operation_def SignatureLength_def)

lemma sample_light_hash: "LightHashMeetsDifficulty h 1"
  using unsigned_less [of h, where ?'a = nat] by (simp add: LightHashMeetsDifficulty_def)

lemma sample_valid: "a \<noteq> 0 \<Longrightarrow> ValidateRegistryOperation sample_crypto chainID 5 1 (sample_operation a 1) = None"
  unfolding ValidateRegistryOperation_def
  by (simp add: sample_light_hash sample_signer, simp add: sample_operation_def RegistryProtocolVersion_def
      RegistryActionRegister_def RegistryActionExit_def checkedRegistryBlockAdd_eq MaxRegistryOperationLifetime_def)

lemma sample_applied: "ApplyOperation sample_crypto 1 5 1 (sample_operation 3 1) NewCanonicalRegistry = Inr sample_registry"
  unfolding ApplyOperation_def
  by (simp add: sample_valid, simp add: NewCanonicalRegistry_def sample_operation_def sample_registry_def
      RegistryActionRegister_def)

lemma sample_registry_wf: "registry_wf sample_registry"
  using registry_wf_ApplyOperation [OF registry_wf_new sample_applied] .

text \<open>Claim C13: every sequence of registry operations, heartbeats, missed turns, recoveries and work-seat resets keeps the
  registry well formed: each entry is stored under its own non-zero address, and the participant list that the
  root commits to is strictly sorted by address.\<close>

theorem registry_invariant:
  assumes "registry_wf r" and "(reg_step cr chainID)\<^sup>*\<^sup>* r r'"
  shows "registry_wf r'
    \<and> sorted_wrt (<) (map cp_Address (Participants r'))"
proof -
  have wf: "registry_wf r'" using reg_steps_wf assms by blast
  have c2: "sorted_wrt (<) (map cp_Address (Participants r'))"
    unfolding Participants_addresses [OF wf] by (simp add: strict_sorted_iff)
  from wf c2 show ?thesis by blast
qed

theorem registry_invariant_witness:
  "registry_wf sample_registry \<and> sorted_wrt (<) (map cp_Address (Participants sample_registry))"
proof -
  have "(reg_step sample_crypto 1)\<^sup>*\<^sup>* NewCanonicalRegistry sample_registry"
    using step_operation [OF sample_applied] by blast
  from registry_invariant [OF registry_wf_new this] show ?thesis by blast
qed

text \<open>Claim C14: the registry root commits to the whole registry. Two well-formed registries of fewer than \<open>2 ^ 57\<close> entries
  have the same hash preimage only when they are equal.\<close>

theorem registry_root_binds:
  assumes "registry_wf r" and "registry_wf r'" and "registry_small r" and "registry_small r'"
  shows "EncodeToBytes (registryRootPayload r) = EncodeToBytes (registryRootPayload r') \<longleftrightarrow> r = r'"
  using assms by (rule root_preimage_inject)

theorem registry_root_binds_witness:
  "EncodeToBytes (registryRootPayload NewCanonicalRegistry) \<noteq> EncodeToBytes (registryRootPayload sample_registry)"
proof -
  have "registry_small NewCanonicalRegistry" "registry_small sample_registry"
    by (simp_all add: NewCanonicalRegistry_def sample_registry_def fmkeys_def sorted_list_of_fset.rep_eq)
  moreover have "fmlookup NewCanonicalRegistry 3 \<noteq> fmlookup sample_registry 3"
    by (simp add: NewCanonicalRegistry_def sample_registry_def)
  ultimately show ?thesis
    using registry_root_binds [OF registry_wf_new sample_registry_wf] by auto
qed



text \<open>Claim C11: an accepted operation carries a signature that recovers to the participant it is about (over the protocol
  payload or the wallet message), the next sequence number of that participant, an expiry at most 256 blocks ahead
  and, for a registration, a proof of work that meets the difficulty; it changes no other participant.\<close>

theorem operation_authorized:
  assumes "ApplyOperation cr chainID n d operation r = Inr r'"
  shows "(RecoverRegistryOperationSigner cr chainID operation = Inr (op_Address operation)
      \<or> RecoverRegistryOperationWalletSigner cr chainID operation = Inr (op_Address operation))
    \<and> unat (op_Sequence operation) = Suc (last_sequence r (op_Address operation))
    \<and> (unat n \<le> unat (op_ValidUntil operation) \<and> unat (op_ValidUntil operation) \<le> unat n + 256)
    \<and> (op_Action operation = RegistryActionRegister \<longrightarrow>
      LightHashMeetsDifficulty (RegistryOperationSigningHash cr chainID operation) d)
    \<and> (b \<noteq> op_Address operation \<longrightarrow> fmlookup r' b = fmlookup r b)"
proof -
  have v: "ValidateRegistryOperation cr chainID n d operation = None"
    using assms by (auto simp: ApplyOperation_def split: option.splits)
  have c1: "RecoverRegistryOperationSigner cr chainID operation = Inr (op_Address operation)
      \<or> RecoverRegistryOperationWalletSigner cr chainID operation = Inr (op_Address operation)"
    and c2: "unat n \<le> unat (op_ValidUntil operation) \<and> unat (op_ValidUntil operation) \<le> unat n + 256"
    and c3: "op_Action operation = RegistryActionRegister \<Longrightarrow>
      LightHashMeetsDifficulty (RegistryOperationSigningHash cr chainID operation) d"
    using ValidateRegistryOperation_None [OF v] by blast+
  have c4: "unat (op_Sequence operation) = Suc (last_sequence r (op_Address operation))"
    by (rule ApplyOperation_sequence(1) [OF assms])
  have c5: "b \<noteq> op_Address operation \<Longrightarrow> fmlookup r' b = fmlookup r b"
    using registry_ops_other(7) [OF _ assms refl] by blast
  from c1 c2 c3 c4 c5 show ?thesis by blast
qed

theorem operation_authorized_witness:
  "unat (op_Sequence (sample_operation 3 1)) = Suc (last_sequence NewCanonicalRegistry 3)"
  using operation_authorized [OF sample_applied] by (simp add: sample_operation_def)

text \<open>A healthy producer and one that serves a penalty until block 20, for the example.\<close>

definition sample_penalized :: CanonicalParticipant where
  "sample_penalized = zeroParticipant\<lparr>cp_Address := 3, cp_RegisteredAt := 5, cp_LastHeartbeat := 5, cp_JailedUntil := 20,
     cp_Sequence := 1, cp_Active := True\<rparr>"

definition sample_healthy :: CanonicalParticipant where
  "sample_healthy = zeroParticipant\<lparr>cp_Address := 5, cp_RegisteredAt := 4, cp_LastHeartbeat := 4, cp_Sequence := 1,
     cp_Active := True\<rparr>"

definition sample_queue_registry :: CanonicalRegistry where
  "sample_queue_registry = fmupd 3 sample_penalized (fmupd 5 sample_healthy fmempty)"

text \<open>Claim C15: the production queue of a block holds exactly the active participants of the registry that are bootstrap ones (sequence 0)
  or were registered more than the activation delay before the block, each once, whatever their penalties. The participants whose penalty has not
  ended are the ones that come after all the others, so a penalty defers a producer but never removes it: the queue is empty only
  when no active participant has passed its activation delay.\<close>

theorem production_queue:
  assumes "registry_wf r"
  shows "distinct (map hp_Address (OrderedParticipantsForBlock cr r h n d w g))
    \<and> set (OrderedParticipantsForBlock cr r h n d w g) = queue_candidate ` {p. \<exists>a. fmlookup r a = Some p \<and> cp_Active p
        \<and> (cp_Sequence p = 0 \<or> unat (cp_RegisteredAt p) + 1 + unat d \<le> unat n)}
    \<and> (a \<in> hp_Address ` set (OrderedParticipantsForBlock cr r h n d w g) \<longleftrightarrow> (\<exists>p. fmlookup r a = Some p \<and> cp_Active p
        \<and> (cp_Sequence p = 0 \<or> unat (cp_RegisteredAt p) + 1 + unat d \<le> unat n)))
    \<and> (a \<in> hp_Address ` set (OrderedParticipantsForBlock cr r h n d w g) \<longleftrightarrow> IsEligibleParticipant r a n d w g)
    \<and> OrderedParticipantsForBlock cr r h n d w g =
      filter (\<lambda>p. hp_JailedUntil p \<le> n) (OrderedParticipantsForBlock cr r h n d w g)
      @ filter (\<lambda>p. n < hp_JailedUntil p) (OrderedParticipantsForBlock cr r h n d w g)
    \<and> (OrderedParticipantsForBlock cr r h n d w g = [] \<longleftrightarrow> \<not> (\<exists>b p. fmlookup r b = Some p \<and> cp_Active p
        \<and> (cp_Sequence p = 0 \<or> unat (cp_RegisteredAt p) + 1 + unat d \<le> unat n)))"
proof -
  let ?q = "OrderedParticipantsForBlock cr r h n d w g"
  let ?E = "\<lambda>p. cp_Active p \<and> (cp_Sequence p = 0 \<or> unat (cp_RegisteredAt p) + 1 + unat d \<le> unat n)"
  have c1: "distinct (map hp_Address ?q)" by (rule OrderedParticipants_distinct [OF assms])
  have c2: "a \<in> hp_Address ` set ?q \<longleftrightarrow> IsEligibleParticipant r a n d w g"
    by (rule OrderedParticipants_address [OF assms])
  have c2': "a \<in> hp_Address ` set ?q \<longleftrightarrow> (\<exists>p. fmlookup r a = Some p \<and> ?E p)"
    unfolding c2 IsEligibleParticipant_iff [OF assms] participant_eligible_iff ..
  have c4: "set ?q = queue_candidate ` {p. \<exists>a. fmlookup r a = Some p \<and> ?E p}"
    unfolding mset_eq_setD [OF OrderedParticipants_mset] set_map
    by (rule arg_cong [of _ _ "(`) queue_candidate"]) (auto simp: EligibleParticipants_mem participant_eligible_iff)
  have c5: "?q = [] \<longleftrightarrow> \<not> (\<exists>b p. fmlookup r b = Some p \<and> ?E p)"
    unfolding set_empty [symmetric] c4 by auto
  obtain xs ys where q: "?q = xs @ ys" "\<forall>p \<in> set xs. hp_JailedUntil p \<le> n" "\<forall>p \<in> set ys. n < hp_JailedUntil p"
    by (rule that [OF OrderedParticipants_eq]) (auto simp: queue_candidate_def)
  have "filter (\<lambda>p. hp_JailedUntil p \<le> n) xs = xs" "filter (\<lambda>p. n < hp_JailedUntil p) ys = ys"
    "filter (\<lambda>p. hp_JailedUntil p \<le> n) ys = []" "filter (\<lambda>p. n < hp_JailedUntil p) xs = []"
    using q(2,3) by (auto simp: filter_id_conv filter_empty_conv)
  then have c3: "?q = filter (\<lambda>p. hp_JailedUntil p \<le> n) ?q @ filter (\<lambda>p. n < hp_JailedUntil p) ?q"
    by (simp add: q(1))
  from c1 c2 c2' c3 c4 c5 show ?thesis by blast
qed

theorem production_queue_witness:
  "queue_candidate sample_penalized \<in> set (OrderedParticipantsForBlock sample_crypto sample_queue_registry 7 9 2 64 16)
   \<and> filter (\<lambda>p. hp_JailedUntil p \<le> 9) (OrderedParticipantsForBlock sample_crypto sample_queue_registry 7 9 2 64 16)
     = [queue_candidate sample_healthy]
   \<and> OrderedParticipantsForBlock sample_crypto sample_queue_registry 7 9 2 64 16
     = [queue_candidate sample_healthy, queue_candidate sample_penalized]"
proof -
  let ?q = "OrderedParticipantsForBlock sample_crypto sample_queue_registry 7 9 2 64 16"
  have wf: "registry_wf sample_queue_registry"
    by (auto simp: registry_wf_def sample_queue_registry_def sample_penalized_def sample_healthy_def zeroParticipant_def)
  have e: "{p. \<exists>a. fmlookup sample_queue_registry a = Some p \<and> cp_Active p
      \<and> (cp_Sequence p = 0 \<or> unat (cp_RegisteredAt p) + 1 + unat (2 :: u64) \<le> unat (9 :: u64))} = {sample_healthy, sample_penalized}"
    (is "?E = _")
  proof -
    have l: "(\<exists>a. fmlookup sample_queue_registry a = Some p) \<longleftrightarrow> p = sample_healthy \<or> p = sample_penalized" for p
    proof
      assume "p = sample_healthy \<or> p = sample_penalized"
      then have "fmlookup sample_queue_registry 5 = Some p \<or> fmlookup sample_queue_registry 3 = Some p"
        by (auto simp: sample_queue_registry_def)
      then show "\<exists>a. fmlookup sample_queue_registry a = Some p" by blast
    qed (auto simp: sample_queue_registry_def split: if_splits)
    have "cp_Active p \<and> (cp_Sequence p = 0 \<or> unat (cp_RegisteredAt p) + 1 + unat (2 :: u64) \<le> unat (9 :: u64))"
      if "p = sample_healthy \<or> p = sample_penalized" for p
      using that by (elim disjE) (simp_all add: sample_healthy_def sample_penalized_def)
    with l show ?thesis by blast
  qed
  note q = production_queue [OF wf, of sample_crypto 7 9 2 64 16 0]
  have s: "set ?q = {queue_candidate sample_healthy, queue_candidate sample_penalized}"
    using conjunct1 [OF conjunct2 [OF q]] unfolding e image_insert image_empty .
  have d: "distinct (map hp_Address ?q)" by (rule conjunct1 [OF q])
  have o: "?q = filter (\<lambda>p. hp_JailedUntil p \<le> 9) ?q @ filter (\<lambda>p. 9 < hp_JailedUntil p) ?q"
    using q by (elim conjE)
  have j: "hp_JailedUntil (queue_candidate sample_healthy) = 0" "hp_JailedUntil (queue_candidate sample_penalized) = 20"
    by (simp_all add: queue_candidate_def sample_healthy_def sample_penalized_def zeroParticipant_def)
  have single: "xs = [x]" if "set xs = {x}" "distinct xs" for xs and x :: HybridParticipant
  proof -
    have "length xs = 1" using that distinct_card [of xs] by simp
    then show ?thesis using that(1) by (cases xs) auto
  qed
  have dq: "distinct ?q" using d unfolding distinct_map by (rule conjunct1)
  have f: "filter (\<lambda>p. hp_JailedUntil p \<le> 9) ?q = [queue_candidate sample_healthy]"
    by (rule single [OF _ distinct_filter [OF dq]]) (auto simp: s j)
  have g: "filter (\<lambda>p. 9 < hp_JailedUntil p) ?q = [queue_candidate sample_penalized]"
    by (rule single [OF _ distinct_filter [OF dq]]) (auto simp: s j)
  have "?q = [queue_candidate sample_healthy, queue_candidate sample_penalized]"
    using o unfolding f g append_Cons append_Nil .
  moreover have "queue_candidate sample_penalized \<in> set ?q" unfolding s by blast
  ultimately show ?thesis using f by blast
qed

text \<open>A missed turn of an active producer counts one more miss, and at the configured limit (3 when unset) clears the
  count and starts a penalty of the configured length (256 blocks when unset) that saturates at the last block
  number; a producer that already serves a penalty is left as it is, so a penalty is never extended.\<close>

theorem missed_turn:
  assumes "fmlookup r a = Some p" and "cp_Active p"
  shows "\<exists>r' q. ApplyMissedTurn r a n m j = Inr r' \<and> fmlookup r' a = Some q
    \<and> (n < cp_JailedUntil p \<longrightarrow> r' = r)
    \<and> (\<not> n < cp_JailedUntil p \<longrightarrow>
        (if miss_limit m \<le> min (unat (cp_MissedTurns p) + 1) (2 ^ 64 - 1)
         then cp_MissedTurns q = 0 \<and> unat (cp_JailedUntil q) = min (unat n + jail_length j) (2 ^ 64 - 1)
         else unat (cp_MissedTurns q) = unat (cp_MissedTurns p) + 1 \<and> cp_JailedUntil q = cp_JailedUntil p))"
  using assms miss_turn_penalty [of m p n j] miss_turn_count [of m p n j]
  by (cases "n < cp_JailedUntil p") (simp_all add: ApplyMissedTurn_def)

theorem missed_turn_witness:
  "\<exists>r' q. ApplyMissedTurn sample_registry 3 9 1 0 = Inr r' \<and> fmlookup r' 3 = Some q \<and> unat (cp_JailedUntil q) = 265"
proof -
  let ?p = "zeroParticipant\<lparr>cp_Address := 3, cp_RegisteredAt := 5, cp_LastHeartbeat := 5, cp_Sequence := 1,
      cp_Active := True\<rparr>"
  have "fmlookup sample_registry 3 = Some ?p" "cp_Active ?p" by (simp_all add: sample_registry_def)
  from missed_turn [OF this, of 9 1 0] show ?thesis by (auto simp: miss_limit_def jail_length_def)
qed

end
