(* ===== verification/Header.thy ===== *)
theory Header
  imports Crypto RLP_Decode
begin

text \<open>
  Block headers (\<open>core/types/block.go\<close>), their RLP encoding (\<open>core/types/gen_header_rlp.go\<close>)
  and hash, and the producer's seal on them (\<open>consensus/lqc/producer_seal.go\<close>). Big integers
  and the optional fields may be nil; a negative big integer makes the encoder fail.
\<close>

section \<open>Headers\<close>

record Header =
  h_ParentHash :: hash
  h_UncleHash :: hash
  h_Coinbase :: address
  h_Root :: hash
  h_TxHash :: hash
  h_ReceiptHash :: hash
  h_Bloom :: "2048 word"
  h_Difficulty :: "int option"
  h_Number :: "int option"
  h_GasLimit :: u64
  h_GasUsed :: u64
  h_Time :: u64
  h_Extra :: bytes
  h_MixDigest :: hash
  h_Nonce :: u64
  h_BaseFee :: "int option"
  h_WithdrawalsHash :: "hash option"
  h_BlobGasUsed :: "u64 option"
  h_ExcessBlobGas :: "u64 option"
  h_ParentBeaconRoot :: "hash option"
  h_RequestsHash :: "hash option"
  h_BlockAccessListHash :: "hash option"
  h_SlotNumber :: "u64 option"

definition bloom_bytes :: "2048 word \<Rightarrow> bytes" where
  "bloom_bytes b = be_bytes 256 (unat b)"

definition big_val :: "int option \<Rightarrow> rlp_val" where
  "big_val z = (case z of None \<Rightarrow> VBytes [] | Some k \<Rightarrow> VBig (nat k))"

definition opt_hash_val :: "hash option \<Rightarrow> rlp_val" where
  "opt_hash_val x = (case x of None \<Rightarrow> VBytes [] | Some k \<Rightarrow> VBytes (hash_bytes k))"

definition opt_u64_val :: "u64 option \<Rightarrow> rlp_val" where
  "opt_u64_val x = (case x of None \<Rightarrow> VBytes [] | Some k \<Rightarrow> VUint k)"

definition big_negative :: "int option \<Rightarrow> bool" where
  "big_negative z = (case z of None \<Rightarrow> False | Some k \<Rightarrow> k < 0)"

definition header_fields :: "Header \<Rightarrow> rlp_val list" where
  "header_fields obj =
     [VBytes (hash_bytes (h_ParentHash obj)), VBytes (hash_bytes (h_UncleHash obj)),
      VBytes (addr_bytes (h_Coinbase obj)), VBytes (hash_bytes (h_Root obj)),
      VBytes (hash_bytes (h_TxHash obj)), VBytes (hash_bytes (h_ReceiptHash obj)),
      VBytes (bloom_bytes (h_Bloom obj)), big_val (h_Difficulty obj), big_val (h_Number obj),
      VUint (h_GasLimit obj), VUint (h_GasUsed obj), VUint (h_Time obj), VBytes (h_Extra obj),
      VBytes (hash_bytes (h_MixDigest obj)), VBytes (u64_be (h_Nonce obj))]"

definition header_optionals :: "Header \<Rightarrow> rlp_val list" where
  "header_optionals obj =
     (let tmp1 = h_BaseFee obj \<noteq> None;
          tmp2 = h_WithdrawalsHash obj \<noteq> None;
          tmp3 = h_BlobGasUsed obj \<noteq> None;
          tmp4 = h_ExcessBlobGas obj \<noteq> None;
          tmp5 = h_ParentBeaconRoot obj \<noteq> None;
          tmp6 = h_RequestsHash obj \<noteq> None;
          tmp7 = h_BlockAccessListHash obj \<noteq> None;
          tmp8 = h_SlotNumber obj \<noteq> None
      in (if tmp1 \<or> tmp2 \<or> tmp3 \<or> tmp4 \<or> tmp5 \<or> tmp6 \<or> tmp7 \<or> tmp8
          then [big_val (h_BaseFee obj)] else [])
       @ (if tmp2 \<or> tmp3 \<or> tmp4 \<or> tmp5 \<or> tmp6 \<or> tmp7 \<or> tmp8
          then [opt_hash_val (h_WithdrawalsHash obj)] else [])
       @ (if tmp3 \<or> tmp4 \<or> tmp5 \<or> tmp6 \<or> tmp7 \<or> tmp8 then [opt_u64_val (h_BlobGasUsed obj)] else [])
       @ (if tmp4 \<or> tmp5 \<or> tmp6 \<or> tmp7 \<or> tmp8 then [opt_u64_val (h_ExcessBlobGas obj)] else [])
       @ (if tmp5 \<or> tmp6 \<or> tmp7 \<or> tmp8 then [opt_hash_val (h_ParentBeaconRoot obj)] else [])
       @ (if tmp6 \<or> tmp7 \<or> tmp8 then [opt_hash_val (h_RequestsHash obj)] else [])
       @ (if tmp7 \<or> tmp8 then [opt_hash_val (h_BlockAccessListHash obj)] else [])
       @ (if tmp8 then [opt_u64_val (h_SlotNumber obj)] else []))"

text \<open>\<open>None\<close> is \<open>rlp.ErrNegativeBigInt\<close>.\<close>

definition Header_EncodeRLP :: "Header \<Rightarrow> rlp_val option" where
  "Header_EncodeRLP obj =
     (if big_negative (h_Difficulty obj) \<or> big_negative (h_Number obj) \<or> big_negative (h_BaseFee obj)
      then None else Some (VStruct (header_fields obj @ header_optionals obj)))"

definition Header_Hash :: "crypto \<Rightarrow> Header \<Rightarrow> hash" where
  "Header_Hash cr h =
     keccak256 cr (case Header_EncodeRLP h of None \<Rightarrow> [] | Some v \<Rightarrow> EncodeToBytes v)"

text \<open>The copy turns a nil difficulty or number into 0.\<close>

definition CopyHeader :: "Header \<Rightarrow> Header" where
  "CopyHeader h = h\<lparr>h_Difficulty := Some (case h_Difficulty h of None \<Rightarrow> 0 | Some d \<Rightarrow> d),
                    h_Number := Some (case h_Number h of None \<Rightarrow> 0 | Some n \<Rightarrow> n)\<rparr>"

section \<open>Producer seals\<close>

datatype seal_error =
    ErrMissingProducerSeal
  | ErrInvalidProducerSeal
  | ErrUnauthorizedProducerSeal
  | ErrMissingSealChainID
  | ErrInvalidSealHeader
  | ErrEncodeProducerSeal
  | ErrMissingHeaderSigner
  | ErrSignHeader

definition ProducerSealLength :: nat where
  "ProducerSealLength = SignatureLength"

definition producerSealDomain :: bytes where
  "producerSealDomain = ascii ''RABBIT-LQC-BLOCK-SEAL-V1''"

definition splitProducerSeal :: "bytes \<Rightarrow> seal_error + bytes \<times> bytes" where
  "splitProducerSeal extra =
     (if length extra < ProducerSealLength then Inl ErrMissingProducerSeal
      else let payloadLength = length extra - ProducerSealLength
           in Inr (take payloadLength extra, drop payloadLength extra))"

definition appendEmptyProducerSeal :: "bytes \<Rightarrow> bytes" where
  "appendEmptyProducerSeal extra = extra @ replicate ProducerSealLength 0"

definition producerSealPayload :: "nat \<Rightarrow> rlp_val \<Rightarrow> rlp_val" where
  "producerSealPayload chainID header = VStruct [VBytes producerSealDomain, VBig chainID, header]"

definition ProducerSealData :: "int option \<Rightarrow> Header \<Rightarrow> seal_error + bytes" where
  "ProducerSealData chainID header =
     (case chainID of None \<Rightarrow> Inl ErrMissingSealChainID
      | Some c \<Rightarrow>
        if c \<le> 0 then Inl ErrMissingSealChainID
        else if (case h_Number header of None \<Rightarrow> True | Some n \<Rightarrow> n \<le> 0) then Inl ErrInvalidSealHeader
        else case splitProducerSeal (h_Extra header) of
          Inl err \<Rightarrow> Inl err
        | Inr (extra, _) \<Rightarrow>
            (case Header_EncodeRLP ((CopyHeader header)\<lparr>h_Extra := extra\<rparr>) of
               None \<Rightarrow> Inl ErrEncodeProducerSeal
             | Some v \<Rightarrow> Inr (EncodeToBytes (producerSealPayload (nat c) v))))"

definition producerSealHash :: "crypto \<Rightarrow> int option \<Rightarrow> Header \<Rightarrow> seal_error + hash" where
  "producerSealHash cr chainID header =
     (case ProducerSealData chainID header of Inl err \<Rightarrow> Inl err
      | Inr payload \<Rightarrow> Inr (Keccak256Hash cr [payload]))"

definition recoverProducerSeal :: "crypto \<Rightarrow> int option \<Rightarrow> Header \<Rightarrow> seal_error + address" where
  "recoverProducerSeal cr chainID header =
     (case splitProducerSeal (h_Extra header) of
        Inl err \<Rightarrow> Inl err
      | Inr (_, signature) \<Rightarrow>
          if signature = replicate ProducerSealLength 0 then Inl ErrMissingProducerSeal
          else if length signature \<noteq> ProducerSealLength then Inl ErrInvalidProducerSeal
          else if \<not> sig_values_ok signature then Inl ErrInvalidProducerSeal
          else case producerSealHash cr chainID header of
            Inl err \<Rightarrow> Inl err
          | Inr h \<Rightarrow> (case sigToAddress cr h signature of
                None \<Rightarrow> Inl ErrInvalidProducerSeal
              | Some addr \<Rightarrow> Inr addr))"

definition VerifyProducerSeal :: "crypto \<Rightarrow> int option \<Rightarrow> Header \<Rightarrow> seal_error option" where
  "VerifyProducerSeal cr chainID header =
     (if h_Coinbase header = 0 then Some ErrUnauthorizedProducerSeal
      else case recoverProducerSeal cr chainID header of
        Inl err \<Rightarrow> Some err
      | Inr signer \<Rightarrow> if signer \<noteq> h_Coinbase header then Some ErrUnauthorizedProducerSeal else None)"

text \<open>\<open>sign\<close> is the wallet's signing callback, \<open>None\<close> a nil one; its result is \<open>None\<close> on error.\<close>

definition SealHeader ::
  "crypto \<Rightarrow> int option \<Rightarrow> Header \<Rightarrow> (address \<Rightarrow> bytes \<Rightarrow> bytes option) option \<Rightarrow> seal_error + Header" where
  "SealHeader cr chainID header sign =
     (case sign of None \<Rightarrow> Inl ErrMissingHeaderSigner
      | Some signer \<Rightarrow>
        (case ProducerSealData chainID header of Inl err \<Rightarrow> Inl err
         | Inr payload \<Rightarrow>
           (case signer (h_Coinbase header) payload of None \<Rightarrow> Inl ErrSignHeader
            | Some signature \<Rightarrow>
                if length signature \<noteq> ProducerSealLength then Inl ErrInvalidProducerSeal
                else case splitProducerSeal (h_Extra header) of
                  Inl err \<Rightarrow> Inl err
                | Inr (extra, _) \<Rightarrow>
                    let sealed = (CopyHeader header)\<lparr>h_Extra := extra @ signature\<rparr>
                    in case VerifyProducerSeal cr chainID sealed of
                         Some err \<Rightarrow> Inl err
                       | None \<Rightarrow> Inr sealed)))"

section \<open>Splitting the seal\<close>

lemma ProducerSealLength_eq: "ProducerSealLength = 65"
  by (simp add: ProducerSealLength_def SignatureLength_def)

lemma splitProducerSeal_Inr:
  "splitProducerSeal e = Inr (p, s) \<longleftrightarrow> e = p @ s \<and> length s = ProducerSealLength"
  by (auto simp: splitProducerSeal_def Let_def)

lemma splitProducerSeal_append [simp]:
  "length s = ProducerSealLength \<Longrightarrow> splitProducerSeal (p @ s) = Inr (p, s)"
  by (simp add: splitProducerSeal_Inr)

lemma split_appendEmpty [simp]:
  "splitProducerSeal (appendEmptyProducerSeal e) = Inr (e, replicate ProducerSealLength 0)"
  by (simp add: appendEmptyProducerSeal_def)

lemma CopyHeader_Some:
  "h_Number h = Some n \<Longrightarrow> h_Number (CopyHeader h) = Some n"
  by (simp add: CopyHeader_def)

lemma CopyHeader_idem [simp]: "CopyHeader (CopyHeader h) = CopyHeader h"
  by (simp add: CopyHeader_def)

lemma ProducerSealData_seal_free:
  assumes "h_Number h \<noteq> None" and "length s = ProducerSealLength" and "length t = ProducerSealLength"
  shows "ProducerSealData c ((CopyHeader h)\<lparr>h_Extra := p @ s\<rparr>) = ProducerSealData c (h\<lparr>h_Extra := p @ t\<rparr>)"
  using assms by (auto simp: ProducerSealData_def CopyHeader_def split: option.splits)

lemma SealHeader_verified:
  assumes "SealHeader cr chainID header sign = Inr sealed"
  shows "VerifyProducerSeal cr chainID sealed = None"
    and "\<exists>p s t. h_Extra header = p @ s \<and> length s = ProducerSealLength
      \<and> sealed = (CopyHeader header)\<lparr>h_Extra := p @ t\<rparr> \<and> length t = ProducerSealLength"
  using assms
  by (auto simp: SealHeader_def Let_def splitProducerSeal_Inr split: option.splits sum.splits if_splits)
     blast

section \<open>The seal covers the header\<close>

text \<open>
  The generated encoder writes a nil optional field that precedes a set one like an empty value,
  so headers are compared where the optional fields are set from the first on, as a fork schedule
  sets them.
\<close>

definition optional_items :: "Header \<Rightarrow> rlp_item option list" where
  "optional_items h =
     [map_option (\<lambda>k. RStr (be_min (nat k))) (h_BaseFee h),
      map_option (\<lambda>k. RStr (hash_bytes k)) (h_WithdrawalsHash h),
      map_option (\<lambda>k. RStr (be_min (unat k))) (h_BlobGasUsed h),
      map_option (\<lambda>k. RStr (be_min (unat k))) (h_ExcessBlobGas h),
      map_option (\<lambda>k. RStr (hash_bytes k)) (h_ParentBeaconRoot h),
      map_option (\<lambda>k. RStr (hash_bytes k)) (h_RequestsHash h),
      map_option (\<lambda>k. RStr (hash_bytes k)) (h_BlockAccessListHash h),
      map_option (\<lambda>k. RStr (be_min (unat k))) (h_SlotNumber h)]"

fun prefix_set :: "'a option list \<Rightarrow> bool" where
  "prefix_set [] = True"
| "prefix_set (None # xs) = list_all (\<lambda>x. x = None) xs"
| "prefix_set (Some _ # xs) = prefix_set xs"

fun set_prefix :: "'a option list \<Rightarrow> 'a list" where
  "set_prefix [] = []"
| "set_prefix (None # xs) = []"
| "set_prefix (Some x # xs) = x # set_prefix xs"

lemma set_prefix_inject:
  "prefix_set xs \<Longrightarrow> prefix_set ys \<Longrightarrow> length xs = length ys \<Longrightarrow> set_prefix xs = set_prefix ys \<Longrightarrow> xs = ys"
proof (induction xs arbitrary: ys rule: set_prefix.induct)
  case (2 xs)
  then obtain y ys' where ys: "ys = y # ys'" by (cases ys) auto
  with 2 have "y = None" by (cases y) auto
  moreover have "xs = ys'"
    using 2 ys \<open>y = None\<close> by (auto simp: list_all_iff intro!: nth_equalityI) (metis nth_mem)
  ultimately show ?case using ys by simp
next
  case (3 x xs)
  then obtain y ys' where ys: "ys = y # ys'" by (cases ys) auto
  with 3 show ?case by (cases y) auto
qed simp

definition optionals_prefix :: "Header \<Rightarrow> bool" where
  "optionals_prefix h \<longleftrightarrow> prefix_set (optional_items h)"

lemma header_optionals_items:
  assumes "optionals_prefix h"
  shows "map item_of (header_optionals h) = set_prefix (optional_items h)"
proof -
  note d = assms [unfolded optionals_prefix_def optional_items_def]
  show ?thesis
    using d
    by (cases "h_BaseFee h"; cases "h_WithdrawalsHash h"; cases "h_BlobGasUsed h";
        cases "h_ExcessBlobGas h"; cases "h_ParentBeaconRoot h"; cases "h_RequestsHash h";
        cases "h_BlockAccessListHash h"; cases "h_SlotNumber h")
       (simp_all add: header_optionals_def optional_items_def Let_def big_val_def opt_hash_val_def
          opt_u64_val_def)
qed

lemma optional_items_inject:
  assumes "optional_items h = optional_items h'" and "\<not> big_negative (h_BaseFee h)"
    and "\<not> big_negative (h_BaseFee h')"
  shows "h_BaseFee h = h_BaseFee h'" "h_WithdrawalsHash h = h_WithdrawalsHash h'"
    "h_BlobGasUsed h = h_BlobGasUsed h'" "h_ExcessBlobGas h = h_ExcessBlobGas h'"
    "h_ParentBeaconRoot h = h_ParentBeaconRoot h'" "h_RequestsHash h = h_RequestsHash h'"
    "h_BlockAccessListHash h = h_BlockAccessListHash h'" "h_SlotNumber h = h_SlotNumber h'"
proof -
  have inj: "map_option f x = map_option f y \<Longrightarrow> inj f \<Longrightarrow> x = y" for f :: "'a \<Rightarrow> rlp_item" and x y
    by (metis option.inj_map injD)
  have ih: "inj (\<lambda>k. RStr (hash_bytes k))" and iu: "inj (\<lambda>k :: u64. RStr (be_min (unat k)))"
    by (auto simp: inj_def word_unat_eq_iff)
  note eq = assms(1) [unfolded optional_items_def list.inject]
  show "h_WithdrawalsHash h = h_WithdrawalsHash h'" "h_BlobGasUsed h = h_BlobGasUsed h'"
    "h_ExcessBlobGas h = h_ExcessBlobGas h'"
    "h_ParentBeaconRoot h = h_ParentBeaconRoot h'" "h_RequestsHash h = h_RequestsHash h'"
    "h_BlockAccessListHash h = h_BlockAccessListHash h'" "h_SlotNumber h = h_SlotNumber h'"
    using eq inj [OF _ ih] inj [OF _ iu] by blast+
  show "h_BaseFee h = h_BaseFee h'"
    using eq assms(2,3) by (cases "h_BaseFee h"; cases "h_BaseFee h'") (auto simp: big_negative_def)
qed

lemma bloom_bytes_inject [simp]: "bloom_bytes a = bloom_bytes b \<longleftrightarrow> a = b"
proof -
  have "unat (x :: 2048 word) < 256 ^ 256" for x
    using unsigned_less [of x, where ?'a = nat] by simp
  then show ?thesis by (auto simp: bloom_bytes_def be_bytes_inject word_unat_eq_iff)
qed

lemma map_item_of_append_inject:
  assumes "map item_of (header_fields h) @ xs = map item_of (header_fields h') @ ys"
  shows "map item_of (header_fields h) = map item_of (header_fields h')" and "xs = ys"
proof -
  have "length (map item_of (header_fields h)) = length (map item_of (header_fields h'))"
    by (simp add: header_fields_def)
  then show "map item_of (header_fields h) = map item_of (header_fields h')" "xs = ys"
    using assms append_eq_append_conv by blast+
qed

text \<open>A header whose big integers are set and not negative, as the chain's headers are.\<close>

definition header_ok :: "Header \<Rightarrow> bool" where
  "header_ok h \<longleftrightarrow> h_Difficulty h \<noteq> None \<and> h_Number h \<noteq> None \<and> \<not> big_negative (h_Difficulty h)
     \<and> \<not> big_negative (h_Number h) \<and> \<not> big_negative (h_BaseFee h) \<and> optionals_prefix h"

lemma header_items_inject:
  assumes "header_ok h" and "header_ok h'"
    and "map item_of (header_fields h @ header_optionals h) = map item_of (header_fields h' @ header_optionals h')"
  shows "h = h'"
proof -
  note eq = map_item_of_append_inject [OF assms(3) [unfolded map_append]]
  have opt: "optional_items h = optional_items h'"
    using eq(2) assms(1,2)
    by (intro set_prefix_inject) (simp_all add: header_optionals_items header_ok_def optionals_prefix_def
      optional_items_def)
  have "h_Difficulty h = h_Difficulty h'" "h_Number h = h_Number h'"
    using eq(1) assms(1,2)
    by (auto simp: header_fields_def big_val_def header_ok_def big_negative_def)
  moreover have "h_ParentHash h = h_ParentHash h'" "h_UncleHash h = h_UncleHash h'"
    "h_Coinbase h = h_Coinbase h'" "h_Root h = h_Root h'" "h_TxHash h = h_TxHash h'"
    "h_ReceiptHash h = h_ReceiptHash h'" "h_Bloom h = h_Bloom h'" "h_GasLimit h = h_GasLimit h'"
    "h_GasUsed h = h_GasUsed h'" "h_Time h = h_Time h'" "h_Extra h = h_Extra h'"
    "h_MixDigest h = h_MixDigest h'" "h_Nonce h = h_Nonce h'"
    using eq(1) by (simp_all add: header_fields_def word_unat_eq_iff)
  ultimately show ?thesis
    using optional_items_inject [OF opt] assms(1,2) by (auto simp: header_ok_def intro: Header.equality)
qed

text \<open>Headers of the size the chain accepts: big integers below \<open>2 ^ 256\<close> and bounded extra data.\<close>

definition header_sized :: "Header \<Rightarrow> bool" where
  "header_sized h \<longleftrightarrow> length (h_Extra h) < 2 ^ 32 \<and> (\<forall>k \<in> set_option (h_Difficulty h). nat k < 2 ^ 256)
     \<and> (\<forall>k \<in> set_option (h_Number h). nat k < 2 ^ 256) \<and> (\<forall>k \<in> set_option (h_BaseFee h). nat k < 2 ^ 256)"

lemma length_rlp_VBytes: "length b < 2 ^ 32 \<Longrightarrow> length (rlp_bytes (VBytes b)) \<le> 9 + length b"
  using length_rlp_str [of b] by (simp del: rlp_encode.simps)

lemma length_rlp_big:
  assumes "k < 2 ^ 256"
  shows "length (rlp_bytes (VBig k)) \<le> 41"
proof -
  have "k < 256 ^ 32" using assms by simp
  then have "length (be_min k) \<le> 32" by (rule be_min_length_le)
  then show ?thesis using length_rlp_str [of "be_min k"] by (simp del: rlp_encode.simps)
qed

lemma header_val_le:
  assumes "header_sized h" and "v \<in> set (header_fields h @ header_optionals h)"
  shows "length (rlp_bytes v) \<le> 300 + length (h_Extra h)"
proof -
  have b: "length (rlp_bytes (VBytes b)) \<le> 300 + length (h_Extra h)"
    if "length b \<le> 256 + length (h_Extra h)" for b
    using length_rlp_VBytes [of b] length_rlp_str [of b] that assms(1)
    by (simp add: header_sized_def del: rlp_encode.simps)
  have g: "length (rlp_bytes (big_val z)) \<le> 300 + length (h_Extra h)"
    if "\<forall>k \<in> set_option z. nat k < 2 ^ 256" for z
    using that length_rlp_big b [of "[]"] by (force simp: big_val_def simp del: rlp_encode.simps split: option.splits)
  have u: "length (rlp_bytes (VUint i)) \<le> 300 + length (h_Extra h)" for i
    using length_rlp_uint [of i] by linarith
  have oh: "length (rlp_bytes (opt_hash_val x)) \<le> 300 + length (h_Extra h)" for x
    unfolding opt_hash_val_def by (cases x) (simp_all add: b del: rlp_encode.simps item_of.simps)
  have ou: "length (rlp_bytes (opt_u64_val x)) \<le> 300 + length (h_Extra h)" for x
    unfolding opt_u64_val_def by (cases x) (simp_all add: b u del: rlp_encode.simps item_of.simps)
  show ?thesis
    using assms(2) assms(1) g u oh ou b
    by (auto simp: header_fields_def header_optionals_def Let_def header_sized_def bloom_bytes_def
        simp del: rlp_encode.simps item_of.simps split: if_splits)
qed

lemma seal_payload_small:
  assumes "header_sized h" and "c < 2 ^ 256"
  shows "length (rlp_bytes (producerSealPayload c (VStruct (header_fields h @ header_optionals h)))) < 2 ^ 64"
proof -
  let ?vs = "header_fields h @ header_optionals h"
  have e: "length (h_Extra h) < 2 ^ 32" using assms(1) by (simp add: header_sized_def)
  have "length ?vs \<le> 23" by (simp add: header_fields_def header_optionals_def Let_def)
  moreover have "length (concat (map rlp_bytes ?vs)) \<le> (300 + length (h_Extra h)) * length ?vs"
    using header_val_le [OF assms(1)] by (rule length_concat_le)
  ultimately have "length (concat (map rlp_bytes ?vs)) \<le> (300 + length (h_Extra h)) * 23"
    by (meson le_trans mult_le_mono2)
  from length_rlp_list [OF this] e
  have v: "length (rlp_bytes (VStruct ?vs)) \<le> 9 + (300 + length (h_Extra h)) * 23"
    by (simp del: rlp_encode.simps)
  have d: "length (rlp_bytes (VBytes producerSealDomain)) \<le> 33"
    using length_rlp_VBytes [of producerSealDomain] by (simp add: producerSealDomain_def ascii_def)
  have "length (concat (map rlp_bytes [VBytes producerSealDomain, VBig c, VStruct ?vs]))
      \<le> 33 + 41 + (9 + (300 + length (h_Extra h)) * 23)"
    using v d length_rlp_big [OF assms(2)] by (simp del: rlp_encode.simps)
  from length_rlp_list [OF this] e show ?thesis
    by (simp add: producerSealPayload_def del: rlp_encode.simps)
qed

text \<open>The header without its seal.\<close>

definition unsealed :: "Header \<Rightarrow> Header" where
  "unsealed h = h\<lparr>h_Extra := take (length (h_Extra h) - ProducerSealLength) (h_Extra h)\<rparr>"

lemma ProducerSealData_Inr:
  assumes "ProducerSealData chainID h = Inr d" and "header_ok h"
  shows "\<exists>c. chainID = Some c \<and> 0 < c \<and> d = EncodeToBytes (producerSealPayload (nat c)
    (VStruct (header_fields (unsealed h) @ header_optionals (unsealed h))))"
proof -
  have "CopyHeader h = h" using assms(2) by (auto simp: CopyHeader_def header_ok_def)
  then show ?thesis
    using assms by (auto simp: ProducerSealData_def Header_EncodeRLP_def unsealed_def splitProducerSeal_def
      Let_def split: option.splits if_splits sum.splits)
qed

lemma header_ok_unsealed: "header_ok h \<Longrightarrow> header_ok (unsealed h)"
  by (simp add: header_ok_def unsealed_def optionals_prefix_def optional_items_def)

lemma header_sized_unsealed: "header_sized h \<Longrightarrow> header_sized (unsealed h)"
  by (auto simp: header_sized_def unsealed_def)

lemma ProducerSealData_inject:
  assumes "ProducerSealData chainID h = Inr d" and "ProducerSealData chainID' h' = Inr d"
    and ok: "header_ok h" "header_ok h'" and sz: "header_sized h" "header_sized h'"
    and cs: "\<forall>c \<in> set_option chainID. nat c < 2 ^ 256" "\<forall>c \<in> set_option chainID'. nat c < 2 ^ 256"
  shows "chainID = chainID'" and "unsealed h = unsealed h'"
proof -
  let ?v = "\<lambda>h. VStruct (header_fields (unsealed h) @ header_optionals (unsealed h))"
  obtain a where a: "chainID = Some a" "0 < a" "d = EncodeToBytes (producerSealPayload (nat a) (?v h))"
    using ProducerSealData_Inr [OF assms(1) ok(1)] by blast
  obtain b where b: "chainID' = Some b" "0 < b" "d = EncodeToBytes (producerSealPayload (nat b) (?v h'))"
    using ProducerSealData_Inr [OF assms(2) ok(2)] by blast
  let ?p = "producerSealPayload (nat a) (?v h)" and ?q = "producerSealPayload (nat b) (?v h')"
  have l: "length (rlp_bytes ?p) < 2 ^ 64" "length (rlp_bytes ?q) < 2 ^ 64"
    using seal_payload_small [OF header_sized_unsealed] sz cs a(1) b(1) by simp_all
  have "rlp_bytes ?p = rlp_bytes ?q" using a(3) b(3) EncodeToBytes_eq(1) l by metis
  then have "item_of ?p = item_of ?q"
    using rlp_encode_inject fits_of_length [OF l(1)] fits_of_length [OF l(2)] by blast
  then have "nat a = nat b" and m: "map item_of (header_fields (unsealed h) @ header_optionals (unsealed h))
      = map item_of (header_fields (unsealed h') @ header_optionals (unsealed h'))"
    by (simp_all add: producerSealPayload_def)
  then show "chainID = chainID'" using a(1,2) b(1,2) by simp
  show "unsealed h = unsealed h'"
    using header_items_inject [OF header_ok_unsealed header_ok_unsealed m] ok by blast
qed

section \<open>Properties\<close>

definition sample_header :: "address \<Rightarrow> u64 \<Rightarrow> bytes \<Rightarrow> Header" where
  "sample_header coinbase number extra = \<lparr>h_ParentHash = 11, h_UncleHash = 12, h_Coinbase = coinbase, h_Root = 13,
     h_TxHash = 14, h_ReceiptHash = 15, h_Bloom = 0, h_Difficulty = Some 0, h_Number = Some (uint number),
     h_GasLimit = 30000000, h_GasUsed = 0, h_Time = 100, h_Extra = extra, h_MixDigest = 0, h_Nonce = 0,
     h_BaseFee = Some 7, h_WithdrawalsHash = None, h_BlobGasUsed = None, h_ExcessBlobGas = None,
     h_ParentBeaconRoot = None, h_RequestsHash = None, h_BlockAccessListHash = None, h_SlotNumber = None\<rparr>"

lemma sample_header_ok [simp]: "header_ok (sample_header c n e)"
  by (simp add: header_ok_def sample_header_def big_negative_def optionals_prefix_def optional_items_def)

lemma sample_header_sized [simp]: "length e < 2 ^ 32 \<Longrightarrow> header_sized (sample_header c n e)"
proof -
  have "unat n < 2 ^ 64" by simp
  then have "unat n < 2 ^ 256" by (rule less_trans) simp
  then have "nat (uint n) < 2 ^ 256" by (simp add: nat_uint_eq)
  then show "length e < 2 ^ 32 \<Longrightarrow> header_sized (sample_header c n e)"
    by (simp add: header_sized_def sample_header_def)
qed

lemma sample_header_seal_data:
  assumes "0 < n" and "length s = ProducerSealLength"
  shows "ProducerSealData (Some 1) (sample_header c n (p @ s)) = Inr (EncodeToBytes (producerSealPayload 1
    (VStruct (header_fields (sample_header c n p) @ header_optionals (sample_header c n p)))))"
proof -
  have "0 < uint n" using assms(1) by (simp add: word_less_def)
  then show ?thesis
    using assms(2) by (simp add: ProducerSealData_def CopyHeader_def sample_header_def Header_EncodeRLP_def big_negative_def)
qed

lemma sample_sealed:
  assumes "a \<noteq> 0" and "0 < n"
  shows "VerifyProducerSeal sample_crypto (Some 1) (sample_header a n (p @ sample_signature a)) = None"
proof -
  have "length (sample_signature a) = ProducerSealLength" by (simp add: ProducerSealLength_eq)
  moreover have "sample_signature a \<noteq> replicate ProducerSealLength 0"
  proof
    assume "sample_signature a = replicate ProducerSealLength 0"
    then have "sample_signature a ! 63 = 0" by (simp add: ProducerSealLength_eq)
    then show False by (simp add: sample_signature_def nth_append)
  qed
  moreover have "h_Coinbase (sample_header a n e) = a" "h_Extra (sample_header a n e) = e" for e
    by (simp_all add: sample_header_def)
  ultimately show ?thesis
    using assms by (simp add: VerifyProducerSeal_def recoverProducerSeal_def producerSealHash_def sample_header_seal_data)
qed

text \<open>The condition on the optional fields is needed: a nil blob gas before a set excess blob gas is written like 0.\<close>

lemma seal_optional_ambiguity:
  fixes h e
  defines "h0 \<equiv> h\<lparr>h_ExcessBlobGas := Some e, h_BlobGasUsed := None\<rparr>" and "h1 \<equiv> h\<lparr>h_ExcessBlobGas := Some e, h_BlobGasUsed := Some 0\<rparr>"
  shows "h0 \<noteq> h1 \<and> \<not> optionals_prefix h0"
    and "item_of (VStruct (header_fields h0 @ header_optionals h0)) = item_of (VStruct (header_fields h1 @ header_optionals h1))"
  unfolding h0_def h1_def
proof -
  show "h\<lparr>h_ExcessBlobGas := Some e, h_BlobGasUsed := None\<rparr> \<noteq> h\<lparr>h_ExcessBlobGas := Some e, h_BlobGasUsed := Some 0\<rparr>
      \<and> \<not> optionals_prefix (h\<lparr>h_ExcessBlobGas := Some e, h_BlobGasUsed := None\<rparr>)"
    by (cases "h_BaseFee h"; cases "h_WithdrawalsHash h")
      (auto simp: optionals_prefix_def optional_items_def dest: arg_cong [of _ _ h_BlobGasUsed])
qed (simp add: header_fields_def header_optionals_def Let_def opt_u64_val_def)



text \<open>What the wallet behind the signing callback does for an address: it signs every payload, with a valid 65-byte signature that recovers to the
  address.\<close>

definition signs_for :: "crypto \<Rightarrow> (address \<Rightarrow> bytes \<Rightarrow> bytes option) \<Rightarrow> address \<Rightarrow> bool" where
  "signs_for cr signer a \<longleftrightarrow> (\<forall>d. \<exists>s. signer a d = Some s \<and> length s = SignatureLength \<and> sig_values_ok s
     \<and> sigToAddress cr (Keccak256Hash cr [d]) s = Some a)"

lemma sig_values_ok_nonzero: "sig_values_ok s \<Longrightarrow> s \<noteq> replicate ProducerSealLength 0"
  by (auto simp: sig_values_ok_def ValidateSignatureValues_def sig_r_def ProducerSealLength_eq)

lemma SealHeader_signs:
  assumes "0 < c" and "h_Number header = Some n" and "0 < n"
    and "\<not> big_negative (h_Difficulty header)" and "\<not> big_negative (h_BaseFee header)"
    and "ProducerSealLength \<le> length (h_Extra header)" and "h_Coinbase header \<noteq> 0"
    and "signs_for cr signer (h_Coinbase header)"
  shows "\<exists>sealed. SealHeader cr (Some c) header (Some signer) = Inr sealed"
proof -
  obtain p t where e: "h_Extra header = p @ t" and t: "length t = ProducerSealLength"
    using assms(6) by (metis append_take_drop_id diff_diff_cancel length_drop)
  obtain d where d: "ProducerSealData (Some c) header = Inr d"
    using assms(1-5) t by (auto simp: ProducerSealData_def e CopyHeader_def Header_EncodeRLP_def big_negative_def split: option.splits)
  obtain s where s: "signer (h_Coinbase header) d = Some s" "length s = ProducerSealLength" "sig_values_ok s"
      "sigToAddress cr (Keccak256Hash cr [d]) s = Some (h_Coinbase header)"
    using assms(8) unfolding signs_for_def ProducerSealLength_def by blast
  let ?sealed = "(CopyHeader header)\<lparr>h_Extra := p @ s\<rparr>"
  have "header\<lparr>h_Extra := p @ t\<rparr> = header" using e by simp
  then have "ProducerSealData (Some c) ?sealed = Inr d"
    using ProducerSealData_seal_free [of header s t "Some c" p] assms(2) s(2) t d by simp
  moreover have "h_Coinbase ?sealed = h_Coinbase header" "h_Extra ?sealed = p @ s" by (simp_all add: CopyHeader_def)
  ultimately have "VerifyProducerSeal cr (Some c) ?sealed = None"
    using s assms(7) sig_values_ok_nonzero [OF s(3)] by (simp add: VerifyProducerSeal_def recoverProducerSeal_def producerSealHash_def)
  then show ?thesis using d s t by (simp add: SealHeader_def e)
qed

text \<open>Claim C19: sealing works and touches nothing but the seal. When the chain identifier and the block number are positive, no big integer is negative, the extra data
  has room for a seal, the coinbase is not zero and the wallet signs for the coinbase, \<open>SealHeader\<close> returns a header; and every header it returns, for any
  callback, passes \<open>VerifyProducerSeal\<close> and has every field of the input except that the last 65 bytes of the extra data are replaced by 65 others and
  that a nil difficulty has become 0.\<close>

theorem sealed_header_verifies:
  assumes "0 < c" and "h_Number header = Some n" and "0 < n"
    and "\<not> big_negative (h_Difficulty header)" and "\<not> big_negative (h_BaseFee header)"
    and "65 \<le> length (h_Extra header)" and "h_Coinbase header \<noteq> 0"
    and "signs_for cr signer (h_Coinbase header)"
  shows "(\<exists>sealed. SealHeader cr (Some c) header (Some signer) = Inr sealed)
    \<and> (\<forall>chainID h sign sealed. SealHeader cr chainID h sign = Inr sealed \<longrightarrow> VerifyProducerSeal cr chainID sealed = None
      \<and> 65 \<le> length (h_Extra h) \<and> (\<exists>s. length s = 65 \<and> sealed = h\<lparr>h_Difficulty := Some (case h_Difficulty h of None \<Rightarrow> 0 | Some d \<Rightarrow> d),
        h_Extra := take (length (h_Extra h) - 65) (h_Extra h) @ s\<rparr>))"
proof -
  have "VerifyProducerSeal cr chainID sealed = None \<and> 65 \<le> length (h_Extra h)
      \<and> (\<exists>s. length s = 65 \<and> sealed = h\<lparr>h_Difficulty := Some (case h_Difficulty h of None \<Rightarrow> 0 | Some d \<Rightarrow> d),
        h_Extra := take (length (h_Extra h) - 65) (h_Extra h) @ s\<rparr>)"
    if a: "SealHeader cr chainID h sign = Inr sealed" for chainID h sign sealed
  proof -
    obtain p s t where x: "h_Extra h = p @ s" "length s = 65" "sealed = (CopyHeader h)\<lparr>h_Extra := p @ t\<rparr>" "length t = 65"
      using SealHeader_verified(2) [OF a] unfolding ProducerSealLength_eq by blast
    obtain k where "h_Number h = Some k"
      using a by (auto simp: SealHeader_def ProducerSealData_def split: option.splits if_splits)
    then have "sealed = h\<lparr>h_Difficulty := Some (case h_Difficulty h of None \<Rightarrow> 0 | Some d \<Rightarrow> d),
        h_Extra := take (length (h_Extra h) - 65) (h_Extra h) @ t\<rparr>"
      using x by (simp add: CopyHeader_def)
    then show ?thesis using SealHeader_verified(1) [OF a] x by auto
  qed
  with SealHeader_signs [OF assms(1-5) _ assms(7,8)] assms(6) show ?thesis unfolding ProducerSealLength_eq by blast
qed

theorem sealed_header_verifies_witness:
  "\<exists>sealed. SealHeader sample_crypto (Some 1) (sample_header 3 1 ([7] @ replicate 65 0)) (Some (\<lambda>a d. Some (sample_signature a))) = Inr sealed
     \<and> VerifyProducerSeal sample_crypto (Some 1) sealed = None \<and> h_Time sealed = 100 \<and> take 1 (h_Extra sealed) = [7]"
proof -
  have f: "h_Number (sample_header 3 1 e) = Some 1" "\<not> big_negative (h_Difficulty (sample_header 3 1 e))"
      "\<not> big_negative (h_BaseFee (sample_header 3 1 e))" "h_Coinbase (sample_header 3 1 e) = 3" "h_Extra (sample_header 3 1 e) = e"
      "h_Time (sample_header 3 1 e) = 100" for e
    by (simp_all add: sample_header_def big_negative_def)
  let ?h = "sample_header 3 1 ([7] @ replicate 65 0)"
  have g: "signs_for sample_crypto (\<lambda>a d. Some (sample_signature a)) (h_Coinbase ?h)"
    by (simp add: signs_for_def f SignatureLength_def)
  have r: "65 \<le> length (h_Extra ?h)" "h_Coinbase ?h \<noteq> 0" by (simp_all add: f)
  note t = sealed_header_verifies [OF _ f(1) _ f(2,3) r g, of 1]
  obtain sealed where s: "SealHeader sample_crypto (Some 1) ?h (Some (\<lambda>a d. Some (sample_signature a))) = Inr sealed"
    using t by auto
  then have "VerifyProducerSeal sample_crypto (Some 1) sealed = None
      \<and> (\<exists>s. length s = 65 \<and> sealed = ?h\<lparr>h_Difficulty := Some (case h_Difficulty ?h of None \<Rightarrow> 0 | Some d \<Rightarrow> d),
        h_Extra := take (length (h_Extra ?h) - 65) (h_Extra ?h) @ s\<rparr>)"
    using t by simp
  with s show ?thesis by (auto simp: f)
qed

end
