(* ===== verification/Registry_Header.thy ===== *)
theory Registry_Header
  imports Canonical_Registry Header
begin

text \<open>
  The registry envelope in a header's extra data (\<open>consensus/lqc/registry_header.go\<close>): the canonical
  order of operations, the bounded RLP codec behind the \<open>LQC\<close> magic, and the checks a decoder makes.
\<close>

section \<open>Operations in canonical order\<close>

definition RegistryHeaderEnvelopeVersion :: u8 where
  "RegistryHeaderEnvelopeVersion = 2"

definition MaxRegistryOperationsPerBlock :: nat where
  "MaxRegistryOperationsPerBlock = 64"

definition MaxRegistryHeaderExtraSize :: nat where
  "MaxRegistryHeaderExtraSize = 16 * 1024"

definition registryHeaderMagic :: bytes where
  "registryHeaderMagic = ascii ''LQC'' @ [0]"

record RegistryHeaderEnvelope =
  env_Version :: u8
  env_BlockNumber :: u64
  env_RegistryRoot :: hash
  env_Operations :: "RegistryOperation list"

definition IsRegistryHeaderExtra :: "bytes \<Rightarrow> bool" where
  "IsRegistryHeaderExtra extra =
     (length extra \<ge> length registryHeaderMagic
      \<and> take (length registryHeaderMagic) extra = registryHeaderMagic)"

text \<open>The fields the comparison looks at, in its order.\<close>

definition operation_key ::
  "RegistryOperation \<Rightarrow> address \<times> u64 \<times> u8 \<times> u64 \<times> u64 \<times> bytes" where
  "operation_key op = (op_Address op, op_Sequence op, op_Action op, op_ValidUntil op,
     op_ProofNonce op, op_Signature op)"

definition CanonicalRegistryOperations :: "RegistryOperation list \<Rightarrow> RegistryOperation list" where
  "CanonicalRegistryOperations operations = sort_key operation_key operations"

fun validate_operations_after ::
  "RegistryOperation option \<Rightarrow> RegistryOperation list \<Rightarrow> registry_error option" where
  "validate_operations_after prev [] = None"
| "validate_operations_after prev (op # ops) =
     (if op_Version op \<noteq> RegistryProtocolVersion then Some ErrInvalidRegistryVersion
      else if op_Action op < RegistryActionRegister \<or> op_Action op > RegistryActionExit
        then Some ErrInvalidRegistryAction
      else if op_Address op = 0 then Some ErrInvalidRegistryAddress
      else if op_Sequence op = 0 then Some ErrInvalidRegistrySequence
      else if length (op_Signature op) \<noteq> SignatureLength then Some ErrInvalidRegistrySignature
      else if (case prev of None \<Rightarrow> False
               | Some q \<Rightarrow> op_Address q = op_Address op \<and> op_Sequence q = op_Sequence op)
        then Some ErrDuplicateRegistryOperation
      else validate_operations_after (Some op) ops)"

definition validateRegistryHeaderOperations :: "RegistryOperation list \<Rightarrow> registry_error option" where
  "validateRegistryHeaderOperations operations =
     (if length operations > MaxRegistryOperationsPerBlock then Some ErrTooManyRegistryOperations
      else validate_operations_after None operations)"

section \<open>The codec\<close>

definition operation_val :: "RegistryOperation \<Rightarrow> rlp_val" where
  "operation_val op = VStruct [VUint (ucast (op_Version op)), VUint (ucast (op_Action op)),
     VArray (addr_bytes (op_Address op)), VUint (op_Sequence op), VUint (op_ValidUntil op),
     VUint (op_ProofNonce op), VBytes (op_Signature op)]"

definition envelope_val :: "RegistryHeaderEnvelope \<Rightarrow> rlp_val" where
  "envelope_val e = VStruct [VUint (ucast (env_Version e)), VUint (env_BlockNumber e),
     VArray (hash_bytes (env_RegistryRoot e)), VSlice (map operation_val (env_Operations e))]"

text \<open>Reading the decoded values into the structs.\<close>

fun v_fields :: "rlp_val \<Rightarrow> rlp_val list" where
  "v_fields (VStruct vs) = vs"
| "v_fields (VSlice vs) = vs"
| "v_fields _ = []"

fun v_uint :: "rlp_val \<Rightarrow> u64" where
  "v_uint (VUint i) = i"
| "v_uint _ = 0"

fun v_bytes :: "rlp_val \<Rightarrow> bytes" where
  "v_bytes (VBytes b) = b"
| "v_bytes (VArray b) = b"
| "v_bytes _ = []"

fun v_bool :: "rlp_val \<Rightarrow> bool" where
  "v_bool (VBool b) = b"
| "v_bool _ = False"

definition operation_type :: rlp_type where
  "operation_type = TStruct [TUint 8, TUint 8, TArray 20, TUint 64, TUint 64, TUint 64, TBytes]"

definition envelope_type :: rlp_type where
  "envelope_type = TStruct [TUint 8, TUint 64, TArray 32, TSlice operation_type]"

definition operation_of_val :: "rlp_val \<Rightarrow> RegistryOperation" where
  "operation_of_val v = (let f = v_fields v in
     \<lparr>op_Version = ucast (v_uint (f ! 0)), op_Action = ucast (v_uint (f ! 1)),
      op_Address = of_be (v_bytes (f ! 2)), op_Sequence = v_uint (f ! 3),
      op_ValidUntil = v_uint (f ! 4), op_ProofNonce = v_uint (f ! 5),
      op_Signature = v_bytes (f ! 6)\<rparr>)"

definition envelope_of_val :: "rlp_val \<Rightarrow> RegistryHeaderEnvelope" where
  "envelope_of_val v = (let f = v_fields v in
     \<lparr>env_Version = ucast (v_uint (f ! 0)), env_BlockNumber = v_uint (f ! 1),
      env_RegistryRoot = of_be (v_bytes (f ! 2)),
      env_Operations = map operation_of_val (v_fields (f ! 3))\<rparr>)"

definition EncodeRegistryHeaderExtra ::
  "u64 \<Rightarrow> hash \<Rightarrow> RegistryOperation list \<Rightarrow> registry_error + bytes" where
  "EncodeRegistryHeaderExtra blockNumber registryRoot operations =
     (if registryRoot = 0 then Inl ErrInvalidRegistryRoot
      else
        let canonical = CanonicalRegistryOperations operations in
        case validateRegistryHeaderOperations canonical of
          Some err \<Rightarrow> Inl err
        | None \<Rightarrow>
            let envelope = \<lparr>env_Version = RegistryHeaderEnvelopeVersion, env_BlockNumber = blockNumber,
                  env_RegistryRoot = registryRoot, env_Operations = canonical\<rparr>;
                payload = EncodeToBytes (envelope_val envelope);
                extra = appendEmptyProducerSeal (registryHeaderMagic @ payload)
            in if length extra > MaxRegistryHeaderExtraSize then Inl ErrInvalidRegistryHeaderExtra
               else Inr extra)"

definition registryOperationsEqual :: "RegistryOperation list \<Rightarrow> RegistryOperation list \<Rightarrow> bool" where
  "registryOperationsEqual left right =
     (length left = length right \<and> list_all2 (\<lambda>a b.
        op_Version a = op_Version b \<and> op_Action a = op_Action b \<and> op_Address a = op_Address b
        \<and> op_Sequence a = op_Sequence b \<and> op_ValidUntil a = op_ValidUntil b
        \<and> op_ProofNonce a = op_ProofNonce b \<and> op_Signature a = op_Signature b) left right)"

definition DecodeRegistryHeaderExtra :: "bytes \<Rightarrow> registry_error + RegistryHeaderEnvelope" where
  "DecodeRegistryHeaderExtra extra =
     (if \<not> IsRegistryHeaderExtra extra \<or> length extra > MaxRegistryHeaderExtraSize
      then Inl ErrInvalidRegistryHeaderExtra
      else case splitProducerSeal extra of
        Inl _ \<Rightarrow> Inl ErrInvalidRegistryHeaderExtra
      | Inr (payloadExtra, _) \<Rightarrow>
          if \<not> IsRegistryHeaderExtra payloadExtra then Inl ErrInvalidRegistryHeaderExtra
          else case DecodeBytes envelope_type (drop (length registryHeaderMagic) payloadExtra) of
            None \<Rightarrow> Inl ErrInvalidRegistryHeaderExtra
          | Some v \<Rightarrow>
              let envelope = envelope_of_val v in
              if env_Version envelope \<noteq> RegistryHeaderEnvelopeVersion then Inl ErrUnsupportedRegistryHeader
              else if env_RegistryRoot envelope = 0 then Inl ErrInvalidRegistryRoot
              else case validateRegistryHeaderOperations (env_Operations envelope) of
                Some err \<Rightarrow> Inl err
              | None \<Rightarrow>
                  if \<not> registryOperationsEqual (CanonicalRegistryOperations (env_Operations envelope))
                         (env_Operations envelope) then Inl ErrNonCanonicalRegistryOperations
                  else case EncodeRegistryHeaderExtra (env_BlockNumber envelope)
                              (env_RegistryRoot envelope) (env_Operations envelope) of
                    Inl err \<Rightarrow> Inl err
                  | Inr reencoded \<Rightarrow>
                      (case splitProducerSeal reencoded of
                         Inl _ \<Rightarrow> Inl ErrInvalidRegistryHeaderExtra
                       | Inr (reencodedPayload, _) \<Rightarrow>
                           if reencodedPayload \<noteq> payloadExtra then Inl ErrInvalidRegistryHeaderExtra
                           else Inr envelope))"

definition ValidateRegistryHeaderExtra ::
  "crypto \<Rightarrow> nat \<Rightarrow> u64 \<Rightarrow> u64 \<Rightarrow> bytes \<Rightarrow> registry_error + RegistryHeaderEnvelope" where
  "ValidateRegistryHeaderExtra cr chainID blockNumber proofDifficulty extra =
     (case DecodeRegistryHeaderExtra extra of
        Inl err \<Rightarrow> Inl err
      | Inr envelope \<Rightarrow>
          if env_BlockNumber envelope \<noteq> blockNumber then Inl ErrRegistryHeaderBlockMismatch
          else case first_err (ValidateRegistryOperation cr chainID blockNumber proofDifficulty)
                      (env_Operations envelope) of
            Some err \<Rightarrow> Inl err
          | None \<Rightarrow> Inr envelope)"

section \<open>Canonical order\<close>

lemma CanonicalRegistryOperations_idem [simp]:
  "CanonicalRegistryOperations (CanonicalRegistryOperations ops) = CanonicalRegistryOperations ops"
  by (simp add: CanonicalRegistryOperations_def sort_key_sorted)

lemma operation_key_inj:
  "(\<forall>op \<in> set ops. op_Version op = v) \<Longrightarrow> inj_on operation_key (set ops)"
  by (auto simp: inj_on_def operation_key_def intro: RegistryOperation.equality)

lemma CanonicalRegistryOperations_perm:
  assumes "\<forall>op \<in> set ops. op_Version op = v" and "mset ops' = mset ops"
  shows "CanonicalRegistryOperations ops' = CanonicalRegistryOperations ops"
  unfolding CanonicalRegistryOperations_def
  using assms by (intro sort_key_perm_cong operation_key_inj)

lemma registryOperationsEqual_iff [simp]: "registryOperationsEqual xs ys \<longleftrightarrow> xs = ys"
proof
  assume "registryOperationsEqual xs ys"
  then have "list_all2 (=) xs ys"
    by (auto simp: registryOperationsEqual_def list_all2_conv_all_nth intro: RegistryOperation.equality)
  then show "xs = ys" by (simp add: list_all2_eq)
qed (simp add: registryOperationsEqual_def list_all2_conv_all_nth)

lemma validate_operations_fields:
  "validate_operations_after prev ops = None \<Longrightarrow> \<forall>op \<in> set ops. op_Version op = RegistryProtocolVersion
     \<and> op_Address op \<noteq> 0 \<and> op_Sequence op \<noteq> 0 \<and> length (op_Signature op) = SignatureLength"
  by (induction prev ops rule: validate_operations_after.induct) (auto split: if_splits)

text \<open>The slot of an operation: an address uses each sequence number once.\<close>

definition op_slot :: "RegistryOperation \<Rightarrow> address \<times> u64" where
  "op_slot op = (op_Address op, op_Sequence op)"

lemma op_slot_mono: "operation_key a \<le> operation_key b \<Longrightarrow> op_slot a \<le> op_slot b"
  by (auto simp: operation_key_def op_slot_def)

text \<open>In canonical order the adjacent check finds every duplicate.\<close>

lemma validate_operations_distinct:
  assumes "validate_operations_after prev ops = None"
    and "sorted (map operation_key (case prev of None \<Rightarrow> ops | Some q \<Rightarrow> q # ops))"
  shows "sorted_wrt (\<lambda>a b. op_slot a < op_slot b) (case prev of None \<Rightarrow> ops | Some q \<Rightarrow> q # ops)"
  using assms
proof (induction prev ops rule: validate_operations_after.induct)
  case (1 prev)
  then show ?case by (cases prev) auto
next
  case (2 prev op ops)
  have IH: "sorted_wrt (\<lambda>a b. op_slot a < op_slot b) (op # ops)"
    using 2 by (cases prev) (auto split: if_splits)
  show ?case
  proof (cases prev)
    case None
    with IH show ?thesis by simp
  next
    case (Some q)
    have "operation_key q \<le> operation_key op" using 2 Some by simp
    moreover have "op_slot q \<noteq> op_slot op" using 2 Some by (auto simp: op_slot_def split: if_splits)
    ultimately have q: "op_slot q < op_slot op" using op_slot_mono by (simp add: less_le)
    have "op_slot q < op_slot b" if "b \<in> set ops" for b
      using q IH that less_trans [of "op_slot q" "op_slot op" "op_slot b"] by simp
    then show ?thesis using IH Some q by simp
  qed
qed

section \<open>Codec correctness\<close>

lemma unat_ucast_u8 [simp]: "unat (ucast (x :: u8) :: u64) = unat x"
proof -
  have "unat x < 2 ^ 64" by (rule less_trans [OF unat_byte_less]) simp
  then show ?thesis by (simp add: unsigned_ucast_eq take_bit_nat_eq_self)
qed

lemma unat_ucast_u64_u8: "unat (i :: u64) < 256 \<Longrightarrow> unat (ucast i :: u8) = unat i"
  by (simp add: unsigned_ucast_eq take_bit_nat_eq_self)

lemma ucast_u8_u64_u8 [simp]: "ucast (ucast (x :: u8) :: u64) = x"
  by (rule word_unat_eq_iff [THEN iffD2]) (simp only: unat_ucast_u64_u8 unat_ucast_u8 unat_byte_less)

lemma ucast_u64_u8_u64: "unat (i :: u64) < 256 \<Longrightarrow> ucast (ucast i :: u8) = i"
  by (rule word_unat_eq_iff [THEN iffD2]) (simp only: unat_ucast_u8 unat_ucast_u64_u8)

lemma addr_bytes_of_be: "length b = 20 \<Longrightarrow> addr_bytes (of_be b) = b"
  using be_nat_less [of b] be_bytes_be_nat [of b]
  by (simp add: addr_bytes_def of_be_def unat_of_nat)

lemma hash_bytes_of_be: "length b = 32 \<Longrightarrow> hash_bytes (of_be b) = b"
  using be_nat_less [of b] be_bytes_be_nat [of b]
  by (simp add: hash_bytes_def of_be_def unat_of_nat)

lemma operation_of_val_inverse [simp]: "operation_of_val (operation_val op) = op"
  by (simp add: operation_of_val_def operation_val_def)

lemma has_type_operation [simp]: "has_type operation_type (operation_val op)"
  by (simp add: operation_type_def operation_val_def)

lemma has_type_uintD: "has_type (TUint w) v \<Longrightarrow> \<exists>i. v = VUint i \<and> unat i < 2 ^ w"
  by (cases v) auto

lemma has_type_arrayD: "has_type (TArray n) v \<Longrightarrow> \<exists>b. v = VArray b \<and> length b = n"
  by (cases v) auto

lemma has_type_bytesD: "has_type TBytes v \<Longrightarrow> \<exists>b. v = VBytes b"
  by (cases v) auto

lemma has_type_boolD: "has_type TBool v \<Longrightarrow> \<exists>b. v = VBool b"
  by (cases v) auto

lemma has_type_sliceD: "has_type (TSlice t) v \<Longrightarrow> \<exists>vs. v = VSlice vs \<and> (\<forall>x \<in> set vs. has_type t x)"
  by (cases v) (auto simp: list_all_iff)

lemma has_type_structD: "has_type (TStruct ts) v \<Longrightarrow> \<exists>vs. v = VStruct vs \<and> list_all2 has_type ts vs"
  by (cases v) (auto simp: list_all2_map1)

lemmas has_typeD = has_type_uintD has_type_arrayD has_type_bytesD has_type_boolD has_type_sliceD
  has_type_structD

lemma operation_val_inverse: "has_type operation_type v \<Longrightarrow> operation_val (operation_of_val v) = v"
  unfolding operation_type_def
  by (auto dest!: has_typeD simp: list_all2_Cons1 operation_of_val_def operation_val_def
      ucast_u64_u8_u64 addr_bytes_of_be simp del: has_type.simps)

lemma envelope_of_val_inverse [simp]: "envelope_of_val (envelope_val e) = e"
  by (simp add: envelope_of_val_def envelope_val_def comp_def)

lemma type_ok_envelope: "type_ok envelope_type"
  by (simp add: envelope_type_def operation_type_def)

lemma has_type_envelope [simp]: "has_type envelope_type (envelope_val e)"
  by (simp add: envelope_type_def envelope_val_def list_all_iff)

lemma envelope_val_inverse: "has_type envelope_type v \<Longrightarrow> envelope_val (envelope_of_val v) = v"
  unfolding envelope_type_def
  by (auto dest!: has_typeD simp: list_all2_Cons1 envelope_of_val_def envelope_val_def
      ucast_u64_u8_u64 hash_bytes_of_be operation_val_inverse comp_def map_idI simp del: has_type.simps)

lemma vsize_operation: "length (op_Signature op) = SignatureLength \<Longrightarrow> vsize (operation_val op) = 157"
  by (simp add: operation_val_def SignatureLength_def)

lemma vsize_envelope:
  assumes "validateRegistryHeaderOperations (env_Operations e) = None"
  shows "vsize (envelope_val e) < 2 ^ 64"
proof -
  have n: "length (env_Operations e) \<le> 64"
    and sig: "\<forall>op \<in> set (env_Operations e). length (op_Signature op) = SignatureLength"
    using assms validate_operations_fields [of None "env_Operations e"]
    by (auto simp: validateRegistryHeaderOperations_def MaxRegistryOperationsPerBlock_def split: if_splits)
  from sum_vsize_le [of "env_Operations e" operation_val 157] sig n show ?thesis
    by (simp add: vsize_operation envelope_val_def)
qed

text \<open>The envelope is a codec of the RLP interface.\<close>

interpretation env: rlp_codec envelope_type envelope_val
  "\<lambda>e. validateRegistryHeaderOperations (env_Operations e) = None" envelope_of_val
proof unfold_locales
  show "validateRegistryHeaderOperations (env_Operations e) = None \<Longrightarrow> vsize (envelope_val e) < 2 ^ 64" for e
    by (rule vsize_envelope)
qed (auto simp: type_ok_envelope envelope_val_inverse simp del: has_type.simps
    dest: arg_cong [of _ _ envelope_of_val])

lemma IsRegistryHeaderExtra_iff: "IsRegistryHeaderExtra p \<longleftrightarrow> (\<exists>r. p = registryHeaderMagic @ r)"
proof
  assume "IsRegistryHeaderExtra p"
  then show "\<exists>r. p = registryHeaderMagic @ r"
    unfolding IsRegistryHeaderExtra_def by (metis append_take_drop_id)
qed (auto simp: IsRegistryHeaderExtra_def)

text \<open>An envelope the codec accepts.\<close>

definition envelope_ok :: "RegistryHeaderEnvelope \<Rightarrow> bool" where
  "envelope_ok e \<longleftrightarrow> env_Version e = RegistryHeaderEnvelopeVersion \<and> env_RegistryRoot e \<noteq> 0
     \<and> validateRegistryHeaderOperations (env_Operations e) = None
     \<and> CanonicalRegistryOperations (env_Operations e) = env_Operations e"

definition envelope_extra :: "RegistryHeaderEnvelope \<Rightarrow> bytes \<Rightarrow> bytes" where
  "envelope_extra e seal = registryHeaderMagic @ rlp_bytes (envelope_val e) @ seal"

lemma EncodeRegistryHeaderExtra_eq:
  assumes "envelope_ok e" and "length seal = ProducerSealLength"
    and "length (envelope_extra e seal) \<le> MaxRegistryHeaderExtraSize"
  shows "EncodeRegistryHeaderExtra (env_BlockNumber e) (env_RegistryRoot e) (env_Operations e)
    = Inr (envelope_extra e (replicate ProducerSealLength 0))"
proof -
  have e: "\<lparr>env_Version = RegistryHeaderEnvelopeVersion, env_BlockNumber = env_BlockNumber e,
      env_RegistryRoot = env_RegistryRoot e, env_Operations = env_Operations e\<rparr> = e"
    using assms(1) by (simp add: envelope_ok_def)
  have "EncodeToBytes (envelope_val \<lparr>env_Version = RegistryHeaderEnvelopeVersion,
      env_BlockNumber = env_BlockNumber e, env_RegistryRoot = env_RegistryRoot e,
      env_Operations = env_Operations e\<rparr>) = rlp_bytes (envelope_val e)"
    unfolding e by (rule env.encoded) (use assms(1) in \<open>simp add: envelope_ok_def\<close>)
  then show ?thesis
    using assms by (simp add: EncodeRegistryHeaderExtra_def envelope_ok_def Let_def
      envelope_extra_def appendEmptyProducerSeal_def)
qed

lemma EncodeRegistryHeaderExtra_Inr:
  assumes "EncodeRegistryHeaderExtra n rt ops = Inr extra"
  defines "e \<equiv> \<lparr>env_Version = RegistryHeaderEnvelopeVersion, env_BlockNumber = n,
      env_RegistryRoot = rt, env_Operations = CanonicalRegistryOperations ops\<rparr>"
  shows "envelope_ok e" and "extra = envelope_extra e (replicate ProducerSealLength 0)"
    and "length extra \<le> MaxRegistryHeaderExtraSize"
proof -
  show ok: "envelope_ok e"
    using assms(1) by (auto simp: EncodeRegistryHeaderExtra_def envelope_ok_def e_def Let_def
      split: if_splits option.splits)
  have "EncodeToBytes (envelope_val e) = rlp_bytes (envelope_val e)"
    by (rule env.encoded) (use ok in \<open>simp add: envelope_ok_def\<close>)
  then show "extra = envelope_extra e (replicate ProducerSealLength 0)"
    using assms(1) by (auto simp: EncodeRegistryHeaderExtra_def e_def Let_def
      envelope_extra_def appendEmptyProducerSeal_def split: if_splits option.splits)
  show "length extra \<le> MaxRegistryHeaderExtraSize"
    using assms(1) by (auto simp: EncodeRegistryHeaderExtra_def Let_def split: if_splits option.splits)
qed

lemma DecodeRegistryHeaderExtra_iff:
  "DecodeRegistryHeaderExtra extra = Inr e \<longleftrightarrow>
     envelope_ok e \<and> length extra \<le> MaxRegistryHeaderExtraSize
     \<and> (\<exists>seal. length seal = ProducerSealLength \<and> extra = envelope_extra e seal)"
proof
  assume a: "DecodeRegistryHeaderExtra extra = Inr e"
  then obtain p seal v where p: "splitProducerSeal extra = Inr (p, seal)" "IsRegistryHeaderExtra p"
      and v: "DecodeBytes envelope_type (drop (length registryHeaderMagic) p) = Some v"
      and e: "e = envelope_of_val v" "envelope_ok e" and len: "length extra \<le> MaxRegistryHeaderExtraSize"
    by (auto simp: DecodeRegistryHeaderExtra_def Let_def envelope_ok_def
        split: if_splits option.splits sum.splits)
  from p(2) obtain r where r: "p = registryHeaderMagic @ r" by (auto simp: IsRegistryHeaderExtra_iff)
  have "p = registryHeaderMagic @ rlp_bytes (envelope_val e)"
    using v r e(1) env.decode_iff [of r v] by simp
  then show "envelope_ok e \<and> length extra \<le> MaxRegistryHeaderExtraSize
     \<and> (\<exists>seal. length seal = ProducerSealLength \<and> extra = envelope_extra e seal)"
    using e(2) len p(1) by (auto simp: splitProducerSeal_Inr envelope_extra_def)
next
  assume a: "envelope_ok e \<and> length extra \<le> MaxRegistryHeaderExtraSize
     \<and> (\<exists>seal. length seal = ProducerSealLength \<and> extra = envelope_extra e seal)"
  then obtain seal where s: "length seal = ProducerSealLength" "extra = envelope_extra e seal" by blast
  let ?p = "registryHeaderMagic @ rlp_bytes (envelope_val e)"
  have split: "splitProducerSeal (?p @ t) = Inr (?p, t)" if "length t = ProducerSealLength" for t
    using that by (rule splitProducerSeal_append)
  have v: "DecodeBytes envelope_type (rlp_bytes (envelope_val e)) = Some (envelope_val e)"
    by (rule env.decode_sized) (use a in \<open>simp add: envelope_ok_def\<close>)
  have ex: "extra = ?p @ seal" using s by (simp add: envelope_extra_def)
  have enc: "EncodeRegistryHeaderExtra (env_BlockNumber e) (env_RegistryRoot e) (env_Operations e)
      = Inr (?p @ replicate ProducerSealLength 0)"
    using EncodeRegistryHeaderExtra_eq [of e seal] a s by (simp add: envelope_extra_def)
  have hdr: "IsRegistryHeaderExtra extra" "IsRegistryHeaderExtra ?p"
    unfolding IsRegistryHeaderExtra_iff ex by auto
  show "DecodeRegistryHeaderExtra extra = Inr e"
    using a hdr split [OF s(1)] split [of "replicate ProducerSealLength 0"] v enc
    unfolding DecodeRegistryHeaderExtra_def ex envelope_ok_def
    by (simp add: Let_def)
qed

section \<open>Properties\<close>

text \<open>Claim C20: the registry header extra data has one form. Decoding succeeds exactly on the magic, the encoding of a canonical
  envelope (supported version, non-zero root, operations in canonical order with no repeated address and sequence)
  and 65 seal bytes, within the size bound, and returns that envelope; what the encoder builds decodes to
  the canonical order of its operations.\<close>

theorem registry_header_codec:
  shows "(DecodeRegistryHeaderExtra extra = Inr e \<longleftrightarrow>
     envelope_ok e \<and> length extra \<le> MaxRegistryHeaderExtraSize
     \<and> (\<exists>seal. length seal = ProducerSealLength \<and> extra = envelope_extra e seal))
    \<and> (EncodeRegistryHeaderExtra n rt ops = Inr built \<longrightarrow> DecodeRegistryHeaderExtra built =
     Inr \<lparr>env_Version = RegistryHeaderEnvelopeVersion, env_BlockNumber = n, env_RegistryRoot = rt,
       env_Operations = CanonicalRegistryOperations ops\<rparr>)"
proof -
  have c1: "DecodeRegistryHeaderExtra extra = Inr e \<longleftrightarrow>
     envelope_ok e \<and> length extra \<le> MaxRegistryHeaderExtraSize
     \<and> (\<exists>seal. length seal = ProducerSealLength \<and> extra = envelope_extra e seal)"
    by (rule DecodeRegistryHeaderExtra_iff)
  have c2: "EncodeRegistryHeaderExtra n rt ops = Inr built \<Longrightarrow> DecodeRegistryHeaderExtra built =
     Inr \<lparr>env_Version = RegistryHeaderEnvelopeVersion, env_BlockNumber = n, env_RegistryRoot = rt,
       env_Operations = CanonicalRegistryOperations ops\<rparr>"
    using EncodeRegistryHeaderExtra_Inr [of n rt ops built] unfolding DecodeRegistryHeaderExtra_iff
    by (metis length_replicate)
  from c1 c2 show ?thesis by blast
qed

lemma sample_envelope_encoded:
  "EncodeRegistryHeaderExtra 5 9 [] = Inr (envelope_extra \<lparr>env_Version = RegistryHeaderEnvelopeVersion,
     env_BlockNumber = 5, env_RegistryRoot = 9, env_Operations = []\<rparr> (replicate ProducerSealLength 0))"
proof -
  let ?e = "\<lparr>env_Version = RegistryHeaderEnvelopeVersion, env_BlockNumber = 5, env_RegistryRoot = 9, env_Operations = []\<rparr>"
  have "length (rlp_bytes (envelope_val ?e)) \<le> 77"
    using length_rlp_le_vsize [of "envelope_val ?e"] by (simp add: envelope_val_def)
  moreover have "length registryHeaderMagic \<le> 100" by (simp add: registryHeaderMagic_def ascii_def)
  ultimately have "length (envelope_extra ?e (replicate ProducerSealLength 0)) \<le> MaxRegistryHeaderExtraSize"
    by (simp add: envelope_extra_def MaxRegistryHeaderExtraSize_def ProducerSealLength_eq del: item_of.simps rlp_encode.simps)
  then show ?thesis
    using EncodeRegistryHeaderExtra_eq [of ?e "replicate ProducerSealLength 0"]
    by (simp add: envelope_ok_def validateRegistryHeaderOperations_def CanonicalRegistryOperations_def
        MaxRegistryOperationsPerBlock_def)
qed

theorem registry_header_codec_witness:
  "\<exists>built. EncodeRegistryHeaderExtra 5 9 [] = Inr built \<and> DecodeRegistryHeaderExtra built =
     Inr \<lparr>env_Version = RegistryHeaderEnvelopeVersion, env_BlockNumber = 5, env_RegistryRoot = 9,
       env_Operations = CanonicalRegistryOperations []\<rparr>"
  using registry_header_codec [THEN conjunct2, rule_format, OF sample_envelope_encoded] sample_envelope_encoded
  by blast

end
