(* ===== verification/Registry_Snapshot.thy ===== *)
theory Registry_Snapshot
  imports Registry_Header
begin

text \<open>
  Registry snapshots (\<open>consensus/lqc/registry_snapshot.go\<close>): the registry after a block, derived from
  the headers one at a time, and its cached form in the key-value database. The database is a finite map
  from keys to blobs whose writes succeed.
\<close>

section \<open>Snapshots\<close>

record RegistrySnapshotRules =
  sr_ProofDifficulty :: u64
  sr_ActivationDelay :: u64
  sr_HeartbeatWindow :: u64
  sr_HeartbeatGrace :: u64
  sr_JailBlocks :: u64
  sr_MaxMissedTurns :: u64

record RegistrySnapshot =
  rs_Number :: u64
  rs_Hash :: hash
  rs_RegistryRoot :: hash
  rs_Participants :: "CanonicalParticipant list"

definition newRegistrySnapshot :: "crypto \<Rightarrow> u64 \<Rightarrow> hash \<Rightarrow> CanonicalRegistry \<Rightarrow> RegistrySnapshot" where
  "newRegistrySnapshot cr number h registry = \<lparr>rs_Number = number, rs_Hash = h,
     rs_RegistryRoot = Root cr registry, rs_Participants = Participants registry\<rparr>"

definition add_bootstrap ::
  "u64 \<Rightarrow> address \<Rightarrow> CanonicalRegistry \<Rightarrow> registry_error + CanonicalRegistry" where
  "add_bootstrap number addr registry =
     (if addr = 0 then Inl ErrInvalidRegistryAddress
      else if fmlookup registry addr \<noteq> None then Inl ErrDuplicateRegistryOperation
      else Inr (fmupd addr (zeroParticipant\<lparr>cp_Address := addr, cp_RegisteredAt := 0,
             cp_LastHeartbeat := number, cp_Sequence := 0, cp_Active := True\<rparr>) registry))"

definition NewBootstrapRegistrySnapshot ::
  "crypto \<Rightarrow> u64 \<Rightarrow> hash \<Rightarrow> address list \<Rightarrow> registry_error + RegistrySnapshot" where
  "NewBootstrapRegistrySnapshot cr number h participants =
     (if h = 0 then Inl ErrInvalidRegistrySnapshot
      else case fold_res (add_bootstrap number) participants NewCanonicalRegistry of
        Inl err \<Rightarrow> Inl err
      | Inr registry \<Rightarrow> Inr (newRegistrySnapshot cr number h registry))"

definition NewGenesisRegistrySnapshot ::
  "crypto \<Rightarrow> hash \<Rightarrow> address list \<Rightarrow> registry_error + RegistrySnapshot" where
  "NewGenesisRegistrySnapshot cr h participants = NewBootstrapRegistrySnapshot cr 0 h participants"

definition add_stored ::
  "CanonicalParticipant \<Rightarrow> CanonicalRegistry \<Rightarrow> registry_error + CanonicalRegistry" where
  "add_stored p registry =
     (if cp_Address p = 0 then Inl ErrInvalidRegistryAddress
      else if fmlookup registry (cp_Address p) \<noteq> None then Inl ErrDuplicateRegistryOperation
      else Inr (fmupd (cp_Address p) p registry))"

definition canonicalParticipantsEqual ::
  "CanonicalParticipant list \<Rightarrow> CanonicalParticipant list \<Rightarrow> bool" where
  "canonicalParticipantsEqual left right =
     (length left = length right \<and> list_all2 (\<lambda>a b. a = b) left right)"

definition Snapshot_Registry :: "crypto \<Rightarrow> RegistrySnapshot \<Rightarrow> registry_error + CanonicalRegistry" where
  "Snapshot_Registry cr s =
     (if rs_Hash s = 0 \<or> rs_RegistryRoot s = 0 then Inl ErrInvalidRegistrySnapshot
      else case fold_res add_stored (rs_Participants s) NewCanonicalRegistry of
        Inl err \<Rightarrow> Inl err
      | Inr registry \<Rightarrow>
          if \<not> canonicalParticipantsEqual (Participants registry) (rs_Participants s)
          then Inl ErrInvalidRegistrySnapshot
          else if Root cr registry \<noteq> rs_RegistryRoot s then Inl ErrRegistryRootMismatch
          else Inr registry)"

section \<open>Applying a header\<close>

text \<open>\<open>big.Int.Uint64\<close>: the low 64 bits of the absolute value.\<close>

definition big_Uint64 :: "int \<Rightarrow> u64" where
  "big_Uint64 n = word_of_int \<bar>n\<bar>"

definition apply_operations ::
  "crypto \<Rightarrow> nat \<Rightarrow> u64 \<Rightarrow> u64 \<Rightarrow> RegistryOperation list \<Rightarrow> CanonicalRegistry
    \<Rightarrow> registry_error + CanonicalRegistry" where
  "apply_operations cr chainID blockNumber proofDifficulty ops registry =
     fold_res (ApplyOperation cr chainID blockNumber proofDifficulty) ops registry"

definition missed_turns ::
  "u64 \<Rightarrow> u64 \<Rightarrow> u64 \<Rightarrow> HybridParticipant list \<Rightarrow> CanonicalRegistry
    \<Rightarrow> registry_error + CanonicalRegistry" where
  "missed_turns blockNumber maxMissedTurns jailBlocks skipped registry =
     fold_res (\<lambda>p r. ApplyMissedTurn r (hp_Address p) blockNumber maxMissedTurns jailBlocks) skipped registry"

definition finish_snapshot ::
  "crypto \<Rightarrow> nat \<Rightarrow> RegistrySnapshotRules \<Rightarrow> Header \<Rightarrow> u64 \<Rightarrow> RegistryHeaderEnvelope
    \<Rightarrow> CanonicalRegistry \<Rightarrow> registry_error + RegistrySnapshot" where
  "finish_snapshot cr chainID rules header blockNumber envelope registry =
     (case apply_operations cr chainID blockNumber (sr_ProofDifficulty rules)
             (env_Operations envelope) registry of
        Inl err \<Rightarrow> Inl err
      | Inr registry' \<Rightarrow>
          if Root cr registry' \<noteq> env_RegistryRoot envelope then Inl ErrRegistryRootMismatch
          else Inr (newRegistrySnapshot cr blockNumber (Header_Hash cr header) registry'))"

definition applyHeaderWithOpenActivation ::
  "crypto \<Rightarrow> RegistrySnapshot \<Rightarrow> nat \<Rightarrow> RegistrySnapshotRules \<Rightarrow> Header \<Rightarrow> bool \<Rightarrow> bool
    \<Rightarrow> registry_error + RegistrySnapshot" where
  "applyHeaderWithOpenActivation cr s chainID rules header openActivation preserveRegistry =
     (case Snapshot_Registry cr s of
        Inl err \<Rightarrow> Inl err
      | Inr registry0 \<Rightarrow>
        (case h_Number header of
           None \<Rightarrow> Inl ErrRegistrySnapshotChainMismatch
         | Some number \<Rightarrow>
           if rs_Number s = maxU64 \<or> big_Uint64 number \<noteq> rs_Number s + 1
              \<or> h_ParentHash header \<noteq> rs_Hash s then Inl ErrRegistrySnapshotChainMismatch
           else if sr_ProofDifficulty rules = 0 then Inl ErrInvalidLightHashProof
           else
             let blockNumber = big_Uint64 number in
             case ValidateRegistryHeaderExtra cr chainID blockNumber (sr_ProofDifficulty rules)
                    (h_Extra header) of
               Inl err \<Rightarrow> Inl err
             | Inr envelope \<Rightarrow>
                 if openActivation then
                   let registry = (if \<not> preserveRegistry then NewCanonicalRegistry else registry0) in
                   if h_Coinbase header = 0 then Inl ErrUnauthorizedRegistryProducer
                   else case (if preserveRegistry
                              then RecoverPermissionlessProducer registry (h_Coinbase header) blockNumber
                              else ActivatePermissionlessProducer registry (h_Coinbase header) blockNumber) of
                     Inl err \<Rightarrow> Inl err
                   | Inr registry' \<Rightarrow>
                       finish_snapshot cr chainID rules header blockNumber envelope registry'
                 else
                   let ordered = OrderedParticipantsForBlock cr registry0 (h_ParentHash header)
                         blockNumber (sr_ActivationDelay rules) (sr_HeartbeatWindow rules)
                         (sr_HeartbeatGrace rules);
                       selection = \<lparr>sel_Ordered = ordered, sel_Producer = None, sel_Fallbacks = [],
                         sel_Committee = []\<rparr>;
                       (allowed, queuePos) = IsAuthorAllowed selection (h_Coinbase header)
                   in if h_Coinbase header = 0 \<or> \<not> allowed then Inl ErrUnauthorizedRegistryProducer
                      else case missed_turns blockNumber (sr_MaxMissedTurns rules)
                                  (sr_JailBlocks rules) (take (nat queuePos) ordered) registry0 of
                        Inl err \<Rightarrow> Inl err
                      | Inr registry1 \<Rightarrow>
                          (case MarkProducerHeartbeat registry1 (h_Coinbase header) blockNumber of
                             Inl err \<Rightarrow> Inl err
                           | Inr registry2 \<Rightarrow>
                               finish_snapshot cr chainID rules header blockNumber envelope registry2)))"

definition ApplyHeaderWithOpenActivation ::
  "crypto \<Rightarrow> RegistrySnapshot \<Rightarrow> nat \<Rightarrow> RegistrySnapshotRules \<Rightarrow> Header \<Rightarrow> bool
    \<Rightarrow> registry_error + RegistrySnapshot" where
  "ApplyHeaderWithOpenActivation cr s chainID rules header openActivation =
     applyHeaderWithOpenActivation cr s chainID rules header openActivation False"

definition ApplyHeader ::
  "crypto \<Rightarrow> RegistrySnapshot \<Rightarrow> nat \<Rightarrow> RegistrySnapshotRules \<Rightarrow> Header
    \<Rightarrow> registry_error + RegistrySnapshot" where
  "ApplyHeader cr s chainID rules header = ApplyHeaderWithOpenActivation cr s chainID rules header False"

definition ReconstructRegistrySnapshot ::
  "crypto \<Rightarrow> RegistrySnapshot \<Rightarrow> nat \<Rightarrow> RegistrySnapshotRules \<Rightarrow> Header list
    \<Rightarrow> registry_error + RegistrySnapshot" where
  "ReconstructRegistrySnapshot cr genesis chainID rules headers =
     fold_res (\<lambda>header s. ApplyHeader cr s chainID rules header) headers genesis"

section \<open>The database\<close>

type_synonym kvdb = "(bytes, bytes) fmap"

definition registrySnapshotPrefix :: bytes where
  "registrySnapshotPrefix = ascii ''lqc-registry-snapshot-v1-''"

definition registrySnapshotKey :: "hash \<Rightarrow> bytes" where
  "registrySnapshotKey h = registrySnapshotPrefix @ hash_bytes h"

definition snapshot_val :: "RegistrySnapshot \<Rightarrow> rlp_val" where
  "snapshot_val s = VStruct [VUint (rs_Number s), VArray (hash_bytes (rs_Hash s)),
     VArray (hash_bytes (rs_RegistryRoot s)), VSlice (map participant_val (rs_Participants s))]"

definition snapshot_type :: rlp_type where
  "snapshot_type = TStruct [TUint 64, TArray 32, TArray 32, TSlice participant_type]"

definition participant_of_val :: "rlp_val \<Rightarrow> CanonicalParticipant" where
  "participant_of_val v = (let f = v_fields v in
     \<lparr>cp_Address = of_be (v_bytes (f ! 0)), cp_RegisteredAt = v_uint (f ! 1),
      cp_LastHeartbeat = v_uint (f ! 2), cp_MissedTurns = v_uint (f ! 3),
      cp_JailedUntil = v_uint (f ! 4), cp_Sequence = v_uint (f ! 5), cp_Active = v_bool (f ! 6)\<rparr>)"

definition snapshot_of_val :: "rlp_val \<Rightarrow> RegistrySnapshot" where
  "snapshot_of_val v = (let f = v_fields v in
     \<lparr>rs_Number = v_uint (f ! 0), rs_Hash = of_be (v_bytes (f ! 1)),
      rs_RegistryRoot = of_be (v_bytes (f ! 2)),
      rs_Participants = map participant_of_val (v_fields (f ! 3))\<rparr>)"

definition StoreRegistrySnapshot ::
  "crypto \<Rightarrow> kvdb \<Rightarrow> RegistrySnapshot \<Rightarrow> registry_error + kvdb" where
  "StoreRegistrySnapshot cr db snapshot =
     (case Snapshot_Registry cr snapshot of
        Inl err \<Rightarrow> Inl err
      | Inr _ \<Rightarrow> Inr (fmupd (registrySnapshotKey (rs_Hash snapshot)) (EncodeToBytes (snapshot_val snapshot)) db))"

definition LoadRegistrySnapshot ::
  "crypto \<Rightarrow> kvdb \<Rightarrow> hash \<Rightarrow> registry_error + RegistrySnapshot" where
  "LoadRegistrySnapshot cr db h =
     (if h = 0 then Inl ErrInvalidRegistrySnapshot
      else case fmlookup db (registrySnapshotKey h) of
        None \<Rightarrow> Inl ErrInvalidRegistrySnapshot
      | Some blob \<Rightarrow>
          (case DecodeBytes snapshot_type blob of
             None \<Rightarrow> Inl ErrInvalidRegistrySnapshot
           | Some v \<Rightarrow>
               let snapshot = snapshot_of_val v in
               if rs_Hash snapshot \<noteq> h then Inl ErrRegistrySnapshotChainMismatch
               else case Snapshot_Registry cr snapshot of
                 Inl err \<Rightarrow> Inl err
               | Inr _ \<Rightarrow>
                   if EncodeToBytes (snapshot_val snapshot) \<noteq> blob then Inl ErrInvalidRegistrySnapshot
                   else Inr snapshot))"

section \<open>The registry of a snapshot\<close>

lemma canonicalParticipantsEqual_iff [simp]: "canonicalParticipantsEqual xs ys \<longleftrightarrow> xs = ys"
  by (auto simp: canonicalParticipantsEqual_def list.rel_eq)

lemma add_stored_wf: "add_stored p r = Inr r' \<Longrightarrow> registry_wf r \<Longrightarrow> registry_wf r'"
  by (auto simp: add_stored_def intro: registry_wf_upd split: if_splits)

abbreviation store_participant :: "CanonicalParticipant \<Rightarrow> CanonicalRegistry \<Rightarrow> CanonicalRegistry" where
  "store_participant p r \<equiv> fmupd (cp_Address p) p r"

interpretation stored: keyed_store fmlookup "\<lambda>_. True" store_participant cp_Address "\<lambda>p _. Some p"
  by unfold_locales auto

lemma fold_add_stored:
  assumes "distinct (map cp_Address ps)" and "\<forall>p \<in> set ps. cp_Address p \<noteq> 0"
    and "\<forall>p \<in> set ps. fmlookup r (cp_Address p) = None"
  shows "fold_res add_stored ps r = Inr (fold store_participant ps r)"
  using assms
proof (induction ps arbitrary: r)
  case (Cons p ps)
  have ne: "\<forall>q \<in> set ps. cp_Address p \<noteq> cp_Address q"
    using Cons.prems(1) by (metis distinct.simps(2) image_eqI list.set_map list.simps(9))
  have "add_stored p r = Inr (store_participant p r)" using Cons.prems by (simp add: add_stored_def)
  moreover have "fold_res add_stored ps (store_participant p r)
      = Inr (fold store_participant ps (store_participant p r))"
    using Cons.prems ne by (intro Cons.IH) simp_all
  ultimately show ?case by simp
qed simp

lemma registry_rebuild:
  assumes "registry_wf r"
  shows "fold_res add_stored (Participants r) NewCanonicalRegistry = Inr r"
proof -
  let ?ps = "Participants r"
  have d: "distinct (map cp_Address ?ps)" using assms by (simp add: Participants_addresses)
  have "fold_res add_stored ?ps NewCanonicalRegistry = Inr (fold store_participant ?ps NewCanonicalRegistry)"
  proof (rule fold_add_stored [OF d])
    show "\<forall>p \<in> set ?ps. cp_Address p \<noteq> 0"
      using Participants_mem registry_wf_lookup [OF assms] by metis
  qed (simp add: NewCanonicalRegistry_def)
  moreover have "fold store_participant ?ps NewCanonicalRegistry = r"
  proof (rule fmap_ext)
    fix a
    show "fmlookup (fold store_participant ?ps NewCanonicalRegistry) a = fmlookup r a"
    proof (cases "fmlookup r a")
      case None
      then have "a \<notin> cp_Address ` set ?ps" using registry_of_Participants [OF assms] by (metis imageE option.distinct(1))
      from stored.find_puts_other [OF TrueI this] None show ?thesis by (simp add: NewCanonicalRegistry_def)
    next
      case (Some p)
      then have "p \<in> set ?ps" "cp_Address p = a" using registry_of_Participants [OF assms] by auto
      then show ?thesis using Some stored.find_puts [OF TrueI d, of p] by simp
    qed
  qed
  ultimately show ?thesis by simp
qed

lemma Snapshot_Registry_new:
  assumes "registry_wf r" and "h \<noteq> 0" and "Root cr r \<noteq> 0"
  shows "Snapshot_Registry cr (newRegistrySnapshot cr n h r) = Inr r"
  using assms by (simp add: Snapshot_Registry_def newRegistrySnapshot_def registry_rebuild)

lemma Snapshot_Registry_Inr:
  assumes "Snapshot_Registry cr s = Inr r"
  shows "registry_wf r" and "s = newRegistrySnapshot cr (rs_Number s) (rs_Hash s) r"
    and "rs_Hash s \<noteq> 0" and "Root cr r \<noteq> 0"
proof -
  have f: "fold_res add_stored (rs_Participants s) NewCanonicalRegistry = Inr r"
    and p: "Participants r = rs_Participants s" "Root cr r = rs_RegistryRoot s"
      "rs_Hash s \<noteq> 0" "rs_RegistryRoot s \<noteq> 0"
    using assms by (auto simp: Snapshot_Registry_def split: if_splits sum.splits)
  show "registry_wf r"
    using add_stored_wf by (rule fold_res_invariant [where P = registry_wf, OF _ registry_wf_new f])
  show "s = newRegistrySnapshot cr (rs_Number s) (rs_Hash s) r" "rs_Hash s \<noteq> 0" "Root cr r \<noteq> 0"
    using p by (simp_all add: newRegistrySnapshot_def)
qed

section \<open>Turns of a block\<close>

text \<open>What the turn bookkeeping of a block leaves alone: membership, activity, registration, sequence.\<close>

definition same_standing :: "CanonicalParticipant \<Rightarrow> CanonicalParticipant \<Rightarrow> bool" where
  "same_standing p q \<longleftrightarrow> cp_Address q = cp_Address p \<and> cp_RegisteredAt q = cp_RegisteredAt p
     \<and> cp_Sequence q = cp_Sequence p \<and> cp_Active q = cp_Active p"

definition registry_sim :: "CanonicalRegistry \<Rightarrow> CanonicalRegistry \<Rightarrow> bool" where
  "registry_sim r r' \<longleftrightarrow> (\<forall>a. rel_option same_standing (fmlookup r a) (fmlookup r' a))"

lemma same_standing_refl [simp]: "same_standing p p"
  by (simp add: same_standing_def)

lemma registry_sim_refl [simp]: "registry_sim r r"
  by (auto simp: registry_sim_def option.rel_refl)

lemma registry_sim_trans: "registry_sim r s \<Longrightarrow> registry_sim s t \<Longrightarrow> registry_sim r t"
proof -
  assume a: "registry_sim r s" "registry_sim s t"
  have "rel_option same_standing (fmlookup r x) (fmlookup t x)" for x
    using a [unfolded registry_sim_def, THEN spec, of x]
    by (auto simp: option_rel_Some1 same_standing_def elim!: option.rel_cases)
  then show ?thesis by (simp add: registry_sim_def)
qed

lemma registry_sim_upd: "fmlookup r a = Some p \<Longrightarrow> same_standing p q \<Longrightarrow> registry_sim r (fmupd a q r)"
  by (auto simp: registry_sim_def option.rel_refl)

lemma registry_sim_lookup:
  "registry_sim r r' \<Longrightarrow> fmlookup r a = Some p \<Longrightarrow> \<exists>q. fmlookup r' a = Some q \<and> same_standing p q"
  unfolding registry_sim_def by (metis option_rel_Some1)

lemma registry_sim_sym: "registry_sim r r' \<Longrightarrow> registry_sim r' r"
proof -
  assume a: "registry_sim r r'"
  have "rel_option same_standing (fmlookup r' x) (fmlookup r x)" for x
    using a [unfolded registry_sim_def, THEN spec, of x]
    by (auto simp: same_standing_def elim!: option.rel_cases)
  then show ?thesis by (simp add: registry_sim_def)
qed

lemma eligible_same_standing: "same_standing p q \<Longrightarrow> participant_eligible n d p = participant_eligible n d q"
  by (simp add: participant_eligible_iff same_standing_def)

lemma eligible_addresses_sim:
  assumes "registry_wf r" and "registry_wf r'" and "registry_sim r r'"
  shows "IsEligibleParticipant r a n d w g = IsEligibleParticipant r' a n d w g"
  unfolding IsEligibleParticipant_iff [OF assms(1)] IsEligibleParticipant_iff [OF assms(2)]
  using registry_sim_lookup [OF assms(3), of a] registry_sim_lookup [OF registry_sim_sym [OF assms(3)], of a]
    eligible_same_standing by blast

lemma ApplyMissedTurn_active:
  assumes "fmlookup r a = Some p" and "cp_Active p"
  shows "\<exists>r'. ApplyMissedTurn r a n m j = Inr r' \<and> registry_sim r r'"
proof (cases "cp_JailedUntil p > n")
  case True
  then show ?thesis using assms by (simp add: ApplyMissedTurn_def)
next
  case False
  have "registry_sim r (fmupd a (miss_turn n m j p) r)"
    using assms(1) by (rule registry_sim_upd) (simp add: same_standing_def)
  then show ?thesis using assms False by (simp add: ApplyMissedTurn_def)
qed

lemma MarkProducerHeartbeat_active:
  assumes "fmlookup r a = Some p" and "cp_Active p"
  shows "\<exists>r'. MarkProducerHeartbeat r a n = Inr r' \<and> registry_sim r r'"
proof -
  have "registry_sim r (fmupd a (p\<lparr>cp_LastHeartbeat := n, cp_MissedTurns := 0, cp_JailedUntil := 0\<rparr>) r)"
    using assms(1) by (rule registry_sim_upd) (simp add: same_standing_def)
  then show ?thesis using assms by (simp add: MarkProducerHeartbeat_def)
qed

abbreviation active_in :: "CanonicalRegistry \<Rightarrow> address \<Rightarrow> bool" where
  "active_in r a \<equiv> \<exists>p. fmlookup r a = Some p \<and> cp_Active p"

lemma active_in_sim: "registry_sim r r' \<Longrightarrow> active_in r a \<Longrightarrow> active_in r' a"
  using registry_sim_lookup [of r r' a] by (auto simp: same_standing_def)

text \<open>Charging the skipped turns never fails on participants of the queue.\<close>

lemma missed_turns_active:
  assumes "\<forall>p \<in> set skipped. active_in r (hp_Address p)"
  shows "\<exists>r'. missed_turns n m j skipped r = Inr r' \<and> registry_sim r r'"
  using assms
proof (induction skipped arbitrary: r)
  case Nil
  then show ?case by (simp add: missed_turns_def)
next
  case (Cons p ps)
  obtain r1 where r1: "ApplyMissedTurn r (hp_Address p) n m j = Inr r1" "registry_sim r r1"
    using Cons.prems ApplyMissedTurn_active by (metis list.set_intros(1))
  have "\<forall>q \<in> set ps. active_in r1 (hp_Address q)"
    using Cons.prems active_in_sim [OF r1(2)] by simp
  from Cons.IH [OF this] r1 show ?case
    by (auto simp: missed_turns_def intro: registry_sim_trans)
qed

lemma ordered_active:
  assumes "registry_wf r" and "p \<in> set (OrderedParticipantsForBlock cr r h n d w g)"
  shows "active_in r (hp_Address p)"
proof -
  have "p \<in> set (map queue_candidate (EligibleParticipants r n d w g))"
    using assms(2) OrderedParticipants_mset mset_eq_setD by metis
  then obtain q where "q \<in> set (EligibleParticipants r n d w g)" "p = queue_candidate q" by auto
  then have "\<exists>a. fmlookup r a = Some q" "cp_Active q" "hp_Address p = cp_Address q"
    by (auto simp: EligibleParticipants_mem participant_eligible_iff)
  then show ?thesis using registry_wf_lookup [OF assms(1)] by metis
qed

lemma missed_turns_steps:
  "missed_turns n m j skipped r = Inr r' \<Longrightarrow> (reg_step cr chainID)\<^sup>*\<^sup>* r r'"
proof (induction skipped arbitrary: r)
  case Nil
  then show ?case by (simp add: missed_turns_def)
next
  case (Cons p ps)
  then obtain r1 where "ApplyMissedTurn r (hp_Address p) n m j = Inr r1" "missed_turns n m j ps r1 = Inr r'"
    by (auto simp: missed_turns_def split: sum.splits)
  then show ?case using Cons.IH step_missed by (metis converse_rtranclp_into_rtranclp)
qed

lemma apply_operations_steps:
  "apply_operations cr chainID n d ops r = Inr r' \<Longrightarrow> (reg_step cr chainID)\<^sup>*\<^sup>* r r'"
proof (induction ops arbitrary: r)
  case Nil
  then show ?case by (simp add: apply_operations_def)
next
  case (Cons op ops)
  then obtain r1 where "ApplyOperation cr chainID n d op r = Inr r1" "apply_operations cr chainID n d ops r1 = Inr r'"
    by (auto simp: apply_operations_def split: sum.splits)
  then show ?case using Cons.IH step_operation by (metis converse_rtranclp_into_rtranclp)
qed

section \<open>Headers\<close>

definition block_queue ::
  "crypto \<Rightarrow> CanonicalRegistry \<Rightarrow> RegistrySnapshotRules \<Rightarrow> hash \<Rightarrow> u64 \<Rightarrow> HybridParticipant list" where
  "block_queue cr r rules parentHash n = OrderedParticipantsForBlock cr r parentHash n
     (sr_ActivationDelay rules) (sr_HeartbeatWindow rules) (sr_HeartbeatGrace rules)"

text \<open>Every accepted header passes these stages, whether it activates its producer or not.\<close>

lemma applyHeader_Inr:
  assumes "applyHeaderWithOpenActivation cr s chainID rules header op pres = Inr s'"
  obtains r number env r1 r2 where
    "Snapshot_Registry cr s = Inr r" "h_Number header = Some number"
    "rs_Number s \<noteq> maxU64" "big_Uint64 number = rs_Number s + 1" "h_ParentHash header = rs_Hash s"
    "ValidateRegistryHeaderExtra cr chainID (big_Uint64 number) (sr_ProofDifficulty rules) (h_Extra header) = Inr env"
    "h_Coinbase header \<noteq> 0"
    "if op then (if pres then RecoverPermissionlessProducer r (h_Coinbase header) (big_Uint64 number)
         else ActivatePermissionlessProducer NewCanonicalRegistry (h_Coinbase header) (big_Uint64 number)) = Inr r1
     else h_Coinbase header \<in> hp_Address ` set (block_queue cr r rules (h_ParentHash header) (big_Uint64 number))
       \<and> (\<exists>k q. missed_turns (big_Uint64 number) (sr_MaxMissedTurns rules) (sr_JailBlocks rules)
            (take k (block_queue cr r rules (h_ParentHash header) (big_Uint64 number))) r = Inr q
          \<and> MarkProducerHeartbeat q (h_Coinbase header) (big_Uint64 number) = Inr r1)"
    "apply_operations cr chainID (big_Uint64 number) (sr_ProofDifficulty rules) (env_Operations env) r1 = Inr r2"
    "Root cr r2 = env_RegistryRoot env"
    "s' = newRegistrySnapshot cr (rs_Number s + 1) (Header_Hash cr header) r2"
proof -
  obtain r number env where r: "Snapshot_Registry cr s = Inr r" "h_Number header = Some number"
    "rs_Number s \<noteq> maxU64" "big_Uint64 number = rs_Number s + 1" "h_ParentHash header = rs_Hash s"
    "ValidateRegistryHeaderExtra cr chainID (big_Uint64 number) (sr_ProofDifficulty rules) (h_Extra header) = Inr env"
    using assms by (auto simp: applyHeaderWithOpenActivation_def Let_def
        split: sum.splits option.splits if_splits)
  let ?n = "big_Uint64 number" and ?c = "h_Coinbase header"
  let ?q = "block_queue cr r rules (h_ParentHash header) ?n"
  have fin: "\<exists>r2. apply_operations cr chainID ?n (sr_ProofDifficulty rules) (env_Operations env) r1 = Inr r2
      \<and> Root cr r2 = env_RegistryRoot env
      \<and> s' = newRegistrySnapshot cr (rs_Number s + 1) (Header_Hash cr header) r2"
    if "finish_snapshot cr chainID rules header ?n env r1 = Inr s'" for r1
    using that r(4) by (auto simp: finish_snapshot_def split: sum.splits if_splits)
  show ?thesis
  proof (cases op)
    case True
    then obtain r1 where "?c \<noteq> 0" "finish_snapshot cr chainID rules header ?n env r1 = Inr s'"
      "(if pres then RecoverPermissionlessProducer r ?c ?n
         else ActivatePermissionlessProducer NewCanonicalRegistry ?c ?n) = Inr r1"
      using assms r by (auto simp: applyHeaderWithOpenActivation_def Let_def split: sum.splits if_splits)
    with fin that [OF r] True show ?thesis by (metis (full_types))
  next
    case False
    then obtain k q r1 where c: "?c \<noteq> 0" and fs: "finish_snapshot cr chainID rules header ?n env r1 = Inr s'"
      and k: "author_pos ?q ?c 0 = (True, k)"
      and q: "missed_turns ?n (sr_MaxMissedTurns rules) (sr_JailBlocks rules) (take (nat k) ?q) r = Inr q"
        "MarkProducerHeartbeat q ?c ?n = Inr r1"
      using assms r by (auto simp: applyHeaderWithOpenActivation_def Let_def IsAuthorAllowed_def block_queue_def
          split: sum.splits if_splits prod.splits)
    have "?c \<in> hp_Address ` set ?q" using k author_pos_mem [of ?q ?c 0] by simp
    with fin [OF fs] c q that [OF r] False show ?thesis by (metis (full_types))
  qed
qed

lemma Validate_operations:
  assumes "ValidateRegistryHeaderExtra cr chainID n d extra = Inr env"
  shows "DecodeRegistryHeaderExtra extra = Inr env" and "env_BlockNumber env = n"
    and "\<forall>op \<in> set (env_Operations env). ValidateRegistryOperation cr chainID n d op = None"
  using assms
  by (auto simp: ValidateRegistryHeaderExtra_def first_err_None_iff split: sum.splits if_splits option.splits)

text \<open>The registry after an accepted header, recovered from the snapshot it produced.\<close>

lemma applyHeader_next:
  assumes "applyHeaderWithOpenActivation cr s chainID rules header op pres = Inr s'"
    and "Snapshot_Registry cr s = Inr r"
  shows "\<exists>r2. s' = newRegistrySnapshot cr (rs_Number s + 1) (Header_Hash cr header) r2 \<and> registry_wf r2
    \<and> Root cr r2 \<noteq> 0 \<and> (Header_Hash cr header \<noteq> 0 \<longrightarrow> Snapshot_Registry cr s' = Inr r2)"
proof -
  obtain r' number env r1 r2 where a: "Snapshot_Registry cr s = Inr r'"
    "ValidateRegistryHeaderExtra cr chainID (big_Uint64 number) (sr_ProofDifficulty rules) (h_Extra header) = Inr env"
    "if op then (if pres then RecoverPermissionlessProducer r' (h_Coinbase header) (big_Uint64 number)
         else ActivatePermissionlessProducer NewCanonicalRegistry (h_Coinbase header) (big_Uint64 number)) = Inr r1
     else h_Coinbase header \<in> hp_Address ` set (block_queue cr r' rules (h_ParentHash header) (big_Uint64 number))
       \<and> (\<exists>k q. missed_turns (big_Uint64 number) (sr_MaxMissedTurns rules) (sr_JailBlocks rules)
            (take k (block_queue cr r' rules (h_ParentHash header) (big_Uint64 number))) r' = Inr q
          \<and> MarkProducerHeartbeat q (h_Coinbase header) (big_Uint64 number) = Inr r1)"
    "apply_operations cr chainID (big_Uint64 number) (sr_ProofDifficulty rules) (env_Operations env) r1 = Inr r2"
    "Root cr r2 = env_RegistryRoot env"
    "s' = newRegistrySnapshot cr (rs_Number s + 1) (Header_Hash cr header) r2"
    by (rule applyHeader_Inr [OF assms(1)]) blast
  have wf: "registry_wf r'" by (rule Snapshot_Registry_Inr(1) [OF a(1)])
  have "registry_wf r1"
  proof (cases op)
    case True
    then show ?thesis using a(3) wf registry_wf_new by (cases pres) (auto intro: registry_wf_ops)
  next
    case False
    then show ?thesis using a(3) wf reg_steps_wf [OF missed_turns_steps] registry_wf_ops(5) by metis
  qed
  then have "registry_wf r2" using reg_steps_wf [OF apply_operations_steps [OF a(4)]] by blast
  moreover have "Root cr r2 \<noteq> 0"
    using a(5) Validate_operations(1) [OF a(2)] by (simp add: DecodeRegistryHeaderExtra_iff envelope_ok_def)
  ultimately show ?thesis using a(6) Snapshot_Registry_new by blast
qed

lemma Snapshot_Registry_of_new:
  assumes "Snapshot_Registry cr (newRegistrySnapshot cr n h r) = Inr r'" and "registry_wf r"
  shows "r' = r"
  using Snapshot_Registry_Inr [OF assms(1)] assms(2) Participants_inject
  by (simp add: newRegistrySnapshot_def)

text \<open>What a turn does to each record, and the registry that an accepted header applies its operations to: the producer takes its
  turn in the queue and the participants before it are charged a missed one, or open activation recovers the producer in the registry or replaces
  the registry by one that holds the producer alone.\<close>

definition heartbeat_record :: "u64 \<Rightarrow> CanonicalParticipant \<Rightarrow> CanonicalParticipant" where
  "heartbeat_record n p = p\<lparr>cp_LastHeartbeat := n, cp_MissedTurns := 0, cp_JailedUntil := 0\<rparr>"

definition missed_record :: "RegistrySnapshotRules \<Rightarrow> u64 \<Rightarrow> CanonicalParticipant \<Rightarrow> CanonicalParticipant" where
  "missed_record rules n p = (if n < cp_JailedUntil p then p else miss_turn n (sr_MaxMissedTurns rules) (sr_JailBlocks rules) p)"

definition turn_taken ::
  "HybridParticipant list \<Rightarrow> RegistrySnapshotRules \<Rightarrow> u64 \<Rightarrow> address \<Rightarrow> CanonicalRegistry \<Rightarrow> CanonicalRegistry \<Rightarrow> bool" where
  "turn_taken queue rules n c r r1 \<longleftrightarrow> (\<exists>k < length queue. hp_Address (queue ! k) = c
     \<and> (\<forall>a. fmlookup r1 a = (if a = c then map_option (heartbeat_record n) (fmlookup r a)
          else if a \<in> hp_Address ` set (take k queue) then map_option (missed_record rules n) (fmlookup r a)
          else fmlookup r a)))"

definition producer_activated :: "bool \<Rightarrow> u64 \<Rightarrow> address \<Rightarrow> CanonicalRegistry \<Rightarrow> CanonicalRegistry \<Rightarrow> bool" where
  "producer_activated pres n c r r1 \<longleftrightarrow>
     (\<exists>p. fmlookup r1 c = Some p \<and> cp_Address p = c \<and> cp_Active p \<and> cp_LastHeartbeat p = n \<and> cp_MissedTurns p = 0 \<and> cp_JailedUntil p = 0
        \<and> (if pres then unat (cp_Sequence p) = last_sequence r c else cp_Sequence p = 0 \<and> cp_RegisteredAt p = n))
     \<and> (\<forall>a. a \<noteq> c \<longrightarrow> fmlookup r1 a = (if pres then fmlookup r a else None))"

lemma missed_turns_lookup:
  assumes "missed_turns n (sr_MaxMissedTurns rules) (sr_JailBlocks rules) skipped r = Inr r'" "distinct (map hp_Address skipped)"
  shows "fmlookup r' a = (if a \<in> hp_Address ` set skipped then map_option (missed_record rules n) (fmlookup r a) else fmlookup r a)"
  using assms
proof (induction skipped arbitrary: r)
  case Nil
  then show ?case by (simp add: missed_turns_def)
next
  case (Cons p ps)
  let ?b = "hp_Address p"
  obtain r1 where r1: "ApplyMissedTurn r ?b n (sr_MaxMissedTurns rules) (sr_JailBlocks rules) = Inr r1"
      "missed_turns n (sr_MaxMissedTurns rules) (sr_JailBlocks rules) ps r1 = Inr r'"
    using Cons.prems(1) by (auto simp: missed_turns_def split: sum.splits)
  have "fmlookup r1 a = (if a = ?b then map_option (missed_record rules n) (fmlookup r a) else fmlookup r a)"
    using r1(1) by (auto simp: ApplyMissedTurn_def missed_record_def split: option.splits if_splits)
  moreover have "?b \<notin> hp_Address ` set ps" using Cons.prems(2) by simp
  ultimately show ?case using Cons.IH [OF r1(2)] Cons.prems(2) by (cases "a = ?b") auto
qed

lemma applyHeader_turn:
  assumes "applyHeaderWithOpenActivation cr s chainID rules header False pres = Inr s'" "Snapshot_Registry cr s = Inr r"
  obtains number env r1 where "h_Number header = Some number"
    "ValidateRegistryHeaderExtra cr chainID (big_Uint64 number) (sr_ProofDifficulty rules) (h_Extra header) = Inr env"
    "turn_taken (block_queue cr r rules (h_ParentHash header) (big_Uint64 number)) rules (big_Uint64 number) (h_Coinbase header) r r1"
    "registry_wf r1" "finish_snapshot cr chainID rules header (big_Uint64 number) env r1 = Inr s'"
proof -
  obtain number env where r: "h_Number header = Some number"
    "ValidateRegistryHeaderExtra cr chainID (big_Uint64 number) (sr_ProofDifficulty rules) (h_Extra header) = Inr env"
    using assms by (auto simp: applyHeaderWithOpenActivation_def Let_def split: sum.splits option.splits if_splits)
  let ?n = "big_Uint64 number" and ?c = "h_Coinbase header"
  let ?q = "block_queue cr r rules (h_ParentHash header) ?n"
  obtain k q r1 where fs: "finish_snapshot cr chainID rules header ?n env r1 = Inr s'"
    and k: "author_pos ?q ?c 0 = (True, k)"
    and q: "missed_turns ?n (sr_MaxMissedTurns rules) (sr_JailBlocks rules) (take (nat k) ?q) r = Inr q"
      "MarkProducerHeartbeat q ?c ?n = Inr r1"
    using assms r by (auto simp: applyHeaderWithOpenActivation_def Let_def IsAuthorAllowed_def block_queue_def
        split: sum.splits if_splits prod.splits)
  have d: "distinct (map hp_Address ?q)"
    unfolding block_queue_def by (rule OrderedParticipants_distinct [OF Snapshot_Registry_Inr(1) [OF assms(2)]])
  obtain i where i: "i < length ?q" "k = int i" "hp_Address (?q ! i) = ?c" "\<forall>m < i. hp_Address (?q ! m) \<noteq> ?c"
    using k unfolding author_pos_True by auto
  have nc: "?c \<notin> hp_Address ` set (take i ?q)" using i(4) by (force simp: in_set_conv_nth)
  have l: "fmlookup q a = (if a \<in> hp_Address ` set (take i ?q) then map_option (missed_record rules ?n) (fmlookup r a) else fmlookup r a)" for a
    using missed_turns_lookup [OF q(1), of a] d i(2) by (simp add: take_map [symmetric])
  have "fmlookup r1 a = (if a = ?c then map_option (heartbeat_record ?n) (fmlookup q a) else fmlookup q a)" for a
    using q(2) by (auto simp: MarkProducerHeartbeat_def heartbeat_record_def split: option.splits if_splits)
  then have "turn_taken ?q rules ?n ?c r r1" unfolding turn_taken_def using i(1,3) l nc by auto
  moreover have "registry_wf r1"
    using reg_steps_wf [OF missed_turns_steps [OF q(1)] Snapshot_Registry_Inr(1) [OF assms(2)]] registry_wf_ops(5) [OF _ q(2)] by blast
  ultimately show ?thesis using that [OF r _ _ fs] by blast
qed

lemma activation_record:
  shows "RecoverPermissionlessProducer r c n = Inr r1 \<Longrightarrow> registry_wf r \<Longrightarrow> producer_activated True n c r r1"
    and "ActivatePermissionlessProducer NewCanonicalRegistry c n = Inr r1 \<Longrightarrow> producer_activated False n c r r1"
  by (auto simp: registry_op_defs producer_activated_def NewCanonicalRegistry_def last_sequence_def zeroParticipant_def registry_wf_lookup
      split: option.splits if_splits)

lemma applyHeader_open:
  assumes "applyHeaderWithOpenActivation cr s chainID rules header True pres = Inr s'" "Snapshot_Registry cr s = Inr r"
  obtains number env r1 where "h_Number header = Some number"
    "ValidateRegistryHeaderExtra cr chainID (big_Uint64 number) (sr_ProofDifficulty rules) (h_Extra header) = Inr env"
    "producer_activated pres (big_Uint64 number) (h_Coinbase header) r r1"
    "registry_wf r1" "finish_snapshot cr chainID rules header (big_Uint64 number) env r1 = Inr s'"
proof -
  have wf: "registry_wf r" by (rule Snapshot_Registry_Inr(1) [OF assms(2)])
  obtain number env r1 where r: "h_Number header = Some number"
    "ValidateRegistryHeaderExtra cr chainID (big_Uint64 number) (sr_ProofDifficulty rules) (h_Extra header) = Inr env"
    and a: "(if pres then RecoverPermissionlessProducer r (h_Coinbase header) (big_Uint64 number)
         else ActivatePermissionlessProducer NewCanonicalRegistry (h_Coinbase header) (big_Uint64 number)) = Inr r1"
    and f: "finish_snapshot cr chainID rules header (big_Uint64 number) env r1 = Inr s'"
    using assms by (auto simp: applyHeaderWithOpenActivation_def Let_def split: sum.splits option.splits if_splits)
  have "registry_wf r1" using a wf registry_wf_new by (cases pres) (auto intro: registry_wf_ops)
  moreover have "producer_activated pres (big_Uint64 number) (h_Coinbase header) r r1"
    using a activation_record wf by (cases pres) simp_all
  ultimately show ?thesis using that [OF r _ _ f] by blast
qed

lemma finish_snapshot_Inr:
  assumes "finish_snapshot cr chainID rules header n env r1 = Inr s'" and "registry_wf r1" and "env_RegistryRoot env \<noteq> 0"
  shows "\<exists>r2. apply_operations cr chainID n (sr_ProofDifficulty rules) (env_Operations env) r1 = Inr r2
    \<and> env_RegistryRoot env = Root cr r2 \<and> registry_wf r2 \<and> s' = newRegistrySnapshot cr n (Header_Hash cr header) r2
    \<and> (Header_Hash cr header \<noteq> 0 \<longrightarrow> Snapshot_Registry cr s' = Inr r2)"
proof -
  obtain r3 where r3: "apply_operations cr chainID n (sr_ProofDifficulty rules) (env_Operations env) r1 = Inr r3"
      "env_RegistryRoot env = Root cr r3" "s' = newRegistrySnapshot cr n (Header_Hash cr header) r3"
    using assms(1) by (auto simp: finish_snapshot_def split: sum.splits if_splits)
  have w3: "registry_wf r3" using reg_steps_wf [OF apply_operations_steps [OF r3(1)] assms(2)] .
  then have "Header_Hash cr header \<noteq> 0 \<longrightarrow> Snapshot_Registry cr s' = Inr r3"
    using Snapshot_Registry_new assms(3) r3(2,3) by metis
  then show ?thesis using r3 w3 by blast
qed

text \<open>Without open activation, or with the one that preserves the registry, a block is a sequence of
  registry steps in which its operations are applied one after the other.\<close>

lemma applyHeader_steps:
  assumes "applyHeaderWithOpenActivation cr s chainID rules header op pres = Inr s'"
    and "Snapshot_Registry cr s = Inr r" and "op \<longrightarrow> pres"
  shows "\<exists>env r1 r2 n d. DecodeRegistryHeaderExtra (h_Extra header) = Inr env \<and> (reg_step cr chainID)\<^sup>*\<^sup>* r r1
    \<and> apply_operations cr chainID n d (env_Operations env) r1 = Inr r2
    \<and> s' = newRegistrySnapshot cr (rs_Number s + 1) (Header_Hash cr header) r2 \<and> registry_wf r2"
proof -
  obtain q number env r1 r2 where a: "Snapshot_Registry cr s = Inr q"
    "ValidateRegistryHeaderExtra cr chainID (big_Uint64 number) (sr_ProofDifficulty rules) (h_Extra header) = Inr env"
    "if op then (if pres then RecoverPermissionlessProducer q (h_Coinbase header) (big_Uint64 number)
         else ActivatePermissionlessProducer NewCanonicalRegistry (h_Coinbase header) (big_Uint64 number)) = Inr r1
     else h_Coinbase header \<in> hp_Address ` set (block_queue cr q rules (h_ParentHash header) (big_Uint64 number))
       \<and> (\<exists>k p. missed_turns (big_Uint64 number) (sr_MaxMissedTurns rules) (sr_JailBlocks rules)
            (take k (block_queue cr q rules (h_ParentHash header) (big_Uint64 number))) q = Inr p
          \<and> MarkProducerHeartbeat p (h_Coinbase header) (big_Uint64 number) = Inr r1)"
    "apply_operations cr chainID (big_Uint64 number) (sr_ProofDifficulty rules) (env_Operations env) r1 = Inr r2"
    "s' = newRegistrySnapshot cr (rs_Number s + 1) (Header_Hash cr header) r2"
    by (rule applyHeader_Inr [OF assms(1)]) blast
  have rq: "r = q" using a(1) assms(2) by simp
  have st: "(reg_step cr chainID)\<^sup>*\<^sup>* r r1"
  proof (cases op)
    case True
    then show ?thesis using a(3) assms(3) rq by (auto intro: step_recover)
  next
    case False
    then obtain k p where "missed_turns (big_Uint64 number) (sr_MaxMissedTurns rules) (sr_JailBlocks rules) k q = Inr p"
      "MarkProducerHeartbeat p (h_Coinbase header) (big_Uint64 number) = Inr r1" using a(3) by auto
    then show ?thesis using rq missed_turns_steps step_heartbeat by (metis rtranclp.rtrancl_into_rtrancl)
  qed
  have "registry_wf r2"
    using reg_steps_wf [OF apply_operations_steps [OF a(4)]] reg_steps_wf [OF st]
      Snapshot_Registry_Inr(1) [OF assms(2)] by blast
  then show ?thesis using a(4,5) st Validate_operations(1) [OF a(2)] by blast
qed

definition header_operations :: "Header \<Rightarrow> RegistryOperation list" where
  "header_operations h = (case DecodeRegistryHeaderExtra (h_Extra h) of Inl _ \<Rightarrow> [] | Inr e \<Rightarrow> env_Operations e)"

text \<open>The sequence numbers that a list of operations uses for one participant.\<close>

definition sequences_of :: "address \<Rightarrow> RegistryOperation list \<Rightarrow> nat list" where
  "sequences_of a ops = map (unat \<circ> op_Sequence) (filter (\<lambda>x. op_Address x = a) ops)"

lemma sequences_of_append [simp]: "sequences_of a (xs @ ys) = sequences_of a xs @ sequences_of a ys"
  by (simp add: sequences_of_def)

text \<open>A list of strictly increasing numbers above \<open>lo\<close> and up to \<open>hi\<close>.\<close>

definition climbs :: "nat \<Rightarrow> nat list \<Rightarrow> nat \<Rightarrow> bool" where
  "climbs lo ks hi \<longleftrightarrow> sorted_wrt (<) ks \<and> (\<forall>k \<in> set ks. lo < k \<and> k \<le> hi) \<and> lo \<le> hi"

lemma climbs_append: "climbs lo xs mid \<Longrightarrow> climbs mid ys hi \<Longrightarrow> climbs lo (xs @ ys) hi"
  by (fastforce simp: climbs_def sorted_wrt_append)

lemma climbs_mono: "climbs lo xs hi \<Longrightarrow> lo' \<le> lo \<Longrightarrow> hi \<le> hi' \<Longrightarrow> climbs lo' xs hi'"
  by (auto simp: climbs_def)

lemma climbs_Nil [simp]: "climbs lo [] hi \<longleftrightarrow> lo \<le> hi"
  by (simp add: climbs_def)

lemma apply_operations_climbs:
  "apply_operations cr chainID n d ops r = Inr r' \<Longrightarrow> climbs (last_sequence r a) (sequences_of a ops) (last_sequence r' a)"
proof (induction ops arbitrary: r)
  case Nil
  then show ?case by (simp add: apply_operations_def sequences_of_def)
next
  case (Cons x ops)
  then obtain r1 where r1: "ApplyOperation cr chainID n d x r = Inr r1" "apply_operations cr chainID n d ops r1 = Inr r'"
    by (auto simp: apply_operations_def split: sum.splits)
  have "climbs (last_sequence r a) (sequences_of a [x]) (last_sequence r1 a)"
    using ApplyOperation_sequence [OF r1(1)] reg_step_last_sequence [OF step_operation [OF r1(1)], of a]
    by (auto simp: sequences_of_def climbs_def)
  from climbs_append [OF this Cons.IH [OF r1(2)]] show ?case by (simp add: sequences_of_def split: if_splits)
qed

text \<open>The header of a block starts from the sequence numbers of the registry, or from none when open activation replaces it.\<close>

lemma applyHeader_climbs:
  assumes "applyHeaderWithOpenActivation cr s chainID rules header op pres = Inr s'"
    and "Snapshot_Registry cr s = Inr r"
  shows "\<exists>hi. climbs (if op \<and> \<not> pres then 0 else last_sequence r a) (sequences_of a (header_operations header)) hi
    \<and> (\<forall>r'. Snapshot_Registry cr s' = Inr r' \<longrightarrow> hi = last_sequence r' a)"
proof -
  have "\<exists>env r1 r2 n d. DecodeRegistryHeaderExtra (h_Extra header) = Inr env
      \<and> (if op \<and> \<not> pres then 0 else last_sequence r a) \<le> last_sequence r1 a
      \<and> apply_operations cr chainID n d (env_Operations env) r1 = Inr r2
      \<and> s' = newRegistrySnapshot cr (rs_Number s + 1) (Header_Hash cr header) r2 \<and> registry_wf r2"
  proof (cases "op \<longrightarrow> pres")
    case True
    obtain env r1 r2 n d where y: "DecodeRegistryHeaderExtra (h_Extra header) = Inr env" "(reg_step cr chainID)\<^sup>*\<^sup>* r r1"
      "apply_operations cr chainID n d (env_Operations env) r1 = Inr r2"
      "s' = newRegistrySnapshot cr (rs_Number s + 1) (Header_Hash cr header) r2" "registry_wf r2"
      using applyHeader_steps [OF assms True] by blast
    have "(if op \<and> \<not> pres then 0 else last_sequence r a) \<le> last_sequence r1 a"
      using reg_steps_last_sequence [OF y(2), of a] by simp
    with y show ?thesis by blast
  next
    case False
    obtain env r1 r3 n d where x: "DecodeRegistryHeaderExtra (h_Extra header) = Inr env"
        "ActivatePermissionlessProducer NewCanonicalRegistry (h_Coinbase header) n = Inr r1"
        "apply_operations cr chainID n d (env_Operations env) r1 = Inr r3"
        "s' = newRegistrySnapshot cr (rs_Number s + 1) (Header_Hash cr header) r3"
    proof (rule applyHeader_Inr [OF assms(1)], goal_cases)
      case (1 q number env r1 r2)
      have "ActivatePermissionlessProducer NewCanonicalRegistry (h_Coinbase header) (big_Uint64 number) = Inr r1"
        using 1(9) False by simp
      then show ?case using 1(1) [OF Validate_operations(1) [OF 1(7)] _ 1(10) 1(12)] by blast
    qed
    have "registry_wf r3"
      using reg_steps_wf [OF apply_operations_steps [OF x(3)]] registry_wf_ops(1) [OF registry_wf_new x(2)] by blast
    moreover have "(if op \<and> \<not> pres then 0 else last_sequence r a) \<le> last_sequence r1 a" using False by simp
    ultimately show ?thesis using x by blast
  qed
  then obtain env r1 r2 n d where x: "DecodeRegistryHeaderExtra (h_Extra header) = Inr env"
    "(if op \<and> \<not> pres then 0 else last_sequence r a) \<le> last_sequence r1 a"
    "apply_operations cr chainID n d (env_Operations env) r1 = Inr r2"
    "s' = newRegistrySnapshot cr (rs_Number s + 1) (Header_Hash cr header) r2" "registry_wf r2" by blast
  have "climbs (if op \<and> \<not> pres then 0 else last_sequence r a) (sequences_of a (header_operations header)) (last_sequence r2 a)"
    using climbs_mono [OF apply_operations_climbs [OF x(3), of a] x(2)] by (simp add: header_operations_def x(1))
  moreover have "r' = r2" if "Snapshot_Registry cr s' = Inr r'" for r'
    using Snapshot_Registry_of_new that x(4,5) by metis
  ultimately show ?thesis by blast
qed

section \<open>A chain of headers\<close>

lemmas reconstruct_defs = ReconstructRegistrySnapshot_def ApplyHeader_def ApplyHeaderWithOpenActivation_def

lemma Reconstruct_append:
  "ReconstructRegistrySnapshot cr g chainID rules (xs @ ys) =
     (case ReconstructRegistrySnapshot cr g chainID rules xs of Inl e \<Rightarrow> Inl e
      | Inr s \<Rightarrow> ReconstructRegistrySnapshot cr s chainID rules ys)"
  by (simp add: ReconstructRegistrySnapshot_def fold_res_append split: sum.split)

lemma Reconstruct_Cons:
  "ReconstructRegistrySnapshot cr g chainID rules (h # hs) =
     (case ApplyHeader cr g chainID rules h of Inl e \<Rightarrow> Inl e
      | Inr s \<Rightarrow> ReconstructRegistrySnapshot cr s chainID rules hs)"
  by (simp add: ReconstructRegistrySnapshot_def split: sum.splits)

lemma Reconstruct_Nil [simp]: "ReconstructRegistrySnapshot cr g chainID rules [] = Inr g"
  by (simp add: ReconstructRegistrySnapshot_def)

lemma ApplyHeader_registry:
  "ApplyHeader cr s chainID rules h = Inr s' \<Longrightarrow> \<exists>r. Snapshot_Registry cr s = Inr r"
  by (auto simp: ApplyHeader_def ApplyHeaderWithOpenActivation_def applyHeaderWithOpenActivation_def
      split: sum.splits)

definition chain_operations :: "Header list \<Rightarrow> RegistryOperation list" where
  "chain_operations headers = concat (map header_operations headers)"

text \<open>The engine applies each header with the two flags of its block: whether open activation applies, and whether the registry is
  kept then. A chain is a list of headers with their flags.\<close>

type_synonym flagged_header = "Header \<times> bool \<times> bool"

definition replay_headers ::
  "crypto \<Rightarrow> RegistrySnapshot \<Rightarrow> nat \<Rightarrow> RegistrySnapshotRules \<Rightarrow> flagged_header list \<Rightarrow> registry_error + RegistrySnapshot" where
  "replay_headers cr s chainID rules steps =
     fold_res (\<lambda>(header, op, pres) s. applyHeaderWithOpenActivation cr s chainID rules header op pres) steps s"

definition replaces_registry :: "flagged_header \<Rightarrow> bool" where
  "replaces_registry step = (case step of (_, op, pres) \<Rightarrow> op \<and> \<not> pres)"

lemma replay_Nil [simp]: "replay_headers cr s chainID rules [] = Inr s"
  by (simp add: replay_headers_def)

lemma replay_Cons:
  "replay_headers cr s chainID rules ((h, op, pres) # steps) =
     (case applyHeaderWithOpenActivation cr s chainID rules h op pres of Inl e \<Rightarrow> Inl e
      | Inr t \<Rightarrow> replay_headers cr t chainID rules steps)"
  by (simp add: replay_headers_def split: sum.splits)

lemma replay_append:
  "replay_headers cr s chainID rules (xs @ ys) =
     (case replay_headers cr s chainID rules xs of Inl e \<Rightarrow> Inl e | Inr t \<Rightarrow> replay_headers cr t chainID rules ys)"
  by (simp add: replay_headers_def fold_res_append split: sum.split)

lemma Reconstruct_replay:
  "ReconstructRegistrySnapshot cr s chainID rules hs = replay_headers cr s chainID rules (map (\<lambda>h. (h, False, False)) hs)"
  by (induction hs arbitrary: s)
    (auto simp: Reconstruct_Cons replay_Cons ApplyHeader_def ApplyHeaderWithOpenActivation_def split: sum.split)

lemma replay_registry:
  "replay_headers cr s chainID rules steps = Inr s' \<Longrightarrow> steps \<noteq> [] \<Longrightarrow> \<exists>r. Snapshot_Registry cr s = Inr r"
  by (cases steps) (auto simp: replay_headers_def applyHeaderWithOpenActivation_def split: sum.splits)

lemma replay_climbs:
  assumes "replay_headers cr s chainID rules steps = Inr s'" and "Snapshot_Registry cr s = Inr r"
    and "steps \<noteq> [] \<Longrightarrow> \<not> (\<exists>x \<in> set (tl steps). replaces_registry x)"
  shows "\<exists>hi. climbs (if steps \<noteq> [] \<and> replaces_registry (hd steps) then 0 else last_sequence r a)
    (sequences_of a (chain_operations (map fst steps))) hi"
  using assms
proof (induction steps arbitrary: s r)
  case Nil
  then show ?case by (auto simp: chain_operations_def sequences_of_def)
next
  case (Cons x steps)
  obtain h op pres where x: "x = (h, op, pres)" by (cases x) auto
  let ?lo = "if op \<and> \<not> pres then 0 else last_sequence r a"
  obtain t where t: "applyHeaderWithOpenActivation cr s chainID rules h op pres = Inr t"
      "replay_headers cr t chainID rules steps = Inr s'"
    using Cons.prems(1) by (auto simp: x replay_Cons split: sum.splits)
  obtain hi where hi: "climbs ?lo (sequences_of a (header_operations h)) hi"
      "\<forall>q. Snapshot_Registry cr t = Inr q \<longrightarrow> hi = last_sequence q a"
    using applyHeader_climbs [OF t(1) Cons.prems(2), of a] by blast
  have "\<exists>hi'. climbs hi (sequences_of a (chain_operations (map fst steps))) hi'"
  proof (cases "steps = []")
    case False
    then obtain q where q: "Snapshot_Registry cr t = Inr q" using replay_registry [OF t(2)] by blast
    have "\<not> replaces_registry (hd steps)" "\<not> (\<exists>x \<in> set (tl steps). replaces_registry x)"
      using Cons.prems(3) False by (auto dest: list.set_sel)
    then show ?thesis using Cons.IH [OF t(2) q] hi(2) q False by auto
  qed (auto simp: chain_operations_def sequences_of_def)
  then obtain hi' where "climbs hi (sequences_of a (chain_operations (map fst steps))) hi'" by blast
  from climbs_append [OF hi(1) this] show ?case
    by (auto simp: x replaces_registry_def chain_operations_def)
qed

text \<open>A header of a queue member reaches the operations of its envelope: neither the penalties nor the heartbeat
  can fail, and they change nobody's standing.\<close>

lemma applyHeader_turns:
  assumes "Snapshot_Registry cr s = Inr r" and "h_Number header = Some number"
    and "rs_Number s \<noteq> maxU64" and "big_Uint64 number = rs_Number s + 1"
    and "h_ParentHash header = rs_Hash s" and "sr_ProofDifficulty rules \<noteq> 0"
    and "ValidateRegistryHeaderExtra cr chainID (big_Uint64 number) (sr_ProofDifficulty rules) (h_Extra header) = Inr env"
    and "h_Coinbase header \<noteq> 0"
    and "h_Coinbase header \<in> hp_Address ` set (block_queue cr r rules (h_ParentHash header) (big_Uint64 number))"
  shows "\<exists>r1. registry_wf r1 \<and> registry_sim r r1 \<and> ApplyHeader cr s chainID rules header =
      finish_snapshot cr chainID rules header (big_Uint64 number) env r1"
proof -
  let ?n = "big_Uint64 number" and ?c = "h_Coinbase header"
  let ?q = "block_queue cr r rules (h_ParentHash header) ?n"
  have wf: "registry_wf r" using Snapshot_Registry_Inr(1) [OF assms(1)] .
  obtain k where k: "author_pos ?q ?c 0 = (True, k)"
    using assms(9) author_pos_mem [of ?q ?c 0] by (cases "author_pos ?q ?c 0") simp
  have act: "active_in r (hp_Address p)" if "p \<in> set ?q" for p
    using that ordered_active [OF wf] unfolding block_queue_def by blast
  obtain q where q: "missed_turns ?n (sr_MaxMissedTurns rules) (sr_JailBlocks rules) (take (nat k) ?q) r = Inr q"
      "registry_sim r q"
    using missed_turns_active [of "take (nat k) ?q" r] act by (meson in_set_takeD)
  have "active_in q ?c" using active_in_sim [OF q(2)] act assms(9) by auto
  then obtain r1 where r1: "MarkProducerHeartbeat q ?c ?n = Inr r1" "registry_sim q r1"
    using MarkProducerHeartbeat_active by blast
  have "(reg_step cr chainID)\<^sup>*\<^sup>* r r1"
    using missed_turns_steps [OF q(1)] step_heartbeat [OF r1(1)] by (metis rtranclp.rtrancl_into_rtrancl)
  then have "registry_wf r1" using reg_steps_wf wf by blast
  moreover have "ApplyHeader cr s chainID rules header = finish_snapshot cr chainID rules header ?n env r1"
    using assms k q(1) r1(1)
    by (simp add: ApplyHeader_def ApplyHeaderWithOpenActivation_def applyHeaderWithOpenActivation_def
        IsAuthorAllowed_def block_queue_def)
  ultimately show ?thesis using registry_sim_trans [OF q(2) r1(2)] by blast
qed

section \<open>The stored form\<close>

lemma participant_of_val_inverse [simp]: "participant_of_val (participant_val p) = p"
  by (cases p) (simp add: participant_of_val_def participant_val_def)

lemma snapshot_of_val_inverse [simp]: "snapshot_of_val (snapshot_val s) = s"
  by (cases s) (simp add: snapshot_of_val_def snapshot_val_def comp_def)

lemma type_ok_snapshot: "type_ok snapshot_type" and has_type_snapshot: "has_type snapshot_type (snapshot_val s)"
  by (simp_all add: snapshot_type_def participant_type_def [THEN arg_cong, of type_ok] snapshot_val_def list_all_iff)

lemma registrySnapshotKey_inject [simp]: "registrySnapshotKey a = registrySnapshotKey b \<longleftrightarrow> a = b"
  by (simp add: registrySnapshotKey_def)

lemma participant_val_inverse: "has_type participant_type v \<Longrightarrow> participant_val (participant_of_val v) = v"
  unfolding participant_type_def
  by (auto dest!: has_typeD simp: list_all2_Cons1 participant_of_val_def participant_val_def addr_bytes_of_be
      simp del: has_type.simps)

lemma snapshot_val_inverse: "has_type snapshot_type v \<Longrightarrow> snapshot_val (snapshot_of_val v) = v"
  unfolding snapshot_type_def
  by (auto dest!: has_typeD simp: list_all2_Cons1 snapshot_of_val_def snapshot_val_def hash_bytes_of_be
      participant_val_inverse comp_def map_idI simp del: has_type.simps)

interpretation snap: rlp_codec snapshot_type snapshot_val "\<lambda>s. length (rs_Participants s) < 2 ^ 57" snapshot_of_val
proof unfold_locales
  show "vsize (snapshot_val s) < 2 ^ 64" if "length (rs_Participants s) < 2 ^ 57" for s
    using sum_vsize_le [of "rs_Participants s" participant_val 84] that by (simp add: snapshot_val_def)
qed (auto simp: type_ok_snapshot has_type_snapshot snapshot_val_inverse simp del: has_type.simps
    dest: arg_cong [of _ _ snapshot_of_val])

lemma Load_Store:
  assumes "StoreRegistrySnapshot cr db s = Inr db'" and "length (rs_Participants s) < 2 ^ 57"
  shows "LoadRegistrySnapshot cr db' (rs_Hash s) = Inr s"
    and "h \<noteq> rs_Hash s \<Longrightarrow> LoadRegistrySnapshot cr db' h = LoadRegistrySnapshot cr db h"
proof -
  obtain r where r: "Snapshot_Registry cr s = Inr r"
    and db': "db' = fmupd (registrySnapshotKey (rs_Hash s)) (EncodeToBytes (snapshot_val s)) db"
    using assms(1) by (auto simp: StoreRegistrySnapshot_def split: sum.splits)
  have "DecodeBytes snapshot_type (EncodeToBytes (snapshot_val s)) = Some (snapshot_val s)"
    by (rule snap.decode_encode [OF assms(2)])
  then show "LoadRegistrySnapshot cr db' (rs_Hash s) = Inr s"
    using r Snapshot_Registry_Inr(3) [OF r] by (simp add: db' LoadRegistrySnapshot_def)
  show "h \<noteq> rs_Hash s \<Longrightarrow> LoadRegistrySnapshot cr db' h = LoadRegistrySnapshot cr db h"
    by (simp add: db' LoadRegistrySnapshot_def)
qed

text \<open>Whatever the database holds, a loaded snapshot is one that a well-formed registry has.\<close>

lemma Load_sound:
  assumes "LoadRegistrySnapshot cr db h = Inr s"
  shows "\<exists>r. registry_wf r \<and> s = newRegistrySnapshot cr (rs_Number s) h r
    \<and> fmlookup db (registrySnapshotKey h) = Some (EncodeToBytes (snapshot_val s))"
proof -
  obtain r where "Snapshot_Registry cr s = Inr r" "rs_Hash s = h"
      "fmlookup db (registrySnapshotKey h) = Some (EncodeToBytes (snapshot_val s))"
    using assms by (auto simp: LoadRegistrySnapshot_def Let_def split: if_splits option.splits sum.splits)
  then show ?thesis using Snapshot_Registry_Inr [of cr s r] by metis
qed

section \<open>Bootstrap snapshots\<close>

lemma add_bootstrap_Inr:
  "add_bootstrap n a r = Inr r' \<Longrightarrow> registry_wf r \<Longrightarrow> registry_wf r' \<and> fmdom' r' = insert a (fmdom' r)"
  by (auto simp: add_bootstrap_def intro!: registry_wf_upd split: if_splits)

lemma fold_add_bootstrap:
  "fold_res (add_bootstrap n) as r = Inr r' \<Longrightarrow> registry_wf r \<Longrightarrow>
     registry_wf r' \<and> fmdom' r' = fmdom' r \<union> set as"
  by (induction as arbitrary: r) (auto split: sum.splits dest!: add_bootstrap_Inr)

lemma NewBootstrap_wf:
  assumes "NewBootstrapRegistrySnapshot cr n h as = Inr s"
  shows "\<exists>r. registry_wf r \<and> fmdom' r = set as \<and> s = newRegistrySnapshot cr n h r \<and> h \<noteq> 0"
  using assms fold_add_bootstrap [of n as NewCanonicalRegistry, OF _ registry_wf_new]
  by (auto simp: NewBootstrapRegistrySnapshot_def NewCanonicalRegistry_def split: if_splits sum.splits)


section \<open>Properties\<close>

text \<open>One block over a registry with one producer, for the examples.\<close>

definition sample_rules :: RegistrySnapshotRules where
  "sample_rules = \<lparr>sr_ProofDifficulty = 1, sr_ActivationDelay = 0, sr_HeartbeatWindow = 64, sr_HeartbeatGrace = 16,
     sr_JailBlocks = 256, sr_MaxMissedTurns = 3\<rparr>"

definition sample_bootstrap :: "u64 \<Rightarrow> CanonicalRegistry" where
  "sample_bootstrap n = fmupd 3 (zeroParticipant\<lparr>cp_Address := 3, cp_LastHeartbeat := n, cp_Active := True\<rparr>) fmempty"

definition sample_after :: CanonicalRegistry where
  "sample_after = fmupd 4 (zeroParticipant\<lparr>cp_Address := 4, cp_RegisteredAt := 5, cp_LastHeartbeat := 5,
     cp_Sequence := 1, cp_Active := True\<rparr>) (sample_bootstrap 5)"

definition sample_snapshot :: RegistrySnapshot where
  "sample_snapshot = newRegistrySnapshot sample_crypto 4 11 (sample_bootstrap 4)"

definition sample_envelope :: RegistryHeaderEnvelope where
  "sample_envelope = \<lparr>env_Version = RegistryHeaderEnvelopeVersion, env_BlockNumber = 5,
     env_RegistryRoot = Root sample_crypto sample_after, env_Operations = [sample_operation 4 1]\<rparr>"

definition sample_block :: Header where
  "sample_block = sample_header 3 5 (envelope_extra sample_envelope (sample_signature 3))"

lemma sample_bootstrap_wf: "registry_wf (sample_bootstrap n)"
  by (simp add: registry_wf_def sample_bootstrap_def)

lemma sample_Root_nonzero [simp]: "Root sample_crypto r \<noteq> 0"
  by (simp add: Root_def Keccak256Hash_def)

lemma sample_snapshot_registry: "Snapshot_Registry sample_crypto sample_snapshot = Inr (sample_bootstrap 4)"
  unfolding sample_snapshot_def by (rule Snapshot_Registry_new [OF sample_bootstrap_wf]) simp_all

lemma sample_envelope_ok: "envelope_ok sample_envelope"
  by (simp add: envelope_ok_def sample_envelope_def CanonicalRegistryOperations_def validateRegistryHeaderOperations_def
      MaxRegistryOperationsPerBlock_def sample_operation_def SignatureLength_def RegistryProtocolVersion_def
      RegistryActionRegister_def RegistryActionExit_def)

lemma sample_block_decodes: "DecodeRegistryHeaderExtra (h_Extra sample_block) = Inr sample_envelope"
proof -
  have "vsize (envelope_val sample_envelope) \<le> 300"
    by (simp add: envelope_val_def sample_envelope_def operation_val_def sample_operation_def)
  then have "length (rlp_bytes (envelope_val sample_envelope)) \<le> 300"
    by (rule length_rlp_bound) simp
  moreover have "length registryHeaderMagic \<le> 100" by (simp add: registryHeaderMagic_def ascii_def)
  ultimately have "length (envelope_extra sample_envelope (sample_signature 3)) \<le> MaxRegistryHeaderExtraSize"
    by (simp add: envelope_extra_def MaxRegistryHeaderExtraSize_def)
  moreover have "h_Extra sample_block = envelope_extra sample_envelope (sample_signature 3)"
    by (simp add: sample_block_def sample_header_def)
  ultimately show ?thesis
    using sample_envelope_ok length_sample_signature [of 3]
    unfolding DecodeRegistryHeaderExtra_iff ProducerSealLength_eq by metis
qed

lemma sample_block_valid:
  "ValidateRegistryHeaderExtra sample_crypto chainID 5 1 (h_Extra sample_block) = Inr sample_envelope"
  by (simp add: ValidateRegistryHeaderExtra_def sample_block_decodes, simp add: sample_envelope_def sample_valid)

lemma sample_queue:
  "OrderedParticipantsForBlock sample_crypto (sample_bootstrap 4) 11 5 0 64 16 =
      [queue_candidate (zeroParticipant\<lparr>cp_Address := 3, cp_LastHeartbeat := 4, cp_Active := True\<rparr>)]"
proof -
  have elig: "EligibleParticipants (sample_bootstrap 4) 5 0 64 16 =
      [zeroParticipant\<lparr>cp_Address := 3, cp_LastHeartbeat := 4, cp_Active := True\<rparr>]"
    by (simp add: EligibleParticipants_def Participants_def fmvals_def fmkeys_def sample_bootstrap_def
        sorted_list_of_fset.rep_eq participant_eligible_def)
  show ?thesis
    unfolding OrderedParticipants_eq elig by (simp add: DeterministicallyOrderParticipants_eq)
qed

lemma sample_block_applied:
  "ApplyHeader sample_crypto sample_snapshot 1 sample_rules sample_block =
     Inr (newRegistrySnapshot sample_crypto 5 (Header_Hash sample_crypto sample_block) sample_after)"
proof -
  have turn: "MarkProducerHeartbeat (sample_bootstrap 4) 3 5 = Inr (sample_bootstrap 5)"
    by (simp add: MarkProducerHeartbeat_def sample_bootstrap_def zeroParticipant_def)
  have ops: "ApplyOperation sample_crypto chainID 5 1 (sample_operation 4 1) (sample_bootstrap 5) = Inr sample_after" for chainID
    unfolding ApplyOperation_def
    by (simp add: sample_valid, simp add: sample_bootstrap_def sample_operation_def sample_after_def RegistryActionRegister_def)
  have h: "h_Number sample_block = Some 5" "h_ParentHash sample_block = 11" "h_Coinbase sample_block = 3"
    by (simp_all add: sample_block_def sample_header_def)
  have s: "rs_Number sample_snapshot = 4" "rs_Hash sample_snapshot = 11"
    by (simp_all add: sample_snapshot_def newRegistrySnapshot_def)
  have n: "big_Uint64 5 = 5" by (simp add: big_Uint64_def)
  have "finish_snapshot sample_crypto 1 sample_rules sample_block 5 sample_envelope (sample_bootstrap 5) =
      Inr (newRegistrySnapshot sample_crypto 5 (Header_Hash sample_crypto sample_block) sample_after)"
    by (simp add: finish_snapshot_def apply_operations_def sample_rules_def sample_envelope_def ops)
  then show ?thesis
    unfolding ApplyHeader_def ApplyHeaderWithOpenActivation_def applyHeaderWithOpenActivation_def
      sample_snapshot_registry h s n
    using sample_block_valid [of 1] sample_queue turn
    by (simp add: n s h sample_rules_def IsAuthorAllowed_def missed_turns_def)
qed

text \<open>A second block, in which open activation recovers the producer in the kept registry and participant 4 sends a heartbeat.\<close>

definition sample_next_registry :: CanonicalRegistry where
  "sample_next_registry = fmupd 4 (zeroParticipant\<lparr>cp_Address := 4, cp_RegisteredAt := 5, cp_LastHeartbeat := 6,
     cp_Sequence := 2, cp_Active := True\<rparr>) (sample_bootstrap 6)"

definition sample_next_envelope :: RegistryHeaderEnvelope where
  "sample_next_envelope = \<lparr>env_Version = RegistryHeaderEnvelopeVersion, env_BlockNumber = 6,
     env_RegistryRoot = Root sample_crypto sample_next_registry, env_Operations = [sample_operation 4 2]\<rparr>"

definition sample_next_block :: Header where
  "sample_next_block = (sample_header 3 6 (envelope_extra sample_next_envelope (sample_signature 3)))
     \<lparr>h_ParentHash := Header_Hash sample_crypto sample_block\<rparr>"

lemma sample_next_decodes: "DecodeRegistryHeaderExtra (h_Extra sample_next_block) = Inr sample_next_envelope"
proof -
  have "vsize (envelope_val sample_next_envelope) \<le> 300"
    by (simp add: envelope_val_def sample_next_envelope_def operation_val_def sample_operation_def)
  then have "length (rlp_bytes (envelope_val sample_next_envelope)) \<le> 300" by (rule length_rlp_bound) simp
  moreover have "length registryHeaderMagic \<le> 100" by (simp add: registryHeaderMagic_def ascii_def)
  ultimately have "length (envelope_extra sample_next_envelope (sample_signature 3)) \<le> MaxRegistryHeaderExtraSize"
    by (simp add: envelope_extra_def MaxRegistryHeaderExtraSize_def)
  moreover have "envelope_ok sample_next_envelope"
    by (simp add: envelope_ok_def sample_next_envelope_def CanonicalRegistryOperations_def validateRegistryHeaderOperations_def
        MaxRegistryOperationsPerBlock_def sample_operation_def SignatureLength_def RegistryProtocolVersion_def
        RegistryActionRegister_def RegistryActionExit_def)
  moreover have "h_Extra sample_next_block = envelope_extra sample_next_envelope (sample_signature 3)"
    by (simp add: sample_next_block_def sample_header_def)
  ultimately show ?thesis
    using length_sample_signature [of 3] unfolding DecodeRegistryHeaderExtra_iff ProducerSealLength_eq by metis
qed

lemma sample_next_valid:
  "ValidateRegistryOperation sample_crypto chainID 6 1 (sample_operation 4 2) = None"
  "ValidateRegistryHeaderExtra sample_crypto chainID 6 1 (h_Extra sample_next_block) = Inr sample_next_envelope"
proof -
  show v: "ValidateRegistryOperation sample_crypto chainID 6 1 (sample_operation 4 2) = None"
    unfolding ValidateRegistryOperation_def
    by (simp add: sample_light_hash sample_signer, simp add: sample_operation_def RegistryProtocolVersion_def
        RegistryActionRegister_def RegistryActionExit_def checkedRegistryBlockAdd_eq MaxRegistryOperationLifetime_def)
  show "ValidateRegistryHeaderExtra sample_crypto chainID 6 1 (h_Extra sample_next_block) = Inr sample_next_envelope"
    by (simp add: ValidateRegistryHeaderExtra_def sample_next_decodes, simp add: sample_next_envelope_def v)
qed

lemma sample_after_wf: "registry_wf sample_after"
  by (auto simp: registry_wf_def sample_after_def sample_bootstrap_def)

lemma sample_Header_Hash_nonzero [simp]: "Header_Hash sample_crypto h \<noteq> 0"
  by (simp add: Header_Hash_def)

lemma sample_next_applied:
  "applyHeaderWithOpenActivation sample_crypto
     (newRegistrySnapshot sample_crypto 5 (Header_Hash sample_crypto sample_block) sample_after) 1 sample_rules sample_next_block True True
   = Inr (newRegistrySnapshot sample_crypto 6 (Header_Hash sample_crypto sample_next_block) sample_next_registry)"
proof -
  let ?s = "newRegistrySnapshot sample_crypto 5 (Header_Hash sample_crypto sample_block) sample_after"
  let ?r = "fmupd 3 (zeroParticipant\<lparr>cp_Address := 3, cp_LastHeartbeat := 6, cp_Active := True\<rparr>) sample_after"
  have r: "Snapshot_Registry sample_crypto ?s = Inr sample_after"
    by (rule Snapshot_Registry_new [OF sample_after_wf]) simp_all
  have h: "h_Number sample_next_block = Some 6" "h_ParentHash sample_next_block = rs_Hash ?s" "h_Coinbase sample_next_block = 3"
    "rs_Number ?s = 5" "big_Uint64 6 = 6" "sr_ProofDifficulty sample_rules = 1"
    by (simp_all add: sample_next_block_def sample_header_def newRegistrySnapshot_def big_Uint64_def sample_rules_def)
  have rec: "RecoverPermissionlessProducer sample_after 3 6 = Inr ?r"
    by (simp add: RecoverPermissionlessProducer_def sample_after_def sample_bootstrap_def zeroParticipant_def)
  have "fmupd 4 (zeroParticipant\<lparr>cp_Address := 4, cp_RegisteredAt := 5, cp_LastHeartbeat := 6, cp_Sequence := 2, cp_Active := True\<rparr>) ?r
      = sample_next_registry"
    by (rule fmap_ext) (simp add: sample_after_def sample_next_registry_def sample_bootstrap_def)
  then have ops: "ApplyOperation sample_crypto chainID 6 1 (sample_operation 4 2) ?r = Inr sample_next_registry" for chainID
    unfolding ApplyOperation_def
    by (simp add: sample_next_valid, simp add: sample_operation_def sample_after_def RegistryActionRegister_def RegistryActionHeartbeat_def
        zeroParticipant_def)
  have "finish_snapshot sample_crypto 1 sample_rules sample_next_block 6 sample_next_envelope ?r =
      Inr (newRegistrySnapshot sample_crypto 6 (Header_Hash sample_crypto sample_next_block) sample_next_registry)"
    by (simp add: finish_snapshot_def apply_operations_def h sample_next_envelope_def ops)
  then show ?thesis
    unfolding applyHeaderWithOpenActivation_def r h using sample_next_valid(2) [of 1] rec by (simp add: h)
qed



text \<open>Claim C17: a snapshot that is stored is loaded back unchanged and no other stored snapshot changes; whatever bytes the
  database holds, a load either fails or returns the snapshot of a well-formed registry, in its one encoding.\<close>

theorem snapshot_store_load:
  shows "(StoreRegistrySnapshot cr db s = Inr db' \<longrightarrow> length (rs_Participants s) < 2 ^ 57 \<longrightarrow>
      LoadRegistrySnapshot cr db' (rs_Hash s) = Inr s)
    \<and> (StoreRegistrySnapshot cr db s = Inr db' \<longrightarrow> length (rs_Participants s) < 2 ^ 57 \<longrightarrow> h \<noteq> rs_Hash s \<longrightarrow>
      LoadRegistrySnapshot cr db' h = LoadRegistrySnapshot cr db h)
    \<and> (LoadRegistrySnapshot cr db h = Inr s \<longrightarrow> (\<exists>r. registry_wf r \<and> s = newRegistrySnapshot cr (rs_Number s) h r
      \<and> fmlookup db (registrySnapshotKey h) = Some (EncodeToBytes (snapshot_val s))))"
  using Load_Store [of cr db s db'] Load_sound [of cr db h s] by blast

theorem snapshot_store_load_witness:
  "\<exists>db'. StoreRegistrySnapshot sample_crypto fmempty sample_snapshot = Inr db'
     \<and> LoadRegistrySnapshot sample_crypto db' 11 = Inr sample_snapshot
     \<and> LoadRegistrySnapshot sample_crypto db' 12 = Inl ErrInvalidRegistrySnapshot"
proof -
  obtain db' where db: "StoreRegistrySnapshot sample_crypto fmempty sample_snapshot = Inr db'"
    by (simp add: StoreRegistrySnapshot_def sample_snapshot_registry)
  have n: "length (rs_Participants sample_snapshot) < 2 ^ 57" and h: "rs_Hash sample_snapshot = 11"
    by (simp_all add: sample_snapshot_def newRegistrySnapshot_def length_Participants sample_bootstrap_def fmkeys_def
        sorted_list_of_fset.rep_eq)
  have e: "LoadRegistrySnapshot sample_crypto fmempty 12 = Inl ErrInvalidRegistrySnapshot"
    by (simp add: LoadRegistrySnapshot_def)
  show ?thesis
    using db n snapshot_store_load [of sample_crypto fmempty sample_snapshot db' 12] e by (simp add: h)
qed



text \<open>Claim C16: an eligible producer is never blocked by the turn accounting. When the next header has the right number and parent and a
  valid extra, and its coinbase is in the queue of the parent registry, charging the producers before it and
  recording its turn always succeed and leave every membership, activity, registration block and sequence as it was;
  only the operations and the stated root decide.\<close>

theorem eligible_producer_progress:
  assumes "Snapshot_Registry cr s = Inr r" and "h_Number header = Some number"
    and "rs_Number s \<noteq> maxU64" and "big_Uint64 number = rs_Number s + 1"
    and "h_ParentHash header = rs_Hash s" and "sr_ProofDifficulty rules \<noteq> 0"
    and "ValidateRegistryHeaderExtra cr chainID (big_Uint64 number) (sr_ProofDifficulty rules) (h_Extra header) = Inr env"
    and "h_Coinbase header \<noteq> 0"
    and "h_Coinbase header \<in> hp_Address ` set (OrderedParticipantsForBlock cr r (h_ParentHash header) (big_Uint64 number)
      (sr_ActivationDelay rules) (sr_HeartbeatWindow rules) (sr_HeartbeatGrace rules))"
  shows "\<exists>r1. registry_wf r1 \<and> registry_sim r r1 \<and> ApplyHeader cr s chainID rules header =
     (case apply_operations cr chainID (big_Uint64 number) (sr_ProofDifficulty rules) (env_Operations env) r1 of
        Inl err \<Rightarrow> Inl err
      | Inr r2 \<Rightarrow> if Root cr r2 \<noteq> env_RegistryRoot env then Inl ErrRegistryRootMismatch
          else Inr (newRegistrySnapshot cr (big_Uint64 number) (Header_Hash cr header) r2))"
  using applyHeader_turns [OF assms(1-8)] assms(9) unfolding finish_snapshot_def block_queue_def by blast

theorem eligible_producer_progress_witness:
  "\<exists>r1. registry_wf r1 \<and> registry_sim (sample_bootstrap 4) r1 \<and>
     ApplyHeader sample_crypto sample_snapshot 1 sample_rules sample_block =
     (case apply_operations sample_crypto 1 5 1 (env_Operations sample_envelope) r1 of
        Inl err \<Rightarrow> Inl err
      | Inr r2 \<Rightarrow> if Root sample_crypto r2 \<noteq> env_RegistryRoot sample_envelope then Inl ErrRegistryRootMismatch
          else Inr (newRegistrySnapshot sample_crypto (big_Uint64 5) (Header_Hash sample_crypto sample_block) r2))"
proof -
  have h: "h_Number sample_block = Some 5" "h_ParentHash sample_block = 11" "h_Coinbase sample_block = 3"
      "rs_Number sample_snapshot = 4" "rs_Hash sample_snapshot = 11" "big_Uint64 5 = 5"
      "sr_ProofDifficulty sample_rules = 1" "sr_ActivationDelay sample_rules = 0"
      "sr_HeartbeatWindow sample_rules = 64" "sr_HeartbeatGrace sample_rules = 16"
    by (simp_all add: sample_block_def sample_header_def sample_snapshot_def newRegistrySnapshot_def big_Uint64_def
        sample_rules_def)
  show ?thesis
    using eligible_producer_progress [OF sample_snapshot_registry h(1), of sample_rules 1 sample_envelope]
      sample_block_valid [of 1] sample_queue by (simp add: h queue_candidate_def)
qed

end
