(* ===== verification/Registry_Pool.thy ===== *)
theory Registry_Pool
  imports Registry_Header
begin

text \<open>
  The relay pool of signed registry operations (\<open>consensus/lqc/registry_pool.go\<close>). Two indices are kept, by
  operation hash and by participant; the abstract state of the pool is the single pending operation of
  each participant.
\<close>

section \<open>The pool\<close>

record RegistryOperationPool =
  byHash :: "(hash, RegistryOperation) fmap"
  byAddress :: "(address, hash) fmap"

record RegistryPoolStatus =
  st_Pending :: nat
  st_Capacity :: nat

definition MaxRegistryPoolOperations :: nat where
  "MaxRegistryPoolOperations = 4096"

definition NewRegistryOperationPool :: RegistryOperationPool where
  "NewRegistryOperationPool = \<lparr>byHash = fmempty, byAddress = fmempty\<rparr>"

definition RegistryOperationHash :: "crypto \<Rightarrow> nat \<Rightarrow> RegistryOperation \<Rightarrow> hash" where
  "RegistryOperationHash cr chainID operation = RegistryOperationSigningHash cr chainID operation"

definition pool_insert :: "hash \<Rightarrow> RegistryOperation \<Rightarrow> RegistryOperationPool \<Rightarrow> RegistryOperationPool" where
  "pool_insert h operation p = p\<lparr>byHash := fmupd h operation (byHash p),
     byAddress := fmupd (op_Address operation) h (byAddress p)\<rparr>"

text \<open>A dangling index would read Go's zero operation; its sequence is 0.\<close>

definition pool_sequence :: "RegistryOperationPool \<Rightarrow> hash \<Rightarrow> u64" where
  "pool_sequence p h = (case fmlookup (byHash p) h of None \<Rightarrow> 0 | Some operation \<Rightarrow> op_Sequence operation)"

definition Pool_Add ::
  "crypto \<Rightarrow> nat \<Rightarrow> RegistryOperation \<Rightarrow> RegistryOperationPool
    \<Rightarrow> (hash \<times> registry_error option) \<times> RegistryOperationPool" where
  "Pool_Add cr chainID operation p = (let h = RegistryOperationHash cr chainID operation in
     if fmlookup (byHash p) h \<noteq> None then ((h, Some ErrRegistryOperationKnown), p)
     else case fmlookup (byAddress p) (op_Address operation) of
       Some previousHash \<Rightarrow>
         if op_Sequence operation \<le> pool_sequence p previousHash
         then ((0, Some ErrRegistryOperationPending), p)
         else ((h, None), pool_insert h operation (p\<lparr>byHash := fmdrop previousHash (byHash p)\<rparr>))
     | None \<Rightarrow>
         if length (fmkeys (byHash p)) \<ge> MaxRegistryPoolOperations
         then ((0, Some ErrRegistryPoolFull), p)
         else ((h, None), pool_insert h operation p))"

definition Pool_Has :: "RegistryOperationPool \<Rightarrow> hash \<Rightarrow> bool" where
  "Pool_Has p h \<longleftrightarrow> fmlookup (byHash p) h \<noteq> None"

definition Pool_Pending :: "RegistryOperationPool \<Rightarrow> u64 \<Rightarrow> RegistryOperation list" where
  "Pool_Pending p blockNumber =
     CanonicalRegistryOperations (filter (\<lambda>operation. op_ValidUntil operation \<ge> blockNumber) (fmvals (byHash p)))"

definition prune_step :: "u64 \<Rightarrow> hash \<Rightarrow> RegistryOperationPool \<Rightarrow> RegistryOperationPool" where
  "prune_step blockNumber h p = (case fmlookup (byHash p) h of
      None \<Rightarrow> p
    | Some operation \<Rightarrow>
        if op_ValidUntil operation < blockNumber
        then p\<lparr>byHash := fmdrop h (byHash p), byAddress := fmdrop (op_Address operation) (byAddress p)\<rparr>
        else p)"

definition Pool_PruneExpired :: "u64 \<Rightarrow> RegistryOperationPool \<Rightarrow> RegistryOperationPool" where
  "Pool_PruneExpired blockNumber p = fold (prune_step blockNumber) (fmkeys (byHash p)) p"

definition Pool_Status :: "RegistryOperationPool \<Rightarrow> RegistryPoolStatus" where
  "Pool_Status p = \<lparr>st_Pending = length (fmkeys (byHash p)), st_Capacity = MaxRegistryPoolOperations\<rparr>"

section \<open>The pending operation of a participant\<close>

text \<open>The two indices agree, and the pool is within its capacity.\<close>

definition pool_inv :: "RegistryOperationPool \<Rightarrow> bool" where
  "pool_inv p \<longleftrightarrow>
     (\<forall>h operation. fmlookup (byHash p) h = Some operation \<longrightarrow> fmlookup (byAddress p) (op_Address operation) = Some h)
   \<and> (\<forall>a h. fmlookup (byAddress p) a = Some h \<longrightarrow> (\<exists>operation. fmlookup (byHash p) h = Some operation \<and> op_Address operation = a))
   \<and> length (fmkeys (byHash p)) \<le> MaxRegistryPoolOperations"

definition pool_of :: "RegistryOperationPool \<Rightarrow> address \<Rightarrow> RegistryOperation option" where
  "pool_of p a = Option.bind (fmlookup (byAddress p) a) (fmlookup (byHash p))"

lemma length_fmkeys: "length (fmkeys m) = card (fmdom' m)"
  by (metis distinct_card distinct_fmkeys fmdom'_alt_def set_fmkeys)

lemma fmdrop_None: "fmlookup m k = None \<Longrightarrow> fmdrop k m = m"
  by (rule fmap_ext) auto

lemma pool_invD:
  assumes "pool_inv p"
  shows "fmlookup (byHash p) h = Some x \<Longrightarrow> fmlookup (byAddress p) (op_Address x) = Some h"
    and "fmlookup (byAddress p) a = Some h \<Longrightarrow> \<exists>x. fmlookup (byHash p) h = Some x \<and> op_Address x = a"
    and "card (fmdom' (byHash p)) \<le> MaxRegistryPoolOperations"
  using assms by (simp_all add: pool_inv_def length_fmkeys)

lemma pool_of_Some:
  assumes "pool_inv p"
  shows "pool_of p a = Some x \<longleftrightarrow> op_Address x = a \<and> (\<exists>h. fmlookup (byHash p) h = Some x)"
  using pool_invD [OF assms] by (fastforce simp: pool_of_def bind_eq_Some_conv)

lemma pool_inv_new: "pool_inv NewRegistryOperationPool"
  by (simp add: pool_inv_def NewRegistryOperationPool_def length_fmkeys)

text \<open>Inserting an operation under a fresh hash, after the previous one of its participant has gone.\<close>

lemma pool_inv_insert:
  assumes "pool_inv p" and "fmlookup (byHash p) h = None"
    and "fmlookup (byAddress p) (op_Address x) = Some k
      \<or> fmlookup (byAddress p) (op_Address x) = None \<and> fmlookup (byHash p) k = None
        \<and> card (fmdom' (byHash p)) < MaxRegistryPoolOperations"
  shows "pool_inv (pool_insert h x (p\<lparr>byHash := fmdrop k (byHash p)\<rparr>))"
    and "pool_of (pool_insert h x (p\<lparr>byHash := fmdrop k (byHash p)\<rparr>)) = (pool_of p)(op_Address x \<mapsto> x)"
proof -
  let ?p = "pool_insert h x (p\<lparr>byHash := fmdrop k (byHash p)\<rparr>)"
  note inv = pool_invD [OF assms(1)]
  have k: "op_Address y = op_Address x" if "fmlookup (byHash p) k = Some y" for y
    using that inv assms(3) by fastforce
  have other: "fmlookup (byHash p) j = Some y \<Longrightarrow> j \<noteq> k \<Longrightarrow> op_Address y \<noteq> op_Address x" for j y
    using inv(1) [of j y] assms(3) by auto
  have "card (fmdom' (byHash ?p)) = Suc (card (fmdom' (byHash p) - {k}))"
    using assms(2) by (simp add: pool_insert_def fmdom'_notI)
  moreover have "k \<in> fmdom' (byHash p) \<or> card (fmdom' (byHash p)) < MaxRegistryPoolOperations"
    using assms(3) inv(2) by (auto simp: fmlookup_dom'_iff)
  ultimately have "card (fmdom' (byHash ?p)) \<le> MaxRegistryPoolOperations"
    using inv(3) card_Suc_Diff1 [of "fmdom' (byHash p)" k] card_Diff1_le [of "fmdom' (byHash p)" k] by force
  moreover have "fmlookup (byAddress ?p) (op_Address y) = Some j" if "fmlookup (byHash ?p) j = Some y" for j y
    using that inv(1) [of j y] other [of j y] by (auto simp: pool_insert_def split: if_splits)
  moreover have "\<exists>y. fmlookup (byHash ?p) j = Some y \<and> op_Address y = a" if j: "fmlookup (byAddress ?p) a = Some j" for a j
  proof (cases "a = op_Address x")
    case True
    then show ?thesis using j by (simp add: pool_insert_def)
  next
    case False
    then obtain y where "fmlookup (byHash p) j = Some y" "op_Address y = a"
      using j inv(2) [of a j] by (auto simp: pool_insert_def)
    then show ?thesis using False k assms(2) by (auto simp: pool_insert_def)
  qed
  ultimately show "pool_inv ?p" unfolding pool_inv_def length_fmkeys by blast
  have "pool_of ?p a = ((pool_of p)(op_Address x \<mapsto> x)) a" for a
  proof (cases "a = op_Address x \<or> fmlookup (byAddress p) a = None")
    case True
    then show ?thesis by (auto simp: pool_insert_def pool_of_def)
  next
    case False
    then obtain j y where "fmlookup (byAddress p) a = Some j" "fmlookup (byHash p) j = Some y" "op_Address y = a"
      using inv(2) by blast
    then show ?thesis using False k assms(2) by (auto simp: pool_insert_def pool_of_def)
  qed
  then show "pool_of ?p = (pool_of p)(op_Address x \<mapsto> x)" by blast
qed

text \<open>Adding refines the update of the participant's pending operation; a refused operation changes nothing.\<close>

lemma Pool_Add_refines:
  assumes "pool_inv p" and "Pool_Add cr chainID x p = ((h, None), p')"
  shows "pool_inv p'" and "pool_of p' = (pool_of p)(op_Address x \<mapsto> x)"
    and "h = RegistryOperationHash cr chainID x" and "Pool_Has p' h"
    and "pool_of p (op_Address x) = Some y \<Longrightarrow> op_Sequence y < op_Sequence x"
proof -
  obtain k where k: "fmlookup (byHash p) h = None" "h = RegistryOperationHash cr chainID x"
    "fmlookup (byAddress p) (op_Address x) = Some k \<and> pool_sequence p k < op_Sequence x
      \<or> fmlookup (byAddress p) (op_Address x) = None \<and> fmlookup (byHash p) k = None
        \<and> card (fmdom' (byHash p)) < MaxRegistryPoolOperations"
    "p' = pool_insert h x (p\<lparr>byHash := fmdrop k (byHash p)\<rparr>)"
  proof (cases "fmlookup (byAddress p) (op_Address x)")
    case None
    then show ?thesis
      using assms(2) by (intro that [of h])
        (auto simp: Pool_Add_def Let_def length_fmkeys pool_insert_def fmdrop_None split: if_splits)
  next
    case (Some k)
    then show ?thesis
      using assms(2) by (intro that [of k]) (auto simp: Pool_Add_def Let_def split: if_splits)
  qed
  show "pool_inv p'" "pool_of p' = (pool_of p)(op_Address x \<mapsto> x)"
    unfolding k(4) by (rule pool_inv_insert [OF assms(1) k(1)]; use k(3) in blast)+
  show "h = RegistryOperationHash cr chainID x" by (rule k(2))
  show "Pool_Has p' h" by (simp add: k(4) Pool_Has_def pool_insert_def)
  show "pool_of p (op_Address x) = Some y \<Longrightarrow> op_Sequence y < op_Sequence x"
    using k(3) by (auto simp: pool_of_def pool_sequence_def bind_eq_Some_conv)
qed

lemma Pool_Add_refused:
  assumes "pool_inv p" and "Pool_Add cr chainID x p = ((h, Some e), p')"
  shows "p' = p" and "e = ErrRegistryOperationKnown \<and> Pool_Has p (RegistryOperationHash cr chainID x)
    \<or> e = ErrRegistryOperationPending \<and> (\<exists>y. pool_of p (op_Address x) = Some y \<and> op_Sequence x \<le> op_Sequence y)
    \<or> e = ErrRegistryPoolFull \<and> pool_of p (op_Address x) = None
      \<and> st_Pending (Pool_Status p) = MaxRegistryPoolOperations"
  using assms(2) pool_invD(2,3) [OF assms(1)]
  by (fastforce simp: Pool_Add_def Let_def Pool_Has_def pool_of_def pool_sequence_def Pool_Status_def length_fmkeys
      split: if_splits option.splits)+

lemma prune_step_lookup:
  "fmlookup (byHash (prune_step n h p)) k = (case fmlookup (byHash p) k of
     Some x \<Rightarrow> if op_ValidUntil x < n \<and> k = h then None else Some x | None \<Rightarrow> None)"
  by (auto simp: prune_step_def split: option.splits)

lemma prune_step_inv:
  assumes "pool_inv p"
  shows "pool_inv (prune_step n h p)"
proof (cases "\<exists>x. fmlookup (byHash p) h = Some x \<and> op_ValidUntil x < n")
  case True
  then obtain x where x: "fmlookup (byHash p) h = Some x" "op_ValidUntil x < n" by blast
  let ?p = "p\<lparr>byHash := fmdrop h (byHash p), byAddress := fmdrop (op_Address x) (byAddress p)\<rparr>"
  note inv = pool_invD [OF assms]
  have "op_Address y \<noteq> op_Address x" if "fmlookup (byHash p) k = Some y" "k \<noteq> h" for k y
    using inv(1) [OF that(1)] inv(1) [OF x(1)] that(2) by auto
  then have "\<forall>k y. fmlookup (byHash ?p) k = Some y \<longrightarrow> fmlookup (byAddress ?p) (op_Address y) = Some k"
    using inv(1) by auto
  moreover have "\<exists>y. fmlookup (byHash ?p) k = Some y \<and> op_Address y = a" if "fmlookup (byAddress ?p) a = Some k" for a k
    using inv(2) [of a k] x(1) that by (auto split: if_splits)
  moreover have "card (fmdom' (byHash ?p)) \<le> MaxRegistryPoolOperations"
    using inv(3) card_Diff1_le [of "fmdom' (byHash p)" h] by simp
  ultimately have "pool_inv ?p" unfolding pool_inv_def length_fmkeys by blast
  then show ?thesis using x by (simp add: prune_step_def)
next
  case False
  then show ?thesis using assms by (auto simp: prune_step_def split: option.splits)
qed

lemma fold_prune_step:
  assumes "pool_inv p"
  shows "pool_inv (fold (prune_step n) hs p)"
    and "fmlookup (byHash (fold (prune_step n) hs p)) k = (case fmlookup (byHash p) k of
       Some x \<Rightarrow> if op_ValidUntil x < n \<and> k \<in> set hs then None else Some x | None \<Rightarrow> None)"
  using assms
  by (induction hs arbitrary: p) (auto simp: prune_step_inv prune_step_lookup split: option.splits)

text \<open>Pruning keeps exactly the operations that have not expired, in whatever order the entries are visited.\<close>

lemma Pool_PruneExpired_inv: "pool_inv p \<Longrightarrow> pool_inv (Pool_PruneExpired n p)"
  by (simp add: Pool_PruneExpired_def fold_prune_step)

lemma Pool_PruneExpired_lookup:
  "pool_inv p \<Longrightarrow> fmlookup (byHash (Pool_PruneExpired n p)) k = Some x \<longleftrightarrow>
     fmlookup (byHash p) k = Some x \<and> n \<le> op_ValidUntil x"
  by (auto simp: Pool_PruneExpired_def fold_prune_step(2) fmlookup_dom_iff split: option.splits)

lemma Pool_PruneExpired_refines:
  assumes "pool_inv p"
  shows "pool_of (Pool_PruneExpired n p) a = (case pool_of p a of
     Some x \<Rightarrow> if n \<le> op_ValidUntil x then Some x else None | None \<Rightarrow> None)"
proof -
  have iff: "pool_of (Pool_PruneExpired n p) a = Some x \<longleftrightarrow> pool_of p a = Some x \<and> n \<le> op_ValidUntil x" for x
    using assms by (auto simp: pool_of_Some Pool_PruneExpired_inv Pool_PruneExpired_lookup)
  show ?thesis
  proof (cases "pool_of (Pool_PruneExpired n p) a")
    case None
    then have "\<not> (pool_of p a = Some x \<and> n \<le> op_ValidUntil x)" for x using iff [of x] by simp
    then show ?thesis using None by (cases "pool_of p a") auto
  next
    case (Some x)
    then show ?thesis using iff [of x] by simp
  qed
qed

text \<open>What a producer reads: the live operations in canonical order, at most one per participant.\<close>

lemma Pool_Pending_set:
  "x \<in> set (Pool_Pending p n) \<longleftrightarrow> n \<le> op_ValidUntil x \<and> (\<exists>h. fmlookup (byHash p) h = Some x)"
  by (auto simp: Pool_Pending_def CanonicalRegistryOperations_def mem_fmvals)

lemma Pool_Pending_distinct:
  assumes "pool_inv p"
  shows "distinct (map op_Address (Pool_Pending p n))"
proof -
  have "inj_on (\<lambda>k. op_Address (the (fmlookup (byHash p) k))) (set (fmkeys (byHash p)))"
    using pool_invD(1) [OF assms] by (intro inj_onI) (auto simp: fmlookup_dom_iff, metis option.inject)
  then have "distinct (map op_Address (fmvals (byHash p)))"
    by (simp add: fmvals_def comp_def distinct_map)
  then show ?thesis
    by (simp add: Pool_Pending_def CanonicalRegistryOperations_def distinct_sort_key_map distinct_map_filter)
qed

section \<open>Runs of the pool\<close>

datatype pool_call = CallAdd RegistryOperation | CallPrune u64

definition pool_run :: "crypto \<Rightarrow> nat \<Rightarrow> pool_call list \<Rightarrow> RegistryOperationPool \<Rightarrow> RegistryOperationPool" where
  "pool_run cr chainID = fold (\<lambda>c p. case c of CallAdd x \<Rightarrow> snd (Pool_Add cr chainID x p) | CallPrune n \<Rightarrow> Pool_PruneExpired n p)"

lemma Pool_Add_inv: "pool_inv p \<Longrightarrow> pool_inv (snd (Pool_Add cr chainID x p))"
proof -
  assume p: "pool_inv p"
  obtain h e p' where "Pool_Add cr chainID x p = ((h, e), p')" by (metis prod.collapse)
  then show ?thesis
    by (cases e) (metis Pool_Add_refines(1) [OF p] snd_conv, metis Pool_Add_refused(1) [OF p] p snd_conv)
qed

lemma pool_run_inv: "pool_inv p \<Longrightarrow> pool_inv (pool_run cr chainID cs p)"
  unfolding pool_run_def
  by (induction cs arbitrary: p) (auto simp: Pool_Add_inv Pool_PruneExpired_inv split: pool_call.split)

section \<open>Properties\<close>

text \<open>Claim C32: the pool implements a map from participants to their single pending operation. Adding an operation either
  succeeds and replaces the participant's entry by the newer one (its sequence is above the previous), or
  refuses it for one of three stated reasons and changes nothing.\<close>

theorem pool_add_refines:
  assumes "pool_inv p" and "Pool_Add cr chainID x p = ((h, err), p')"
  shows "pool_inv p'
    \<and> pool_of p' = (if err = None then (pool_of p)(op_Address x \<mapsto> x) else pool_of p)
    \<and> (err = None \<longrightarrow> h = RegistryOperationHash cr chainID x \<and> Pool_Has p' h
      \<and> (\<forall>y. pool_of p (op_Address x) = Some y \<longrightarrow> op_Sequence y < op_Sequence x))
    \<and> (err = Some e \<longrightarrow> e = ErrRegistryOperationKnown \<and> Pool_Has p (RegistryOperationHash cr chainID x)
      \<or> e = ErrRegistryOperationPending \<and> (\<exists>y. pool_of p (op_Address x) = Some y \<and> op_Sequence x \<le> op_Sequence y)
      \<or> e = ErrRegistryPoolFull \<and> pool_of p (op_Address x) = None
        \<and> st_Pending (Pool_Status p) = MaxRegistryPoolOperations)"
proof -
  note ok = Pool_Add_refines [OF assms(1)] and bad = Pool_Add_refused [OF assms(1)]
  have c1: "pool_inv p'" using Pool_Add_inv [OF assms(1), of cr chainID x] assms(2) by simp
  have c2: "pool_of p' = (if err = None then (pool_of p)(op_Address x \<mapsto> x) else pool_of p)"
    using assms(2) ok(2) [of cr chainID x h p'] bad(1) [of cr chainID x h _ p'] by (cases err) auto
  have c3: "err = None \<Longrightarrow> h = RegistryOperationHash cr chainID x \<and> Pool_Has p' h
      \<and> (\<forall>y. pool_of p (op_Address x) = Some y \<longrightarrow> op_Sequence y < op_Sequence x)"
    using assms(2) ok(3,4,5) by blast
  have c4: "err = Some e \<Longrightarrow> e = ErrRegistryOperationKnown \<and> Pool_Has p (RegistryOperationHash cr chainID x)
      \<or> e = ErrRegistryOperationPending \<and> (\<exists>y. pool_of p (op_Address x) = Some y \<and> op_Sequence x \<le> op_Sequence y)
      \<or> e = ErrRegistryPoolFull \<and> pool_of p (op_Address x) = None
        \<and> st_Pending (Pool_Status p) = MaxRegistryPoolOperations"
    using bad(2) [of cr chainID x h e p'] assms(2) by simp
  from c1 c2 c3 c4 show ?thesis by blast
qed

theorem pool_add_refines_witness:
  "pool_of (snd (Pool_Add sample_crypto 1 (sample_operation 3 1) NewRegistryOperationPool)) 3 = Some (sample_operation 3 1)"
proof -
  let ?h = "RegistryOperationHash sample_crypto 1 (sample_operation 3 1)"
  have "Pool_Add sample_crypto 1 (sample_operation 3 1) NewRegistryOperationPool =
      ((?h, None), pool_insert ?h (sample_operation 3 1) NewRegistryOperationPool)"
    by (simp add: Pool_Add_def Let_def NewRegistryOperationPool_def MaxRegistryPoolOperations_def length_fmkeys)
  from pool_add_refines [OF pool_inv_new this] this show ?thesis by (simp add: sample_operation_def)
qed

text \<open>Claim C33: over any run of additions and prunings from the empty pool, the two indices agree, the pool holds at most 4096
  operations, and a producer that reads it sees the unexpired operations in canonical order, at most one for each
  participant; pruning removes exactly the expired ones.\<close>

theorem pool_run_pending:
  assumes "p = pool_run cr chainID calls NewRegistryOperationPool"
  shows "pool_inv p
    \<and> st_Pending (Pool_Status p) \<le> MaxRegistryPoolOperations
    \<and> distinct (map op_Address (Pool_Pending p n))
    \<and> Pool_Pending p n = CanonicalRegistryOperations (Pool_Pending p n)
    \<and> (x \<in> set (Pool_Pending p n) \<longleftrightarrow> pool_of p (op_Address x) = Some x \<and> n \<le> op_ValidUntil x)
    \<and> pool_of (Pool_PruneExpired n p) a =
      (case pool_of p a of Some y \<Rightarrow> if n \<le> op_ValidUntil y then Some y else None | None \<Rightarrow> None)"
proof -
  have inv: "pool_inv p" unfolding assms by (rule pool_run_inv [OF pool_inv_new])
  have c2: "st_Pending (Pool_Status p) \<le> MaxRegistryPoolOperations"
    using pool_invD(3) [OF inv] by (simp add: Pool_Status_def length_fmkeys)
  have c3: "distinct (map op_Address (Pool_Pending p n))" by (rule Pool_Pending_distinct [OF inv])
  have c4: "Pool_Pending p n = CanonicalRegistryOperations (Pool_Pending p n)" by (simp add: Pool_Pending_def)
  have c5: "x \<in> set (Pool_Pending p n) \<longleftrightarrow> pool_of p (op_Address x) = Some x \<and> n \<le> op_ValidUntil x"
    by (auto simp: Pool_Pending_set pool_of_Some [OF inv])
  have c6: "pool_of (Pool_PruneExpired n p) a =
      (case pool_of p a of Some y \<Rightarrow> if n \<le> op_ValidUntil y then Some y else None | None \<Rightarrow> None)"
    by (rule Pool_PruneExpired_refines [OF inv])
  from inv c2 c3 c4 c5 c6 show ?thesis by blast
qed

theorem pool_run_pending_witness:
  "pool_inv (pool_run sample_crypto 1 [CallAdd (sample_operation 3 1), CallPrune 21, CallAdd (sample_operation 3 2)]
     NewRegistryOperationPool)"
  by (rule pool_run_pending [OF refl, THEN conjunct1])

end
