(* ===== verification/Work_Protocol.thy ===== *)
theory Work_Protocol
  imports Registry_Header
begin

text \<open>
  Work seats and work epochs (\<open>consensus/lqc/work_protocol_v1.go\<close>, \<open>work_protocol_v1_epoch.go\<close>,
  \<open>work_protocol_v1_difficulty.go\<close>): tickets, the canonical seat set, the reward split over seats, the epoch
  schedule, the epoch commitment and the difficulty retarget. A nil \<open>*big.Int\<close> is \<^const>\<open>None\<close>.
\<close>

section \<open>Tickets and seats\<close>

datatype work_error =
    ErrInvalidRandomXWorkTicket
  | ErrDuplicateRandomXWorkHash
  | ErrDuplicateWorkParticipantV1
  | ErrWorkParticipantAlreadySeatedV1
  | ErrInvalidWorkSeat
  | ErrInvalidWorkSeatReward
  | ErrInvalidWorkEpochV1
  | ErrInvalidWorkEpochLengthV1
  | ErrInvalidWorkEpochRootV1
  | ErrInvalidWorkDifficultyV1
  | ErrInvalidRandomXWorkChainID
  | ErrInvalidRandomXWorkAnchor
  | ErrInvalidRandomXWorkSignature
  | ErrInvalidRandomXWorkDifficulty
  | ErrRandomXWorkTargetNotMet
  | ErrInvalidWorkAnchorScheduleV1
  | ErrInvalidWorkCommitV1
  | ErrWorkCommitWindowOverflowV1
  | ErrInvalidWorkChainSnapshotV1
  | ErrWorkChainSnapshotMismatchV1
  | ErrUnexpectedWorkCommitV1
  | ErrWorkCommitEpochMismatchV1
  | ErrWorkCommitContextMismatchV1
  | ErrWorkSelectionSnapshotMissingV1
  | ErrInvalidWorkSelectionV1
  | ErrInvalidWorkSelectionEntropyV1
  | ErrDuplicateWorkSelectionEntropyProofV1
  | ErrInvalidWorkSelectionBeaconV1
  | ErrInvalidWorkDifficultyStateV1
  | ErrWorkDifficultyEpochUnavailableV1
  | ErrWorkDifficultyClosedEpochMismatchV1
  | ErrInvalidCanonicalWorkRuntimeStateV1
  | ErrWorkCommitPoolFullV1
  | ErrWorkCommitPoolUninitializedV1
  | ErrWorkCommitCandidateMismatchV1
  | ErrInvalidWorkTicketLimitV3
  | ErrTooManyWorkTicketsV3
  | ErrDuplicateWorkTicketV3
  | ErrNonCanonicalWorkTicketsV3

definition RandomXWorkProtocolVersion :: u8 where
  "RandomXWorkProtocolVersion = 2"

record RandomXWorkTicketV1 =
  tk_Version :: u8
  tk_Epoch :: u64
  tk_Participant :: address
  tk_Nonce :: u64

record VerifiedRandomXWorkTicketV1 =
  vt_Ticket :: RandomXWorkTicketV1
  vt_Hash :: hash

record WorkSeatV1 =
  ws_TicketHash :: hash
  ws_Participant :: address

record WorkSeatRewardV1 =
  wr_Address :: address
  wr_Amount :: u256

definition validateRandomXWorkTicketV1 :: "RandomXWorkTicketV1 \<Rightarrow> work_error option" where
  "validateRandomXWorkTicketV1 ticket =
     (if tk_Version ticket \<noteq> RandomXWorkProtocolVersion \<or> tk_Epoch ticket = 0 \<or> tk_Participant ticket = 0
      then Some ErrInvalidRandomXWorkTicket else None)"

text \<open>The maps of seen hashes and participants are the lists of the keys seen so far.\<close>

fun check_verified ::
  "hash list \<Rightarrow> address list \<Rightarrow> VerifiedRandomXWorkTicketV1 list \<Rightarrow> work_error option" where
  "check_verified seenHashes seenParticipants [] = None"
| "check_verified seenHashes seenParticipants (item # rest) =
     (case validateRandomXWorkTicketV1 (vt_Ticket item) of
        Some err \<Rightarrow> Some err
      | None \<Rightarrow>
          if vt_Hash item = 0 then Some ErrInvalidRandomXWorkTicket
          else if vt_Hash item \<in> set seenHashes then Some ErrDuplicateRandomXWorkHash
          else if tk_Participant (vt_Ticket item) \<in> set seenParticipants then Some ErrDuplicateWorkParticipantV1
          else check_verified (vt_Hash item # seenHashes)
                 (tk_Participant (vt_Ticket item) # seenParticipants) rest)"

definition seat_key :: "WorkSeatV1 \<Rightarrow> hash \<times> address" where
  "seat_key seat = (ws_TicketHash seat, ws_Participant seat)"

definition seat_of :: "VerifiedRandomXWorkTicketV1 \<Rightarrow> WorkSeatV1" where
  "seat_of item = \<lparr>ws_TicketHash = vt_Hash item, ws_Participant = tk_Participant (vt_Ticket item)\<rparr>"

definition CanonicalWorkSeatsV1 :: "VerifiedRandomXWorkTicketV1 list \<Rightarrow> work_error + WorkSeatV1 list" where
  "CanonicalWorkSeatsV1 verified = (case check_verified [] [] verified of
      Some err \<Rightarrow> Inl err
    | None \<Rightarrow> Inr (sort_key seat_key (map seat_of verified)))"

section \<open>Rewards over seats\<close>

fun check_reward_seats :: "address list \<Rightarrow> WorkSeatV1 list \<Rightarrow> work_error option" where
  "check_reward_seats seen [] = None"
| "check_reward_seats seen (seat # rest) =
     (if ws_TicketHash seat = 0 \<or> ws_Participant seat = 0 then Some ErrInvalidWorkSeat
      else if ws_Participant seat \<in> set seen then Some ErrDuplicateWorkParticipantV1
      else check_reward_seats (ws_Participant seat # seen) rest)"

definition add_amount :: "address \<Rightarrow> u256 \<Rightarrow> (address, u256) fmap \<Rightarrow> (address, u256) fmap" where
  "add_amount a amount amounts =
     fmupd a ((case fmlookup amounts a of None \<Rightarrow> 0 | Some current \<Rightarrow> current) + amount) amounts"

definition seat_amounts :: "u256 \<Rightarrow> WorkSeatV1 list \<Rightarrow> (address, u256) fmap" where
  "seat_amounts reward seats = (let
     perSeat = reward div of_nat (length seats);
     allocated = perSeat * of_nat (length seats);
     remainder = reward - allocated
   in fold (\<lambda>(index, seat) amounts.
        add_amount (ws_Participant seat) (if index = (0::nat) then perSeat + remainder else perSeat) amounts)
      (enumerate 0 seats) fmempty)"

definition AggregateWorkSeatRewardsV1 ::
  "u256 option \<Rightarrow> WorkSeatV1 list \<Rightarrow> work_error + WorkSeatRewardV1 list" where
  "AggregateWorkSeatRewardsV1 reward seats = (case reward of
      None \<Rightarrow> Inl ErrInvalidWorkSeatReward
    | Some amount \<Rightarrow>
        if seats = [] \<or> amount = 0 then Inr []
        else case check_reward_seats [] seats of
          Some err \<Rightarrow> Inl err
        | None \<Rightarrow>
            let amounts = seat_amounts amount seats in
            Inr (map (\<lambda>a. \<lparr>wr_Address = a, wr_Amount = the (fmlookup amounts a)\<rparr>) (fmkeys amounts)))"

section \<open>Epochs\<close>

definition WorkCommitDelayEpochsV1 :: u64 where
  "WorkCommitDelayEpochsV1 = 1"

definition WorkSelectionDelayEpochsV1 :: u64 where
  "WorkSelectionDelayEpochsV1 = 2"

definition WorkEpochForBlockV1 :: "u64 \<Rightarrow> u64 \<Rightarrow> work_error + u64" where
  "WorkEpochForBlockV1 blockNumber epochLength =
     (if blockNumber = 0 \<or> epochLength = 0 then Inl ErrInvalidWorkEpochLengthV1
      else Inr ((blockNumber - 1) div epochLength + 1))"

definition WorkEpochStartBlockV1 :: "u64 \<Rightarrow> u64 \<Rightarrow> work_error + u64" where
  "WorkEpochStartBlockV1 epoch epochLength =
     (if epoch = 0 \<or> epochLength = 0 then Inl ErrInvalidWorkEpochLengthV1
      else if epoch - 1 > (maxU64 - 1) div epochLength then Inl ErrInvalidWorkEpochLengthV1
      else Inr ((epoch - 1) * epochLength + 1))"

definition WorkEpochAnchorBlockV1 :: "u64 \<Rightarrow> u64 \<Rightarrow> work_error + u64" where
  "WorkEpochAnchorBlockV1 epoch epochLength = (case WorkEpochStartBlockV1 epoch epochLength of
      Inl err \<Rightarrow> Inl err
    | Inr start \<Rightarrow> Inr (start - 1))"

text \<open>\<open>Inr None\<close> is the Go result \<open>0, false, nil\<close>.\<close>

definition WorkCommitTargetEpochV1 :: "u64 \<Rightarrow> u64 \<Rightarrow> work_error + u64 option" where
  "WorkCommitTargetEpochV1 blockNumber epochLength = (case WorkEpochForBlockV1 blockNumber epochLength of
      Inl err \<Rightarrow> Inl err
    | Inr current \<Rightarrow>
        if current \<le> WorkCommitDelayEpochsV1 then Inr None
        else Inr (Some (current - WorkCommitDelayEpochsV1)))"

definition WorkSelectionSourceEpochV1 :: "u64 \<Rightarrow> u64 \<Rightarrow> work_error + u64 option" where
  "WorkSelectionSourceEpochV1 blockNumber epochLength = (case WorkEpochForBlockV1 blockNumber epochLength of
      Inl err \<Rightarrow> Inl err
    | Inr current \<Rightarrow>
        if current \<le> WorkSelectionDelayEpochsV1 then Inr None
        else Inr (Some (current - WorkSelectionDelayEpochsV1)))"

fun check_epoch_seats :: "hash list \<Rightarrow> address list \<Rightarrow> WorkSeatV1 list \<Rightarrow> work_error option" where
  "check_epoch_seats seen seenParticipants [] = None"
| "check_epoch_seats seen seenParticipants (seat # rest) =
     (if ws_TicketHash seat = 0 \<or> ws_Participant seat = 0 then Some ErrInvalidWorkSeat
      else if ws_TicketHash seat \<in> set seen then Some ErrDuplicateRandomXWorkHash
      else if ws_Participant seat \<in> set seenParticipants then Some ErrDuplicateWorkParticipantV1
      else check_epoch_seats (ws_TicketHash seat # seen) (ws_Participant seat # seenParticipants) rest)"

definition canonicalWorkEpochSeatsV1 :: "WorkSeatV1 list \<Rightarrow> work_error + WorkSeatV1 list" where
  "canonicalWorkEpochSeatsV1 input = (case check_epoch_seats [] [] input of
      Some err \<Rightarrow> Inl err
    | None \<Rightarrow> Inr (sort_key seat_key input))"

record WorkEpochSnapshotV1 =
  we_Epoch :: u64
  we_Anchor :: hash
  we_Difficulty :: "int option"
  we_Root :: hash
  we_Seats :: "WorkSeatV1 list"

definition workEpochRootDomainV1 :: bytes where
  "workEpochRootDomainV1 = ascii ''RABBIT-LQC-WORK-EPOCH-ROOT-V1''"

text \<open>\<open>nil\<close> or not positive.\<close>

definition not_positive :: "int option \<Rightarrow> bool" where
  "not_positive n \<longleftrightarrow> (case n of None \<Rightarrow> True | Some k \<Rightarrow> k \<le> 0)"

definition seat_val :: "WorkSeatV1 \<Rightarrow> rlp_val" where
  "seat_val seat = VStruct [VArray (hash_bytes (ws_TicketHash seat)), VArray (addr_bytes (ws_Participant seat))]"

definition workEpochRootPayloadV1 ::
  "int option \<times> u64 \<times> hash \<times> int option \<times> WorkSeatV1 list \<Rightarrow> rlp_val" where
  "workEpochRootPayloadV1 = (\<lambda>(chainID, epoch, anchor, difficulty, seats).
     VStruct [VBytes workEpochRootDomainV1, VUint (ucast RandomXWorkProtocolVersion), big_val chainID,
       VUint epoch, VArray (hash_bytes anchor), big_val difficulty, VSlice (map seat_val seats)])"

definition WorkEpochRootV1 ::
  "crypto \<Rightarrow> int option \<Rightarrow> u64 \<Rightarrow> hash \<Rightarrow> int option \<Rightarrow> WorkSeatV1 list
    \<Rightarrow> work_error + hash \<times> WorkSeatV1 list" where
  "WorkEpochRootV1 cr chainID epoch anchor difficulty seats =
     (if not_positive chainID \<or> epoch = 0 \<or> anchor = 0 \<or> not_positive difficulty then Inl ErrInvalidWorkEpochV1
      else case canonicalWorkEpochSeatsV1 seats of
        Inl err \<Rightarrow> Inl err
      | Inr canonical \<Rightarrow>
          Inr (Keccak256Hash cr [EncodeToBytes (workEpochRootPayloadV1 (chainID, epoch, anchor, difficulty, canonical))],
               canonical))"

definition NewWorkEpochSnapshotV1 ::
  "crypto \<Rightarrow> int option \<Rightarrow> u64 \<Rightarrow> hash \<Rightarrow> int option \<Rightarrow> WorkSeatV1 list \<Rightarrow> work_error + WorkEpochSnapshotV1" where
  "NewWorkEpochSnapshotV1 cr chainID epoch anchor difficulty seats =
     (case WorkEpochRootV1 cr chainID epoch anchor difficulty seats of
        Inl err \<Rightarrow> Inl err
      | Inr (rt, canonical) \<Rightarrow>
          if rt = 0 then Inl ErrInvalidWorkEpochRootV1
          else Inr \<lparr>we_Epoch = epoch, we_Anchor = anchor, we_Difficulty = difficulty, we_Root = rt,
            we_Seats = canonical\<rparr>)"

definition WorkEpochSnapshot_Validate ::
  "crypto \<Rightarrow> int option \<Rightarrow> WorkEpochSnapshotV1 \<Rightarrow> work_error option" where
  "WorkEpochSnapshot_Validate cr chainID s =
     (if we_Epoch s = 0 \<or> we_Anchor s = 0 \<or> not_positive (we_Difficulty s) \<or> we_Root s = 0
      then Some ErrInvalidWorkEpochV1
      else case WorkEpochRootV1 cr chainID (we_Epoch s) (we_Anchor s) (we_Difficulty s) (we_Seats s) of
        Inl err \<Rightarrow> Some err
      | Inr (rt, canonical) \<Rightarrow>
          if rt \<noteq> we_Root s \<or> length canonical \<noteq> length (we_Seats s) then Some ErrInvalidWorkEpochRootV1
          else if \<not> list_all2 (\<lambda>a b. a = b) canonical (we_Seats s) then Some ErrInvalidWorkEpochRootV1
          else None)"

section \<open>Difficulty\<close>

definition WorkProtocolEpochLengthV1 :: u64 where
  "WorkProtocolEpochLengthV1 = 128"

definition MaxWorkTicketsPerBlockV1 :: u64 where
  "MaxWorkTicketsPerBlockV1 = 8"

definition TargetWorkTicketsPerEpochV1 :: u64 where
  "TargetWorkTicketsPerEpochV1 = 256"

definition WorkTicketCommitCapacityPerEpochV1 :: u64 where
  "WorkTicketCommitCapacityPerEpochV1 = WorkProtocolEpochLengthV1 * MaxWorkTicketsPerBlockV1"

definition WorkDifficultyMaxIncreaseFactorV1 :: u64 where
  "WorkDifficultyMaxIncreaseFactorV1 = 4"

definition WorkDifficultyMaxDecreaseFactorV1 :: u64 where
  "WorkDifficultyMaxDecreaseFactorV1 = 2"

definition EffectiveWorkTicketCountV1 :: "u64 \<Rightarrow> u64" where
  "EffectiveWorkTicketCountV1 observed = (let
     minObserved = TargetWorkTicketsPerEpochV1 div WorkDifficultyMaxDecreaseFactorV1;
     maxObserved = TargetWorkTicketsPerEpochV1 * WorkDifficultyMaxIncreaseFactorV1
   in if observed < minObserved then minObserved
      else if observed > maxObserved then maxObserved
      else observed)"

definition NextWorkDifficultyV1 :: "int option \<Rightarrow> u64 \<Rightarrow> work_error + int" where
  "NextWorkDifficultyV1 current observed = (case current of
      None \<Rightarrow> Inl ErrInvalidWorkDifficultyV1
    | Some c \<Rightarrow>
        if c \<le> 0 then Inl ErrInvalidWorkDifficultyV1
        else
          let effective = EffectiveWorkTicketCountV1 observed;
              target = uint TargetWorkTicketsPerEpochV1;
              numerator = c * uint effective + target div 2;
              nxt = numerator div target
          in Inr (if nxt \<le> 0 then 1 else nxt))"

definition ValidateWorkProtocolProfileV1 :: "work_error option" where
  "ValidateWorkProtocolProfileV1 =
     (if WorkProtocolEpochLengthV1 = 0 \<or> MaxWorkTicketsPerBlockV1 = 0 \<or> TargetWorkTicketsPerEpochV1 = 0
      then Some ErrInvalidWorkDifficultyV1
      else if WorkTicketCommitCapacityPerEpochV1 \<noteq> WorkProtocolEpochLengthV1 * MaxWorkTicketsPerBlockV1
      then Some ErrInvalidWorkDifficultyV1
      else if WorkTicketCommitCapacityPerEpochV1 \<noteq> TargetWorkTicketsPerEpochV1 * WorkDifficultyMaxIncreaseFactorV1
      then Some ErrInvalidWorkDifficultyV1
      else None)"

section \<open>The canonical seat set\<close>

text \<open>What the seat checks establish: proper seats, one per ticket and one per participant.\<close>

definition seats_ok :: "WorkSeatV1 list \<Rightarrow> bool" where
  "seats_ok seats \<longleftrightarrow> (\<forall>s \<in> set seats. ws_TicketHash s \<noteq> 0 \<and> ws_Participant s \<noteq> 0)
     \<and> distinct (map ws_TicketHash seats) \<and> distinct (map ws_Participant seats)"

lemma check_epoch_seats_None:
  "check_epoch_seats seen seenP xs = None \<longleftrightarrow> seats_ok xs \<and> ws_TicketHash ` set xs \<inter> set seen = {}
     \<and> ws_Participant ` set xs \<inter> set seenP = {}"
  by (induction seen seenP xs rule: check_epoch_seats.induct) (auto simp: seats_ok_def)

lemma seats_ok_perm: "mset xs = mset ys \<Longrightarrow> seats_ok xs \<longleftrightarrow> seats_ok ys"
  unfolding seats_ok_def
  by (metis mset_eq_setD mset_eq_imp_distinct_iff mset_map)

lemma seats_ok_sort [simp]: "seats_ok (sort_key seat_key xs) \<longleftrightarrow> seats_ok xs"
  by (rule seats_ok_perm) simp

lemma canonicalWorkEpochSeats_iff:
  "canonicalWorkEpochSeatsV1 xs = Inr ys \<longleftrightarrow> seats_ok xs \<and> ys = sort_key seat_key xs"
  using check_epoch_seats_None [of "[]" "[]" xs]
  by (auto simp: canonicalWorkEpochSeatsV1_def split: option.splits)

lemma seat_key_inj: "seat_key a = seat_key b \<longleftrightarrow> a = b"
  by (cases a, cases b) (simp add: seat_key_def)

lemma sort_seats_perm: "mset xs = mset ys \<Longrightarrow> sort_key seat_key xs = sort_key seat_key ys"
  by (rule sort_key_perm_cong) (auto simp: seat_key_inj inj_on_def)

lemma check_verified_None:
  "check_verified seen seenP xs = None \<longleftrightarrow>
     (\<forall>x \<in> set xs. validateRandomXWorkTicketV1 (vt_Ticket x) = None) \<and> check_epoch_seats seen seenP (map seat_of xs) = None"
  by (induction seen seenP xs rule: check_verified.induct)
    (auto simp: seat_of_def validateRandomXWorkTicketV1_def split: if_splits)

section \<open>Rewards over distinct seats\<close>

lemma check_reward_seats_None:
  "check_reward_seats seen xs = None \<longleftrightarrow> (\<forall>s \<in> set xs. ws_TicketHash s \<noteq> 0 \<and> ws_Participant s \<noteq> 0)
     \<and> distinct (map ws_Participant xs) \<and> ws_Participant ` set xs \<inter> set seen = {}"
  by (induction seen xs rule: check_reward_seats.induct) auto

text \<open>One allocation per seat: the seat at position \<open>i\<close> has \<open>f i\<close>.\<close>

definition allocate :: "(nat \<Rightarrow> u256) \<Rightarrow> nat \<Rightarrow> WorkSeatV1 list \<Rightarrow> (address, u256) fmap \<Rightarrow> (address, u256) fmap" where
  "allocate f k seats m = fold (\<lambda>(i, seat). add_amount (ws_Participant seat) (f i)) (enumerate k seats) m"

lemma allocate_simps [simp]:
  "allocate f k [] m = m"
  "allocate f k (s # ss) m = allocate f (Suc k) ss (add_amount (ws_Participant s) (f k) m)"
  by (simp_all add: allocate_def)

lemma allocate_other: "a \<notin> ws_Participant ` set seats \<Longrightarrow> fmlookup (allocate f k seats m) a = fmlookup m a"
  by (induction seats arbitrary: k m) (auto simp: add_amount_def)

lemma allocate_lookup:
  assumes "distinct (map ws_Participant seats)" and "ws_Participant ` set seats \<inter> fmdom' m = {}" and "i < length seats"
  shows "fmlookup (allocate f k seats m) (ws_Participant (seats ! i)) = Some (f (k + i))"
  using assms
proof (induction seats arbitrary: k m i)
  case (Cons s ss)
  let ?m = "add_amount (ws_Participant s) (f k) m"
  have m: "fmlookup ?m (ws_Participant s) = Some (f k)"
    using Cons.prems(2) by (auto simp: add_amount_def split: option.splits dest: fmdom'I)
  show ?case
  proof (cases i)
    case 0
    then show ?thesis using Cons.prems(1) m allocate_other [of "ws_Participant s" ss f "Suc k" ?m] by simp
  next
    case (Suc j)
    have "ws_Participant ` set ss \<inter> fmdom' ?m = {}"
      using Cons.prems(1,2) by (auto simp: add_amount_def)
    with Cons Suc show ?thesis by simp
  qed
qed simp

lemma allocate_dom: "fmdom' (allocate f k seats m) = ws_Participant ` set seats \<union> fmdom' m"
  by (induction seats arbitrary: k m) (auto simp: add_amount_def)

text \<open>The share of the seat at position \<open>i\<close>.\<close>

definition seat_share :: "u256 \<Rightarrow> nat \<Rightarrow> nat \<Rightarrow> u256" where
  "seat_share reward n i = (if i = 0 then reward div of_nat n + reward mod of_nat n else reward div of_nat n)"

lemma seat_amounts_eq: "seat_amounts reward seats = allocate (seat_share reward (length seats)) 0 seats fmempty"
  unfolding seat_amounts_def allocate_def seat_share_def Let_def minus_div_mult_eq_mod
  by (rule refl)

lemma unat_seat_share:
  assumes "0 < n" and "n < 2 ^ 64"
  shows "unat (seat_share reward n i) = unat reward div n + (if i = 0 then unat reward mod n else 0)"
proof -
  have n: "unat (of_nat n :: u256) = n" using assms(2) by (simp add: unat_of_nat)
  have "unat reward div n \<le> unat reward div n * n" using assms(1) by simp
  then have "unat reward div n + unat reward mod n \<le> unat reward"
    using div_mult_mod_eq [of "unat reward" n] by linarith
  also have "\<dots> < 2 ^ 256" using unsigned_less [of reward] by simp
  finally show ?thesis
    by (simp add: seat_share_def unat_word_ariths unat_div_distrib unat_mod_distrib n)
qed

lemma sum_seat_share:
  assumes "0 < n" and "n < 2 ^ 64"
  shows "(\<Sum>i<n. unat (seat_share reward n i)) = unat reward"
proof -
  have "(\<Sum>i<n. unat (seat_share reward n i)) = n * (unat reward div n) + (\<Sum>i<n. if i = 0 then unat reward mod n else 0)"
    using assms by (simp add: unat_seat_share sum.distrib)
  also have "(\<Sum>i<n. if i = 0 then unat reward mod n else 0) = unat reward mod n"
    using assms(1) by (simp add: sum.delta)
  finally show ?thesis by simp
qed

lemma Aggregate_Inr:
  assumes "AggregateWorkSeatRewardsV1 (Some reward) seats = Inr rs" and "seats \<noteq> []" and "reward \<noteq> 0"
  shows "distinct (map ws_Participant seats)"
    and "map wr_Address rs = sorted_list_of_set (ws_Participant ` set seats)"
    and "\<forall>r \<in> set rs. wr_Amount r = the (fmlookup (seat_amounts reward seats) (wr_Address r))"
  using assms check_reward_seats_None [of "[]" seats]
  by (auto simp: AggregateWorkSeatRewardsV1_def Let_def comp_def fmkeys_def sorted_list_of_fset.rep_eq
      seat_amounts_eq allocate_dom fmdom'_alt_def [symmetric] split: if_splits option.splits)

lemma Aggregate_sum:
  assumes "AggregateWorkSeatRewardsV1 (Some reward) seats = Inr rs" and "seats \<noteq> []" and "reward \<noteq> 0"
    and "length seats < 2 ^ 64"
  shows "sum_list (map (\<lambda>r. unat (wr_Amount r)) rs) = unat reward"
proof -
  note a = Aggregate_Inr [OF assms(1-3)]
  let ?n = "length seats" and ?m = "seat_amounts reward seats"
  let ?g = "\<lambda>a. unat (the (fmlookup ?m a))"
  have "map (\<lambda>r. unat (wr_Amount r)) rs = map ?g (map wr_Address rs)" using a(3) by simp
  then have "sum_list (map (\<lambda>r. unat (wr_Amount r)) rs) = (\<Sum>x \<in> ws_Participant ` set seats. ?g x)"
    unfolding a(2) by (simp add: sum_list_distinct_conv_sum_set)
  also have "\<dots> = sum_list (map ?g (map ws_Participant seats))"
    using sum_list_distinct_conv_sum_set [OF a(1), of ?g] by simp
  also have "\<dots> = (\<Sum>i<?n. ?g (ws_Participant (seats ! i)))"
    by (simp add: sum_list_sum_nth atLeast0LessThan)
  also have "\<dots> = (\<Sum>i<?n. unat (seat_share reward ?n i))"
    using allocate_lookup [OF a(1), of fmempty] by (intro sum.cong) (auto simp: seat_amounts_eq)
  also have "\<dots> = unat reward" using assms(2,4) by (intro sum_seat_share) auto
  finally show ?thesis .
qed

lemma Aggregate_amount:
  assumes "AggregateWorkSeatRewardsV1 (Some reward) seats = Inr rs" and "seats \<noteq> []" and "reward \<noteq> 0"
    and "length seats < 2 ^ 64" and "r \<in> set rs"
  shows "unat (wr_Amount r) = unat reward div length seats
    + (if wr_Address r = ws_Participant (hd seats) then unat reward mod length seats else 0)"
proof -
  note a = Aggregate_Inr [OF assms(1-3)]
  have "wr_Address r \<in> set (map wr_Address rs)" using assms(5) by simp
  then obtain i where i: "i < length seats" "wr_Address r = ws_Participant (seats ! i)"
    unfolding a(2) by (auto simp: in_set_conv_nth)
  have "wr_Amount r = seat_share reward (length seats) i"
    using a(3) assms(5) i allocate_lookup [OF a(1), of fmempty i "seat_share reward (length seats)" 0]
    by (simp add: seat_amounts_eq)
  moreover have "wr_Address r = ws_Participant (hd seats) \<longleftrightarrow> i = 0"
    using a(1) i assms(2) nth_eq_iff_index_eq [of "map ws_Participant seats" i 0] by (simp add: hd_conv_nth)
  ultimately show ?thesis using assms(2,4) by (simp add: unat_seat_share)
qed

section \<open>The epoch schedule\<close>

lemma EpochForBlock_iff:
  "WorkEpochForBlockV1 n L = Inr e \<longleftrightarrow> n \<noteq> 0 \<and> L \<noteq> 0 \<and> unat e = (unat n - 1) div unat L + 1"
proof -
  have "unat ((n - 1) div L + 1) = (unat n - 1) div unat L + 1" if "n \<noteq> 0"
  proof -
    have n: "unat (n - 1) = unat n - 1" using that by (simp add: unat_minus_one)
    have "(unat n - 1) div unat L \<le> unat n - 1" by (rule div_le_dividend)
    moreover have "0 < unat n" using that by (simp add: unat_gt_0)
    ultimately have "(unat n - 1) div unat L + 1 < 18446744073709551616" using unat_u64_less [of n] by linarith
    then show ?thesis by (simp add: unat_word_ariths unat_div_distrib n)
  qed
  then show ?thesis by (auto simp: WorkEpochForBlockV1_def word_unat_eq_iff)
qed

lemma EpochStart_iff:
  "WorkEpochStartBlockV1 e L = Inr s \<longleftrightarrow> e \<noteq> 0 \<and> L \<noteq> 0 \<and> unat s = (unat e - 1) * unat L + 1"
proof (cases "e = 0 \<or> L = 0")
  case False
  have e: "unat (e - 1) = unat e - 1" using False by (simp add: unat_minus_one)
  have L: "0 < unat L" using False by (simp add: unat_gt_0)
  have b: "unat ((maxU64 - 1) div L) = (2 ^ 64 - 2) div unat L"
    by (simp add: unat_div_distrib)
  have g: "e - 1 > (maxU64 - 1) div L \<longleftrightarrow> 2 ^ 64 \<le> (unat e - 1) * unat L + 1"
    unfolding word_less_nat_alt b e
    using L by (simp add: div_less_iff_less_mult) linarith
  have "unat ((e - 1) * L + 1) = (unat e - 1) * unat L + 1" if "(unat e - 1) * unat L + 1 < 2 ^ 64"
    using that by (simp add: unat_word_ariths e)
  then show ?thesis
    using False unat_u64_less [of s] g
    by (cases "(unat e - 1) * unat L + 1 < 2 ^ 64") (auto simp: WorkEpochStartBlockV1_def word_unat_eq_iff simp del: unat_u64_less)
qed (auto simp: WorkEpochStartBlockV1_def)

lemma div_epoch:
  assumes "0 < (k :: nat)"
  shows "m div k + 1 = x \<longleftrightarrow> x \<noteq> 0 \<and> (x - 1) * k \<le> m \<and> m < (x - 1) * k + k"
proof (cases x)
  case (Suc y)
  have "y * k \<le> m \<Longrightarrow> m < y * k + k \<Longrightarrow> m div k = y" by (rule div_nat_eqI) (simp_all add: mult.commute)
  moreover have "m div k * k \<le> m" "m < m div k * k + k"
    using div_times_less_eq_dividend [of m k] dividend_less_div_times [OF assms, of m] by linarith+
  ultimately show ?thesis using Suc by auto
qed simp

lemma unat_of_nat_u64: "k < 2 ^ 64 \<Longrightarrow> unat (of_nat k :: u64) = k"
  by (simp add: unat_of_nat)

lemma EpochStart_ex:
  "(\<exists>s. WorkEpochStartBlockV1 e L = Inr s) \<longleftrightarrow> e \<noteq> 0 \<and> L \<noteq> 0 \<and> (unat e - 1) * unat L + 1 < 2 ^ 64"
proof
  assume "\<exists>s. WorkEpochStartBlockV1 e L = Inr s"
  then obtain s :: u64 where "e \<noteq> 0 \<and> L \<noteq> 0 \<and> unat s = (unat e - 1) * unat L + 1" unfolding EpochStart_iff by blast
  moreover have "unat s < 2 ^ 64" using unsigned_less [of s] by simp
  ultimately show "e \<noteq> 0 \<and> L \<noteq> 0 \<and> (unat e - 1) * unat L + 1 < 2 ^ 64" by metis
next
  assume "e \<noteq> 0 \<and> L \<noteq> 0 \<and> (unat e - 1) * unat L + 1 < 2 ^ 64"
  then show "\<exists>s. WorkEpochStartBlockV1 e L = Inr s"
    unfolding EpochStart_iff using unat_of_nat_u64 [of "(unat e - 1) * unat L + 1"] by metis
qed

lemma EpochForBlock_le_1:
  assumes "WorkEpochForBlockV1 n L = Inr e"
  shows "e \<le> 1 \<longleftrightarrow> e = 1"
proof -
  have "1 \<le> unat e" using assms unfolding EpochForBlock_iff by linarith
  then have "unat e \<le> unat (1 :: u64) \<longleftrightarrow> unat e = unat (1 :: u64)" by auto
  then show ?thesis by (simp only: word_le_nat_alt word_unat_eq_iff)
qed

lemma EpochForBlock_range:
  "WorkEpochForBlockV1 n L = Inr e \<longleftrightarrow> n \<noteq> 0 \<and>
     (\<exists>s. WorkEpochStartBlockV1 e L = Inr s \<and> s \<le> n \<and> unat n < unat s + unat L)"
proof (cases "n = 0 \<or> L = 0")
  case False
  then have p: "0 < unat L" "0 < unat n" by (simp_all add: unat_gt_0)
  have "WorkEpochForBlockV1 n L = Inr e \<longleftrightarrow> (unat n - 1) div unat L + 1 = unat e" using False by (auto simp: EpochForBlock_iff)
  also have "\<dots> \<longleftrightarrow> e \<noteq> 0 \<and> (unat e - 1) * unat L \<le> unat n - 1 \<and> unat n - 1 < (unat e - 1) * unat L + unat L"
    unfolding div_epoch [OF p(1)] by (simp add: unat_eq_0)
  also have "\<dots> \<longleftrightarrow> (\<exists>s. WorkEpochStartBlockV1 e L = Inr s \<and> s \<le> n \<and> unat n < unat s + unat L)"
    (is "?l \<longleftrightarrow> ?r")
  proof
    assume l: ?l
    then have "(unat e - 1) * unat L + 1 \<le> unat n" using p(2) by linarith
    then have "(unat e - 1) * unat L + 1 < 2 ^ 64" using unat_u64_less [of n] by (simp del: unat_u64_less)
    then obtain s where s: "WorkEpochStartBlockV1 e L = Inr s" using EpochStart_ex [of e L] l False by blast
    then show ?r using l p(2) by (auto simp: EpochStart_iff word_le_nat_alt)
  next
    assume ?r
    then show ?l using p by (auto simp: EpochStart_iff word_le_nat_alt)
  qed
  finally show ?thesis using False by simp
qed (auto simp: WorkEpochForBlockV1_def EpochStart_iff)

section \<open>The retarget\<close>

lemma Effective_bounds: "128 \<le> uint (EffectiveWorkTicketCountV1 obs)" "uint (EffectiveWorkTicketCountV1 obs) \<le> 1024"
  by (auto simp: EffectiveWorkTicketCountV1_def Let_def TargetWorkTicketsPerEpochV1_def
      WorkDifficultyMaxDecreaseFactorV1_def WorkDifficultyMaxIncreaseFactorV1_def word_le_def word_less_def)

lemma Effective_mono: "obs \<le> obs' \<Longrightarrow> uint (EffectiveWorkTicketCountV1 obs) \<le> uint (EffectiveWorkTicketCountV1 obs')"
  by (auto simp: EffectiveWorkTicketCountV1_def Let_def TargetWorkTicketsPerEpochV1_def
      WorkDifficultyMaxDecreaseFactorV1_def WorkDifficultyMaxIncreaseFactorV1_def word_le_def word_less_def)

lemma NextWorkDifficulty_eq:
  assumes "0 < c"
  shows "NextWorkDifficultyV1 (Some c) obs = Inr (max 1 ((c * uint (EffectiveWorkTicketCountV1 obs) + 128) div 256))"
  using assms by (auto simp: NextWorkDifficultyV1_def Let_def TargetWorkTicketsPerEpochV1_def max_def)

lemma retarget_bounds:
  assumes "0 < c"
  shows "\<exists>d. NextWorkDifficultyV1 (Some c) obs = Inr d \<and> 1 \<le> d \<and> d \<le> 4 * c \<and> c \<le> 2 * d
      \<and> \<bar>256 * d - c * uint (EffectiveWorkTicketCountV1 obs)\<bar> \<le> 128"
proof -
  let ?e = "uint (EffectiveWorkTicketCountV1 obs)"
  obtain q where q: "q = (c * ?e + 128) div 256" by simp
  have "c * 128 \<le> c * ?e" "c * ?e \<le> c * 1024"
    using assms Effective_bounds [of obs] by (auto intro: mult_left_mono simp del: mult_le_cancel_left_pos)
  moreover have "256 * q \<le> c * ?e + 128" "c * ?e + 128 < 256 * q + 256" unfolding q by presburger+
  ultimately have b: "1 \<le> q" "q \<le> 4 * c" "c \<le> 2 * q" "256 * q - c * ?e \<le> 128" "c * ?e - 256 * q \<le> 128"
    using assms by linarith+
  show ?thesis
    unfolding NextWorkDifficulty_eq [OF assms] q [symmetric]
    using b by (intro exI [of _ q]) (simp add: abs_le_iff)
qed

lemma retarget_target: "0 < c \<Longrightarrow> NextWorkDifficultyV1 (Some c) 256 = Inr c"
  by (simp add: NextWorkDifficulty_eq EffectiveWorkTicketCountV1_def Let_def TargetWorkTicketsPerEpochV1_def
      WorkDifficultyMaxDecreaseFactorV1_def WorkDifficultyMaxIncreaseFactorV1_def)

lemma retarget_mono:
  assumes "0 < c" and "obs \<le> obs'" and "NextWorkDifficultyV1 (Some c) obs = Inr d" and "NextWorkDifficultyV1 (Some c) obs' = Inr d'"
  shows "d \<le> d'"
proof -
  have "c * uint (EffectiveWorkTicketCountV1 obs) \<le> c * uint (EffectiveWorkTicketCountV1 obs')"
    using assms(1) Effective_mono [OF assms(2)] by (intro mult_left_mono) auto
  then have "(c * uint (EffectiveWorkTicketCountV1 obs) + 128) div 256 \<le> (c * uint (EffectiveWorkTicketCountV1 obs') + 128) div 256"
    by (intro zdiv_mono1) auto
  then show ?thesis using assms(3,4) by (auto simp: NextWorkDifficulty_eq [OF assms(1)])
qed

section \<open>The epoch commitment\<close>

definition work_epoch_type :: rlp_type where
  "work_epoch_type = TStruct [TBytes, TUint 8, TBig, TUint 64, TArray 32, TBig, TSlice (TStruct [TArray 32, TArray 20])]"

lemma vsize_seat [simp]: "vsize (seat_val s) = 79"
  by (simp add: seat_val_def)

lemma has_type_seat [simp]: "has_type (TStruct [TArray 32, TArray 20]) (seat_val s)"
  by (simp add: seat_val_def)

lemma seat_val_inject [simp]: "seat_val s = seat_val t \<longleftrightarrow> s = t"
  by (cases s, cases t) (simp add: seat_val_def)

lemma map_seat_val_inject [simp]: "map seat_val xs = map seat_val ys \<longleftrightarrow> xs = ys"
  by (rule inj_map_eq_map) (auto simp: inj_def)

interpretation epoch_root: rlp_payload work_epoch_type
  "\<lambda>(c, e, a, d, seats). workEpochRootPayloadV1 (Some (int c), e, a, Some (int d), seats)"
  "\<lambda>(c, e, a, d, seats). c < 2 ^ 256 \<and> d < 2 ^ 256 \<and> length seats < 2 ^ 57"
proof unfold_locales
  show "type_ok work_epoch_type" by (simp add: work_epoch_type_def)
  show "has_type work_epoch_type (case x of (c, e, a, d, seats) \<Rightarrow>
      workEpochRootPayloadV1 (Some (int c), e, a, Some (int d), seats))" for x
    by (cases x) (simp add: work_epoch_type_def workEpochRootPayloadV1_def big_val_def list_all_iff seat_val_def
        RandomXWorkProtocolVersion_def)
  show "vsize (case x of (c, e, a, d, seats) \<Rightarrow> workEpochRootPayloadV1 (Some (int c), e, a, Some (int d), seats)) < 2 ^ 64"
    if "case x of (c, e, a, d, seats) \<Rightarrow> c < 2 ^ 256 \<and> d < 2 ^ 256 \<and> length seats < 2 ^ 57" for x
  proof (cases x)
    case (fields c e a d seats)
    have "length (be_min c) \<le> 32" "length (be_min d) \<le> 32"
      using that fields length_be_min_256 [of c] length_be_min_256 [of d] by simp_all
    then show ?thesis
      using that fields sum_vsize_le [of seats seat_val 79]
      by (simp add: workEpochRootPayloadV1_def big_val_def workEpochRootDomainV1_def ascii_def)
  qed
qed (auto simp: workEpochRootPayloadV1_def big_val_def)

lemma epoch_preimage_inject:
  assumes "0 < c" "0 < c'" "0 < d" "0 < d'" "c < 2 ^ 256" "c' < 2 ^ 256" "d < 2 ^ 256" "d' < 2 ^ 256"
    and "length seats < 2 ^ 57" "length seats' < 2 ^ 57"
  shows "EncodeToBytes (workEpochRootPayloadV1 (Some c, e, a, Some d, seats)) =
      EncodeToBytes (workEpochRootPayloadV1 (Some c', e', a', Some d', seats'))
    \<longleftrightarrow> c = c' \<and> e = e' \<and> a = a' \<and> d = d' \<and> seats = seats'"
  using epoch_root.encode_inject [of "(nat c, e, a, nat d, seats)" "(nat c', e', a', nat d', seats')"] assms
  by (simp add: nat_less_iff) (simp add: eq_nat_nat_iff)

section \<open>Properties\<close>

text \<open>The canonical seat set is one list per set of seats. It is accepted exactly when every seat is proper and no
  ticket and no participant occurs twice, it is a permutation of the input in strictly increasing ticket order, and
  any arrival order gives the same list; verified tickets go through the same check.\<close>

theorem work_seats_canonical:
  shows "(canonicalWorkEpochSeatsV1 xs = Inr ys \<longrightarrow>
      mset ys = mset xs \<and> seats_ok ys \<and> sorted_wrt (\<lambda>a b. ws_TicketHash a < ws_TicketHash b) ys)
    \<and> ((\<exists>ys. canonicalWorkEpochSeatsV1 xs = Inr ys) \<longleftrightarrow> seats_ok xs)
    \<and> (mset xs = mset zs \<longrightarrow> canonicalWorkEpochSeatsV1 xs = Inr ys \<longleftrightarrow> canonicalWorkEpochSeatsV1 zs = Inr ys)
    \<and> (CanonicalWorkSeatsV1 verified = Inr ys \<longleftrightarrow>
      (\<forall>x \<in> set verified. validateRandomXWorkTicketV1 (vt_Ticket x) = None)
      \<and> canonicalWorkEpochSeatsV1 (map seat_of verified) = Inr ys)"
proof -
  have c1: "mset ys = mset xs \<and> seats_ok ys \<and> sorted_wrt (\<lambda>a b. ws_TicketHash a < ws_TicketHash b) ys"
    if a: "canonicalWorkEpochSeatsV1 xs = Inr ys"
  proof -
    have y: "ys = sort_key seat_key xs" "seats_ok ys" using a by (simp_all add: canonicalWorkEpochSeats_iff)
    have "sorted (map ws_TicketHash ys)"
      using sorted_sort_key [of seat_key xs]
      by (auto simp: y(1) seat_key_def sorted_wrt_map less_eq_prod_def elim: sorted_wrt_mono_rel [rotated])
    then have "sorted_wrt (<) (map ws_TicketHash ys)"
      using y(2) by (simp add: strict_sorted_iff seats_ok_def)
    then show ?thesis using y by (simp add: sorted_wrt_map)
  qed
  have c2: "(\<exists>ys. canonicalWorkEpochSeatsV1 xs = Inr ys) \<longleftrightarrow> seats_ok xs" by (simp add: canonicalWorkEpochSeats_iff)
  have c3: "mset xs = mset zs \<Longrightarrow> canonicalWorkEpochSeatsV1 xs = Inr ys \<longleftrightarrow> canonicalWorkEpochSeatsV1 zs = Inr ys"
    using seats_ok_perm [of xs zs] sort_seats_perm [of xs zs] by (simp add: canonicalWorkEpochSeats_iff)
  have c4: "CanonicalWorkSeatsV1 verified = Inr ys \<longleftrightarrow>
      (\<forall>x \<in> set verified. validateRandomXWorkTicketV1 (vt_Ticket x) = None)
      \<and> canonicalWorkEpochSeatsV1 (map seat_of verified) = Inr ys"
    using check_verified_None [of "[]" "[]" verified] check_epoch_seats_None [of "[]" "[]" "map seat_of verified"]
    by (auto simp: CanonicalWorkSeatsV1_def canonicalWorkEpochSeats_iff split: option.splits)
  from c1 c2 c3 c4 show ?thesis by blast
qed

definition sample_seat :: "u64 \<Rightarrow> WorkSeatV1" where
  "sample_seat i = \<lparr>ws_TicketHash = ucast i, ws_Participant = ucast i\<rparr>"

theorem work_seats_canonical_witness:
  "canonicalWorkEpochSeatsV1 [sample_seat 3, sample_seat 2] = Inr [sample_seat 2, sample_seat 3]
   \<and> seats_ok [sample_seat 2, sample_seat 3]"
proof -
  have a: "canonicalWorkEpochSeatsV1 [sample_seat 3, sample_seat 2] = Inr [sample_seat 2, sample_seat 3]"
    by (simp add: canonicalWorkEpochSeats_iff seats_ok_def sample_seat_def seat_key_def)
  with work_seats_canonical [of "[sample_seat 3, sample_seat 2]" "[sample_seat 2, sample_seat 3]"] show ?thesis by simp
qed

text \<open>Claim C34: splitting a reward over seats conserves every unit. The payouts go to exactly the seated participants, each
  once and in address order, each receives the equal share, the first seat also the remainder, and the payouts sum
  to the reward with no wrap-around.\<close>

theorem seat_rewards_conserved:
  assumes "AggregateWorkSeatRewardsV1 (Some reward) seats = Inr rs" and "seats \<noteq> []" and "reward \<noteq> 0"
    and "length seats < 2 ^ 64"
  shows "sum_list (map (\<lambda>r. unat (wr_Amount r)) rs) = unat reward
    \<and> map wr_Address rs = sorted_list_of_set (ws_Participant ` set seats)
    \<and> (\<forall>r \<in> set rs. unat (wr_Amount r) = unat reward div length seats
      + (if wr_Address r = ws_Participant (hd seats) then unat reward mod length seats else 0))"
  using Aggregate_sum [OF assms] Aggregate_Inr(2) [OF assms(1-3)] Aggregate_amount [OF assms] by auto

theorem seat_rewards_conserved_witness:
  "\<exists>rs. AggregateWorkSeatRewardsV1 (Some 7) [sample_seat 3, sample_seat 2] = Inr rs
     \<and> sum_list (map (\<lambda>r. unat (wr_Amount r)) rs) = 7"
proof -
  have "check_reward_seats [] [sample_seat 3, sample_seat 2] = None" by (simp add: sample_seat_def)
  then obtain rs where "AggregateWorkSeatRewardsV1 (Some 7) [sample_seat 3, sample_seat 2] = Inr rs"
    by (simp add: AggregateWorkSeatRewardsV1_def Let_def)
  with seat_rewards_conserved [OF this] show ?thesis by simp
qed

text \<open>The epoch schedule partitions the blocks. A block lies in exactly the epoch whose first block is at most it and
  fewer than one epoch length before it; the first block of an epoch lies in that epoch, and its anchor is the block
  before. The overflow guard of the start block refuses exactly the epochs that start beyond the 64-bit range. Work of
  epoch \<open>e\<close> is committed in \<open>e + 1\<close> and selects in \<open>e + 2\<close>.\<close>

theorem epoch_schedule:
  shows "(WorkEpochForBlockV1 n L = Inr e \<longleftrightarrow> n \<noteq> 0 \<and>
      (\<exists>s. WorkEpochStartBlockV1 e L = Inr s \<and> s \<le> n \<and> unat n < unat s + unat L))
    \<and> ((\<exists>s. WorkEpochStartBlockV1 e L = Inr s) \<longleftrightarrow> e \<noteq> 0 \<and> L \<noteq> 0 \<and> (unat e - 1) * unat L + 1 < 2 ^ 64)
    \<and> (WorkEpochStartBlockV1 e L = Inr s \<longrightarrow> WorkEpochForBlockV1 s L = Inr e)
    \<and> (WorkEpochStartBlockV1 e L = Inr s \<longrightarrow> WorkEpochAnchorBlockV1 e L = Inr (s - 1) \<and> s - 1 < s)
    \<and> (WorkEpochForBlockV1 n L = Inr e \<longrightarrow>
      WorkCommitTargetEpochV1 n L = Inr (if e = 1 then None else Some (e - 1))
      \<and> WorkSelectionSourceEpochV1 n L = Inr (if e \<le> 2 then None else Some (e - 2)))"
proof -
  have c1: "WorkEpochForBlockV1 n L = Inr e \<longleftrightarrow> n \<noteq> 0 \<and>
      (\<exists>s. WorkEpochStartBlockV1 e L = Inr s \<and> s \<le> n \<and> unat n < unat s + unat L)"
    by (rule EpochForBlock_range)
  have c2: "(\<exists>s. WorkEpochStartBlockV1 e L = Inr s) \<longleftrightarrow> e \<noteq> 0 \<and> L \<noteq> 0 \<and> (unat e - 1) * unat L + 1 < 2 ^ 64"
    by (rule EpochStart_ex)
  have "s \<noteq> 0" if "WorkEpochStartBlockV1 e L = Inr s" using that by (auto simp: EpochStart_iff)
  then have c3: "WorkEpochStartBlockV1 e L = Inr s \<Longrightarrow> WorkEpochAnchorBlockV1 e L = Inr (s - 1) \<and> s - 1 < s"
    by (simp add: WorkEpochAnchorBlockV1_def word_less_nat_alt unat_minus_one unat_gt_0)
  have c4: "WorkEpochForBlockV1 s L = Inr e" if "WorkEpochStartBlockV1 e L = Inr s"
  proof -
    have "s \<noteq> 0" "L \<noteq> 0" using that by (auto simp: EpochStart_iff)
    then show ?thesis unfolding EpochForBlock_range using that by (auto simp: unat_gt_0)
  qed
  have c5: "WorkEpochForBlockV1 n L = Inr e \<Longrightarrow>
      WorkCommitTargetEpochV1 n L = Inr (if e = 1 then None else Some (e - 1))
      \<and> WorkSelectionSourceEpochV1 n L = Inr (if e \<le> 2 then None else Some (e - 2))"
    using EpochForBlock_le_1 [of n L e] by (simp add: WorkCommitTargetEpochV1_def WorkSelectionSourceEpochV1_def
        WorkCommitDelayEpochsV1_def WorkSelectionDelayEpochsV1_def)
  from c1 c2 c3 c4 c5 show ?thesis by blast
qed

theorem epoch_schedule_witness:
  "WorkEpochStartBlockV1 3 128 = Inr 257 \<and> WorkEpochForBlockV1 257 128 = Inr 3 \<and> WorkCommitTargetEpochV1 257 128 = Inr (Some 2)"
proof -
  have s: "WorkEpochStartBlockV1 3 128 = Inr 257" by (simp add: EpochStart_iff)
  with epoch_schedule [of 257 128 3 257] show ?thesis by simp
qed

text \<open>The epoch root commits to the chain, the epoch, the anchor, the difficulty and the seats. Two epochs have the
  same hash preimage only when all of these agree.\<close>

theorem epoch_root_binds:
  assumes "0 < c" "0 < c'" "0 < d" "0 < d'" "c < 2 ^ 256" "c' < 2 ^ 256" "d < 2 ^ 256" "d' < 2 ^ 256"
    and "length seats < 2 ^ 57" "length seats' < 2 ^ 57"
  shows "EncodeToBytes (workEpochRootPayloadV1 (Some c, e, a, Some d, seats)) =
      EncodeToBytes (workEpochRootPayloadV1 (Some c', e', a', Some d', seats'))
    \<longleftrightarrow> c = c' \<and> e = e' \<and> a = a' \<and> d = d' \<and> seats = seats'"
  using assms by (rule epoch_preimage_inject)

theorem epoch_root_binds_witness:
  "EncodeToBytes (workEpochRootPayloadV1 (Some 1, 1, 5, Some 9, [sample_seat 2])) \<noteq>
   EncodeToBytes (workEpochRootPayloadV1 (Some 1, 1, 5, Some 9, []))"
  using epoch_root_binds [of 1 1 9 9 "[sample_seat 2]" "[]" 1 5 1 5] by simp

text \<open>Claim C35: the difficulty retarget is a bounded, monotone, rounded proportion. From a positive difficulty it always returns
  a positive one, at most four times and (up to rounding) at least half the old, equal to it at the target count
  of 256 tickets, and more observed tickets never lower it.\<close>

theorem difficulty_retarget:
  assumes "0 < c"
  shows "(\<exists>d. NextWorkDifficultyV1 (Some c) obs = Inr d \<and> 1 \<le> d \<and> d \<le> 4 * c \<and> c \<le> 2 * d
      \<and> \<bar>256 * d - c * uint (EffectiveWorkTicketCountV1 obs)\<bar> \<le> 128)
    \<and> NextWorkDifficultyV1 (Some c) 256 = Inr c
    \<and> (obs \<le> obs' \<longrightarrow> NextWorkDifficultyV1 (Some c) obs = Inr d \<longrightarrow> NextWorkDifficultyV1 (Some c) obs' = Inr d'
      \<longrightarrow> d \<le> d')"
  using retarget_bounds [OF assms] retarget_target [OF assms] retarget_mono [OF assms] by blast

theorem difficulty_retarget_witness:
  "\<exists>d. NextWorkDifficultyV1 (Some 1000) 0 = Inr d \<and> 1000 \<le> 2 * d"
  using difficulty_retarget [of 1000 0 0] by auto

end
