(* ===== verification/Work_Tickets.thy ===== *)
theory Work_Tickets
  imports Work_Protocol
begin

text \<open>
  Signed work tickets: the byte strings that are hashed and signed, the difficulty target and the ownership check
  (\<open>consensus/lqc/work_protocol_v1_crypto.go\<close>), the canonical ticket list of a header (the ticket part of
  \<open>work_protocol_v1_header_v3.go\<close>) and the admission order of commit candidates (\<open>work_protocol_v1_commit.go\<close>).
  RandomX is outside the sources: a proof hash is an argument.
\<close>

section \<open>Payloads, target and ownership\<close>

record SignedRandomXWorkTicketV1 =
  sw_Ticket :: RandomXWorkTicketV1
  sw_Signature :: bytes

definition randomXWorkEpochKeyDomainV1 :: bytes where
  "randomXWorkEpochKeyDomainV1 = ascii ''RABBIT-LQC-RANDOMX-EPOCH-KEY-V1''"

definition randomXWorkInputDomainV1 :: bytes where
  "randomXWorkInputDomainV1 = ascii ''RABBIT-LQC-RANDOMX-INPUT-V1''"

definition randomXWorkSignDomainV1 :: bytes where
  "randomXWorkSignDomainV1 = ascii ''RABBIT-LQC-RANDOMX-SIGN-V1''"

definition validateRandomXWorkContextV1 ::
  "int option \<Rightarrow> hash \<Rightarrow> RandomXWorkTicketV1 \<Rightarrow> work_error option" where
  "validateRandomXWorkContextV1 chainID anchor ticket =
     (if not_positive chainID then Some ErrInvalidRandomXWorkChainID
      else if anchor = 0 then Some ErrInvalidRandomXWorkAnchor
      else validateRandomXWorkTicketV1 ticket)"

definition randomXWorkEpochKeyPayloadV1 :: "int option \<Rightarrow> u64 \<Rightarrow> hash \<Rightarrow> rlp_val" where
  "randomXWorkEpochKeyPayloadV1 chainID epoch anchor = VStruct [VBytes randomXWorkEpochKeyDomainV1,
     VUint (ucast RandomXWorkProtocolVersion), big_val chainID, VUint epoch, VArray (hash_bytes anchor)]"

definition randomXWorkInputPayloadV1 :: "int option \<Rightarrow> hash \<Rightarrow> RandomXWorkTicketV1 \<Rightarrow> rlp_val" where
  "randomXWorkInputPayloadV1 chainID anchor ticket = VStruct [VBytes randomXWorkInputDomainV1,
     VUint (ucast (tk_Version ticket)), big_val chainID, VUint (tk_Epoch ticket), VArray (hash_bytes anchor),
     VArray (addr_bytes (tk_Participant ticket)), VUint (tk_Nonce ticket)]"

definition randomXWorkSignPayloadV1 :: "int option \<Rightarrow> hash \<Rightarrow> RandomXWorkTicketV1 \<Rightarrow> hash \<Rightarrow> rlp_val" where
  "randomXWorkSignPayloadV1 chainID anchor ticket proofHash = VStruct [VBytes randomXWorkSignDomainV1,
     VUint (ucast (tk_Version ticket)), big_val chainID, VUint (tk_Epoch ticket), VArray (hash_bytes anchor),
     VArray (addr_bytes (tk_Participant ticket)), VUint (tk_Nonce ticket), VArray (hash_bytes proofHash)]"

definition RandomXWorkEpochKeyV1 :: "crypto \<Rightarrow> int option \<Rightarrow> u64 \<Rightarrow> hash \<Rightarrow> work_error + hash" where
  "RandomXWorkEpochKeyV1 cr chainID epoch anchor =
     (if not_positive chainID then Inl ErrInvalidRandomXWorkChainID
      else if epoch = 0 then Inl ErrInvalidRandomXWorkTicket
      else if anchor = 0 then Inl ErrInvalidRandomXWorkAnchor
      else Inr (Keccak256Hash cr [EncodeToBytes (randomXWorkEpochKeyPayloadV1 chainID epoch anchor)]))"

definition RandomXWorkInputV1 :: "int option \<Rightarrow> hash \<Rightarrow> RandomXWorkTicketV1 \<Rightarrow> work_error + bytes" where
  "RandomXWorkInputV1 chainID anchor ticket = (case validateRandomXWorkContextV1 chainID anchor ticket of
      Some err \<Rightarrow> Inl err
    | None \<Rightarrow> Inr (EncodeToBytes (randomXWorkInputPayloadV1 chainID anchor ticket)))"

definition RandomXWorkSigningHashV1 ::
  "crypto \<Rightarrow> int option \<Rightarrow> hash \<Rightarrow> RandomXWorkTicketV1 \<Rightarrow> hash \<Rightarrow> work_error + hash" where
  "RandomXWorkSigningHashV1 cr chainID anchor ticket proofHash =
     (case validateRandomXWorkContextV1 chainID anchor ticket of
        Some err \<Rightarrow> Inl err
      | None \<Rightarrow> Inr (Keccak256Hash cr [EncodeToBytes (randomXWorkSignPayloadV1 chainID anchor ticket proofHash)]))"

definition RecoverRandomXWorkSignerV1 ::
  "crypto \<Rightarrow> int option \<Rightarrow> hash \<Rightarrow> SignedRandomXWorkTicketV1 \<Rightarrow> hash \<Rightarrow> work_error + address" where
  "RecoverRandomXWorkSignerV1 cr chainID anchor submitted proofHash =
     (if length (sw_Signature submitted) \<noteq> SignatureLength then Inl ErrInvalidRandomXWorkSignature
      else if \<not> sig_values_ok (sw_Signature submitted) then Inl ErrInvalidRandomXWorkSignature
      else case RandomXWorkSigningHashV1 cr chainID anchor (sw_Ticket submitted) proofHash of
        Inl err \<Rightarrow> Inl err
      | Inr h \<Rightarrow>
          (case sigToAddress cr h (sw_Signature submitted) of
             None \<Rightarrow> Inl ErrInvalidRandomXWorkSignature
           | Some signer \<Rightarrow> Inr signer))"

definition VerifyRandomXWorkSignatureV1 ::
  "crypto \<Rightarrow> int option \<Rightarrow> hash \<Rightarrow> SignedRandomXWorkTicketV1 \<Rightarrow> hash \<Rightarrow> work_error option" where
  "VerifyRandomXWorkSignatureV1 cr chainID anchor submitted proofHash =
     (case RecoverRandomXWorkSignerV1 cr chainID anchor submitted proofHash of
        Inl err \<Rightarrow> Some err
      | Inr signer \<Rightarrow>
          if signer \<noteq> tk_Participant (sw_Ticket submitted) then Some ErrInvalidRandomXWorkSignature else None)"

definition RandomXWorkTargetV1 :: "int option \<Rightarrow> work_error + int" where
  "RandomXWorkTargetV1 difficulty = (case difficulty of
      None \<Rightarrow> Inl ErrInvalidRandomXWorkDifficulty
    | Some d \<Rightarrow>
        if d \<le> 0 then Inl ErrInvalidRandomXWorkDifficulty
        else let target = (2 ^ 256 - 1) div d in
          if target \<le> 0 then Inl ErrInvalidRandomXWorkDifficulty else Inr target)"

definition RandomXWorkHashMeetsTargetV1 :: "hash \<Rightarrow> int option \<Rightarrow> work_error + bool" where
  "RandomXWorkHashMeetsTargetV1 proofHash difficulty = (case RandomXWorkTargetV1 difficulty of
      Inl err \<Rightarrow> Inl err
    | Inr target \<Rightarrow> Inr (uint proofHash \<le> target))"

definition ValidateRecomputedRandomXWorkV1 ::
  "crypto \<Rightarrow> int option \<Rightarrow> hash \<Rightarrow> int option \<Rightarrow> SignedRandomXWorkTicketV1 \<Rightarrow> hash
    \<Rightarrow> work_error + VerifiedRandomXWorkTicketV1" where
  "ValidateRecomputedRandomXWorkV1 cr chainID anchor difficulty submitted proofHash =
     (case RandomXWorkHashMeetsTargetV1 proofHash difficulty of
        Inl err \<Rightarrow> Inl err
      | Inr meets \<Rightarrow>
          if \<not> meets then Inl ErrRandomXWorkTargetNotMet
          else case VerifyRandomXWorkSignatureV1 cr chainID anchor submitted proofHash of
            Some err \<Rightarrow> Inl err
          | None \<Rightarrow> Inr \<lparr>vt_Ticket = sw_Ticket submitted, vt_Hash = proofHash\<rparr>)"

section \<open>The tickets of a header\<close>

definition validateWorkTicketHeaderShapeV3 :: "SignedRandomXWorkTicketV1 \<Rightarrow> work_error option" where
  "validateWorkTicketHeaderShapeV3 submitted = (case validateRandomXWorkTicketV1 (sw_Ticket submitted) of
      Some err \<Rightarrow> Some err
    | None \<Rightarrow>
        if length (sw_Signature submitted) \<noteq> SignatureLength then Some ErrInvalidRandomXWorkSignature
        else if \<not> sig_values_ok (sw_Signature submitted) then Some ErrInvalidRandomXWorkSignature
        else None)"

definition workTicketSemanticKeyV3 :: "RandomXWorkTicketV1 \<Rightarrow> u64 \<times> address \<times> u64" where
  "workTicketSemanticKeyV3 ticket = (tk_Epoch ticket, tk_Participant ticket, tk_Nonce ticket)"

fun check_tickets ::
  "(u64 \<times> address \<times> u64) list \<Rightarrow> address list \<Rightarrow> SignedRandomXWorkTicketV1 list \<Rightarrow> work_error option" where
  "check_tickets seen seenParticipants [] = None"
| "check_tickets seen seenParticipants (submitted # rest) = (case validateWorkTicketHeaderShapeV3 submitted of
      Some err \<Rightarrow> Some err
    | None \<Rightarrow>
        let key = workTicketSemanticKeyV3 (sw_Ticket submitted) in
        if key \<in> set seen then Some ErrDuplicateWorkTicketV3
        else if tk_Participant (sw_Ticket submitted) \<in> set seenParticipants then Some ErrDuplicateWorkParticipantV1
        else check_tickets (key # seen) (tk_Participant (sw_Ticket submitted) # seenParticipants) rest)"

definition ticket_key :: "SignedRandomXWorkTicketV1 \<Rightarrow> u64 \<times> address \<times> u64 \<times> bytes" where
  "ticket_key submitted = (tk_Epoch (sw_Ticket submitted), tk_Participant (sw_Ticket submitted), tk_Nonce (sw_Ticket submitted),
     sw_Signature submitted)"

definition CanonicalWorkTicketsV3 ::
  "SignedRandomXWorkTicketV1 list \<Rightarrow> u64 \<Rightarrow> work_error + SignedRandomXWorkTicketV1 list" where
  "CanonicalWorkTicketsV3 input maxWorkTickets =
     (if maxWorkTickets = 0 then Inl ErrInvalidWorkTicketLimitV3
      else if length input > unat maxWorkTickets then Inl ErrTooManyWorkTicketsV3
      else case check_tickets [] [] input of
        Some err \<Rightarrow> Inl err
      | None \<Rightarrow> Inr (sort_key ticket_key input))"

definition signedWorkTicketsEqualV3 ::
  "SignedRandomXWorkTicketV1 list \<Rightarrow> SignedRandomXWorkTicketV1 list \<Rightarrow> bool" where
  "signedWorkTicketsEqualV3 left right \<longleftrightarrow> list_all2 (\<lambda>a b. sw_Ticket a = sw_Ticket b \<and> sw_Signature a = sw_Signature b) left right"

section \<open>Commit candidates\<close>

record WorkCommitCandidateV1 =
  wc_Signed :: SignedRandomXWorkTicketV1
  wc_ProofHash :: hash

definition workCommitPriorityDomainV1 :: bytes where
  "workCommitPriorityDomainV1 = ascii ''RABBIT-LQC-WORK-COMMIT-PRIORITY-V1''"

definition WorkCommitPriorityV1 :: "crypto \<Rightarrow> u64 \<Rightarrow> hash \<Rightarrow> work_error + hash" where
  "WorkCommitPriorityV1 cr epoch proofHash =
     (if epoch = 0 \<or> proofHash = 0 then Inl ErrInvalidWorkCommitV1
      else Inr (Keccak256Hash cr [workCommitPriorityDomainV1, u64_be epoch, hash_bytes proofHash]))"

fun check_candidates ::
  "u64 \<Rightarrow> hash list \<Rightarrow> (u64 \<times> address \<times> u64) list \<Rightarrow> address list \<Rightarrow> WorkCommitCandidateV1 list
    \<Rightarrow> work_error option" where
  "check_candidates commitEpoch seenProofs seenSemantic seenParticipants [] = None"
| "check_candidates commitEpoch seenProofs seenSemantic seenParticipants (candidate # rest) =
     (if wc_ProofHash candidate = 0 then Some ErrInvalidWorkCommitV1
      else case validateWorkTicketHeaderShapeV3 (wc_Signed candidate) of
        Some err \<Rightarrow> Some err
      | None \<Rightarrow>
          let ticket = sw_Ticket (wc_Signed candidate); key = workTicketSemanticKeyV3 ticket in
          if tk_Epoch ticket \<noteq> commitEpoch then Some ErrWorkCommitEpochMismatchV1
          else if wc_ProofHash candidate \<in> set seenProofs then Some ErrDuplicateRandomXWorkHash
          else if key \<in> set seenSemantic then Some ErrDuplicateWorkTicketV3
          else if tk_Participant ticket \<in> set seenParticipants then Some ErrDuplicateWorkParticipantV1
          else check_candidates commitEpoch (wc_ProofHash candidate # seenProofs) (key # seenSemantic)
                 (tk_Participant ticket # seenParticipants) rest)"

text \<open>The loop computes a priority for every candidate it has checked, for which \<^const>\<open>WorkCommitPriorityV1\<close> cannot
  fail.\<close>

definition candidate_key :: "crypto \<Rightarrow> u64 \<Rightarrow> WorkCommitCandidateV1 \<Rightarrow> hash \<times> hash \<times> address \<times> u64" where
  "candidate_key cr commitEpoch candidate =
     (case WorkCommitPriorityV1 cr commitEpoch (wc_ProofHash candidate) of Inl _ \<Rightarrow> 0 | Inr priority \<Rightarrow> priority,
      wc_ProofHash candidate, tk_Participant (sw_Ticket (wc_Signed candidate)), tk_Nonce (sw_Ticket (wc_Signed candidate)))"

definition CanonicalWorkCommitCandidatesV1 ::
  "crypto \<Rightarrow> WorkCommitCandidateV1 list \<Rightarrow> u64 \<Rightarrow> work_error + WorkCommitCandidateV1 list" where
  "CanonicalWorkCommitCandidatesV1 cr input commitEpoch =
     (if commitEpoch = 0 then Inl ErrInvalidWorkCommitV1
      else case check_candidates commitEpoch [] [] [] input of
        Some err \<Rightarrow> Inl err
      | None \<Rightarrow> Inr (sort_key (candidate_key cr commitEpoch) input))"

definition SelectWorkCommitBatchV1 ::
  "crypto \<Rightarrow> WorkCommitCandidateV1 list \<Rightarrow> u64 \<Rightarrow> work_error + WorkCommitCandidateV1 list" where
  "SelectWorkCommitBatchV1 cr input commitEpoch = (case CanonicalWorkCommitCandidatesV1 cr input commitEpoch of
      Inl err \<Rightarrow> Inl err
    | Inr canonical \<Rightarrow>
        let limit = unat MaxWorkTicketsPerBlockV1;
            limit = (if length canonical < limit then length canonical else limit)
        in Inr (take limit canonical))"

definition WorkCommitCapacityForBlocksV1 :: "u64 \<Rightarrow> u64" where
  "WorkCommitCapacityForBlocksV1 blocks =
     (if blocks > WorkProtocolEpochLengthV1 then WorkProtocolEpochLengthV1 else blocks) * MaxWorkTicketsPerBlockV1"

definition MinimumHonestCommitBlocksV1 :: "u64 \<Rightarrow> work_error + u64" where
  "MinimumHonestCommitBlocksV1 ticketCount =
     (if ticketCount > WorkTicketCommitCapacityPerEpochV1 then Inl ErrWorkCommitWindowOverflowV1
      else if ticketCount = 0 then Inr 0
      else let blocks = ticketCount div MaxWorkTicketsPerBlockV1 in
        Inr (if ticketCount mod MaxWorkTicketsPerBlockV1 \<noteq> 0 then blocks + 1 else blocks))"

definition MinimumHonestCommitFractionBpsV1 :: "u64 \<Rightarrow> work_error + u64" where
  "MinimumHonestCommitFractionBpsV1 ticketCount = (case MinimumHonestCommitBlocksV1 ticketCount of
      Inl err \<Rightarrow> Inl err
    | Inr blocks \<Rightarrow>
        if blocks = 0 then Inr 0
        else Inr ((blocks * 10000 + WorkProtocolEpochLengthV1 - 1) div WorkProtocolEpochLengthV1))"

section \<open>Canonical tickets\<close>

lemma shape_signature: "validateWorkTicketHeaderShapeV3 s = None \<Longrightarrow> length (sw_Signature s) = SignatureLength"
  by (auto simp: validateWorkTicketHeaderShapeV3_def split: option.splits if_splits)

lemma check_tickets_None:
  "check_tickets seen seenP xs = None \<longleftrightarrow> (\<forall>x \<in> set xs. validateWorkTicketHeaderShapeV3 x = None)
     \<and> distinct (map (tk_Participant \<circ> sw_Ticket) xs)
     \<and> (\<lambda>x. workTicketSemanticKeyV3 (sw_Ticket x)) ` set xs \<inter> set seen = {}
     \<and> (tk_Participant \<circ> sw_Ticket) ` set xs \<inter> set seenP = {}"
proof (induction seen seenP xs rule: check_tickets.induct)
  case (2 seen seenP s rest)
  have "tk_Participant (sw_Ticket s) \<notin> (tk_Participant \<circ> sw_Ticket) ` set rest \<Longrightarrow>
      workTicketSemanticKeyV3 (sw_Ticket s) \<notin> (\<lambda>x. workTicketSemanticKeyV3 (sw_Ticket x)) ` set rest"
    by (auto simp: workTicketSemanticKeyV3_def)
  with 2 show ?case by (cases "validateWorkTicketHeaderShapeV3 s") (auto simp: Let_def)
qed simp

lemma ticket_key_inj: "distinct (map (tk_Participant \<circ> sw_Ticket) xs) \<Longrightarrow> inj_on ticket_key (set xs)"
  by (auto simp: ticket_key_def distinct_map inj_on_def)

lemma CanonicalWorkTickets_iff:
  "CanonicalWorkTicketsV3 xs n = Inr ys \<longleftrightarrow> n \<noteq> 0 \<and> length xs \<le> unat n
     \<and> (\<forall>x \<in> set xs. validateWorkTicketHeaderShapeV3 x = None)
     \<and> distinct (map (tk_Participant \<circ> sw_Ticket) xs) \<and> ys = sort_key ticket_key xs"
  using check_tickets_None [of "[]" "[]" xs]
  by (auto simp: CanonicalWorkTicketsV3_def split: option.splits)

lemma signedWorkTicketsEqual_iff [simp]: "signedWorkTicketsEqualV3 xs ys \<longleftrightarrow> xs = ys"
proof -
  have "(\<lambda>a b :: SignedRandomXWorkTicketV1. sw_Ticket a = sw_Ticket b \<and> sw_Signature a = sw_Signature b) = (=)"
    by (auto simp: fun_eq_iff intro: SignedRandomXWorkTicketV1.equality)
  then show ?thesis by (simp add: signedWorkTicketsEqualV3_def list.rel_eq)
qed

section \<open>What a ticket signature covers\<close>

definition work_sign_type :: rlp_type where
  "work_sign_type = TStruct [TBytes, TUint 8, TBig, TUint 64, TArray 32, TArray 20, TUint 64, TArray 32]"

interpretation work_sign: rlp_payload work_sign_type
  "\<lambda>(c, anchor, ticket, proofHash). randomXWorkSignPayloadV1 (Some (int c)) anchor ticket proofHash"
  "\<lambda>(c, anchor, ticket, proofHash). c < 2 ^ 256"
proof unfold_locales
  show "type_ok work_sign_type" by (simp add: work_sign_type_def)
  show "has_type work_sign_type (case x of (c, anchor, ticket, proofHash) \<Rightarrow>
      randomXWorkSignPayloadV1 (Some (int c)) anchor ticket proofHash)" for x
    by (cases x) (simp add: work_sign_type_def randomXWorkSignPayloadV1_def big_val_def)
  show "vsize (case x of (c, anchor, ticket, proofHash) \<Rightarrow> randomXWorkSignPayloadV1 (Some (int c)) anchor ticket proofHash) < 2 ^ 64"
    if "case x of (c, anchor, ticket, proofHash) \<Rightarrow> c < 2 ^ 256" for x
    using that length_be_min_256 [of "fst x"]
    by (cases x) (simp add: randomXWorkSignPayloadV1_def big_val_def randomXWorkSignDomainV1_def ascii_def)
  show "x = y" if "(case x of (c, anchor, ticket, proofHash) \<Rightarrow> randomXWorkSignPayloadV1 (Some (int c)) anchor ticket proofHash)
      = (case y of (c, anchor, ticket, proofHash) \<Rightarrow> randomXWorkSignPayloadV1 (Some (int c)) anchor ticket proofHash)" for x y
    using that by (cases x, cases y)
      (auto simp: randomXWorkSignPayloadV1_def big_val_def dest: arg_cong [of _ _ "ucast :: u64 \<Rightarrow> u8"]
        intro!: RandomXWorkTicketV1.equality)
qed

section \<open>The admission order\<close>

lemma check_candidates_None:
  "check_candidates e seenH seenK seenP xs = None \<longleftrightarrow>
     (\<forall>x \<in> set xs. wc_ProofHash x \<noteq> 0 \<and> validateWorkTicketHeaderShapeV3 (wc_Signed x) = None
        \<and> tk_Epoch (sw_Ticket (wc_Signed x)) = e)
     \<and> distinct (map wc_ProofHash xs) \<and> distinct (map (tk_Participant \<circ> sw_Ticket \<circ> wc_Signed) xs)
     \<and> wc_ProofHash ` set xs \<inter> set seenH = {}
     \<and> (\<lambda>x. workTicketSemanticKeyV3 (sw_Ticket (wc_Signed x))) ` set xs \<inter> set seenK = {}
     \<and> (tk_Participant \<circ> sw_Ticket \<circ> wc_Signed) ` set xs \<inter> set seenP = {}"
proof (induction e seenH seenK seenP xs rule: check_candidates.induct)
  case (2 e seenH seenK seenP s rest)
  have "tk_Participant (sw_Ticket (wc_Signed s)) \<notin> (tk_Participant \<circ> sw_Ticket \<circ> wc_Signed) ` set rest \<Longrightarrow>
      workTicketSemanticKeyV3 (sw_Ticket (wc_Signed s)) \<notin> (\<lambda>x. workTicketSemanticKeyV3 (sw_Ticket (wc_Signed x))) ` set rest"
    by (auto simp: workTicketSemanticKeyV3_def)
  with 2 show ?case by (cases "validateWorkTicketHeaderShapeV3 (wc_Signed s)") (auto simp: Let_def)
qed simp

lemma CanonicalCandidates_iff:
  "CanonicalWorkCommitCandidatesV1 cr xs e = Inr ys \<longleftrightarrow> e \<noteq> 0
     \<and> (\<forall>x \<in> set xs. wc_ProofHash x \<noteq> 0 \<and> validateWorkTicketHeaderShapeV3 (wc_Signed x) = None
        \<and> tk_Epoch (sw_Ticket (wc_Signed x)) = e)
     \<and> distinct (map wc_ProofHash xs) \<and> distinct (map (tk_Participant \<circ> sw_Ticket \<circ> wc_Signed) xs)
     \<and> ys = sort_key (candidate_key cr e) xs"
  using check_candidates_None [of e "[]" "[]" "[]" xs]
  by (auto simp: CanonicalWorkCommitCandidatesV1_def split: option.splits)

lemma SelectWorkCommitBatch_iff:
  "SelectWorkCommitBatchV1 cr xs e = Inr b \<longleftrightarrow> (\<exists>ys. CanonicalWorkCommitCandidatesV1 cr xs e = Inr ys \<and> b = take 8 ys)"
  by (auto simp: SelectWorkCommitBatchV1_def MaxWorkTicketsPerBlockV1_def Let_def split: sum.splits)

lemma candidate_key_inj: "distinct (map wc_ProofHash xs) \<Longrightarrow> inj_on (candidate_key cr e) (set xs)"
  by (auto simp: candidate_key_def distinct_map inj_on_def)

lemma SelectWorkCommitBatch_perm:
  assumes "mset xs = mset ys"
  shows "SelectWorkCommitBatchV1 cr xs e = Inr b \<longleftrightarrow> SelectWorkCommitBatchV1 cr ys e = Inr b"
proof -
  have s: "sort_key (candidate_key cr e) xs = sort_key (candidate_key cr e) ys" if "distinct (map wc_ProofHash ys)"
    using assms candidate_key_inj [OF that] by (intro sort_key_perm_cong)
  have "set xs = set ys" using assms by (rule mset_eq_setD)
  moreover have "distinct (map wc_ProofHash xs) \<longleftrightarrow> distinct (map wc_ProofHash ys)"
      "distinct (map (tk_Participant \<circ> sw_Ticket \<circ> wc_Signed) xs) \<longleftrightarrow> distinct (map (tk_Participant \<circ> sw_Ticket \<circ> wc_Signed) ys)"
    using distinct_map_mset [OF assms] by blast+
  ultimately show ?thesis
    using s unfolding SelectWorkCommitBatch_iff CanonicalCandidates_iff by metis
qed

lemma SelectWorkCommitBatch_best:
  assumes "SelectWorkCommitBatchV1 cr xs e = Inr b"
  shows "length b = min 8 (length xs)" and "distinct (map (tk_Participant \<circ> sw_Ticket \<circ> wc_Signed) b)"
    and "\<exists>rest. mset (b @ rest) = mset xs \<and> (\<forall>x \<in> set b. \<forall>y \<in> set rest. candidate_key cr e x \<le> candidate_key cr e y)"
proof -
  let ?ys = "sort_key (candidate_key cr e) xs"
  have b: "b = take 8 ?ys" and d: "distinct (map (tk_Participant \<circ> sw_Ticket \<circ> wc_Signed) xs)"
    using assms by (auto simp: SelectWorkCommitBatch_iff CanonicalCandidates_iff)
  show "length b = min 8 (length xs)" using b by simp
  have "distinct (map (tk_Participant \<circ> sw_Ticket \<circ> wc_Signed) ?ys)"
    by (rule distinct_map_mset [THEN iffD2, OF mset_sort d])
  then show "distinct (map (tk_Participant \<circ> sw_Ticket \<circ> wc_Signed) b)"
    unfolding b take_map [symmetric] by (rule distinct_take)
  have "mset (b @ drop 8 ?ys) = mset xs" unfolding b by (simp only: append_take_drop_id mset_sort)
  moreover have "\<forall>x \<in> set b. \<forall>y \<in> set (drop 8 ?ys). candidate_key cr e x \<le> candidate_key cr e y"
    unfolding b using take_sorted_split [of "candidate_key cr e" ?ys] sorted_sort_key [of "candidate_key cr e"] by blast
  ultimately show "\<exists>rest. mset (b @ rest) = mset xs
      \<and> (\<forall>x \<in> set b. \<forall>y \<in> set rest. candidate_key cr e x \<le> candidate_key cr e y)" by blast
qed

section \<open>Properties\<close>

lemma ValidateRecomputed_Inr:
  assumes "ValidateRecomputedRandomXWorkV1 cr chainID anchor difficulty s h = Inr v"
  obtains c d where "chainID = Some c" "0 < c" "difficulty = Some d" "0 < d" "uint h \<le> (2 ^ 256 - 1) div d"
    "anchor \<noteq> 0" "validateRandomXWorkTicketV1 (sw_Ticket s) = None" "sig_values_ok (sw_Signature s)"
    "sigToAddress cr (Keccak256Hash cr [EncodeToBytes (randomXWorkSignPayloadV1 chainID anchor (sw_Ticket s) h)])
       (sw_Signature s) = Some (tk_Participant (sw_Ticket s))"
    "v = \<lparr>vt_Ticket = sw_Ticket s, vt_Hash = h\<rparr>"
proof -
  obtain t where t: "RandomXWorkTargetV1 difficulty = Inr t" "uint h \<le> t"
      and sig: "VerifyRandomXWorkSignatureV1 cr chainID anchor s h = None" and v: "v = \<lparr>vt_Ticket = sw_Ticket s, vt_Hash = h\<rparr>"
    using assms by (auto simp: ValidateRecomputedRandomXWorkV1_def RandomXWorkHashMeetsTargetV1_def
        split: sum.splits if_splits option.splits)
  obtain d where d: "difficulty = Some d" "0 < d" "t = (2 ^ 256 - 1) div d"
    using t(1) by (auto simp: RandomXWorkTargetV1_def Let_def split: option.splits if_splits)
  obtain k where k: "sig_values_ok (sw_Signature s)" "RandomXWorkSigningHashV1 cr chainID anchor (sw_Ticket s) h = Inr k"
      "sigToAddress cr k (sw_Signature s) = Some (tk_Participant (sw_Ticket s))"
    using sig by (auto simp: VerifyRandomXWorkSignatureV1_def RecoverRandomXWorkSignerV1_def
        split: sum.splits if_splits option.splits)
  have ctx: "validateRandomXWorkContextV1 chainID anchor (sw_Ticket s) = None"
      and key: "k = Keccak256Hash cr [EncodeToBytes (randomXWorkSignPayloadV1 chainID anchor (sw_Ticket s) h)]"
    using k(2) by (auto simp: RandomXWorkSigningHashV1_def split: option.splits)
  obtain c where "chainID = Some c" "0 < c" "anchor \<noteq> 0" "validateRandomXWorkTicketV1 (sw_Ticket s) = None"
    using ctx by (auto simp: validateRandomXWorkContextV1_def not_positive_def split: if_splits option.splits)
  with that d t(2) k key v show thesis by metis
qed

lemma work_target_mult:
  assumes "0 < (d :: int)" and "x \<le> (2 ^ 256 - 1) div d"
  shows "x * d < 2 ^ 256"
proof -
  have "x * d \<le> (2 ^ 256 - 1) div d * d" using assms by (intro mult_right_mono) auto
  also have "\<dots> \<le> 2 ^ 256 - 1"
    using assms(1) div_mult_mod_eq [of "2 ^ 256 - 1" d] pos_mod_sign [of d "2 ^ 256 - 1"] by linarith
  finally show ?thesis by simp
qed

text \<open>Claim C36: a work ticket is accepted only with enough work by its owner. Its hash times the difficulty is below \<open>2 ^ 256\<close>, the
  context is proper, and the signature, in its one low-s form, recovers to the ticket's participant over bytes that
  determine the chain, the anchor, every field of the ticket and the hash.\<close>

theorem work_ticket_verified:
  assumes "ValidateRecomputedRandomXWorkV1 cr chainID anchor difficulty s h = Inr v"
  shows "v = \<lparr>vt_Ticket = sw_Ticket s, vt_Hash = h\<rparr>
    \<and> (\<exists>d. difficulty = Some d \<and> 0 < d \<and> uint h * d < 2 ^ 256)
    \<and> anchor \<noteq> 0 \<and> validateRandomXWorkTicketV1 (sw_Ticket s) = None \<and> sig_values_ok (sw_Signature s)
    \<and> sigToAddress cr (Keccak256Hash cr [EncodeToBytes (randomXWorkSignPayloadV1 chainID anchor (sw_Ticket s) h)])
        (sw_Signature s) = Some (tk_Participant (sw_Ticket s))
    \<and> (\<exists>c. chainID = Some c \<and> 0 < c \<and> (\<forall>c' anchor' ticket' h'. 0 < c' \<longrightarrow> c < 2 ^ 256 \<longrightarrow> c' < 2 ^ 256 \<longrightarrow>
        EncodeToBytes (randomXWorkSignPayloadV1 (Some c') anchor' ticket' h') =
          EncodeToBytes (randomXWorkSignPayloadV1 chainID anchor (sw_Ticket s) h) \<longrightarrow>
        c' = c \<and> anchor' = anchor \<and> ticket' = sw_Ticket s \<and> h' = h))"
proof -
  obtain c d where x: "chainID = Some c" "0 < c" "difficulty = Some d" "0 < d" "uint h \<le> (2 ^ 256 - 1) div d"
    "anchor \<noteq> 0" "validateRandomXWorkTicketV1 (sw_Ticket s) = None" "sig_values_ok (sw_Signature s)"
    "sigToAddress cr (Keccak256Hash cr [EncodeToBytes (randomXWorkSignPayloadV1 chainID anchor (sw_Ticket s) h)])
       (sw_Signature s) = Some (tk_Participant (sw_Ticket s))"
    "v = \<lparr>vt_Ticket = sw_Ticket s, vt_Hash = h\<rparr>"
    using assms by (rule ValidateRecomputed_Inr)
  have "uint h * d < 2 ^ 256" by (rule work_target_mult [OF x(4,5)])
  moreover have "c' = c \<and> anchor' = anchor \<and> ticket' = sw_Ticket s \<and> h' = h"
    if "0 < c'" "c < 2 ^ 256" "c' < 2 ^ 256" "EncodeToBytes (randomXWorkSignPayloadV1 (Some c') anchor' ticket' h') =
      EncodeToBytes (randomXWorkSignPayloadV1 chainID anchor (sw_Ticket s) h)" for c' anchor' ticket' h'
    using that x(1,2) work_sign.encode_inject [of "(nat c', anchor', ticket', h')" "(nat c, anchor, sw_Ticket s, h)"]
    by (simp add: nat_less_iff) (simp add: eq_nat_nat_iff)
  ultimately show ?thesis using x by blast
qed

definition sample_ticket :: SignedRandomXWorkTicketV1 where
  "sample_ticket = \<lparr>sw_Ticket = \<lparr>tk_Version = 2, tk_Epoch = 1, tk_Participant = 3, tk_Nonce = 9\<rparr>,
     sw_Signature = sample_signature 3\<rparr>"

theorem work_ticket_verified_witness:
  "ValidateRecomputedRandomXWorkV1 sample_crypto (Some 1) 5 (Some 4) sample_ticket 7 =
     Inr \<lparr>vt_Ticket = sw_Ticket sample_ticket, vt_Hash = 7\<rparr> \<and> uint (7 :: hash) * 4 < 2 ^ 256"
proof -
  have v: "ValidateRecomputedRandomXWorkV1 sample_crypto (Some 1) 5 (Some 4) sample_ticket 7 =
     Inr \<lparr>vt_Ticket = sw_Ticket sample_ticket, vt_Hash = 7\<rparr>"
    by (simp add: ValidateRecomputedRandomXWorkV1_def RandomXWorkHashMeetsTargetV1_def RandomXWorkTargetV1_def Let_def
        VerifyRandomXWorkSignatureV1_def RecoverRandomXWorkSignerV1_def RandomXWorkSigningHashV1_def
        validateRandomXWorkContextV1_def not_positive_def validateRandomXWorkTicketV1_def RandomXWorkProtocolVersion_def
        sample_ticket_def SignatureLength_def)
  with work_ticket_verified [OF v] show ?thesis by simp
qed

text \<open>Claim C37: the commit batch of a producer does not depend on the order in which it saw the candidates: it is the (at most
  eight) candidates of highest priority, one for each participant.\<close>

theorem work_commit_batch:
  assumes "SelectWorkCommitBatchV1 cr xs e = Inr b"
  shows "length b = min 8 (length xs) \<and> distinct (map (tk_Participant \<circ> sw_Ticket \<circ> wc_Signed) b)
    \<and> (\<exists>rest. mset (b @ rest) = mset xs \<and> (\<forall>x \<in> set b. \<forall>y \<in> set rest. candidate_key cr e x \<le> candidate_key cr e y))
    \<and> (mset ys = mset xs \<longrightarrow> SelectWorkCommitBatchV1 cr ys e = Inr b)"
  using SelectWorkCommitBatch_best [OF assms] SelectWorkCommitBatch_perm [of ys xs cr e b] assms by blast

theorem work_commit_batch_witness:
  "\<exists>b. SelectWorkCommitBatchV1 sample_crypto [\<lparr>wc_Signed = sample_ticket, wc_ProofHash = 7\<rparr>] 1 = Inr b \<and> length b = 1"
proof -
  have "CanonicalWorkCommitCandidatesV1 sample_crypto [\<lparr>wc_Signed = sample_ticket, wc_ProofHash = 7\<rparr>] 1 =
      Inr [\<lparr>wc_Signed = sample_ticket, wc_ProofHash = 7\<rparr>]"
    by (simp add: CanonicalCandidates_iff validateWorkTicketHeaderShapeV3_def validateRandomXWorkTicketV1_def
        RandomXWorkProtocolVersion_def sample_ticket_def SignatureLength_def)
  then obtain b where "SelectWorkCommitBatchV1 sample_crypto [\<lparr>wc_Signed = sample_ticket, wc_ProofHash = 7\<rparr>] 1 = Inr b"
    by (auto simp: SelectWorkCommitBatch_iff)
  with work_commit_batch [OF this] show ?thesis by auto
qed

end
