(* ===== verification/Committee_Claims.thy ===== *)
theory Committee_Claims
  imports Work_Protocol
begin

unbundle bit_operations_syntax

text \<open>
  Committee participation: the proof a selected seat signs for a block (\<open>consensus/lqc/committee_participation_v1.go\<close>), its
  batches and compact form (\<open>committee_participation_batch_v1.go\<close>, \<open>committee_participation_codec_v1.go\<close>), the claim groups
  of a header (\<open>committee_participation_claim_v1.go\<close>) with their verification (\<open>committee_participation_verify_v1.go\<close>), the
  ledger of claimed positions (\<open>committee_claim_ledger_v1.go\<close>) and the reward of a claim (\<open>committee_claim_reward_v1.go\<close>).
  The RandomX hasher is the function field of the verification context. A fixed byte array is a byte list.
\<close>

section \<open>Participation proofs\<close>

datatype claim_error =
    ErrInvalidCommitteeParticipationV1
  | ErrInvalidCommitteeSignatureV1
  | ErrCommitteeParticipantNotSelectedV1
  | ErrTooManyCommitteeParticipationsV1
  | ErrDuplicateCommitteeParticipationV1
  | ErrMixedCommitteeParticipationV1
  | ErrInvalidCompactCommitteeParticipationV1
  | ErrNonCanonicalCommitteeParticipationV1
  | ErrInvalidCommitteeParticipationClaimV1
  | ErrExpiredCommitteeParticipationClaimV1
  | ErrDuplicateCommitteeParticipationClaimV1
  | ErrNonCanonicalCommitteeClaimsV1
  | ErrInvalidCommitteeParticipationVerificationV1
  | ErrCommitteeHasher
  | ErrInvalidCommitteeClaimLedgerV1
  | ErrCommitteeParticipationClaimedV1
  | ErrInvalidCommitteeClaimRewardV1

definition CommitteeParticipationVersionV1 :: u8 where
  "CommitteeParticipationVersionV1 = 1"

definition committeeParticipationInputDomainV1 :: bytes where
  "committeeParticipationInputDomainV1 = ascii ''RABBIT-LQC-COMMITTEE-PARTICIPATION-INPUT-V1''"

definition committeeParticipationSignDomainV1 :: bytes where
  "committeeParticipationSignDomainV1 = ascii ''RABBIT-LQC-COMMITTEE-PARTICIPATION-SIGN-V1''"

record CommitteeParticipationV1 =
  pa_Version :: u8
  pa_BlockNumber :: u64
  pa_ParentHash :: hash
  pa_SelectionRoot :: hash
  pa_TicketHash :: hash
  pa_Participant :: address
  pa_Signature :: bytes

definition validateCommitteeParticipationContextV1 ::
  "int option \<Rightarrow> CommitteeParticipationV1 \<Rightarrow> claim_error option" where
  "validateCommitteeParticipationContextV1 chainID proof =
     (if not_positive chainID \<or> pa_Version proof \<noteq> CommitteeParticipationVersionV1 \<or> pa_BlockNumber proof = 0
         \<or> pa_ParentHash proof = 0 \<or> pa_SelectionRoot proof = 0 \<or> pa_TicketHash proof = 0 \<or> pa_Participant proof = 0
      then Some ErrInvalidCommitteeParticipationV1 else None)"

definition committeeParticipationInputPayloadV1 :: "int option \<Rightarrow> CommitteeParticipationV1 \<Rightarrow> rlp_val" where
  "committeeParticipationInputPayloadV1 chainID proof = VStruct [VBytes committeeParticipationInputDomainV1,
     VUint (ucast (pa_Version proof)), big_val chainID, VUint (pa_BlockNumber proof), VArray (hash_bytes (pa_ParentHash proof)),
     VArray (hash_bytes (pa_SelectionRoot proof)), VArray (hash_bytes (pa_TicketHash proof)),
     VArray (addr_bytes (pa_Participant proof))]"

definition committeeParticipationSignPayloadV1 :: "int option \<Rightarrow> CommitteeParticipationV1 \<Rightarrow> hash \<Rightarrow> rlp_val" where
  "committeeParticipationSignPayloadV1 chainID proof proofHash = VStruct [VBytes committeeParticipationSignDomainV1,
     VUint (ucast (pa_Version proof)), big_val chainID, VUint (pa_BlockNumber proof), VArray (hash_bytes (pa_ParentHash proof)),
     VArray (hash_bytes (pa_SelectionRoot proof)), VArray (hash_bytes (pa_TicketHash proof)),
     VArray (addr_bytes (pa_Participant proof)), VArray (hash_bytes proofHash)]"

definition CommitteeParticipationInputV1 :: "int option \<Rightarrow> CommitteeParticipationV1 \<Rightarrow> claim_error + bytes" where
  "CommitteeParticipationInputV1 chainID proof = (case validateCommitteeParticipationContextV1 chainID proof of
      Some err \<Rightarrow> Inl err
    | None \<Rightarrow> Inr (EncodeToBytes (committeeParticipationInputPayloadV1 chainID proof)))"

definition CommitteeParticipationSigningDataV1 ::
  "int option \<Rightarrow> CommitteeParticipationV1 \<Rightarrow> hash \<Rightarrow> claim_error + bytes" where
  "CommitteeParticipationSigningDataV1 chainID proof proofHash =
     (if validateCommitteeParticipationContextV1 chainID proof \<noteq> None \<or> proofHash = 0
      then Inl ErrInvalidCommitteeParticipationV1
      else Inr (EncodeToBytes (committeeParticipationSignPayloadV1 chainID proof proofHash)))"

definition CommitteeParticipationSigningHashV1 ::
  "crypto \<Rightarrow> int option \<Rightarrow> CommitteeParticipationV1 \<Rightarrow> hash \<Rightarrow> claim_error + hash" where
  "CommitteeParticipationSigningHashV1 cr chainID proof proofHash =
     (case CommitteeParticipationSigningDataV1 chainID proof proofHash of
        Inl err \<Rightarrow> Inl err
      | Inr encoded \<Rightarrow> Inr (Keccak256Hash cr [encoded]))"

definition VerifyCommitteeParticipationV1 ::
  "crypto \<Rightarrow> int option \<Rightarrow> WorkSeatV1 \<Rightarrow> CommitteeParticipationV1 \<Rightarrow> hash \<Rightarrow> claim_error option" where
  "VerifyCommitteeParticipationV1 cr chainID selected proof proofHash =
     (if ws_Participant selected \<noteq> pa_Participant proof \<or> ws_TicketHash selected \<noteq> pa_TicketHash proof
      then Some ErrCommitteeParticipantNotSelectedV1
      else if length (pa_Signature proof) \<noteq> SignatureLength then Some ErrInvalidCommitteeSignatureV1
      else case CommitteeParticipationSigningHashV1 cr chainID proof proofHash of
        Inl err \<Rightarrow> Some err
      | Inr signingHash \<Rightarrow>
          if sigToAddress cr signingHash (pa_Signature proof) \<noteq> Some (pa_Participant proof)
          then Some ErrInvalidCommitteeSignatureV1 else None)"

section \<open>Batches and the compact form\<close>

definition MaxCommitteeParticipationsV1 :: nat where
  "MaxCommitteeParticipationsV1 = 128"

fun check_selected :: "address list \<Rightarrow> hash list \<Rightarrow> WorkSeatV1 list \<Rightarrow> claim_error option" where
  "check_selected seenParticipants seenTickets [] = None"
| "check_selected seenParticipants seenTickets (seat # rest) =
     (if ws_Participant seat = 0 \<or> ws_TicketHash seat = 0 then Some ErrCommitteeParticipantNotSelectedV1
      else if ws_Participant seat \<in> set seenParticipants then Some ErrDuplicateCommitteeParticipationV1
      else if ws_TicketHash seat \<in> set seenTickets then Some ErrDuplicateCommitteeParticipationV1
      else check_selected (ws_Participant seat # seenParticipants) (ws_TicketHash seat # seenTickets) rest)"

text \<open>The position of a participant among the selected seats.\<close>

fun seat_position :: "WorkSeatV1 list \<Rightarrow> address \<Rightarrow> nat option" where
  "seat_position [] participant = None"
| "seat_position (seat # rest) participant =
     (if ws_Participant seat = participant then Some 0 else map_option Suc (seat_position rest participant))"

fun check_proofs ::
  "WorkSeatV1 list \<Rightarrow> CommitteeParticipationV1 \<Rightarrow> address list \<Rightarrow> hash list \<Rightarrow> CommitteeParticipationV1 list
    \<Rightarrow> claim_error option" where
  "check_proofs selected context seenParticipants seenTickets [] = None"
| "check_proofs selected context seenParticipants seenTickets (proof # rest) =
     (if pa_Version proof \<noteq> pa_Version context \<or> pa_BlockNumber proof \<noteq> pa_BlockNumber context
         \<or> pa_ParentHash proof \<noteq> pa_ParentHash context \<or> pa_SelectionRoot proof \<noteq> pa_SelectionRoot context
      then Some ErrMixedCommitteeParticipationV1
      else if (case seat_position selected (pa_Participant proof) of
                 None \<Rightarrow> True | Some position \<Rightarrow> ws_TicketHash (selected ! position) \<noteq> pa_TicketHash proof)
      then Some ErrCommitteeParticipantNotSelectedV1
      else if pa_Participant proof \<in> set seenParticipants then Some ErrDuplicateCommitteeParticipationV1
      else if pa_TicketHash proof \<in> set seenTickets then Some ErrDuplicateCommitteeParticipationV1
      else check_proofs selected context (pa_Participant proof # seenParticipants) (pa_TicketHash proof # seenTickets) rest)"

definition proof_position :: "WorkSeatV1 list \<Rightarrow> CommitteeParticipationV1 \<Rightarrow> nat" where
  "proof_position selected proof = (case seat_position selected (pa_Participant proof) of None \<Rightarrow> 0 | Some i \<Rightarrow> i)"

definition CanonicalizeCommitteeParticipationsV1 ::
  "WorkSeatV1 list \<Rightarrow> CommitteeParticipationV1 list \<Rightarrow> claim_error + CommitteeParticipationV1 list" where
  "CanonicalizeCommitteeParticipationsV1 selected proofs =
     (if length selected > MaxCommitteeParticipationsV1 \<or> length proofs > MaxCommitteeParticipationsV1
         \<or> length proofs > length selected then Inl ErrTooManyCommitteeParticipationsV1
      else case proofs of
        [] \<Rightarrow> Inr []
      | context # _ \<Rightarrow>
          (case check_selected [] [] selected of
             Some err \<Rightarrow> Inl err
           | None \<Rightarrow>
               (case check_proofs selected context [] [] proofs of
                  Some err \<Rightarrow> Inl err
                | None \<Rightarrow> Inr (sort_key (proof_position selected) proofs))))"

record CompactCommitteeParticipationV1 =
  cc_Position :: u8
  cc_Signature :: bytes

definition CompactCommitteeParticipationsV1 ::
  "WorkSeatV1 list \<Rightarrow> CommitteeParticipationV1 list \<Rightarrow> claim_error + CompactCommitteeParticipationV1 list" where
  "CompactCommitteeParticipationsV1 selected proofs = (case CanonicalizeCommitteeParticipationsV1 selected proofs of
      Inl err \<Rightarrow> Inl err
    | Inr canonical \<Rightarrow>
        if \<exists>proof \<in> set canonical. length (pa_Signature proof) \<noteq> SignatureLength
        then Inl ErrInvalidCompactCommitteeParticipationV1
        else Inr (map (\<lambda>proof. \<lparr>cc_Position = of_nat (proof_position selected proof),
               cc_Signature = pa_Signature proof\<rparr>) canonical))"

fun expand_items ::
  "u64 \<Rightarrow> hash \<Rightarrow> hash \<Rightarrow> WorkSeatV1 list \<Rightarrow> int \<Rightarrow> CompactCommitteeParticipationV1 list
    \<Rightarrow> claim_error + CommitteeParticipationV1 list" where
  "expand_items blockNumber parentHash selectionRoot selected previous [] = Inr []"
| "expand_items blockNumber parentHash selectionRoot selected previous (item # rest) =
     (let position = unat (cc_Position item) in
      if position \<ge> length selected then Inl ErrCommitteeParticipantNotSelectedV1
      else if int position \<le> previous then Inl ErrNonCanonicalCommitteeParticipationV1
      else if length (cc_Signature item) \<noteq> SignatureLength then Inl ErrInvalidCompactCommitteeParticipationV1
      else
        let seat = selected ! position in
        if ws_Participant seat = 0 \<or> ws_TicketHash seat = 0 then Inl ErrCommitteeParticipantNotSelectedV1
        else case expand_items blockNumber parentHash selectionRoot selected (int position) rest of
          Inl err \<Rightarrow> Inl err
        | Inr out \<Rightarrow> Inr (\<lparr>pa_Version = CommitteeParticipationVersionV1, pa_BlockNumber = blockNumber,
            pa_ParentHash = parentHash, pa_SelectionRoot = selectionRoot, pa_TicketHash = ws_TicketHash seat,
            pa_Participant = ws_Participant seat, pa_Signature = cc_Signature item\<rparr> # out))"

definition ExpandCommitteeParticipationsV1 ::
  "u64 \<Rightarrow> hash \<Rightarrow> hash \<Rightarrow> WorkSeatV1 list \<Rightarrow> CompactCommitteeParticipationV1 list
    \<Rightarrow> claim_error + CommitteeParticipationV1 list" where
  "ExpandCommitteeParticipationsV1 blockNumber parentHash selectionRoot selected items =
     (if blockNumber = 0 \<or> parentHash = 0 \<or> selectionRoot = 0 \<or> length selected > MaxCommitteeParticipationsV1
         \<or> length items > MaxCommitteeParticipationsV1 \<or> length items > length selected
      then Inl ErrInvalidCompactCommitteeParticipationV1
      else expand_items blockNumber parentHash selectionRoot selected (- 1) items)"

section \<open>Claim groups\<close>

definition CommitteeParticipationClaimWindowV1 :: u64 where
  "CommitteeParticipationClaimWindowV1 = 8"

record CommitteeParticipationClaimGroupV1 =
  cg_TargetBlock :: u64
  cg_Participations :: "CompactCommitteeParticipationV1 list"

fun check_claims :: "u8 list \<Rightarrow> CompactCommitteeParticipationV1 list \<Rightarrow> claim_error option" where
  "check_claims seenPositions [] = None"
| "check_claims seenPositions (item # rest) =
     (if unat (cc_Position item) \<ge> MaxCommitteeParticipationsV1 \<or> length (cc_Signature item) \<noteq> SignatureLength
      then Some ErrInvalidCommitteeParticipationClaimV1
      else if cc_Position item \<in> set seenPositions then Some ErrDuplicateCommitteeParticipationClaimV1
      else check_claims (cc_Position item # seenPositions) rest)"

fun check_groups :: "u64 \<Rightarrow> nat \<Rightarrow> u64 list \<Rightarrow> CommitteeParticipationClaimGroupV1 list \<Rightarrow> claim_error option" where
  "check_groups inclusionBlock counted seenTargets [] = None"
| "check_groups inclusionBlock counted seenTargets (grp # rest) =
     (if cg_TargetBlock grp = 0 \<or> cg_TargetBlock grp \<ge> inclusionBlock \<or> cg_Participations grp = []
      then Some ErrInvalidCommitteeParticipationClaimV1
      else if inclusionBlock - cg_TargetBlock grp > CommitteeParticipationClaimWindowV1
      then Some ErrExpiredCommitteeParticipationClaimV1
      else if cg_TargetBlock grp \<in> set seenTargets then Some ErrDuplicateCommitteeParticipationClaimV1
      else
        let counted = counted + length (cg_Participations grp) in
        if counted > MaxCommitteeParticipationsV1 then Some ErrTooManyCommitteeParticipationsV1
        else case check_claims [] (cg_Participations grp) of
          Some err \<Rightarrow> Some err
        | None \<Rightarrow> check_groups inclusionBlock counted (cg_TargetBlock grp # seenTargets) rest)"

definition sort_group :: "CommitteeParticipationClaimGroupV1 \<Rightarrow> CommitteeParticipationClaimGroupV1" where
  "sort_group grp = grp\<lparr>cg_Participations := sort_key cc_Position (cg_Participations grp)\<rparr>"

definition CanonicalCommitteeParticipationClaimGroupsV1 ::
  "u64 \<Rightarrow> CommitteeParticipationClaimGroupV1 list \<Rightarrow> claim_error + CommitteeParticipationClaimGroupV1 list" where
  "CanonicalCommitteeParticipationClaimGroupsV1 inclusionBlock input =
     (if inclusionBlock \<le> 1 then Inl ErrInvalidCommitteeParticipationClaimV1
      else case check_groups inclusionBlock 0 [] input of
        Some err \<Rightarrow> Inl err
      | None \<Rightarrow> Inr (sort_key cg_TargetBlock (map sort_group input)))"

definition committeeParticipationClaimGroupsEqualV1 ::
  "CommitteeParticipationClaimGroupV1 list \<Rightarrow> CommitteeParticipationClaimGroupV1 list \<Rightarrow> bool" where
  "committeeParticipationClaimGroupsEqualV1 left right \<longleftrightarrow>
     list_all2 (\<lambda>l r. cg_TargetBlock l = cg_TargetBlock r \<and> list_all2 (\<lambda>a b. cc_Position a = cc_Position b
        \<and> cc_Signature a = cc_Signature b) (cg_Participations l) (cg_Participations r)) left right"

definition ValidateCanonicalCommitteeParticipationClaimGroupsV1 ::
  "u64 \<Rightarrow> CommitteeParticipationClaimGroupV1 list \<Rightarrow> claim_error option" where
  "ValidateCanonicalCommitteeParticipationClaimGroupsV1 inclusionBlock input =
     (case CanonicalCommitteeParticipationClaimGroupsV1 inclusionBlock input of
        Inl err \<Rightarrow> Some err
      | Inr canonical \<Rightarrow>
          if \<not> committeeParticipationClaimGroupsEqualV1 canonical input then Some ErrNonCanonicalCommitteeClaimsV1
          else None)"

definition ExpandCommitteeParticipationClaimGroupV1 ::
  "hash \<Rightarrow> hash \<Rightarrow> WorkSeatV1 list \<Rightarrow> CommitteeParticipationClaimGroupV1 \<Rightarrow> claim_error + CommitteeParticipationV1 list" where
  "ExpandCommitteeParticipationClaimGroupV1 parentHash selectionRoot selected grp =
     ExpandCommitteeParticipationsV1 (cg_TargetBlock grp) parentHash selectionRoot selected (cg_Participations grp)"

section \<open>Verification of a claim group\<close>

record CommitteeParticipationVerificationContextV1 =
  vc_ChainID :: "int option"
  vc_DatasetKey :: hash
  vc_ParentHash :: hash
  vc_SelectionRoot :: hash
  vc_Committee :: "WorkSeatV1 list"
  vc_Hasher :: "(hash \<Rightarrow> bytes \<Rightarrow> hash option) option"
    \<comment> \<open>the shared RandomX hasher; an inner \<open>None\<close> is a hashing error\<close>

record VerifiedCommitteeParticipationV1 =
  vp_TargetBlock :: u64
  vp_Position :: u8
  vp_Seat :: WorkSeatV1
  vp_ProofHash :: hash

fun verify_items ::
  "crypto \<Rightarrow> CommitteeParticipationVerificationContextV1 \<Rightarrow> (hash \<Rightarrow> bytes \<Rightarrow> hash option) \<Rightarrow> u64
    \<Rightarrow> (CompactCommitteeParticipationV1 \<times> CommitteeParticipationV1) list
    \<Rightarrow> claim_error + VerifiedCommitteeParticipationV1 list" where
  "verify_items cr ctx hasher target [] = Inr []"
| "verify_items cr ctx hasher target ((item, proof) # rest) =
     (case CommitteeParticipationInputV1 (vc_ChainID ctx) proof of
        Inl err \<Rightarrow> Inl err
      | Inr input \<Rightarrow>
          (case hasher (vc_DatasetKey ctx) input of
             None \<Rightarrow> Inl ErrCommitteeHasher
           | Some proofHash \<Rightarrow>
               let seat = vc_Committee ctx ! unat (cc_Position item) in
               (case VerifyCommitteeParticipationV1 cr (vc_ChainID ctx) seat proof proofHash of
                  Some err \<Rightarrow> Inl err
                | None \<Rightarrow>
                    (case verify_items cr ctx hasher target rest of
                       Inl err \<Rightarrow> Inl err
                     | Inr verified \<Rightarrow> Inr (\<lparr>vp_TargetBlock = target, vp_Position = cc_Position item,
                         vp_Seat = seat, vp_ProofHash = proofHash\<rparr> # verified)))))"

definition VerifyCommitteeParticipationClaimGroupV1 ::
  "crypto \<Rightarrow> CommitteeParticipationVerificationContextV1 \<Rightarrow> CommitteeParticipationClaimGroupV1
    \<Rightarrow> claim_error + VerifiedCommitteeParticipationV1 list" where
  "VerifyCommitteeParticipationClaimGroupV1 cr ctx grp =
     (case vc_Hasher ctx of
        None \<Rightarrow> Inl ErrInvalidCommitteeParticipationVerificationV1
      | Some hasher \<Rightarrow>
          if not_positive (vc_ChainID ctx) \<or> vc_DatasetKey ctx = 0 \<or> vc_ParentHash ctx = 0 \<or> vc_SelectionRoot ctx = 0
             \<or> length (vc_Committee ctx) > MaxCommitteeParticipationsV1
          then Inl ErrInvalidCommitteeParticipationVerificationV1
          else case ExpandCommitteeParticipationClaimGroupV1 (vc_ParentHash ctx) (vc_SelectionRoot ctx)
                 (vc_Committee ctx) grp of
            Inl err \<Rightarrow> Inl err
          | Inr proofs \<Rightarrow> verify_items cr ctx hasher (cg_TargetBlock grp) (zip (cg_Participations grp) proofs))"

section \<open>The ledger of claimed positions\<close>

definition CommitteeClaimBitmapBytesV1 :: nat where
  "CommitteeClaimBitmapBytesV1 = MaxCommitteeParticipationsV1 div 8"

record CommitteeClaimBitmapV1 =
  cb_TargetBlock :: u64
  cb_Claimed :: bytes

record CommitteeClaimLedgerV1 =
  cl_Windows :: "CommitteeClaimBitmapV1 list"

definition NewCommitteeClaimLedgerV1 :: CommitteeClaimLedgerV1 where
  "NewCommitteeClaimLedgerV1 = \<lparr>cl_Windows = []\<rparr>"

definition committeeClaimBitmapEmptyV1 :: "bytes \<Rightarrow> bool" where
  "committeeClaimBitmapEmptyV1 bitmap \<longleftrightarrow> (\<forall>value \<in> set bitmap. value = 0)"

fun check_windows :: "u64 option \<Rightarrow> CommitteeClaimBitmapV1 list \<Rightarrow> bool" where
  "check_windows previous [] \<longleftrightarrow> True"
| "check_windows previous (window # rest) \<longleftrightarrow>
     \<not> (cb_TargetBlock window = 0 \<or> committeeClaimBitmapEmptyV1 (cb_Claimed window)
        \<or> (case previous of None \<Rightarrow> False | Some p \<Rightarrow> cb_TargetBlock window \<le> p))
     \<and> check_windows (Some (cb_TargetBlock window)) rest"

definition Ledger_Validate :: "CommitteeClaimLedgerV1 option \<Rightarrow> claim_error option" where
  "Ledger_Validate ledger = (case ledger of
      None \<Rightarrow> Some ErrInvalidCommitteeClaimLedgerV1
    | Some l \<Rightarrow>
        if length (cl_Windows l) > unat CommitteeParticipationClaimWindowV1 then Some ErrInvalidCommitteeClaimLedgerV1
        else if \<not> check_windows None (cl_Windows l) then Some ErrInvalidCommitteeClaimLedgerV1
        else None)"

definition committeeClaimLedgerDomainV1 :: bytes where
  "committeeClaimLedgerDomainV1 = ascii ''RABBIT-LQC-COMMITTEE-CLAIM-LEDGER-V1''"

definition committeeClaimLedgerRootPayloadV1 :: "CommitteeClaimBitmapV1 list \<Rightarrow> rlp_val" where
  "committeeClaimLedgerRootPayloadV1 windows = VStruct [VBytes committeeClaimLedgerDomainV1,
     VUint (ucast CommitteeParticipationVersionV1),
     VSlice (map (\<lambda>w. VStruct [VUint (cb_TargetBlock w), VArray (cb_Claimed w)]) windows)]"

definition Ledger_Root :: "crypto \<Rightarrow> CommitteeClaimLedgerV1 option \<Rightarrow> claim_error + hash" where
  "Ledger_Root cr ledger = (case Ledger_Validate ledger of
      Some err \<Rightarrow> Inl err
    | None \<Rightarrow> Inr (Keccak256Hash cr [EncodeToBytes (committeeClaimLedgerRootPayloadV1 (cl_Windows (the ledger)))]))"

definition committeeClaimBitV1 :: "u8 \<Rightarrow> nat \<times> byte" where
  "committeeClaimBitV1 position = (unat (position div 8), push_bit (unat (position mod 8)) 1)"

definition Ledger_IsClaimed :: "CommitteeClaimLedgerV1 option \<Rightarrow> u64 \<Rightarrow> u8 \<Rightarrow> bool" where
  "Ledger_IsClaimed ledger targetBlock position = (case ledger of
      None \<Rightarrow> False
    | Some l \<Rightarrow>
        if unat position \<ge> MaxCommitteeParticipationsV1 then False
        else
          let (byteIndex, mask) = committeeClaimBitV1 position in
          case find (\<lambda>window. cb_TargetBlock window = targetBlock) (cl_Windows l) of
            None \<Rightarrow> False
          | Some window \<Rightarrow> cb_Claimed window ! byteIndex AND mask \<noteq> 0)"

text \<open>
  \<open>Apply\<close>: the windows still open, then one bit per claim. The index map \<open>byTarget\<close> is the position of a target among the
  windows, which are distinct since the ledger has been validated.
\<close>

fun window_index :: "CommitteeClaimBitmapV1 list \<Rightarrow> u64 \<Rightarrow> nat option" where
  "window_index [] target = None"
| "window_index (window # rest) target =
     (if cb_TargetBlock window = target then Some 0 else map_option Suc (window_index rest target))"

fun claim_positions :: "bytes \<Rightarrow> CompactCommitteeParticipationV1 list \<Rightarrow> claim_error + bytes" where
  "claim_positions bitmap [] = Inr bitmap"
| "claim_positions bitmap (claim # rest) =
     (let (byteIndex, mask) = committeeClaimBitV1 (cc_Position claim) in
      if bitmap ! byteIndex AND mask \<noteq> 0 then Inl ErrCommitteeParticipationClaimedV1
      else claim_positions (bitmap[byteIndex := bitmap ! byteIndex OR mask]) rest)"

definition claim_group ::
  "CommitteeClaimBitmapV1 list \<Rightarrow> CommitteeParticipationClaimGroupV1 \<Rightarrow> claim_error + CommitteeClaimBitmapV1 list" where
  "claim_group windows grp =
     (let (windows, windowIndex) = (case window_index windows (cg_TargetBlock grp) of
          Some i \<Rightarrow> (windows, i)
        | None \<Rightarrow> (windows @ [\<lparr>cb_TargetBlock = cg_TargetBlock grp,
            cb_Claimed = replicate CommitteeClaimBitmapBytesV1 0\<rparr>], length windows))
      in case claim_positions (cb_Claimed (windows ! windowIndex)) (cg_Participations grp) of
        Inl err \<Rightarrow> Inl err
      | Inr bitmap \<Rightarrow> Inr (windows[windowIndex := (windows ! windowIndex)\<lparr>cb_Claimed := bitmap\<rparr>]))"

definition Ledger_Apply ::
  "CommitteeClaimLedgerV1 option \<Rightarrow> u64 \<Rightarrow> CommitteeParticipationClaimGroupV1 list
    \<Rightarrow> claim_error + CommitteeClaimLedgerV1" where
  "Ledger_Apply ledger inclusionBlock groups = (case Ledger_Validate ledger of
      Some err \<Rightarrow> Inl err
    | None \<Rightarrow>
        (case CanonicalCommitteeParticipationClaimGroupsV1 inclusionBlock groups of
           Inl err \<Rightarrow> Inl err
         | Inr canonical \<Rightarrow>
             let kept = filter (\<lambda>window. cb_TargetBlock window < inclusionBlock
                   \<and> inclusionBlock - cb_TargetBlock window \<le> CommitteeParticipationClaimWindowV1) (cl_Windows (the ledger))
             in case fold_res (\<lambda>grp windows. claim_group windows grp) canonical kept of
               Inl err \<Rightarrow> Inl err
             | Inr windows \<Rightarrow>
                 let next = \<lparr>cl_Windows = sort_key cb_TargetBlock windows\<rparr> in
                 case Ledger_Validate (Some next) of Some err \<Rightarrow> Inl err | None \<Rightarrow> Inr next))"

section \<open>The reward of a claim\<close>

definition CommitteeClaimProducerBpsV1 :: u64 where
  "CommitteeClaimProducerBpsV1 = 7000"

record CommitteeClaimRewardResultV1 =
  rr_Credits :: "WorkSeatRewardV1 list"
  rr_CommitteePool :: u256
  rr_CommitteeIssued :: u256
  rr_CommitteeUnissued :: u256

fun claim_credits ::
  "u256 \<Rightarrow> WorkSeatV1 list \<Rightarrow> int \<Rightarrow> u64 \<Rightarrow> VerifiedCommitteeParticipationV1 list
    \<Rightarrow> WorkSeatRewardV1 list \<times> u256 \<Rightarrow> claim_error + WorkSeatRewardV1 list \<times> u256" where
  "claim_credits perSeat committee previousPosition targetBlock [] (credits, issued) = Inr (credits, issued)"
| "claim_credits perSeat committee previousPosition targetBlock (item # rest) (credits, issued) =
     (let position = unat (vp_Position item) in
      if vp_TargetBlock item = 0 \<or> (targetBlock \<noteq> 0 \<and> vp_TargetBlock item \<noteq> targetBlock)
         \<or> position \<ge> length committee \<or> int position \<le> previousPosition \<or> vp_Seat item \<noteq> committee ! position
      then Inl ErrInvalidCommitteeClaimRewardV1
      else claim_credits perSeat committee (int position) (vp_TargetBlock item) rest
        (if perSeat \<noteq> 0
         then (credits @ [\<lparr>wr_Address = ws_Participant (committee ! position), wr_Amount = perSeat\<rparr>], issued + perSeat)
         else (credits, issued)))"

definition CommitteeClaimRewardCreditsV1 ::
  "u256 option \<Rightarrow> WorkSeatV1 list \<Rightarrow> VerifiedCommitteeParticipationV1 list \<Rightarrow> claim_error + CommitteeClaimRewardResultV1" where
  "CommitteeClaimRewardCreditsV1 totalBlockReward committee verified =
     (let zero = \<lparr>rr_Credits = [], rr_CommitteePool = 0, rr_CommitteeIssued = 0, rr_CommitteeUnissued = 0\<rparr> in
      case totalBlockReward of
        None \<Rightarrow> Inl ErrInvalidCommitteeClaimRewardV1
      | Some reward \<Rightarrow>
          if length committee > MaxCommitteeParticipationsV1 then Inl ErrInvalidCommitteeClaimRewardV1
          else if committee = [] then (if verified \<noteq> [] then Inl ErrInvalidCommitteeClaimRewardV1 else Inr zero)
          else if reward = 0 then Inr zero
          else if check_selected [] [] committee \<noteq> None then Inl ErrInvalidCommitteeClaimRewardV1
          else
            let producerReward = reward * ucast CommitteeClaimProducerBpsV1 div 10000;
                pool = reward - producerReward;
                perSeat = pool div of_nat (length committee)
            in case claim_credits perSeat committee (- 1) 0 verified ([], 0) of
              Inl err \<Rightarrow> Inl err
            | Inr (credits, issued) \<Rightarrow> Inr \<lparr>rr_Credits = credits, rr_CommitteePool = pool,
                rr_CommitteeIssued = issued, rr_CommitteeUnissued = pool - issued\<rparr>)"

section \<open>Canonical claim groups\<close>

text \<open>The claims of a list of groups, as pairs of a target block and a position.\<close>

definition claims_of :: "CommitteeParticipationClaimGroupV1 list \<Rightarrow> (u64 \<times> u8) list" where
  "claims_of groups = concat (map (\<lambda>g. map (\<lambda>c. (cg_TargetBlock g, cc_Position c)) (cg_Participations g)) groups)"

definition open_target :: "u64 \<Rightarrow> u64 \<Rightarrow> bool" where
  "open_target inclusionBlock target \<longleftrightarrow> target \<noteq> 0 \<and> target < inclusionBlock \<and> unat inclusionBlock - unat target \<le> 8"

definition claim_ok :: "CompactCommitteeParticipationV1 \<Rightarrow> bool" where
  "claim_ok c \<longleftrightarrow> unat (cc_Position c) < MaxCommitteeParticipationsV1 \<and> length (cc_Signature c) = SignatureLength"

definition groups_ok :: "u64 \<Rightarrow> CommitteeParticipationClaimGroupV1 list \<Rightarrow> bool" where
  "groups_ok inclusionBlock gs \<longleftrightarrow> distinct (map cg_TargetBlock gs)
     \<and> (\<forall>g \<in> set gs. open_target inclusionBlock (cg_TargetBlock g) \<and> cg_Participations g \<noteq> []
          \<and> (\<forall>c \<in> set (cg_Participations g). claim_ok c) \<and> distinct (map cc_Position (cg_Participations g)))"

lemma window_le: "t < i \<Longrightarrow> i - t > CommitteeParticipationClaimWindowV1 \<longleftrightarrow> unat i - unat t > 8"
  by (simp add: CommitteeParticipationClaimWindowV1_def word_less_nat_alt unat_sub_if')

lemma claims_of_simps [simp]:
  "claims_of [] = []"
  "claims_of (g # gs) = map (\<lambda>c. (cg_TargetBlock g, cc_Position c)) (cg_Participations g) @ claims_of gs"
  by (simp_all add: claims_of_def)

lemma check_claims_None:
  "check_claims seen cs = None \<longleftrightarrow> (\<forall>c \<in> set cs. claim_ok c) \<and> distinct (map cc_Position cs)
     \<and> cc_Position ` set cs \<inter> set seen = {}"
  by (induction seen cs rule: check_claims.induct) (auto simp: claim_ok_def)

lemma check_groups_None:
  "check_groups i k seen gs = None \<longleftrightarrow> groups_ok i gs \<and> (gs = [] \<or> k + length (claims_of gs) \<le> MaxCommitteeParticipationsV1)
     \<and> cg_TargetBlock ` set gs \<inter> set seen = {}"
proof (induction gs arbitrary: k seen)
  case (Cons g rest)
  let ?ok = "cg_TargetBlock g \<noteq> 0 \<and> cg_TargetBlock g < i \<and> cg_Participations g \<noteq> []
    \<and> unat i - unat (cg_TargetBlock g) \<le> 8 \<and> cg_TargetBlock g \<notin> set seen
    \<and> k + length (cg_Participations g) \<le> MaxCommitteeParticipationsV1 \<and> check_claims [] (cg_Participations g) = None"
  have step: "check_groups i k seen (g # rest) = None \<longleftrightarrow>
      ?ok \<and> check_groups i (k + length (cg_Participations g)) (cg_TargetBlock g # seen) rest = None"
    by (cases "cg_TargetBlock g < i") (auto simp: Let_def window_le not_less split: option.splits)
  show ?case unfolding step Cons.IH
    by (auto simp: groups_ok_def open_target_def check_claims_None)
qed (simp add: groups_ok_def)

lemma CanonicalGroups_iff:
  "CanonicalCommitteeParticipationClaimGroupsV1 i gs = Inr out \<longleftrightarrow> 1 < i \<and> groups_ok i gs
     \<and> length (claims_of gs) \<le> MaxCommitteeParticipationsV1 \<and> out = sort_key cg_TargetBlock (map sort_group gs)"
  using check_groups_None [of i 0 "[]" gs]
  by (auto simp: CanonicalCommitteeParticipationClaimGroupsV1_def not_le split: option.splits)

lemma sort_group_simps [simp]:
  "cg_TargetBlock (sort_group g) = cg_TargetBlock g"
  "cg_Participations (sort_group g) = sort_key cc_Position (cg_Participations g)"
  by (simp_all add: sort_group_def)

lemma groups_ok_perm: "mset gs = mset hs \<Longrightarrow> groups_ok i gs \<longleftrightarrow> groups_ok i hs"
  by (simp add: groups_ok_def distinct_map_mset [of gs hs] mset_eq_setD [of gs hs])

lemma sort_key_eq_Nil [simp]: "sort_key f xs = [] \<longleftrightarrow> xs = []"
  by (metis length_0_conv length_sort)

lemma groups_ok_canonical [simp]: "groups_ok i (sort_key cg_TargetBlock (map sort_group gs)) \<longleftrightarrow> groups_ok i gs"
proof -
  have "distinct (map cc_Position (sort_key cc_Position cs)) \<longleftrightarrow> distinct (map cc_Position cs)"
    for cs :: "CompactCommitteeParticipationV1 list"
    by (simp add: distinct_map_mset [OF mset_sort])
  then have "groups_ok i (map sort_group gs) \<longleftrightarrow> groups_ok i gs"
    by (simp add: groups_ok_def comp_def)
  then show ?thesis using groups_ok_perm [OF mset_sort] by blast
qed

section \<open>The ledger as a map from targets to bitmaps\<close>

definition bit_set :: "bytes \<Rightarrow> u8 \<Rightarrow> bool" where
  "bit_set bitmap p \<longleftrightarrow> bit (bitmap ! (unat p div 8)) (unat p mod 8)"

definition bitmap_at :: "CommitteeClaimBitmapV1 list \<Rightarrow> u64 \<Rightarrow> bytes option" where
  "bitmap_at ws = map_of (map (\<lambda>w. (cb_TargetBlock w, cb_Claimed w)) ws)"

definition claimed :: "CommitteeClaimBitmapV1 list \<Rightarrow> (u64 \<times> u8) set" where
  "claimed ws = {(t, p). unat p < 128 \<and> (\<exists>bm. bitmap_at ws t = Some bm \<and> bit_set bm p)}"

definition windows_wf :: "CommitteeClaimBitmapV1 list \<Rightarrow> bool" where
  "windows_wf ws \<longleftrightarrow> distinct (map cb_TargetBlock ws) \<and> (\<forall>w \<in> set ws. length (cb_Claimed w) = 16)"

lemma claim_bit:
  "committeeClaimBitV1 p = (unat p div 8, push_bit (unat p mod 8) 1)"
  by (simp add: committeeClaimBitV1_def unat_div unat_mod)

lemma masked_bit: "(b :: byte) AND push_bit n 1 = 0 \<longleftrightarrow> \<not> bit b n"
  by (simp add: bit_iff_and_push_bit_not_eq_0)

lemma bit_set_update:
  assumes "length bm = 16" "unat p < 128" "unat q < 128"
  shows "bit_set (bm[unat p div 8 := bm ! (unat p div 8) OR push_bit (unat p mod 8) 1]) q \<longleftrightarrow> q = p \<or> bit_set bm q"
proof (cases "unat p div 8 = unat q div 8")
  case True
  have "unat q mod 8 < 8" by simp
  have "unat q mod 8 = unat p mod 8 \<longleftrightarrow> q = p"
    using True by (metis div_mult_mod_eq word_unat_eq_iff)
  with True assms show ?thesis
    by (auto simp: bit_set_def bit_or_iff bit_exp_iff)
next
  case False
  then show ?thesis by (auto simp: bit_set_def)
qed

lemma claim_positions_iff:
  assumes "length bm = 16" "\<forall>c \<in> set cs. claim_ok c"
  shows "(\<exists>bm'. claim_positions bm cs = Inr bm') \<longleftrightarrow> distinct (map cc_Position cs) \<and> (\<forall>c \<in> set cs. \<not> bit_set bm (cc_Position c))"
    and "claim_positions bm cs = Inr bm' \<Longrightarrow> length bm' = 16 \<and> (\<forall>p. unat p < 128 \<longrightarrow>
      bit_set bm' p = (bit_set bm p \<or> p \<in> cc_Position ` set cs))"
proof -
  have "((\<exists>bm'. claim_positions bm cs = Inr bm') \<longleftrightarrow> distinct (map cc_Position cs) \<and> (\<forall>c \<in> set cs. \<not> bit_set bm (cc_Position c)))
      \<and> (\<forall>bm'. claim_positions bm cs = Inr bm' \<longrightarrow> length bm' = 16 \<and> (\<forall>p. unat p < 128 \<longrightarrow>
        bit_set bm' p = (bit_set bm p \<or> p \<in> cc_Position ` set cs)))"
    using assms
  proof (induction cs arbitrary: bm)
    case (Cons c cs)
    let ?p = "cc_Position c"
    let ?bm = "bm[unat ?p div 8 := bm ! (unat ?p div 8) OR push_bit (unat ?p mod 8) 1]"
    have p: "unat ?p < 128" "\<And>x. x \<in> set cs \<Longrightarrow> unat (cc_Position x) < 128"
      using Cons.prems(2) by (auto simp: claim_ok_def MaxCommitteeParticipationsV1_def)
    have step: "claim_positions bm (c # cs) = (if bit_set bm ?p then Inl ErrCommitteeParticipationClaimedV1 else claim_positions ?bm cs)"
      by (simp add: claim_bit masked_bit bit_set_def del: push_bit_of_1)
    have bm: "bit_set ?bm q \<longleftrightarrow> q = ?p \<or> bit_set bm q" if "unat q < 128" for q
      by (rule bit_set_update [OF Cons.prems(1) p(1) that])
    have "length ?bm = 16" using Cons.prems(1) by simp
    note IH = Cons.IH [OF this]
    have "(\<forall>x \<in> set cs. \<not> bit_set ?bm (cc_Position x)) \<longleftrightarrow> ?p \<notin> cc_Position ` set cs \<and> (\<forall>x \<in> set cs. \<not> bit_set bm (cc_Position x))"
      using bm p(2) by (auto simp: image_iff)
    then show ?case unfolding step using IH Cons.prems(2) bm by auto
  qed simp
  then show "(\<exists>bm'. claim_positions bm cs = Inr bm') \<longleftrightarrow> distinct (map cc_Position cs) \<and> (\<forall>c \<in> set cs. \<not> bit_set bm (cc_Position c))"
    and "claim_positions bm cs = Inr bm' \<Longrightarrow> length bm' = 16 \<and> (\<forall>p. unat p < 128 \<longrightarrow>
      bit_set bm' p = (bit_set bm p \<or> p \<in> cc_Position ` set cs))" by blast+
qed

lemma bitmap_at_Nil [simp]: "bitmap_at [] = Map.empty"
  by (simp add: bitmap_at_def)

lemma bitmap_at_Cons [simp]: "bitmap_at (w # ws) = (bitmap_at ws)(cb_TargetBlock w \<mapsto> cb_Claimed w)"
  by (simp add: bitmap_at_def)

lemma dom_bitmap_at: "dom (bitmap_at ws) = cb_TargetBlock ` set ws"
  by (simp add: bitmap_at_def dom_map_of_conv_image_fst image_image)

lemma bitmap_at_mem: "windows_wf ws \<Longrightarrow> w \<in> set ws \<Longrightarrow> bitmap_at ws (cb_TargetBlock w) = Some (cb_Claimed w)"
  by (auto simp: windows_wf_def bitmap_at_def map_of_eq_Some_iff comp_def)

lemma window_index_Some:
  "window_index ws t = Some i \<Longrightarrow> i < length ws \<and> cb_TargetBlock (ws ! i) = t
     \<and> bitmap_at ws t = Some (cb_Claimed (ws ! i))"
  by (induction ws arbitrary: i) (auto split: if_splits)

lemma window_index_None: "window_index ws t = None \<longleftrightarrow> t \<notin> cb_TargetBlock ` set ws"
  by (induction ws) auto

lemma bitmap_at_update:
  "distinct (map cb_TargetBlock ws) \<Longrightarrow> i < length ws \<Longrightarrow> cb_TargetBlock w = cb_TargetBlock (ws ! i) \<Longrightarrow>
     bitmap_at (ws[i := w]) = (bitmap_at ws)(cb_TargetBlock w \<mapsto> cb_Claimed w)"
proof (induction ws arbitrary: i)
  case (Cons v vs)
  show ?case
  proof (cases i)
    case (Suc j)
    with Cons.prems have "cb_TargetBlock w \<in> cb_TargetBlock ` set vs" by simp
    with Cons.prems have "cb_TargetBlock w \<noteq> cb_TargetBlock v" by auto
    with Cons Suc show ?thesis by (auto simp: fun_eq_iff)
  qed (use Cons.prems in \<open>auto simp: fun_eq_iff\<close>)
qed simp

lemma bitmap_at_append:
  "t \<notin> cb_TargetBlock ` set ws \<Longrightarrow> bitmap_at (ws @ [\<lparr>cb_TargetBlock = t, cb_Claimed = bm\<rparr>]) = (bitmap_at ws)(t \<mapsto> bm)"
  by (induction ws) (auto simp: fun_upd_twist)

text \<open>\<open>Apply\<close> handles one group as an update of the map at the group's target.\<close>

lemma claim_group_map:
  assumes wf: "windows_wf ws" and ok: "\<forall>c \<in> set (cg_Participations g). claim_ok c"
  defines "old \<equiv> (case bitmap_at ws (cg_TargetBlock g) of None \<Rightarrow> replicate 16 0 | Some bm \<Rightarrow> bm)"
  shows "claim_positions old (cg_Participations g) = Inl e \<Longrightarrow> claim_group ws g = Inl e"
    and "claim_positions old (cg_Participations g) = Inr bm \<Longrightarrow> \<exists>ws'. claim_group ws g = Inr ws' \<and> windows_wf ws'
      \<and> bitmap_at ws' = (bitmap_at ws)(cg_TargetBlock g \<mapsto> bm)"
    and "length old = 16"
proof -
  let ?t = "cg_TargetBlock g"
  let ?new = "ws @ [\<lparr>cb_TargetBlock = ?t, cb_Claimed = replicate 16 0\<rparr>]"
  have 16: "CommitteeClaimBitmapBytesV1 = 16" by (simp add: CommitteeClaimBitmapBytesV1_def MaxCommitteeParticipationsV1_def)
  obtain vs i where vi: "(case window_index ws ?t of Some i \<Rightarrow> (ws, i) | None \<Rightarrow> (?new, length ws)) = (vs, i)" by fastforce
  have vs: "windows_wf vs \<and> i < length vs \<and> cb_TargetBlock (vs ! i) = ?t \<and> cb_Claimed (vs ! i) = old
      \<and> (\<forall>b. (bitmap_at vs)(?t \<mapsto> b) = (bitmap_at ws)(?t \<mapsto> b))"
  proof (cases "window_index ws ?t")
    case None
    with vi have "vs = ?new" "i = length ws" by auto
    moreover have "?t \<notin> cb_TargetBlock ` set ws" "bitmap_at ws ?t = None"
      using None window_index_None dom_bitmap_at [of ws] by (auto simp: dom_def)
    ultimately show ?thesis using wf by (auto simp: windows_wf_def bitmap_at_append old_def)
  next
    case (Some j)
    with vi have "vs = ws" "i = j" by auto
    with Some wf window_index_Some [OF Some] show ?thesis by (simp add: old_def)
  qed
  have eq: "claim_group ws g = (case claim_positions old (cg_Participations g) of Inl err \<Rightarrow> Inl err
      | Inr bitmap \<Rightarrow> Inr (vs[i := (vs ! i)\<lparr>cb_Claimed := bitmap\<rparr>]))"
    unfolding claim_group_def 16 vi using vs by simp
  show len: "length old = 16" using vs nth_mem [of i vs] by (auto simp: windows_wf_def)
  show "claim_positions old (cg_Participations g) = Inl e \<Longrightarrow> claim_group ws g = Inl e" by (simp add: eq)
  assume bm: "claim_positions old (cg_Participations g) = Inr bm"
  let ?w = "(vs ! i)\<lparr>cb_Claimed := bm\<rparr>"
  have "map cb_TargetBlock (vs[i := ?w]) = map cb_TargetBlock vs"
    using vs by (simp add: map_update list_update_same_conv)
  moreover have "length bm = 16" using claim_positions_iff(2) [OF len ok bm] by simp
  ultimately have "windows_wf (vs[i := ?w])"
    using vs by (auto simp: windows_wf_def dest!: set_update_subset_insert [THEN subsetD])
  moreover have "bitmap_at (vs[i := ?w]) = (bitmap_at ws)(?t \<mapsto> bm)"
    using vs bitmap_at_update [of vs i ?w] by (simp add: windows_wf_def)
  ultimately show "\<exists>ws'. claim_group ws g = Inr ws' \<and> windows_wf ws' \<and> bitmap_at ws' = (bitmap_at ws)(?t \<mapsto> bm)"
    by (simp add: eq bm)
qed

lemma mem_claimed_of: "(t, p) \<in> set (claims_of gs) \<longleftrightarrow> (\<exists>g \<in> set gs. cg_TargetBlock g = t \<and> p \<in> cc_Position ` set (cg_Participations g))"
  by (auto simp: claims_of_def)

lemma claimed_upd:
  assumes "bitmap_at ws' = (bitmap_at ws)(t \<mapsto> bm)"
    and "\<And>p. unat p < 128 \<Longrightarrow> bit_set bm p \<longleftrightarrow> (t, p) \<in> claimed ws \<or> p \<in> P"
    and "\<And>p. p \<in> P \<Longrightarrow> unat p < 128"
  shows "claimed ws' = claimed ws \<union> {t} \<times> P"
  using assms by (auto simp: claimed_def split: if_splits)

lemma claim_group_claimed:
  assumes wf: "windows_wf ws" and ok: "\<forall>c \<in> set (cg_Participations g). claim_ok c"
  shows "(\<exists>ws'. claim_group ws g = Inr ws') \<longleftrightarrow> distinct (map cc_Position (cg_Participations g)) \<and> set (claims_of [g]) \<inter> claimed ws = {}"
    and "claim_group ws g = Inr ws' \<Longrightarrow> windows_wf ws' \<and> claimed ws' = claimed ws \<union> set (claims_of [g])
      \<and> cb_TargetBlock ` set ws' = insert (cg_TargetBlock g) (cb_TargetBlock ` set ws)"
proof -
  let ?t = "cg_TargetBlock g" and ?cs = "cg_Participations g"
  let ?old = "case bitmap_at ws ?t of None \<Rightarrow> replicate 16 0 | Some bm \<Rightarrow> bm"
  note m = claim_group_map [OF wf ok]
  note cp = claim_positions_iff [OF m(3) ok]
  have old: "bit_set ?old p \<longleftrightarrow> (?t, p) \<in> claimed ws" if "unat p < 128" for p
    using that by (auto simp: claimed_def bit_set_def split: option.splits)
  have small: "unat (cc_Position c) < 128" if "c \<in> set ?cs" for c
    using ok that by (auto simp: claim_ok_def MaxCommitteeParticipationsV1_def)
  have "(\<exists>ws'. claim_group ws g = Inr ws') \<longleftrightarrow> (\<exists>bm'. claim_positions ?old ?cs = Inr bm')"
    using m(1,2) by (cases "claim_positions ?old ?cs") auto
  also have "\<dots> \<longleftrightarrow> distinct (map cc_Position ?cs) \<and> (\<forall>c \<in> set ?cs. (?t, cc_Position c) \<notin> claimed ws)"
    unfolding cp(1) using old small by auto
  finally show "(\<exists>ws'. claim_group ws g = Inr ws') \<longleftrightarrow> distinct (map cc_Position ?cs) \<and> set (claims_of [g]) \<inter> claimed ws = {}"
    by auto
  assume r: "claim_group ws g = Inr ws'"
  then obtain bm where bm: "claim_positions ?old ?cs = Inr bm"
    using m(1) by (cases "claim_positions ?old ?cs") auto
  from m(2) [OF bm] r have u: "windows_wf ws'" "bitmap_at ws' = (bitmap_at ws)(?t \<mapsto> bm)" by auto
  have "claimed ws' = claimed ws \<union> {?t} \<times> cc_Position ` set ?cs"
    by (rule claimed_upd [OF u(2)]) (use cp(2) [OF bm] old small in auto)
  moreover have "cb_TargetBlock ` set ws' = insert ?t (cb_TargetBlock ` set ws)"
    using u(2) by (metis dom_bitmap_at dom_fun_upd option.distinct(1))
  ultimately show "windows_wf ws' \<and> claimed ws' = claimed ws \<union> set (claims_of [g])
      \<and> cb_TargetBlock ` set ws' = insert ?t (cb_TargetBlock ` set ws)"
    using u(1) by auto
qed

lemma claim_groups_claimed:
  assumes "windows_wf ws" "groups_ok i gs"
  shows "((\<exists>ws'. fold_res (\<lambda>g ws. claim_group ws g) gs ws = Inr ws') \<longleftrightarrow> set (claims_of gs) \<inter> claimed ws = {})
    \<and> (\<forall>ws'. fold_res (\<lambda>g ws. claim_group ws g) gs ws = Inr ws' \<longrightarrow> windows_wf ws' \<and> claimed ws' = claimed ws \<union> set (claims_of gs)
      \<and> cb_TargetBlock ` set ws' = cb_TargetBlock ` set ws \<union> cg_TargetBlock ` set gs)"
  using assms
proof (induction gs arbitrary: ws)
  case (Cons g gs)
  have ok: "\<forall>c \<in> set (cg_Participations g). claim_ok c" "distinct (map cc_Position (cg_Participations g))" "groups_ok i gs"
    and fresh: "cg_TargetBlock g \<notin> cg_TargetBlock ` set gs"
    using Cons.prems(2) by (auto simp: groups_ok_def)
  have dis: "set (claims_of gs) \<inter> set (claims_of [g]) = {}"
  proof -
    have "fst x \<in> cg_TargetBlock ` set gs" if "x \<in> set (claims_of gs)" for x
      using that by (auto simp: claims_of_def)
    moreover have "fst x = cg_TargetBlock g" if "x \<in> set (claims_of [g])" for x using that by auto
    ultimately show ?thesis using fresh by (metis disjoint_iff)
  qed
  note step = claim_group_claimed [OF Cons.prems(1) ok(1)]
  show ?case
  proof (cases "claim_group ws g")
    case (Inl e)
    then show ?thesis using step(1) ok(2) by auto
  next
    case (Inr v)
    note v = step(2) [OF Inr]
    have "set (claims_of [g]) \<inter> claimed ws = {}" using step(1) Inr by blast
    then show ?thesis using Cons.IH [OF v [THEN conjunct1] ok(3)] v Inr dis by auto
  qed
qed simp

lemma bit_set_ex:
  assumes "length bm = 16"
  shows "\<not> committeeClaimBitmapEmptyV1 bm \<longleftrightarrow> (\<exists>p. unat p < 128 \<and> bit_set bm p)"
proof
  assume "\<not> committeeClaimBitmapEmptyV1 bm"
  then obtain i where i: "i < 16" "bm ! i \<noteq> 0"
    using assms by (auto simp: committeeClaimBitmapEmptyV1_def in_set_conv_nth)
  then obtain n where n: "n < 8" "bit (bm ! i) n"
    using bit_word_eqI [of "bm ! i" 0] by auto
  have "unat (of_nat (8 * i + n) :: u8) = 8 * i + n" using i(1) n(1) by (subst unat_of_nat) simp
  with i n have "unat (of_nat (8 * i + n) :: u8) < 128 \<and> bit_set bm (of_nat (8 * i + n))" by (simp add: bit_set_def)
  then show "\<exists>p. unat p < 128 \<and> bit_set bm p" by blast
next
  assume "\<exists>p. unat p < 128 \<and> bit_set bm p"
  then obtain p where p: "unat p < 128" "bit_set bm p" by blast
  then have "bm ! (unat p div 8) \<in> set bm" "bm ! (unat p div 8) \<noteq> 0" using assms by (auto simp: bit_set_def)
  then show "\<not> committeeClaimBitmapEmptyV1 bm" by (auto simp: committeeClaimBitmapEmptyV1_def)
qed

lemma check_windows_iff:
  "check_windows prev ws \<longleftrightarrow> sorted_wrt (<) (map cb_TargetBlock ws) \<and> (\<forall>w \<in> set ws. cb_TargetBlock w \<noteq> 0
     \<and> \<not> committeeClaimBitmapEmptyV1 (cb_Claimed w) \<and> (\<forall>p. prev = Some p \<longrightarrow> p < cb_TargetBlock w))"
proof (induction prev ws rule: check_windows.induct)
  case (2 prev w rest)
  show ?case unfolding check_windows.simps 2 by (cases prev) (auto simp: not_le dest: less_trans)
qed simp

lemma claimed_bitmap: "(t, p) \<in> claimed ws \<longleftrightarrow> unat p < 128 \<and> (\<exists>bm. bitmap_at ws t = Some bm \<and> bit_set bm p)"
  by (simp add: claimed_def)

lemma nonempty_windows:
  assumes "windows_wf ws"
  shows "(\<forall>w \<in> set ws. \<not> committeeClaimBitmapEmptyV1 (cb_Claimed w)) \<longleftrightarrow> (\<forall>t \<in> cb_TargetBlock ` set ws. \<exists>p. (t, p) \<in> claimed ws)"
proof -
  have "\<not> committeeClaimBitmapEmptyV1 (cb_Claimed w) \<longleftrightarrow> (\<exists>p. (cb_TargetBlock w, p) \<in> claimed ws)" if "w \<in> set ws" for w
    using assms that bit_set_ex [of "cb_Claimed w"] bitmap_at_mem [OF assms that] by (auto simp: windows_wf_def claimed_bitmap)
  then show ?thesis by auto
qed

lemma bitmap_at_filter: "bitmap_at (filter (\<lambda>w. P (cb_TargetBlock w)) ws) t = (if P t then bitmap_at ws t else None)"
  by (induction ws) auto

lemma kept_windows:
  assumes "windows_wf ws"
  shows "windows_wf (filter (\<lambda>w. P (cb_TargetBlock w)) ws) \<and> claimed (filter (\<lambda>w. P (cb_TargetBlock w)) ws) = {x \<in> claimed ws. P (fst x)}"
  using assms by (auto simp: windows_wf_def claimed_def bitmap_at_filter distinct_map_filter split: if_splits)

lemma sorted_windows:
  assumes "windows_wf ws"
  shows "windows_wf (sort_key cb_TargetBlock ws) \<and> claimed (sort_key cb_TargetBlock ws) = claimed ws
    \<and> sorted_wrt (<) (map cb_TargetBlock (sort_key cb_TargetBlock ws))"
proof -
  have d: "distinct (map cb_TargetBlock (sort_key cb_TargetBlock ws))"
    using assms by (simp add: windows_wf_def distinct_map_mset [of "sort_key cb_TargetBlock ws" ws])
  then have "windows_wf (sort_key cb_TargetBlock ws)" using assms by (simp add: windows_wf_def)
  moreover have "bitmap_at (sort_key cb_TargetBlock ws) = bitmap_at ws"
    using assms d unfolding bitmap_at_def windows_wf_def by (subst map_of_inject_set) (auto simp: comp_def)
  ultimately show ?thesis using d sorted_distinct_strict [OF sorted_sort_key d]
    by (simp add: claimed_def sorted_wrt_map)
qed

lemma card_open_targets: "card {t. open_target i t} \<le> 8"
proof -
  have "inj_on unat {t. open_target i t}" by (simp add: inj_on_def word_unat_eq_iff)
  moreover have "unat ` {t. open_target i t} \<subseteq> {unat i - 8 ..< unat i}"
    by (auto simp: open_target_def word_less_nat_alt)
  ultimately have "card {t. open_target i t} \<le> card {unat i - 8 ..< unat i}"
    by (metis card_inj_on_le finite_atLeastLessThan)
  then show ?thesis by simp
qed

lemma few_windows:
  assumes "windows_wf ws" "\<forall>t \<in> cb_TargetBlock ` set ws. open_target i t"
  shows "length ws \<le> 8"
proof -
  have "length ws = card (cb_TargetBlock ` set ws)"
    using assms(1) distinct_card by (fastforce simp: windows_wf_def)
  also have "\<dots> \<le> card {t. open_target i t}" using assms(2) by (intro card_mono) auto
  finally show ?thesis using card_open_targets [of i] by linarith
qed

text \<open>A ledger the code accepts; a Go bitmap is an array of sixteen bytes.\<close>

definition ledger_wf :: "CommitteeClaimLedgerV1 \<Rightarrow> bool" where
  "ledger_wf l \<longleftrightarrow> Ledger_Validate (Some l) = None \<and> (\<forall>w \<in> set (cl_Windows l). length (cb_Claimed w) = 16)"

lemma ledger_wf_iff:
  "ledger_wf l \<longleftrightarrow> length (cl_Windows l) \<le> 8 \<and> windows_wf (cl_Windows l) \<and> sorted_wrt (<) (map cb_TargetBlock (cl_Windows l))
     \<and> (\<forall>t \<in> cb_TargetBlock ` set (cl_Windows l). t \<noteq> 0 \<and> (\<exists>p. (t, p) \<in> claimed (cl_Windows l)))"
proof (cases "windows_wf (cl_Windows l)")
  case True
  then show ?thesis using nonempty_windows [OF True]
    by (auto simp: ledger_wf_def Ledger_Validate_def check_windows_iff CommitteeParticipationClaimWindowV1_def windows_wf_def not_less)
next
  case False
  then show ?thesis
    by (auto simp: ledger_wf_def Ledger_Validate_def check_windows_iff windows_wf_def strict_sorted_iff split: if_splits)
qed

lemma IsClaimed_iff:
  assumes "ledger_wf l"
  shows "Ledger_IsClaimed (Some l) t p \<longleftrightarrow> (t, p) \<in> claimed (cl_Windows l)"
proof -
  have "bitmap_at ws t = map_option cb_Claimed (find (\<lambda>w. cb_TargetBlock w = t) ws)" for ws
    by (induction ws) auto
  then show ?thesis
    by (auto simp: Ledger_IsClaimed_def claimed_bitmap claim_bit masked_bit bit_set_def MaxCommitteeParticipationsV1_def not_le
        simp del: push_bit_of_1 split: option.splits)
qed

abbreviation open_windows :: "u64 \<Rightarrow> CommitteeClaimLedgerV1 \<Rightarrow> CommitteeClaimBitmapV1 list" where
  "open_windows i l \<equiv> filter (\<lambda>w. open_target i (cb_TargetBlock w)) (cl_Windows l)"

abbreviation canonical_groups :: "CommitteeParticipationClaimGroupV1 list \<Rightarrow> CommitteeParticipationClaimGroupV1 list" where
  "canonical_groups gs \<equiv> sort_key cg_TargetBlock (map sort_group gs)"

lemma set_claims_canonical [simp]: "set (claims_of (canonical_groups gs)) = set (claims_of gs)"
  by (auto simp: claims_of_def)

lemma claimed_windows:
  assumes wf: "ledger_wf l" and g: "groups_ok i gs"
    and f: "fold_res (\<lambda>g ws. claim_group ws g) (canonical_groups gs) (open_windows i l) = Inr ws'"
  shows "ledger_wf \<lparr>cl_Windows = sort_key cb_TargetBlock ws'\<rparr> \<and> claimed (sort_key cb_TargetBlock ws')
    = {x \<in> claimed (cl_Windows l). open_target i (fst x)} \<union> set (claims_of gs)"
proof -
  have "windows_wf (cl_Windows l)" using wf by (simp add: ledger_wf_iff)
  note k = kept_windows [OF this, of "open_target i"]
  have tg: "cg_TargetBlock ` set (canonical_groups gs) = cg_TargetBlock ` set gs" by (simp add: image_image)
  have r: "windows_wf ws'" "claimed ws' = {x \<in> claimed (cl_Windows l). open_target i (fst x)} \<union> set (claims_of gs)"
      "cb_TargetBlock ` set ws' = cb_TargetBlock ` set (open_windows i l) \<union> cg_TargetBlock ` set gs"
    using claim_groups_claimed [OF k [THEN conjunct1], of i "canonical_groups gs"] g f k tg by auto
  have "open_target i t \<and> (\<exists>p. (t, p) \<in> claimed ws')" if "t \<in> cb_TargetBlock ` set ws'" for t
    using that unfolding r(3)
  proof
    assume "t \<in> cb_TargetBlock ` set (open_windows i l)"
    then show ?thesis using wf r(2) by (auto simp: ledger_wf_iff)
  next
    assume "t \<in> cg_TargetBlock ` set gs"
    then obtain h where h: "h \<in> set gs" "t = cg_TargetBlock h" by auto
    with g have "open_target i t" "cg_Participations h \<noteq> []" by (auto simp: groups_ok_def)
    moreover from this(2) h have "(t, cc_Position (hd (cg_Participations h))) \<in> set (claims_of gs)"
      unfolding mem_claimed_of by (intro bexI [of _ h]) auto
    ultimately show ?thesis unfolding r(2) by blast
  qed
  then have t: "\<forall>t \<in> cb_TargetBlock ` set ws'. open_target i t" "\<forall>t \<in> cb_TargetBlock ` set ws'. t \<noteq> 0 \<and> (\<exists>p. (t, p) \<in> claimed ws')"
    by (simp_all add: open_target_def)
  have "length ws' \<le> 8" by (rule few_windows [OF r(1) t(1)])
  with t(2) show ?thesis using sorted_windows [OF r(1)] r(2) unfolding ledger_wf_iff by simp
qed

lemma Ledger_Apply_iff:
  assumes wf: "ledger_wf l"
  shows "Ledger_Apply (Some l) i gs = Inr l' \<longleftrightarrow> 1 < i \<and> groups_ok i gs \<and> length (claims_of gs) \<le> 128
    \<and> (\<exists>ws'. fold_res (\<lambda>g ws. claim_group ws g) (canonical_groups gs) (open_windows i l) = Inr ws'
          \<and> l' = \<lparr>cl_Windows = sort_key cb_TargetBlock ws'\<rparr>)"
proof -
  have ws: "\<forall>w \<in> set (cl_Windows l). cb_TargetBlock w \<noteq> 0" and v: "Ledger_Validate (Some l) = None"
    using wf ledger_wf_iff [of l] by (auto simp: ledger_wf_def)
  have kept: "filter (\<lambda>w. cb_TargetBlock w < i \<and> i - cb_TargetBlock w \<le> CommitteeParticipationClaimWindowV1) (cl_Windows l)
      = open_windows i l"
    using ws window_le by (intro filter_cong) (auto simp: open_target_def linorder_not_less [symmetric])
  have eq: "Ledger_Apply (Some l) i gs = (case CanonicalCommitteeParticipationClaimGroupsV1 i gs of Inl e \<Rightarrow> Inl e
      | Inr canonical \<Rightarrow> (case fold_res (\<lambda>g ws. claim_group ws g) canonical (open_windows i l) of Inl e \<Rightarrow> Inl e
        | Inr windows \<Rightarrow> (case Ledger_Validate (Some \<lparr>cl_Windows = sort_key cb_TargetBlock windows\<rparr>) of
            Some e \<Rightarrow> Inl e | None \<Rightarrow> Inr \<lparr>cl_Windows = sort_key cb_TargetBlock windows\<rparr>)))"
    unfolding Ledger_Apply_def v Let_def option.sel kept by simp
  show ?thesis
  proof (cases "1 < i \<and> groups_ok i gs \<and> length (claims_of gs) \<le> 128")
    case True
    then have "CanonicalCommitteeParticipationClaimGroupsV1 i gs = Inr (canonical_groups gs)"
      by (simp add: CanonicalGroups_iff MaxCommitteeParticipationsV1_def)
    with True claimed_windows [OF wf, of i gs] show ?thesis unfolding eq
      by (cases "fold_res (\<lambda>g ws. claim_group ws g) (canonical_groups gs) (open_windows i l)") (auto simp: ledger_wf_def)
  next
    case False
    then obtain e where "CanonicalCommitteeParticipationClaimGroupsV1 i gs = Inl e"
      using CanonicalGroups_iff [of i gs] by (cases "CanonicalCommitteeParticipationClaimGroupsV1 i gs")
        (auto simp: MaxCommitteeParticipationsV1_def)
    with False show ?thesis unfolding eq by auto
  qed
qed

lemma Ledger_Apply_claimed:
  assumes wf: "ledger_wf l"
  shows "(\<exists>l'. Ledger_Apply (Some l) i gs = Inr l') \<longleftrightarrow> 1 < i \<and> groups_ok i gs \<and> length (claims_of gs) \<le> 128
      \<and> set (claims_of gs) \<inter> claimed (cl_Windows l) = {}"
    and "Ledger_Apply (Some l) i gs = Inr l' \<Longrightarrow> ledger_wf l'
      \<and> claimed (cl_Windows l') = {x \<in> claimed (cl_Windows l). open_target i (fst x)} \<union> set (claims_of gs)"
proof -
  have "windows_wf (cl_Windows l)" using wf by (simp add: ledger_wf_iff)
  note k = kept_windows [OF this, of "open_target i"]
  have "set (claims_of gs) \<inter> {x \<in> claimed (cl_Windows l). open_target i (fst x)} = {} \<longleftrightarrow> set (claims_of gs) \<inter> claimed (cl_Windows l) = {}"
    if "groups_ok i gs"
  proof -
    have "open_target i (fst x)" if "x \<in> set (claims_of gs)" for x
      using that \<open>groups_ok i gs\<close> by (auto simp: groups_ok_def claims_of_def)
    then show ?thesis by blast
  qed
  then show "(\<exists>l'. Ledger_Apply (Some l) i gs = Inr l') \<longleftrightarrow> 1 < i \<and> groups_ok i gs \<and> length (claims_of gs) \<le> 128
      \<and> set (claims_of gs) \<inter> claimed (cl_Windows l) = {}"
    using claim_groups_claimed [OF k [THEN conjunct1], of i "canonical_groups gs"] k unfolding Ledger_Apply_iff [OF wf] by auto
  assume "Ledger_Apply (Some l) i gs = Inr l'"
  then show "ledger_wf l' \<and> claimed (cl_Windows l') = {x \<in> claimed (cl_Windows l). open_target i (fst x)} \<union> set (claims_of gs)"
    using claimed_windows [OF wf] unfolding Ledger_Apply_iff [OF wf] by auto
qed

lemma distinct_claims_of: "groups_ok i gs \<Longrightarrow> distinct (claims_of gs)"
proof (induction gs)
  case (Cons g gs)
  then have "distinct (claims_of gs)" and g: "distinct (map cc_Position (cg_Participations g))"
    "cg_TargetBlock g \<notin> cg_TargetBlock ` set gs" by (auto simp: groups_ok_def)
  moreover have "distinct (map (\<lambda>c. (cg_TargetBlock g, cc_Position c)) (cg_Participations g))"
    using g(1) by (auto simp: distinct_map inj_on_def)
  moreover have "x \<notin> set (claims_of gs)" if "fst x = cg_TargetBlock g" for x
    using g(2) that by (metis (no_types, lifting) image_eqI mem_claimed_of prod.collapse)
  ultimately show ?case by auto
qed simp

lemma open_target_mono: "open_target j t \<Longrightarrow> t < i \<Longrightarrow> i < j \<Longrightarrow> open_target i t"
  by (auto simp: open_target_def word_less_nat_alt)

lemma claims_disjoint:
  assumes "ledger_wf l" "\<forall>x \<in> S. fst x \<le> b \<and> (\<forall>j > b. open_target j (fst x) \<longrightarrow> x \<in> claimed (cl_Windows l))"
    and "sorted_wrt (<) (map fst blocks)" "\<forall>x \<in> set blocks. b < fst x"
    and "fold_res (\<lambda>(i, gs) l. Ledger_Apply (Some l) i gs) blocks l = Inr l'"
  shows "distinct (concat (map (\<lambda>x. claims_of (snd x)) blocks)) \<and> S \<inter> set (concat (map (\<lambda>x. claims_of (snd x)) blocks)) = {}"
  using assms
proof (induction blocks arbitrary: l S b)
  case (Cons x blocks)
  obtain i gs where x: "x = (i, gs)" by fastforce
  from Cons.prems(5) x obtain m where m: "Ledger_Apply (Some l) i gs = Inr m"
      and rest: "fold_res (\<lambda>(i, gs) l. Ledger_Apply (Some l) i gs) blocks m = Inr l'"
    by (auto split: sum.splits)
  have ok: "groups_ok i gs" and dis: "set (claims_of gs) \<inter> claimed (cl_Windows l) = {}"
    using m Ledger_Apply_claimed(1) [OF Cons.prems(1), of i gs] by auto
  note a = Ledger_Apply_claimed(2) [OF Cons.prems(1) m]
  have op: "open_target i (fst c)" if "c \<in> set (claims_of gs)" for c
    using that ok by (auto simp: groups_ok_def claims_of_def)
  have bi: "b < i" using Cons.prems(4) x by simp
  have SI: "S \<inter> set (claims_of gs) = {}" using Cons.prems(2) bi op dis by blast
  have "\<forall>c \<in> S \<union> set (claims_of gs). fst c \<le> i \<and> (\<forall>j > i. open_target j (fst c) \<longrightarrow> c \<in> claimed (cl_Windows m))"
  proof (intro ballI conjI impI allI)
    fix c assume c: "c \<in> S \<union> set (claims_of gs)"
    then have t: "fst c < i" using Cons.prems(2) bi op by (fastforce simp: open_target_def)
    then show "fst c \<le> i" by simp
    fix j assume j: "i < j" "open_target j (fst c)"
    then have "open_target i (fst c)" using open_target_mono t by blast
    with c show "c \<in> claimed (cl_Windows m)" using Cons.prems(2) bi a by auto
  qed
  moreover have "sorted_wrt (<) (map fst blocks)" "\<forall>x \<in> set blocks. i < fst x" using Cons.prems(3) x by auto
  ultimately have "distinct (concat (map (\<lambda>x. claims_of (snd x)) blocks))
      \<and> (S \<union> set (claims_of gs)) \<inter> set (concat (map (\<lambda>x. claims_of (snd x)) blocks)) = {}"
    using Cons.IH [OF a [THEN conjunct1] _ _ _ rest] by blast
  then show ?case using distinct_claims_of [OF ok] SI x by auto
qed simp

section \<open>Batches and their compact form\<close>

lemma check_selected_None:
  "check_selected seenP seenT seats = None \<longleftrightarrow> (\<forall>s \<in> set seats. ws_Participant s \<noteq> 0 \<and> ws_TicketHash s \<noteq> 0)
     \<and> distinct (map ws_Participant seats) \<and> distinct (map ws_TicketHash seats)
     \<and> ws_Participant ` set seats \<inter> set seenP = {} \<and> ws_TicketHash ` set seats \<inter> set seenT = {}"
  by (induction seenP seenT seats rule: check_selected.induct) auto

lemma seat_position_Some:
  "seat_position seats a = Some i \<Longrightarrow> i < length seats \<and> ws_Participant (seats ! i) = a"
  by (induction seats arbitrary: i) (auto split: if_splits)

lemma seat_position_nth:
  "distinct (map ws_Participant seats) \<Longrightarrow> i < length seats \<Longrightarrow> seat_position seats (ws_Participant (seats ! i)) = Some i"
proof (induction seats arbitrary: i)
  case (Cons s seats)
  then show ?case by (cases i) (auto simp: image_iff dest: nth_mem)
qed simp

definition proof_ok :: "WorkSeatV1 list \<Rightarrow> CommitteeParticipationV1 \<Rightarrow> CommitteeParticipationV1 \<Rightarrow> bool" where
  "proof_ok seats context p \<longleftrightarrow> pa_Version p = pa_Version context \<and> pa_BlockNumber p = pa_BlockNumber context
     \<and> pa_ParentHash p = pa_ParentHash context \<and> pa_SelectionRoot p = pa_SelectionRoot context
     \<and> (\<exists>i. seat_position seats (pa_Participant p) = Some i \<and> ws_TicketHash (seats ! i) = pa_TicketHash p)"

lemma check_proofs_None:
  "check_proofs seats ctx seenP seenT ps = None \<longleftrightarrow> (\<forall>p \<in> set ps. proof_ok seats ctx p)
     \<and> distinct (map pa_Participant ps) \<and> distinct (map pa_TicketHash ps)
     \<and> pa_Participant ` set ps \<inter> set seenP = {} \<and> pa_TicketHash ` set ps \<inter> set seenT = {}"
  by (induction seats ctx seenP seenT ps rule: check_proofs.induct)
    (auto simp: proof_ok_def split: option.splits)

definition expand_item :: "u64 \<Rightarrow> hash \<Rightarrow> hash \<Rightarrow> WorkSeatV1 list \<Rightarrow> CompactCommitteeParticipationV1 \<Rightarrow> CommitteeParticipationV1" where
  "expand_item b h r seats c = \<lparr>pa_Version = CommitteeParticipationVersionV1, pa_BlockNumber = b, pa_ParentHash = h,
     pa_SelectionRoot = r, pa_TicketHash = ws_TicketHash (seats ! unat (cc_Position c)),
     pa_Participant = ws_Participant (seats ! unat (cc_Position c)), pa_Signature = cc_Signature c\<rparr>"

definition compact_item :: "WorkSeatV1 list \<Rightarrow> CommitteeParticipationV1 \<Rightarrow> CompactCommitteeParticipationV1" where
  "compact_item seats p = \<lparr>cc_Position = of_nat (proof_position seats p), cc_Signature = pa_Signature p\<rparr>"

definition items_ok :: "WorkSeatV1 list \<Rightarrow> int \<Rightarrow> CompactCommitteeParticipationV1 list \<Rightarrow> bool" where
  "items_ok seats previous cs \<longleftrightarrow> sorted_wrt (<) (map cc_Position cs) \<and> (\<forall>c \<in> set cs. previous < int (unat (cc_Position c))
     \<and> unat (cc_Position c) < length seats \<and> length (cc_Signature c) = SignatureLength
     \<and> ws_Participant (seats ! unat (cc_Position c)) \<noteq> 0 \<and> ws_TicketHash (seats ! unat (cc_Position c)) \<noteq> 0)"

lemma minus_one_less_uint [simp]: "- 1 < uint x"
  using uint_ge_0 [of x] by linarith

lemma expand_items_iff:
  "expand_items b h r seats previous cs = Inr out \<longleftrightarrow> items_ok seats previous cs \<and> out = map (expand_item b h r seats) cs"
proof (induction cs arbitrary: previous out)
  case (Cons c cs)
  have "items_ok seats previous (c # cs) \<longleftrightarrow> unat (cc_Position c) < length seats \<and> previous < int (unat (cc_Position c))
      \<and> length (cc_Signature c) = SignatureLength \<and> ws_Participant (seats ! unat (cc_Position c)) \<noteq> 0
      \<and> ws_TicketHash (seats ! unat (cc_Position c)) \<noteq> 0 \<and> items_ok seats (int (unat (cc_Position c))) cs"
    by (auto simp: items_ok_def word_less_def)
  then show ?case using Cons.IH [of "uint (cc_Position c)"]
    by (cases "expand_items b h r seats (uint (cc_Position c)) cs") (auto simp: Let_def expand_item_def)
qed (auto simp: items_ok_def)

lemma Expand_iff:
  "ExpandCommitteeParticipationsV1 b h r seats cs = Inr out \<longleftrightarrow> b \<noteq> 0 \<and> h \<noteq> 0 \<and> r \<noteq> 0 \<and> length seats \<le> 128
     \<and> length cs \<le> length seats \<and> items_ok seats (- 1) cs \<and> out = map (expand_item b h r seats) cs"
  by (auto simp: ExpandCommitteeParticipationsV1_def expand_items_iff MaxCommitteeParticipationsV1_def)

definition batch_ok :: "WorkSeatV1 list \<Rightarrow> CommitteeParticipationV1 list \<Rightarrow> bool" where
  "batch_ok seats ps \<longleftrightarrow> ps = [] \<or> check_selected [] [] seats = None \<and> check_proofs seats (hd ps) [] [] ps = None"

lemma Canonicalize_iff:
  "CanonicalizeCommitteeParticipationsV1 seats ps = Inr out \<longleftrightarrow> length seats \<le> 128 \<and> length ps \<le> length seats
     \<and> batch_ok seats ps \<and> out = sort_key (proof_position seats) ps"
  by (cases ps) (auto simp: CanonicalizeCommitteeParticipationsV1_def batch_ok_def MaxCommitteeParticipationsV1_def
      simp del: check_proofs.simps split: option.splits)

lemma Compact_iff:
  "CompactCommitteeParticipationsV1 seats ps = Inr cs \<longleftrightarrow> length seats \<le> 128 \<and> length ps \<le> length seats
     \<and> batch_ok seats ps \<and> (\<forall>p \<in> set ps. length (pa_Signature p) = SignatureLength)
     \<and> cs = map (compact_item seats) (sort_key (proof_position seats) ps)"
proof (cases "length seats \<le> 128 \<and> length ps \<le> length seats \<and> batch_ok seats ps")
  case True
  then have "CanonicalizeCommitteeParticipationsV1 seats ps = Inr (sort_key (proof_position seats) ps)"
    by (simp add: Canonicalize_iff)
  with True show ?thesis by (auto simp: CompactCommitteeParticipationsV1_def compact_item_def [abs_def])
next
  case False
  then obtain e where "CanonicalizeCommitteeParticipationsV1 seats ps = Inl e"
    using Canonicalize_iff [of seats ps] by (cases "CanonicalizeCommitteeParticipationsV1 seats ps") auto
  with False show ?thesis by (auto simp: CompactCommitteeParticipationsV1_def)
qed

lemma proof_position_bound:
  assumes "batch_ok seats ps" "p \<in> set ps"
  shows "proof_position seats p < length seats \<and> seats ! proof_position seats p = \<lparr>ws_TicketHash = pa_TicketHash p, ws_Participant = pa_Participant p\<rparr>"
proof -
  have "proof_ok seats (hd ps) p" using assms by (auto simp: batch_ok_def check_proofs_None)
  then obtain i where i: "seat_position seats (pa_Participant p) = Some i" "ws_TicketHash (seats ! i) = pa_TicketHash p"
    by (auto simp: proof_ok_def)
  with seat_position_Some [OF i(1)] show ?thesis by (simp add: proof_position_def)
qed

lemma compact_positions:
  assumes "batch_ok seats ps" "length seats \<le> 128"
  shows "sorted_wrt (<) (map cc_Position (map (compact_item seats) (sort_key (proof_position seats) ps)))"
proof -
  let ?qs = "sort_key (proof_position seats) ps"
  have inj: "inj_on (proof_position seats) (set ps)"
  proof (rule inj_onI)
    fix p q assume pq: "p \<in> set ps" "q \<in> set ps" "proof_position seats p = proof_position seats q"
    then have "pa_Participant p = pa_Participant q" using proof_position_bound [OF assms(1)] by (metis WorkSeatV1.select_convs(2))
    moreover have "distinct (map pa_Participant ps)" using assms(1) pq(1) by (auto simp: batch_ok_def check_proofs_None)
    ultimately show "p = q" using pq by (metis distinct_map inj_onD)
  qed
  have "distinct ps" using assms(1) by (auto simp: batch_ok_def check_proofs_None distinct_map)
  then have "distinct (map (proof_position seats) ?qs)" using inj by (simp add: distinct_map)
  then have s: "sorted_wrt (\<lambda>x y. proof_position seats x < proof_position seats y) ?qs"
    using sorted_distinct_strict [OF sorted_sort_key] by blast
  have "(of_nat (proof_position seats x) :: u8) < of_nat (proof_position seats y)"
    if "x \<in> set ps" "y \<in> set ps" "proof_position seats x < proof_position seats y" for x y
    using that proof_position_bound [OF assms(1)] assms(2) by (fastforce simp: word_less_nat_alt unat_of_nat)
  with s show ?thesis unfolding sorted_wrt_map compact_item_def
    by (auto intro: sorted_wrt_mono_rel [rotated])
qed

lemma compact_expand:
  assumes ok: "batch_ok seats ps" and n: "length seats \<le> 128"
    and ctx: "\<forall>p \<in> set ps. pa_Version p = 1 \<and> pa_BlockNumber p = b \<and> pa_ParentHash p = h \<and> pa_SelectionRoot p = r"
    and p: "p \<in> set ps"
  shows "expand_item b h r seats (compact_item seats p) = p" and "unat (cc_Position (compact_item seats p)) = proof_position seats p"
proof -
  note pos = proof_position_bound [OF ok p]
  show u: "unat (cc_Position (compact_item seats p)) = proof_position seats p"
    using pos n by (simp add: compact_item_def unat_of_nat)
  show "expand_item b h r seats (compact_item seats p) = p"
    using pos ctx p unfolding expand_item_def u
    by (simp add: compact_item_def CommitteeParticipationVersionV1_def)
qed

lemma Expand_Compact:
  assumes c: "CompactCommitteeParticipationsV1 seats ps = Inr cs"
    and ctx: "\<forall>p \<in> set ps. pa_Version p = 1 \<and> pa_BlockNumber p = b \<and> pa_ParentHash p = h \<and> pa_SelectionRoot p = r"
    and "b \<noteq> 0" "h \<noteq> 0" "r \<noteq> 0"
  shows "ExpandCommitteeParticipationsV1 b h r seats cs = CanonicalizeCommitteeParticipationsV1 seats ps"
proof -
  let ?qs = "sort_key (proof_position seats) ps"
  from c have x: "length seats \<le> 128" "length ps \<le> length seats" "batch_ok seats ps"
      "\<forall>p \<in> set ps. length (pa_Signature p) = SignatureLength" "cs = map (compact_item seats) ?qs"
    by (simp_all add: Compact_iff)
  note ce = compact_expand [OF x(3,1) ctx]
  have nz: "ws_Participant s \<noteq> 0 \<and> ws_TicketHash s \<noteq> 0" if "ps \<noteq> []" "s \<in> set seats" for s
    using x(3) that by (auto simp: batch_ok_def check_selected_None)
  have "length (cc_Signature (compact_item seats p)) = SignatureLength \<and> proof_position seats p < length seats
      \<and> pa_Participant p \<noteq> 0 \<and> pa_TicketHash p \<noteq> 0" if "p \<in> set ps" for p
    using proof_position_bound [OF x(3) that] x(4) that nz [OF _ nth_mem, of "proof_position seats p"]
    by (cases "ps = []") (auto simp: compact_item_def)
  then have "items_ok seats (- 1) cs"
    unfolding items_ok_def x(5) using compact_positions [OF x(3,1)] ce(2) proof_position_bound [OF x(3)] by auto
  moreover have "map (expand_item b h r seats) cs = ?qs"
    unfolding x(5) map_map by (rule map_idI) (use ce(1) in simp)
  ultimately have "ExpandCommitteeParticipationsV1 b h r seats cs = Inr ?qs"
    using x(1,2,5) assms(3-5) by (simp add: Expand_iff)
  moreover have "CanonicalizeCommitteeParticipationsV1 seats ps = Inr ?qs" using x(1-3) by (simp add: Canonicalize_iff)
  ultimately show ?thesis by simp
qed

lemma distinct_map_subset: "distinct (map f ys) \<Longrightarrow> distinct xs \<Longrightarrow> set xs \<subseteq> set ys \<Longrightarrow> distinct (map f xs)"
  by (auto simp: distinct_map intro: inj_on_subset)

lemma Compact_Expand:
  assumes e: "ExpandCommitteeParticipationsV1 b h r seats cs = Inr ps" and s: "check_selected [] [] seats = None"
  shows "CompactCommitteeParticipationsV1 seats ps = Inr cs"
proof -
  from e have x: "length seats \<le> 128" "length cs \<le> length seats" "items_ok seats (- 1) cs" "ps = map (expand_item b h r seats) cs"
    by (simp_all add: Expand_iff)
  have seat: "seat_position seats (ws_Participant (seats ! i)) = Some i" if "i < length seats" for i
    using seat_position_nth [OF _ that] s by (simp add: check_selected_None)
  have pos: "proof_position seats (expand_item b h r seats c) = unat (cc_Position c)" if "c \<in> set cs" for c
    using x(3) that seat by (simp add: proof_position_def expand_item_def items_ok_def)
  have srt: "sorted_wrt (<) (map cc_Position cs)" using x(3) by (simp add: items_ok_def)
  have mp: "map (proof_position seats) ps = map unat (map cc_Position cs)" using pos x(4) by simp
  have "sorted_wrt (<) (map (proof_position seats) ps)"
    unfolding mp sorted_wrt_map using srt by (simp add: sorted_wrt_map word_less_nat_alt)
  then have so: "sorted (map (proof_position seats) ps)" "distinct (map (proof_position seats) ps)"
    by (simp_all add: strict_sorted_iff)
  have inj: "inj_on (\<lambda>i. seats ! i) (set (map (proof_position seats) ps))"
    using pos x(3,4) s by (auto simp: inj_on_def items_ok_def nth_eq_iff_index_eq check_selected_None distinct_map)
  have dq: "distinct (map (\<lambda>p. seats ! proof_position seats p) ps)"
    using so(2) inj by (simp add: distinct_map inj_on_def)
  have mem: "proof_position seats p < length seats \<and> seats ! proof_position seats p = \<lparr>ws_TicketHash = pa_TicketHash p, ws_Participant = pa_Participant p\<rparr>"
    if "p \<in> set ps" for p using that pos x(3,4) by (auto simp: items_ok_def expand_item_def)
  have sub: "set (map (\<lambda>p. seats ! proof_position seats p) ps) \<subseteq> set seats" using mem nth_mem by fastforce
  have "distinct (map ws_Participant (map (\<lambda>p. seats ! proof_position seats p) ps))"
      "distinct (map ws_TicketHash (map (\<lambda>p. seats ! proof_position seats p) ps))"
    using s distinct_map_subset [OF _ dq sub] unfolding check_selected_None by blast+
  moreover have "map ws_Participant (map (\<lambda>p. seats ! proof_position seats p) ps) = map pa_Participant ps"
      "map ws_TicketHash (map (\<lambda>p. seats ! proof_position seats p) ps) = map pa_TicketHash ps"
    using mem by auto
  ultimately have d: "distinct (map pa_Participant ps)" "distinct (map pa_TicketHash ps)" by argo+
  have "proof_ok seats (hd ps) p" if "p \<in> set ps" for p
    using that x(3,4) seat by (cases cs) (auto simp: proof_ok_def expand_item_def items_ok_def)
  then have "batch_ok seats ps" using s d by (simp add: batch_ok_def check_proofs_None)
  moreover have "compact_item seats (expand_item b h r seats c) = c" if "c \<in> set cs" for c
    using pos [OF that] by (simp add: compact_item_def) (simp add: expand_item_def)
  ultimately show ?thesis
    using x sort_key_sorted_id [OF so] by (auto simp: Compact_iff items_ok_def expand_item_def comp_def map_idI)
qed

section \<open>Verified claims and their reward\<close>

definition claim_sign_type :: rlp_type where
  "claim_sign_type = TStruct [TBytes, TUint 8, TBig, TUint 64, TArray 32, TArray 32, TArray 32, TArray 20, TArray 32]"

definition unsigned :: "CommitteeParticipationV1 \<Rightarrow> u8 \<times> u64 \<times> hash \<times> hash \<times> hash \<times> address" where
  "unsigned p = (pa_Version p, pa_BlockNumber p, pa_ParentHash p, pa_SelectionRoot p, pa_TicketHash p, pa_Participant p)"

definition claim_sign_payload :: "nat \<times> (u8 \<times> u64 \<times> hash \<times> hash \<times> hash \<times> address) \<times> hash \<Rightarrow> rlp_val" where
  "claim_sign_payload = (\<lambda>(c, (v, b, parent, r, t, a), h). committeeParticipationSignPayloadV1 (Some (int c))
     \<lparr>pa_Version = v, pa_BlockNumber = b, pa_ParentHash = parent, pa_SelectionRoot = r, pa_TicketHash = t, pa_Participant = a,
      pa_Signature = []\<rparr> h)"

lemma claim_sign_payload_eq:
  "0 < c \<Longrightarrow> committeeParticipationSignPayloadV1 (Some c) p h = claim_sign_payload (nat c, unsigned p, h)"
  by (simp add: claim_sign_payload_def unsigned_def committeeParticipationSignPayloadV1_def)

interpretation claim_sign: rlp_payload claim_sign_type claim_sign_payload "\<lambda>x. fst x < 2 ^ 256"
proof unfold_locales
  show "type_ok claim_sign_type" by (simp add: claim_sign_type_def)
  show "has_type claim_sign_type (claim_sign_payload x)" for x
    by (cases x) (auto simp: claim_sign_type_def claim_sign_payload_def committeeParticipationSignPayloadV1_def big_val_def)
  show "vsize (claim_sign_payload x) < 2 ^ 64" if "fst x < 2 ^ 256" for x
    using that length_be_min_256 [of "fst x"]
    by (cases x) (auto simp: claim_sign_payload_def committeeParticipationSignPayloadV1_def big_val_def
        committeeParticipationSignDomainV1_def ascii_def)
  show "x = y" if "claim_sign_payload x = claim_sign_payload y" for x y
    using that by (cases x, cases y)
      (auto simp: claim_sign_payload_def committeeParticipationSignPayloadV1_def big_val_def
        dest: arg_cong [of _ _ "ucast :: u64 \<Rightarrow> u8"])
qed

definition verified_item ::
  "crypto \<Rightarrow> CommitteeParticipationVerificationContextV1 \<Rightarrow> (hash \<Rightarrow> bytes \<Rightarrow> hash option) \<Rightarrow> u64
    \<Rightarrow> CompactCommitteeParticipationV1 \<times> CommitteeParticipationV1 \<Rightarrow> VerifiedCommitteeParticipationV1 \<Rightarrow> bool" where
  "verified_item cr ctx hasher t cp v \<longleftrightarrow> vp_TargetBlock v = t \<and> vp_Position v = cc_Position (fst cp)
     \<and> vp_Seat v = vc_Committee ctx ! unat (cc_Position (fst cp))
     \<and> (\<exists>input. CommitteeParticipationInputV1 (vc_ChainID ctx) (snd cp) = Inr input
          \<and> hasher (vc_DatasetKey ctx) input = Some (vp_ProofHash v))
     \<and> VerifyCommitteeParticipationV1 cr (vc_ChainID ctx) (vp_Seat v) (snd cp) (vp_ProofHash v) = None"

lemma verify_items_iff:
  "verify_items cr ctx hasher t cps = Inr vs \<longleftrightarrow> list_all2 (verified_item cr ctx hasher t) cps vs"
proof (induction cps arbitrary: vs)
  case (Cons cp cps)
  obtain c p where cp: "cp = (c, p)" by fastforce
  show ?case
  proof (cases "\<exists>input h. CommitteeParticipationInputV1 (vc_ChainID ctx) p = Inr input \<and> hasher (vc_DatasetKey ctx) input = Some h
      \<and> VerifyCommitteeParticipationV1 cr (vc_ChainID ctx) (vc_Committee ctx ! unat (cc_Position c)) p h = None")
    case True
    then obtain input h where ih: "CommitteeParticipationInputV1 (vc_ChainID ctx) p = Inr input"
        "hasher (vc_DatasetKey ctx) input = Some h"
        "VerifyCommitteeParticipationV1 cr (vc_ChainID ctx) (vc_Committee ctx ! unat (cc_Position c)) p h = None" by blast
    let ?v = "\<lparr>vp_TargetBlock = t, vp_Position = cc_Position c, vp_Seat = vc_Committee ctx ! unat (cc_Position c), vp_ProofHash = h\<rparr>"
    have "verified_item cr ctx hasher t cp v \<longleftrightarrow> v = ?v" for v
      using ih unfolding cp verified_item_def by (cases v) auto
    moreover have "verify_items cr ctx hasher t (cp # cps) = Inr vs \<longleftrightarrow>
        (\<exists>vs'. verify_items cr ctx hasher t cps = Inr vs' \<and> vs = ?v # vs')"
      using ih unfolding cp by (cases "verify_items cr ctx hasher t cps") (auto simp: Let_def)
    ultimately show ?thesis using Cons.IH by (simp add: list_all2_Cons1) blast
  next
    case False
    then have "\<not> verified_item cr ctx hasher t cp v" for v unfolding cp verified_item_def by auto
    moreover have "verify_items cr ctx hasher t (cp # cps) \<noteq> Inr vs"
      using False unfolding cp by (auto simp: Let_def split: sum.splits option.splits)
    ultimately show ?thesis by (simp add: list_all2_Cons1)
  qed
qed auto

lemma VerifyParticipation_None:
  "VerifyCommitteeParticipationV1 cr chainID seat p h = None \<longleftrightarrow> ws_Participant seat = pa_Participant p
     \<and> ws_TicketHash seat = pa_TicketHash p \<and> length (pa_Signature p) = SignatureLength \<and> h \<noteq> 0
     \<and> validateCommitteeParticipationContextV1 chainID p = None
     \<and> sigToAddress cr (Keccak256Hash cr [EncodeToBytes (committeeParticipationSignPayloadV1 chainID p h)]) (pa_Signature p)
         = Some (pa_Participant p)"
  by (auto simp: VerifyCommitteeParticipationV1_def CommitteeParticipationSigningHashV1_def
      CommitteeParticipationSigningDataV1_def)

lemma VerifyGroup_Inr:
  assumes "VerifyCommitteeParticipationClaimGroupV1 cr ctx grp = Inr vs"
  obtains hasher where "vc_Hasher ctx = Some hasher" "length (vc_Committee ctx) \<le> 128" "cg_TargetBlock grp \<noteq> 0"
    "items_ok (vc_Committee ctx) (- 1) (cg_Participations grp)"
    "list_all2 (verified_item cr ctx hasher (cg_TargetBlock grp)) (zip (cg_Participations grp)
       (map (expand_item (cg_TargetBlock grp) (vc_ParentHash ctx) (vc_SelectionRoot ctx) (vc_Committee ctx)) (cg_Participations grp))) vs"
  using assms by (auto simp: VerifyCommitteeParticipationClaimGroupV1_def ExpandCommitteeParticipationClaimGroupV1_def
      Expand_iff verify_items_iff split: option.splits if_splits sum.splits)

fun credits_ok :: "WorkSeatV1 list \<Rightarrow> int \<Rightarrow> u64 \<Rightarrow> VerifiedCommitteeParticipationV1 list \<Rightarrow> bool" where
  "credits_ok committee previous target [] \<longleftrightarrow> True"
| "credits_ok committee previous target (v # vs) \<longleftrightarrow> vp_TargetBlock v \<noteq> 0 \<and> (target = 0 \<or> vp_TargetBlock v = target)
     \<and> unat (vp_Position v) < length committee \<and> previous < int (unat (vp_Position v))
     \<and> vp_Seat v = committee ! unat (vp_Position v) \<and> credits_ok committee (int (unat (vp_Position v))) (vp_TargetBlock v) vs"

lemma claim_credits_iff:
  "claim_credits perSeat committee previous target vs (cs, n) = Inr (cs', n') \<longleftrightarrow> credits_ok committee previous target vs
     \<and> cs' = cs @ (if perSeat = 0 then [] else map (\<lambda>v. \<lparr>wr_Address = ws_Participant (vp_Seat v), wr_Amount = perSeat\<rparr>) vs)
     \<and> n' = n + of_nat (length vs) * perSeat"
proof (induction vs arbitrary: previous target cs n)
  case (Cons v vs)
  then show ?case by (auto simp: Let_def algebra_simps)
qed auto

lemma credits_ok_positions:
  "credits_ok committee previous target vs \<Longrightarrow> sorted_wrt (<) (map vp_Position vs)
     \<and> (\<forall>v \<in> set vs. previous < int (unat (vp_Position v)) \<and> unat (vp_Position v) < length committee
          \<and> vp_Seat v = committee ! unat (vp_Position v))"
proof (induction vs arbitrary: previous target)
  case (Cons v vs)
  from Cons.IH [of "int (unat (vp_Position v))" "vp_TargetBlock v"] Cons.prems show ?case
    by (auto simp: word_less_def)
qed simp

lemma credits_ok_length:
  assumes "credits_ok committee previous target vs"
  shows "length vs \<le> length committee"
proof -
  have s: "sorted_wrt (<) (map vp_Position vs)" and b: "\<forall>v \<in> set vs. unat (vp_Position v) < length committee"
    using credits_ok_positions [OF assms] by auto
  have "distinct (map unat (map vp_Position vs))"
    using s by (simp add: strict_sorted_iff distinct_map inj_on_def word_unat_eq_iff del: map_map)
  then have "length vs = card (set (map unat (map vp_Position vs)))" using distinct_card by fastforce
  also have "\<dots> \<le> card {..<length committee}" using b by (intro card_mono) auto
  finally show ?thesis by simp
qed

lemma credits_ok_distinct:
  assumes "credits_ok committee previous target vs" "distinct (map ws_Participant committee)"
  shows "distinct (map (\<lambda>v. ws_Participant (vp_Seat v)) vs)"
proof -
  have s: "sorted_wrt (<) (map vp_Position vs)"
    and b: "\<forall>v \<in> set vs. unat (vp_Position v) < length committee \<and> vp_Seat v = committee ! unat (vp_Position v)"
    using credits_ok_positions [OF assms(1)] by auto
  have "inj_on (\<lambda>p. map ws_Participant committee ! unat p) (set (map vp_Position vs))"
    using assms(2) b by (auto simp: inj_on_def nth_eq_iff_index_eq simp del: nth_map) (simp add: word_unat_eq_iff)
  moreover have "distinct (map vp_Position vs)" using s by (simp add: strict_sorted_iff)
  ultimately have "distinct (map (\<lambda>p. map ws_Participant committee ! unat p) (map vp_Position vs))"
    by (simp add: distinct_map del: map_map)
  moreover have "map (\<lambda>p. map ws_Participant committee ! unat p) (map vp_Position vs) = map (\<lambda>v. ws_Participant (vp_Seat v)) vs"
    using b by simp
  ultimately show ?thesis by argo
qed

lemma credits_ok_verified:
  assumes "list_all2 (verified_item cr ctx hasher t) (zip cs ps) vs" "length ps = length cs" "t \<noteq> 0"
    and "items_ok (vc_Committee ctx) previous cs" "target = 0 \<or> target = t"
  shows "credits_ok (vc_Committee ctx) previous target vs"
  using assms
proof (induction cs arbitrary: ps vs previous target)
  case (Cons c cs)
  then obtain p ps' where ps: "ps = p # ps'" by (cases ps) auto
  with Cons.prems(1) obtain v vs' where v: "vs = v # vs'" "verified_item cr ctx hasher t (c, p) v"
      "list_all2 (verified_item cr ctx hasher t) (zip cs ps') vs'" by (auto simp: list_all2_Cons1)
  have "items_ok (vc_Committee ctx) (int (unat (cc_Position c))) cs"
    using Cons.prems(4) by (auto simp: items_ok_def word_less_def)
  then have "credits_ok (vc_Committee ctx) (int (unat (cc_Position c))) t vs'"
    using Cons.IH [OF v(3)] Cons.prems(2,3) ps by simp
  then show ?case using v Cons.prems(3-5) by (auto simp: verified_item_def items_ok_def)
qed simp

text \<open>The amounts of a reward, without wrap-around for rewards below \<open>2 ^ 240\<close>.\<close>

lemma claim_amounts:
  fixes reward :: u256
  assumes small: "unat reward < 2 ^ 240" and n: "0 < n" "n \<le> 128" and k: "k \<le> n"
  defines "pool \<equiv> reward - reward * ucast CommitteeClaimProducerBpsV1 div 10000"
  shows "unat pool = unat reward - unat reward * 7000 div 10000"
    and "unat (pool div of_nat n) = unat pool div n"
    and "unat (of_nat k * (pool div of_nat n)) = k * (unat pool div n)"
    and "unat (of_nat k * (pool div of_nat n)) \<le> unat pool"
proof -
  have m: "unat (reward * 7000) = unat reward * 7000"
    using small by (subst unat_mult_lem [THEN iffD1]) simp_all
  have d: "unat (reward * ucast CommitteeClaimProducerBpsV1 div 10000) = unat reward * 7000 div 10000"
    unfolding CommitteeClaimProducerBpsV1_def by (simp add: unat_div m)
  have "unat reward * 7000 div 10000 \<le> unat reward" by simp
  then show "unat pool = unat reward - unat reward * 7000 div 10000"
    unfolding pool_def using d by (subst unat_sub) (simp_all add: word_le_nat_alt)
  have nn: "unat (of_nat n :: u256) = n" and kk: "unat (of_nat k :: u256) = k"
    using n k by (simp_all add: unat_of_nat)
  show q: "unat (pool div of_nat n) = unat pool div n" by (simp add: unat_div nn)
  have le: "k * (unat pool div n) \<le> unat pool"
    using mult_le_mono1 [OF k, of "unat pool div n"] by (meson div_times_less_eq_dividend le_trans times_div_less_eq_dividend)
  moreover have "unat pool < 2 ^ 256" using unsigned_less [of pool] by simp
  ultimately have "unat (of_nat k :: u256) * unat (pool div of_nat n) < 2 ^ LENGTH(256)" unfolding kk q by simp
  then show "unat (of_nat k * (pool div of_nat n)) = k * (unat pool div n)"
    by (simp add: unat_mult_lem [THEN iffD1] kk q)
  with le show "unat (of_nat k * (pool div of_nat n)) \<le> unat pool" by simp
qed

section \<open>Properties\<close>

text \<open>Claim C38: the claim ledger implements a set of claimed positions. A block's claims are accepted exactly when their groups are
  canonicalisable and none of them has been claimed; then the ledger stays well-formed, the new claims are recorded, and an
  older claim is kept exactly as long as its target can still be claimed.\<close>

theorem claim_ledger_refines:
  assumes "ledger_wf l"
  shows "((\<exists>l'. Ledger_Apply (Some l) i gs = Inr l') \<longleftrightarrow> (\<exists>c. CanonicalCommitteeParticipationClaimGroupsV1 i gs = Inr c)
      \<and> (\<forall>(t, p) \<in> set (claims_of gs). \<not> Ledger_IsClaimed (Some l) t p))
    \<and> (\<forall>l'. Ledger_Apply (Some l) i gs = Inr l' \<longrightarrow> ledger_wf l' \<and> (\<forall>t p. Ledger_IsClaimed (Some l') t p \<longleftrightarrow>
        (t, p) \<in> set (claims_of gs) \<or> (Ledger_IsClaimed (Some l) t p \<and> open_target i t)))"
proof
  show "(\<exists>l'. Ledger_Apply (Some l) i gs = Inr l') \<longleftrightarrow> (\<exists>c. CanonicalCommitteeParticipationClaimGroupsV1 i gs = Inr c)
      \<and> (\<forall>(t, p) \<in> set (claims_of gs). \<not> Ledger_IsClaimed (Some l) t p)"
    unfolding Ledger_Apply_claimed(1) [OF assms] IsClaimed_iff [OF assms] CanonicalGroups_iff MaxCommitteeParticipationsV1_def
    by auto
  show "\<forall>l'. Ledger_Apply (Some l) i gs = Inr l' \<longrightarrow> ledger_wf l' \<and> (\<forall>t p. Ledger_IsClaimed (Some l') t p \<longleftrightarrow>
        (t, p) \<in> set (claims_of gs) \<or> (Ledger_IsClaimed (Some l) t p \<and> open_target i t))"
    using Ledger_Apply_claimed(2) [OF assms] IsClaimed_iff IsClaimed_iff [OF assms] by fastforce
qed

definition sample_group :: CommitteeParticipationClaimGroupV1 where
  "sample_group = \<lparr>cg_TargetBlock = 5, cg_Participations = [\<lparr>cc_Position = 3, cc_Signature = sample_signature 7\<rparr>]\<rparr>"

lemma sample_canonical: "CanonicalCommitteeParticipationClaimGroupsV1 6 [sample_group] = Inr [sample_group]"
  by (simp add: CanonicalGroups_iff groups_ok_def open_target_def claim_ok_def sample_group_def sort_group_def
      MaxCommitteeParticipationsV1_def SignatureLength_def)

lemma ledger_wf_New [simp]: "ledger_wf NewCommitteeClaimLedgerV1"
  by (simp add: ledger_wf_def Ledger_Validate_def NewCommitteeClaimLedgerV1_def)

lemma IsClaimed_New [simp]: "\<not> Ledger_IsClaimed (Some NewCommitteeClaimLedgerV1) t p"
  by (simp add: Ledger_IsClaimed_def NewCommitteeClaimLedgerV1_def Let_def split: prod.splits)

theorem claim_ledger_refines_witness:
  "\<exists>l'. Ledger_Apply (Some NewCommitteeClaimLedgerV1) 6 [sample_group] = Inr l' \<and> Ledger_IsClaimed (Some l') 5 3"
proof -
  note r = claim_ledger_refines [OF ledger_wf_New, of 6 "[sample_group]"]
  obtain l' where l: "Ledger_Apply (Some NewCommitteeClaimLedgerV1) 6 [sample_group] = Inr l'"
    using r [THEN conjunct1] sample_canonical by auto
  then have "Ledger_IsClaimed (Some l') 5 3" using r [THEN conjunct2] by (auto simp: sample_group_def)
  with l show ?thesis by blast
qed

text \<open>Claim C39: no committee position is paid twice. Along any chain of blocks with increasing numbers whose claims the ledger accepts,
  starting from the empty ledger, all claims are different, although the ledger forgets targets that left the window.\<close>

theorem no_double_claim:
  assumes "sorted_wrt (<) (map fst blocks)"
    and "fold_res (\<lambda>(i, gs) l. Ledger_Apply (Some l) i gs) blocks NewCommitteeClaimLedgerV1 = Inr l"
  shows "distinct (concat (map (\<lambda>x. claims_of (snd x)) blocks))"
proof (cases blocks)
  case (Cons x rest)
  obtain i gs where x: "x = (i, gs)" by fastforce
  with assms(2) Cons have "1 < i" using Ledger_Apply_claimed(1) [OF ledger_wf_New, of i gs] by (auto split: sum.splits)
  then have "\<forall>y \<in> set blocks. 0 < fst y" using assms(1) Cons x by (auto dest: less_trans simp: word_neq_0_conv [symmetric])
  then show ?thesis using claims_disjoint [of NewCommitteeClaimLedgerV1 "{}" 0 blocks l] assms by simp
qed simp

theorem no_double_claim_witness:
  "\<exists>l. fold_res (\<lambda>(i, gs) l. Ledger_Apply (Some l) i gs) [(6, [sample_group]), (7, [])] NewCommitteeClaimLedgerV1 = Inr l
     \<and> distinct (concat (map (\<lambda>x. claims_of (snd x)) [(6 :: u64, [sample_group]), (7, [])]))"
proof -
  obtain l' where l: "Ledger_Apply (Some NewCommitteeClaimLedgerV1) 6 [sample_group] = Inr l'"
    using Ledger_Apply_claimed(1) [OF ledger_wf_New, of 6 "[sample_group]"] sample_canonical
    by (auto simp: CanonicalGroups_iff MaxCommitteeParticipationsV1_def claimed_def NewCommitteeClaimLedgerV1_def)
  then have "ledger_wf l'" using Ledger_Apply_claimed(2) [OF ledger_wf_New] by blast
  then obtain l2 where "Ledger_Apply (Some l') 7 [] = Inr l2"
    using Ledger_Apply_claimed(1) [of l' 7 "[]"] by (auto simp: groups_ok_def)
  with l have f: "fold_res (\<lambda>(i, gs) l. Ledger_Apply (Some l) i gs) [(6, [sample_group]), (7, [])] NewCommitteeClaimLedgerV1 = Inr l2"
    by simp
  with no_double_claim [OF _ f] show ?thesis by simp
qed

text \<open>The compact form loses nothing. Expanding a compacted batch gives the canonical batch, for proofs of one block
  context, and compacting an expanded batch gives the compact items back.\<close>

theorem compact_roundtrip:
  "(CompactCommitteeParticipationsV1 seats ps = Inr cs \<and> b \<noteq> 0 \<and> h \<noteq> 0 \<and> r \<noteq> 0
      \<and> (\<forall>p \<in> set ps. pa_Version p = 1 \<and> pa_BlockNumber p = b \<and> pa_ParentHash p = h \<and> pa_SelectionRoot p = r)
      \<longrightarrow> ExpandCommitteeParticipationsV1 b h r seats cs = CanonicalizeCommitteeParticipationsV1 seats ps)
   \<and> (ExpandCommitteeParticipationsV1 b h r seats cs = Inr ps \<and> check_selected [] [] seats = None
      \<longrightarrow> CompactCommitteeParticipationsV1 seats ps = Inr cs)"
  using Expand_Compact Compact_Expand by blast

definition sample_seats :: "WorkSeatV1 list" where
  "sample_seats = [\<lparr>ws_TicketHash = 11, ws_Participant = 6\<rparr>, \<lparr>ws_TicketHash = 12, ws_Participant = 7\<rparr>]"

lemma sample_selected: "check_selected [] [] sample_seats = None"
  by (simp add: sample_seats_def)

theorem compact_roundtrip_witness:
  "\<exists>ps. ExpandCommitteeParticipationsV1 5 8 9 sample_seats [\<lparr>cc_Position = 1, cc_Signature = sample_signature 7\<rparr>] = Inr ps
     \<and> CompactCommitteeParticipationsV1 sample_seats ps = Inr [\<lparr>cc_Position = 1, cc_Signature = sample_signature 7\<rparr>]"
proof -
  obtain ps where p: "ExpandCommitteeParticipationsV1 5 8 9 sample_seats [\<lparr>cc_Position = 1, cc_Signature = sample_signature 7\<rparr>] = Inr ps"
    by (simp add: ExpandCommitteeParticipationsV1_def sample_seats_def MaxCommitteeParticipationsV1_def SignatureLength_def Let_def)
  then have "CompactCommitteeParticipationsV1 sample_seats ps = Inr [\<lparr>cc_Position = 1, cc_Signature = sample_signature 7\<rparr>]"
    using compact_roundtrip [THEN conjunct2, rule_format, of 5 8 9 sample_seats] sample_selected by blast
  with p show ?thesis by blast
qed


definition sample_context :: CommitteeParticipationVerificationContextV1 where
  "sample_context = \<lparr>vc_ChainID = Some 2, vc_DatasetKey = 3, vc_ParentHash = 8, vc_SelectionRoot = 9, vc_Committee = sample_seats,
     vc_Hasher = Some (\<lambda>key input. Some 5)\<rparr>"

definition sample_claim :: CommitteeParticipationClaimGroupV1 where
  "sample_claim = \<lparr>cg_TargetBlock = 5, cg_Participations = [\<lparr>cc_Position = 1, cc_Signature = sample_signature 7\<rparr>]\<rparr>"

lemma sample_verified: "VerifyCommitteeParticipationClaimGroupV1 sample_crypto sample_context sample_claim =
   Inr [\<lparr>vp_TargetBlock = 5, vp_Position = 1, vp_Seat = \<lparr>ws_TicketHash = 12, ws_Participant = 7\<rparr>, vp_ProofHash = 5\<rparr>]"
proof -
  have "VerifyCommitteeParticipationV1 sample_crypto (Some 2) \<lparr>ws_TicketHash = 12, ws_Participant = 7\<rparr>
      \<lparr>pa_Version = 1, pa_BlockNumber = 5, pa_ParentHash = 8, pa_SelectionRoot = 9, pa_TicketHash = 12, pa_Participant = 7,
       pa_Signature = sample_signature 7\<rparr> 5 = None"
    by (simp add: VerifyParticipation_None SignatureLength_def validateCommitteeParticipationContextV1_def not_positive_def
        CommitteeParticipationVersionV1_def)
  then show ?thesis
    by (simp add: VerifyCommitteeParticipationClaimGroupV1_def ExpandCommitteeParticipationClaimGroupV1_def
        ExpandCommitteeParticipationsV1_def sample_context_def sample_claim_def sample_seats_def MaxCommitteeParticipationsV1_def
        not_positive_def SignatureLength_def Let_def CommitteeParticipationInputV1_def validateCommitteeParticipationContextV1_def
        CommitteeParticipationVersionV1_def)
qed


text \<open>A claim reward neither creates nor moves value. With rewards below \<open>2 ^ 240\<close>, the amounts issued and not issued make up
  the committee pool, which is the block reward without the producer's seventy percent; every credit is the same fixed
  share of the pool, whoever else claims, and goes to a different participant of the committee.\<close>

theorem claim_rewards:
  assumes "CommitteeClaimRewardCreditsV1 (Some reward) committee vs = Inr r" and "unat reward < 2 ^ 240"
  shows "unat (rr_CommitteeIssued r) + unat (rr_CommitteeUnissued r) = unat (rr_CommitteePool r)
    \<and> unat (rr_CommitteePool r) = (if committee = [] then 0 else unat reward - unat reward * 7000 div 10000)
    \<and> (\<Sum>c \<leftarrow> rr_Credits r. unat (wr_Amount c)) = unat (rr_CommitteeIssued r)
    \<and> (\<forall>c \<in> set (rr_Credits r). unat (wr_Amount c) = unat (rr_CommitteePool r) div length committee
          \<and> wr_Address c \<in> ws_Participant ` set committee)
    \<and> distinct (map wr_Address (rr_Credits r))"
proof (cases "committee = [] \<or> reward = 0")
  case True
  then show ?thesis using assms(1) by (auto simp: CommitteeClaimRewardCreditsV1_def Let_def split: if_splits)
next
  case False
  let ?n = "length committee"
  define pool where "pool = reward - reward * ucast CommitteeClaimProducerBpsV1 div 10000"
  define share where "share = pool div of_nat ?n"
  let ?cs = "if share = 0 then [] else map (\<lambda>v. \<lparr>wr_Address = ws_Participant (vp_Seat v), wr_Amount = share\<rparr>) vs"
  have r: "r = \<lparr>rr_Credits = ?cs, rr_CommitteePool = pool, rr_CommitteeIssued = of_nat (length vs) * share,
        rr_CommitteeUnissued = pool - of_nat (length vs) * share\<rparr>" and ok: "credits_ok committee (- 1) 0 vs"
      and n: "?n \<le> 128" and sel: "check_selected [] [] committee = None"
    using assms(1) False by (auto simp: CommitteeClaimRewardCreditsV1_def Let_def MaxCommitteeParticipationsV1_def pool_def share_def
        claim_credits_iff split: if_splits sum.splits)
  note len = credits_ok_length [OF ok]
  note am = claim_amounts [OF assms(2) _ n len, folded pool_def, folded share_def]
  have seat: "vp_Seat v \<in> set committee" if "v \<in> set vs" for v using credits_ok_positions [OF ok] that by auto
  have d: "distinct (map wr_Address ?cs)"
    using credits_ok_distinct [OF ok] sel by (simp add: check_selected_None comp_def)
  have "(\<Sum>c \<leftarrow> ?cs. unat (wr_Amount c)) = length vs * unat share" by (simp add: comp_def sum_list_triv)
  moreover have "unat (pool - of_nat (length vs) * share) = unat pool - unat (of_nat (length vs) * share)"
    using am(4) False by (intro unat_sub) (simp add: word_le_nat_alt)
  moreover from this have "unat (of_nat (length vs) * share) + unat (pool - of_nat (length vs) * share) = unat pool"
    using am(4) False by simp
  ultimately show ?thesis using am(1-3) False d seat unfolding r by auto
qed

theorem claim_rewards_witness:
  "\<exists>r. CommitteeClaimRewardCreditsV1 (Some 100) sample_seats
     [\<lparr>vp_TargetBlock = 5, vp_Position = 1, vp_Seat = \<lparr>ws_TicketHash = 12, ws_Participant = 7\<rparr>, vp_ProofHash = 5\<rparr>] = Inr r
     \<and> unat (rr_CommitteeIssued r) + unat (rr_CommitteeUnissued r) = unat (rr_CommitteePool r)"
proof -
  obtain r where r: "CommitteeClaimRewardCreditsV1 (Some 100) sample_seats
     [\<lparr>vp_TargetBlock = 5, vp_Position = 1, vp_Seat = \<lparr>ws_TicketHash = 12, ws_Participant = 7\<rparr>, vp_ProofHash = 5\<rparr>] = Inr r"
    by (simp add: CommitteeClaimRewardCreditsV1_def sample_seats_def MaxCommitteeParticipationsV1_def Let_def
        CommitteeClaimProducerBpsV1_def)
  with claim_rewards [OF r] show ?thesis by simp
qed

end
