(* ===== verification/Work_Header.thy ===== *)
theory Work_Header
  imports Registry_Header Work_Tickets Committee_Claims
begin

text \<open>
  The unified header envelopes V3, V4 and V5 (\<open>consensus/lqc/work_protocol_v1_header_v3.go\<close>, \<open>work_protocol_v1_header_v4.go\<close>,
  \<open>work_protocol_v1_header_v5.go\<close>) with the shape checks of the VRF values they carry (\<open>rabbit_vrf_finalization_v1.go\<close>,
  \<open>rabbit_vrf_keyset_certificate_v1.go\<close>). A BLS public key and a BLS signature are fixed byte arrays, here words of 384 and
  768 bits; whether a public key decodes to a curve point is a parameter, since the curve is a library's.
\<close>

section \<open>Errors and VRF values\<close>

datatype header_error =
    HeaderRegistry registry_error
  | HeaderWork work_error
  | HeaderClaim claim_error
  | ErrInvalidLQCHeaderExtraV3
  | ErrUnsupportedLQCHeaderV3
  | ErrLQCHeaderBlockMismatchV3
  | ErrInvalidLQCHeaderExtraV4
  | ErrUnsupportedLQCHeaderV4
  | ErrLQCHeaderBlockMismatchV4
  | ErrTooManyClaimRegistryOperationsV4
  | ErrInvalidLQCHeaderExtraV5
  | ErrUnsupportedLQCHeaderV5
  | ErrLQCHeaderBlockMismatchV5
  | ErrTooManyRabbitVRFFinalizationsPerBlock
  | ErrInvalidRabbitVRFFinalizationV1
  | ErrDuplicateRabbitVRFFinalizationV1
  | ErrNonCanonicalRabbitVRFFinalizationsV1
  | ErrInvalidRabbitVRFKeysetCertificateV1

type_synonym bls_key = "384 word"
type_synonym bls_sig = "768 word"

definition RabbitVRFFinalizationVersionV1 :: u8 where
  "RabbitVRFFinalizationVersionV1 = 1"

record RabbitVRFFinalizationV1 =
  vf_Version :: u8
  vf_RequestID :: hash
  vf_KeysetRoot :: hash
  vf_Epoch :: u64
  vf_Round :: u64
  vf_Randomness :: hash
  vf_ProofHash :: hash
  vf_Signature :: bls_sig
  vf_ParticipationBitmap :: "128 word"
  vf_ParticipationAggregateSignature :: bls_sig

definition Finalization_Validate :: "RabbitVRFFinalizationV1 \<Rightarrow> header_error option" where
  "Finalization_Validate x =
     (if vf_Version x \<noteq> RabbitVRFFinalizationVersionV1 \<or> vf_RequestID x = 0 \<or> vf_KeysetRoot x = 0 \<or> vf_Epoch x = 0
         \<or> vf_Randomness x = 0 \<or> vf_ProofHash x = 0 \<or> vf_Signature x = 0 \<or> vf_ParticipationBitmap x = 0
         \<or> vf_ParticipationAggregateSignature x = 0
      then Some ErrInvalidRabbitVRFFinalizationV1 else None)"

fun adjacent_duplicate :: "hash list \<Rightarrow> bool" where
  "adjacent_duplicate (x # y # rest) = (x = y \<or> adjacent_duplicate (y # rest))"
| "adjacent_duplicate _ = False"

definition CanonicalRabbitVRFFinalizationsV1 ::
  "RabbitVRFFinalizationV1 list \<Rightarrow> header_error + RabbitVRFFinalizationV1 list" where
  "CanonicalRabbitVRFFinalizationsV1 values = (case first_err Finalization_Validate values of
      Some err \<Rightarrow> Inl err
    | None \<Rightarrow>
        let out = sort_key vf_RequestID values in
        if adjacent_duplicate (map vf_RequestID out) then Inl ErrDuplicateRabbitVRFFinalizationV1 else Inr out)"

definition ValidateCanonicalRabbitVRFFinalizationsV1 :: "RabbitVRFFinalizationV1 list \<Rightarrow> header_error option" where
  "ValidateCanonicalRabbitVRFFinalizationsV1 values = (case CanonicalRabbitVRFFinalizationsV1 values of
      Inl err \<Rightarrow> Some err
    | Inr canonical \<Rightarrow> if canonical \<noteq> values then Some ErrNonCanonicalRabbitVRFFinalizationsV1 else None)"

definition RabbitVRFKeysetCertificateVersionV1 :: u8 where
  "RabbitVRFKeysetCertificateVersionV1 = 1"

record RabbitVRFVerificationShareV1 =
  vs_ShareID :: u64
  vs_PublicKey :: bls_key

record RabbitVRFKeysetCertificateV1 =
  kc_Version :: u8
  kc_SessionID :: hash
  kc_KeysetRoot :: hash
  kc_ThresholdPublicKey :: bls_key
  kc_TranscriptRoot :: hash
  kc_VerificationShareSamples :: "RabbitVRFVerificationShareV1 list"
  kc_Signatures :: "bytes list"

text \<open>\<open>rabbitvrf.NewVerificationShare\<close>, as far as its error goes; \<open>decodes\<close> is the success of \<open>decodePublicKey\<close>.\<close>

definition NewVerificationShare_ok :: "(bls_key \<Rightarrow> bool) \<Rightarrow> u64 \<Rightarrow> bls_key \<Rightarrow> bool" where
  "NewVerificationShare_ok decodes shareID publicKey \<longleftrightarrow> shareID \<noteq> 0 \<and> decodes publicKey"

fun check_samples :: "(bls_key \<Rightarrow> bool) \<Rightarrow> u64 \<Rightarrow> RabbitVRFVerificationShareV1 list \<Rightarrow> bool" where
  "check_samples decodes expectedShareID [] = True"
| "check_samples decodes expectedShareID (sample # rest) =
     (vs_ShareID sample = expectedShareID \<and> NewVerificationShare_ok decodes (vs_ShareID sample) (vs_PublicKey sample)
      \<and> check_samples decodes (expectedShareID + 1) rest)"

definition ValidateRabbitVRFKeysetCertificateShapeV1 ::
  "(bls_key \<Rightarrow> bool) \<Rightarrow> RabbitVRFKeysetCertificateV1 \<Rightarrow> header_error option" where
  "ValidateRabbitVRFKeysetCertificateShapeV1 decodes certificate =
     (if kc_Version certificate \<noteq> RabbitVRFKeysetCertificateVersionV1 \<or> kc_SessionID certificate = 0
         \<or> kc_KeysetRoot certificate = 0 \<or> kc_TranscriptRoot certificate = 0
         \<or> kc_VerificationShareSamples certificate = [] \<or> kc_Signatures certificate = []
      then Some ErrInvalidRabbitVRFKeysetCertificateV1
      else if \<not> NewVerificationShare_ok decodes 1 (kc_ThresholdPublicKey certificate)
      then Some ErrInvalidRabbitVRFKeysetCertificateV1
      else if \<not> check_samples decodes 1 (kc_VerificationShareSamples certificate)
      then Some ErrInvalidRabbitVRFKeysetCertificateV1
      else if \<exists>signature \<in> set (kc_Signatures certificate). signature \<noteq> [] \<and> length signature \<noteq> SignatureLength
      then Some ErrInvalidRabbitVRFKeysetCertificateV1
      else None)"

section \<open>The envelope V3\<close>

definition LQCHeaderEnvelopeVersionV3 :: u8 where
  "LQCHeaderEnvelopeVersionV3 = 3"

record LQCHeaderEnvelopeV3 =
  e3_Version :: u8
  e3_BlockNumber :: u64
  e3_RegistryRoot :: hash
  e3_WorkStateRoot :: hash
  e3_RegistryOperations :: "RegistryOperation list"
  e3_WorkTickets :: "SignedRandomXWorkTicketV1 list"

definition ticket_val :: "SignedRandomXWorkTicketV1 \<Rightarrow> rlp_val" where
  "ticket_val s = (let t = sw_Ticket s in
     VStruct [VStruct [VUint (ucast (tk_Version t)), VUint (tk_Epoch t), VArray (addr_bytes (tk_Participant t)), VUint (tk_Nonce t)],
       VBytes (sw_Signature s)])"

definition ticket_of_val :: "rlp_val \<Rightarrow> SignedRandomXWorkTicketV1" where
  "ticket_of_val v = (let f = v_fields v; t = v_fields (f ! 0) in
     \<lparr>sw_Ticket = \<lparr>tk_Version = ucast (v_uint (t ! 0)), tk_Epoch = v_uint (t ! 1), tk_Participant = of_be (v_bytes (t ! 2)),
        tk_Nonce = v_uint (t ! 3)\<rparr>, sw_Signature = v_bytes (f ! 1)\<rparr>)"

definition ticket_type :: rlp_type where
  "ticket_type = TStruct [TStruct [TUint 8, TUint 64, TArray 20, TUint 64], TBytes]"

definition envelope_v3_val :: "LQCHeaderEnvelopeV3 \<Rightarrow> rlp_val" where
  "envelope_v3_val e = VStruct [VUint (ucast (e3_Version e)), VUint (e3_BlockNumber e), VArray (hash_bytes (e3_RegistryRoot e)),
     VArray (hash_bytes (e3_WorkStateRoot e)), VSlice (map operation_val (e3_RegistryOperations e)),
     VSlice (map ticket_val (e3_WorkTickets e))]"

definition envelope_v3_of_val :: "rlp_val \<Rightarrow> LQCHeaderEnvelopeV3" where
  "envelope_v3_of_val v = (let f = v_fields v in
     \<lparr>e3_Version = ucast (v_uint (f ! 0)), e3_BlockNumber = v_uint (f ! 1), e3_RegistryRoot = of_be (v_bytes (f ! 2)),
      e3_WorkStateRoot = of_be (v_bytes (f ! 3)), e3_RegistryOperations = map operation_of_val (v_fields (f ! 4)),
      e3_WorkTickets = map ticket_of_val (v_fields (f ! 5))\<rparr>)"

definition envelope_v3_type :: rlp_type where
  "envelope_v3_type = TStruct [TUint 8, TUint 64, TArray 32, TArray 32, TSlice operation_type, TSlice ticket_type]"

definition EncodeLQCHeaderExtraV3 ::
  "u64 \<Rightarrow> hash \<Rightarrow> hash \<Rightarrow> RegistryOperation list \<Rightarrow> SignedRandomXWorkTicketV1 list \<Rightarrow> u64 \<Rightarrow> header_error + bytes" where
  "EncodeLQCHeaderExtraV3 blockNumber registryRoot workStateRoot registryOperations workTickets maxWorkTickets =
     (if blockNumber = 0 \<or> registryRoot = 0 \<or> workStateRoot = 0 then Inl ErrInvalidLQCHeaderExtraV3
      else if maxWorkTickets = 0 then Inl (HeaderWork ErrInvalidWorkTicketLimitV3)
      else
        let canonicalRegistry = CanonicalRegistryOperations registryOperations in
        case validateRegistryHeaderOperations canonicalRegistry of
          Some err \<Rightarrow> Inl (HeaderRegistry err)
        | None \<Rightarrow>
            (case CanonicalWorkTicketsV3 workTickets maxWorkTickets of
               Inl err \<Rightarrow> Inl (HeaderWork err)
             | Inr canonicalTickets \<Rightarrow>
                 let envelope = \<lparr>e3_Version = LQCHeaderEnvelopeVersionV3, e3_BlockNumber = blockNumber,
                       e3_RegistryRoot = registryRoot, e3_WorkStateRoot = workStateRoot,
                       e3_RegistryOperations = canonicalRegistry, e3_WorkTickets = canonicalTickets\<rparr>;
                     payload = EncodeToBytes (envelope_v3_val envelope);
                     extra = appendEmptyProducerSeal (registryHeaderMagic @ payload)
                 in if length extra > MaxRegistryHeaderExtraSize then Inl ErrInvalidLQCHeaderExtraV3 else Inr extra))"

definition DecodeLQCHeaderExtraV3 :: "bytes \<Rightarrow> u64 \<Rightarrow> header_error + LQCHeaderEnvelopeV3" where
  "DecodeLQCHeaderExtraV3 extra maxWorkTickets =
     (if maxWorkTickets = 0 then Inl (HeaderWork ErrInvalidWorkTicketLimitV3)
      else if length extra > MaxRegistryHeaderExtraSize then Inl ErrInvalidLQCHeaderExtraV3
      else case splitProducerSeal extra of
        Inl _ \<Rightarrow> Inl ErrInvalidLQCHeaderExtraV3
      | Inr (payloadExtra, _) \<Rightarrow>
          if \<not> IsRegistryHeaderExtra payloadExtra then Inl ErrInvalidLQCHeaderExtraV3
          else case DecodeBytes envelope_v3_type (drop (length registryHeaderMagic) payloadExtra) of
            None \<Rightarrow> Inl ErrInvalidLQCHeaderExtraV3
          | Some v \<Rightarrow>
              let envelope = envelope_v3_of_val v in
              if e3_Version envelope \<noteq> LQCHeaderEnvelopeVersionV3 then Inl ErrUnsupportedLQCHeaderV3
              else if e3_BlockNumber envelope = 0 \<or> e3_RegistryRoot envelope = 0 \<or> e3_WorkStateRoot envelope = 0
              then Inl ErrInvalidLQCHeaderExtraV3
              else
                let canonicalRegistry = CanonicalRegistryOperations (e3_RegistryOperations envelope) in
                case validateRegistryHeaderOperations canonicalRegistry of
                  Some err \<Rightarrow> Inl (HeaderRegistry err)
                | None \<Rightarrow>
                    if \<not> registryOperationsEqual canonicalRegistry (e3_RegistryOperations envelope)
                    then Inl (HeaderRegistry ErrNonCanonicalRegistryOperations)
                    else case CanonicalWorkTicketsV3 (e3_WorkTickets envelope) maxWorkTickets of
                      Inl err \<Rightarrow> Inl (HeaderWork err)
                    | Inr canonicalTickets \<Rightarrow>
                        if \<not> signedWorkTicketsEqualV3 canonicalTickets (e3_WorkTickets envelope)
                        then Inl (HeaderWork ErrNonCanonicalWorkTicketsV3)
                        else case EncodeLQCHeaderExtraV3 (e3_BlockNumber envelope) (e3_RegistryRoot envelope)
                               (e3_WorkStateRoot envelope) (e3_RegistryOperations envelope) (e3_WorkTickets envelope) maxWorkTickets of
                          Inl err \<Rightarrow> Inl err
                        | Inr reencoded \<Rightarrow>
                            (case splitProducerSeal reencoded of
                               Inl _ \<Rightarrow> Inl ErrInvalidLQCHeaderExtraV3
                             | Inr (reencodedPayload, _) \<Rightarrow>
                                 if reencodedPayload \<noteq> payloadExtra then Inl ErrInvalidLQCHeaderExtraV3
                                 else Inr envelope))"

definition ValidateLQCHeaderExtraV3 :: "u64 \<Rightarrow> u64 \<Rightarrow> bytes \<Rightarrow> header_error + LQCHeaderEnvelopeV3" where
  "ValidateLQCHeaderExtraV3 blockNumber maxWorkTickets extra = (case DecodeLQCHeaderExtraV3 extra maxWorkTickets of
      Inl err \<Rightarrow> Inl err
    | Inr envelope \<Rightarrow> if e3_BlockNumber envelope \<noteq> blockNumber then Inl ErrLQCHeaderBlockMismatchV3 else Inr envelope)"

section \<open>The envelope V4\<close>

definition LQCHeaderEnvelopeVersionV4 :: u8 where
  "LQCHeaderEnvelopeVersionV4 = 4"

definition MaxRegistryOperationsWithCommitteeClaimsV1 :: nat where
  "MaxRegistryOperationsWithCommitteeClaimsV1 = 48"

record LQCHeaderEnvelopeV4 =
  e4_Version :: u8
  e4_BlockNumber :: u64
  e4_RegistryRoot :: hash
  e4_WorkStateRoot :: hash
  e4_CommitteeClaimRoot :: hash
  e4_RegistryOperations :: "RegistryOperation list"
  e4_WorkTickets :: "SignedRandomXWorkTicketV1 list"
  e4_CommitteeParticipationClaims :: "CommitteeParticipationClaimGroupV1 list"

definition compact_val :: "CompactCommitteeParticipationV1 \<Rightarrow> rlp_val" where
  "compact_val c = VStruct [VUint (ucast (cc_Position c)), VBytes (cc_Signature c)]"

definition compact_of_val :: "rlp_val \<Rightarrow> CompactCommitteeParticipationV1" where
  "compact_of_val v = (let f = v_fields v in \<lparr>cc_Position = ucast (v_uint (f ! 0)), cc_Signature = v_bytes (f ! 1)\<rparr>)"

definition compact_type :: rlp_type where
  "compact_type = TStruct [TUint 8, TBytes]"

definition group_val :: "CommitteeParticipationClaimGroupV1 \<Rightarrow> rlp_val" where
  "group_val g = VStruct [VUint (cg_TargetBlock g), VSlice (map compact_val (cg_Participations g))]"

definition group_of_val :: "rlp_val \<Rightarrow> CommitteeParticipationClaimGroupV1" where
  "group_of_val v = (let f = v_fields v in
     \<lparr>cg_TargetBlock = v_uint (f ! 0), cg_Participations = map compact_of_val (v_fields (f ! 1))\<rparr>)"

definition group_type :: rlp_type where
  "group_type = TStruct [TUint 64, TSlice compact_type]"

definition envelope_v4_val :: "LQCHeaderEnvelopeV4 \<Rightarrow> rlp_val" where
  "envelope_v4_val e = VStruct [VUint (ucast (e4_Version e)), VUint (e4_BlockNumber e), VArray (hash_bytes (e4_RegistryRoot e)),
     VArray (hash_bytes (e4_WorkStateRoot e)), VArray (hash_bytes (e4_CommitteeClaimRoot e)),
     VSlice (map operation_val (e4_RegistryOperations e)), VSlice (map ticket_val (e4_WorkTickets e)),
     VSlice (map group_val (e4_CommitteeParticipationClaims e))]"

definition envelope_v4_of_val :: "rlp_val \<Rightarrow> LQCHeaderEnvelopeV4" where
  "envelope_v4_of_val v = (let f = v_fields v in
     \<lparr>e4_Version = ucast (v_uint (f ! 0)), e4_BlockNumber = v_uint (f ! 1), e4_RegistryRoot = of_be (v_bytes (f ! 2)),
      e4_WorkStateRoot = of_be (v_bytes (f ! 3)), e4_CommitteeClaimRoot = of_be (v_bytes (f ! 4)),
      e4_RegistryOperations = map operation_of_val (v_fields (f ! 5)), e4_WorkTickets = map ticket_of_val (v_fields (f ! 6)),
      e4_CommitteeParticipationClaims = map group_of_val (v_fields (f ! 7))\<rparr>)"

definition envelope_v4_type :: rlp_type where
  "envelope_v4_type = TStruct [TUint 8, TUint 64, TArray 32, TArray 32, TArray 32, TSlice operation_type, TSlice ticket_type,
     TSlice group_type]"

definition validateClaimRegistryOperationCapacityV4 ::
  "RegistryOperation list \<Rightarrow> CommitteeParticipationClaimGroupV1 list \<Rightarrow> header_error option" where
  "validateClaimRegistryOperationCapacityV4 operations claims =
     (if claims \<noteq> [] \<and> length operations > MaxRegistryOperationsWithCommitteeClaimsV1
      then Some ErrTooManyClaimRegistryOperationsV4 else None)"

definition EncodeLQCHeaderExtraV4 ::
  "u64 \<Rightarrow> hash \<Rightarrow> hash \<Rightarrow> hash \<Rightarrow> RegistryOperation list \<Rightarrow> SignedRandomXWorkTicketV1 list
    \<Rightarrow> CommitteeParticipationClaimGroupV1 list \<Rightarrow> u64 \<Rightarrow> header_error + bytes" where
  "EncodeLQCHeaderExtraV4 blockNumber registryRoot workStateRoot committeeClaimRoot registryOperations workTickets
     committeeClaims maxWorkTickets =
     (if blockNumber = 0 \<or> registryRoot = 0 \<or> workStateRoot = 0 \<or> committeeClaimRoot = 0 \<or> maxWorkTickets = 0
      then Inl ErrInvalidLQCHeaderExtraV4
      else
        let canonicalRegistry = CanonicalRegistryOperations registryOperations in
        case validateRegistryHeaderOperations canonicalRegistry of
          Some err \<Rightarrow> Inl (HeaderRegistry err)
        | None \<Rightarrow>
            (case CanonicalWorkTicketsV3 workTickets maxWorkTickets of
               Inl err \<Rightarrow> Inl (HeaderWork err)
             | Inr canonicalTickets \<Rightarrow>
                 (case CanonicalCommitteeParticipationClaimGroupsV1 blockNumber committeeClaims of
                    Inl err \<Rightarrow> Inl (HeaderClaim err)
                  | Inr canonicalClaims \<Rightarrow>
                      (case validateClaimRegistryOperationCapacityV4 canonicalRegistry canonicalClaims of
                         Some err \<Rightarrow> Inl err
                       | None \<Rightarrow>
                           let envelope = \<lparr>e4_Version = LQCHeaderEnvelopeVersionV4, e4_BlockNumber = blockNumber,
                                 e4_RegistryRoot = registryRoot, e4_WorkStateRoot = workStateRoot,
                                 e4_CommitteeClaimRoot = committeeClaimRoot, e4_RegistryOperations = canonicalRegistry,
                                 e4_WorkTickets = canonicalTickets, e4_CommitteeParticipationClaims = canonicalClaims\<rparr>;
                               payload = EncodeToBytes (envelope_v4_val envelope);
                               extra = appendEmptyProducerSeal (registryHeaderMagic @ payload)
                           in if length extra > MaxRegistryHeaderExtraSize then Inl ErrInvalidLQCHeaderExtraV4
                              else Inr extra))))"

definition DecodeLQCHeaderExtraV4 :: "bytes \<Rightarrow> u64 \<Rightarrow> header_error + LQCHeaderEnvelopeV4" where
  "DecodeLQCHeaderExtraV4 extra maxWorkTickets =
     (if maxWorkTickets = 0 \<or> length extra > MaxRegistryHeaderExtraSize then Inl ErrInvalidLQCHeaderExtraV4
      else case splitProducerSeal extra of
        Inl _ \<Rightarrow> Inl ErrInvalidLQCHeaderExtraV4
      | Inr (payloadExtra, _) \<Rightarrow>
          if \<not> IsRegistryHeaderExtra payloadExtra then Inl ErrInvalidLQCHeaderExtraV4
          else case DecodeBytes envelope_v4_type (drop (length registryHeaderMagic) payloadExtra) of
            None \<Rightarrow> Inl ErrInvalidLQCHeaderExtraV4
          | Some v \<Rightarrow>
              let envelope = envelope_v4_of_val v in
              if e4_Version envelope \<noteq> LQCHeaderEnvelopeVersionV4 then Inl ErrUnsupportedLQCHeaderV4
              else if e4_BlockNumber envelope = 0 \<or> e4_RegistryRoot envelope = 0 \<or> e4_WorkStateRoot envelope = 0
                \<or> e4_CommitteeClaimRoot envelope = 0
              then Inl ErrInvalidLQCHeaderExtraV4
              else
                let canonicalRegistry = CanonicalRegistryOperations (e4_RegistryOperations envelope) in
                case validateRegistryHeaderOperations canonicalRegistry of
                  Some err \<Rightarrow> Inl (HeaderRegistry err)
                | None \<Rightarrow>
                    if \<not> registryOperationsEqual canonicalRegistry (e4_RegistryOperations envelope)
                    then Inl (HeaderRegistry ErrNonCanonicalRegistryOperations)
                    else case CanonicalWorkTicketsV3 (e4_WorkTickets envelope) maxWorkTickets of
                      Inl err \<Rightarrow> Inl (HeaderWork err)
                    | Inr canonicalTickets \<Rightarrow>
                        if \<not> signedWorkTicketsEqualV3 canonicalTickets (e4_WorkTickets envelope)
                        then Inl (HeaderWork ErrNonCanonicalWorkTicketsV3)
                        else case ValidateCanonicalCommitteeParticipationClaimGroupsV1 (e4_BlockNumber envelope)
                               (e4_CommitteeParticipationClaims envelope) of
                          Some err \<Rightarrow> Inl (HeaderClaim err)
                        | None \<Rightarrow>
                            (case validateClaimRegistryOperationCapacityV4 (e4_RegistryOperations envelope)
                                    (e4_CommitteeParticipationClaims envelope) of
                               Some err \<Rightarrow> Inl err
                             | None \<Rightarrow>
                                 (case EncodeLQCHeaderExtraV4 (e4_BlockNumber envelope) (e4_RegistryRoot envelope)
                                         (e4_WorkStateRoot envelope) (e4_CommitteeClaimRoot envelope)
                                         (e4_RegistryOperations envelope) (e4_WorkTickets envelope)
                                         (e4_CommitteeParticipationClaims envelope) maxWorkTickets of
                                    Inl err \<Rightarrow> Inl err
                                  | Inr reencoded \<Rightarrow>
                                      (case splitProducerSeal reencoded of
                                         Inl _ \<Rightarrow> Inl ErrInvalidLQCHeaderExtraV4
                                       | Inr (reencodedPayload, _) \<Rightarrow>
                                           if reencodedPayload \<noteq> payloadExtra then Inl ErrInvalidLQCHeaderExtraV4
                                           else Inr envelope))))"

definition ValidateLQCHeaderExtraV4 :: "u64 \<Rightarrow> u64 \<Rightarrow> bytes \<Rightarrow> header_error + LQCHeaderEnvelopeV4" where
  "ValidateLQCHeaderExtraV4 blockNumber maxWorkTickets extra = (case DecodeLQCHeaderExtraV4 extra maxWorkTickets of
      Inl err \<Rightarrow> Inl err
    | Inr envelope \<Rightarrow> if e4_BlockNumber envelope \<noteq> blockNumber then Inl ErrLQCHeaderBlockMismatchV4 else Inr envelope)"

section \<open>The envelope V5\<close>

definition LQCHeaderEnvelopeVersionV5 :: u8 where
  "LQCHeaderEnvelopeVersionV5 = 5"

definition MaxRabbitVRFFinalizationsPerBlockV1 :: nat where
  "MaxRabbitVRFFinalizationsPerBlockV1 = 32"

definition MaxRabbitVRFKeysetCertificatesPerBlockV1 :: nat where
  "MaxRabbitVRFKeysetCertificatesPerBlockV1 = 1"

record LQCHeaderEnvelopeV5 =
  e5_Version :: u8
  e5_BlockNumber :: u64
  e5_RegistryRoot :: hash
  e5_WorkStateRoot :: hash
  e5_CommitteeClaimRoot :: hash
  e5_RegistryOperations :: "RegistryOperation list"
  e5_WorkTickets :: "SignedRandomXWorkTicketV1 list"
  e5_CommitteeParticipationClaims :: "CommitteeParticipationClaimGroupV1 list"
  e5_RabbitVRFKeysetCertificates :: "RabbitVRFKeysetCertificateV1 list"
  e5_RabbitVRFFinalizations :: "RabbitVRFFinalizationV1 list"

definition key_bytes :: "bls_key \<Rightarrow> bytes" where
  "key_bytes k = be_bytes 48 (unat k)"

definition sig_bytes :: "bls_sig \<Rightarrow> bytes" where
  "sig_bytes s = be_bytes 96 (unat s)"

definition bitmap_bytes :: "128 word \<Rightarrow> bytes" where
  "bitmap_bytes b = be_bytes 16 (unat b)"

definition share_val :: "RabbitVRFVerificationShareV1 \<Rightarrow> rlp_val" where
  "share_val s = VStruct [VUint (vs_ShareID s), VArray (key_bytes (vs_PublicKey s))]"

definition share_of_val :: "rlp_val \<Rightarrow> RabbitVRFVerificationShareV1" where
  "share_of_val v = (let f = v_fields v in \<lparr>vs_ShareID = v_uint (f ! 0), vs_PublicKey = of_be (v_bytes (f ! 1))\<rparr>)"

definition share_type :: rlp_type where
  "share_type = TStruct [TUint 64, TArray 48]"

definition certificate_val :: "RabbitVRFKeysetCertificateV1 \<Rightarrow> rlp_val" where
  "certificate_val c = VStruct [VUint (ucast (kc_Version c)), VArray (hash_bytes (kc_SessionID c)),
     VArray (hash_bytes (kc_KeysetRoot c)), VArray (key_bytes (kc_ThresholdPublicKey c)),
     VArray (hash_bytes (kc_TranscriptRoot c)), VSlice (map share_val (kc_VerificationShareSamples c)),
     VSlice (map VBytes (kc_Signatures c))]"

definition certificate_of_val :: "rlp_val \<Rightarrow> RabbitVRFKeysetCertificateV1" where
  "certificate_of_val v = (let f = v_fields v in
     \<lparr>kc_Version = ucast (v_uint (f ! 0)), kc_SessionID = of_be (v_bytes (f ! 1)), kc_KeysetRoot = of_be (v_bytes (f ! 2)),
      kc_ThresholdPublicKey = of_be (v_bytes (f ! 3)), kc_TranscriptRoot = of_be (v_bytes (f ! 4)),
      kc_VerificationShareSamples = map share_of_val (v_fields (f ! 5)), kc_Signatures = map v_bytes (v_fields (f ! 6))\<rparr>)"

definition certificate_type :: rlp_type where
  "certificate_type = TStruct [TUint 8, TArray 32, TArray 32, TArray 48, TArray 32, TSlice share_type, TSlice TBytes]"

definition finalization_val :: "RabbitVRFFinalizationV1 \<Rightarrow> rlp_val" where
  "finalization_val x = VStruct [VUint (ucast (vf_Version x)), VArray (hash_bytes (vf_RequestID x)),
     VArray (hash_bytes (vf_KeysetRoot x)), VUint (vf_Epoch x), VUint (vf_Round x), VArray (hash_bytes (vf_Randomness x)),
     VArray (hash_bytes (vf_ProofHash x)), VArray (sig_bytes (vf_Signature x)), VArray (bitmap_bytes (vf_ParticipationBitmap x)),
     VArray (sig_bytes (vf_ParticipationAggregateSignature x))]"

definition finalization_of_val :: "rlp_val \<Rightarrow> RabbitVRFFinalizationV1" where
  "finalization_of_val v = (let f = v_fields v in
     \<lparr>vf_Version = ucast (v_uint (f ! 0)), vf_RequestID = of_be (v_bytes (f ! 1)), vf_KeysetRoot = of_be (v_bytes (f ! 2)),
      vf_Epoch = v_uint (f ! 3), vf_Round = v_uint (f ! 4), vf_Randomness = of_be (v_bytes (f ! 5)),
      vf_ProofHash = of_be (v_bytes (f ! 6)), vf_Signature = of_be (v_bytes (f ! 7)),
      vf_ParticipationBitmap = of_be (v_bytes (f ! 8)), vf_ParticipationAggregateSignature = of_be (v_bytes (f ! 9))\<rparr>)"

definition finalization_type :: rlp_type where
  "finalization_type = TStruct [TUint 8, TArray 32, TArray 32, TUint 64, TUint 64, TArray 32, TArray 32, TArray 96, TArray 16, TArray 96]"

definition envelope_v5_val :: "LQCHeaderEnvelopeV5 \<Rightarrow> rlp_val" where
  "envelope_v5_val e = VStruct [VUint (ucast (e5_Version e)), VUint (e5_BlockNumber e), VArray (hash_bytes (e5_RegistryRoot e)),
     VArray (hash_bytes (e5_WorkStateRoot e)), VArray (hash_bytes (e5_CommitteeClaimRoot e)),
     VSlice (map operation_val (e5_RegistryOperations e)), VSlice (map ticket_val (e5_WorkTickets e)),
     VSlice (map group_val (e5_CommitteeParticipationClaims e)),
     VSlice (map certificate_val (e5_RabbitVRFKeysetCertificates e)),
     VSlice (map finalization_val (e5_RabbitVRFFinalizations e))]"

definition envelope_v5_of_val :: "rlp_val \<Rightarrow> LQCHeaderEnvelopeV5" where
  "envelope_v5_of_val v = (let f = v_fields v in
     \<lparr>e5_Version = ucast (v_uint (f ! 0)), e5_BlockNumber = v_uint (f ! 1), e5_RegistryRoot = of_be (v_bytes (f ! 2)),
      e5_WorkStateRoot = of_be (v_bytes (f ! 3)), e5_CommitteeClaimRoot = of_be (v_bytes (f ! 4)),
      e5_RegistryOperations = map operation_of_val (v_fields (f ! 5)), e5_WorkTickets = map ticket_of_val (v_fields (f ! 6)),
      e5_CommitteeParticipationClaims = map group_of_val (v_fields (f ! 7)),
      e5_RabbitVRFKeysetCertificates = map certificate_of_val (v_fields (f ! 8)),
      e5_RabbitVRFFinalizations = map finalization_of_val (v_fields (f ! 9))\<rparr>)"

definition envelope_v5_type :: rlp_type where
  "envelope_v5_type = TStruct [TUint 8, TUint 64, TArray 32, TArray 32, TArray 32, TSlice operation_type, TSlice ticket_type,
     TSlice group_type, TSlice certificate_type, TSlice finalization_type]"

definition encodeLQCHeaderExtraV5 ::
  "u64 \<Rightarrow> hash \<Rightarrow> hash \<Rightarrow> hash \<Rightarrow> RegistryOperation list \<Rightarrow> SignedRandomXWorkTicketV1 list
    \<Rightarrow> CommitteeParticipationClaimGroupV1 list \<Rightarrow> RabbitVRFKeysetCertificateV1 list \<Rightarrow> RabbitVRFFinalizationV1 list \<Rightarrow> u64
    \<Rightarrow> header_error + bytes" where
  "encodeLQCHeaderExtraV5 blockNumber registryRoot workStateRoot committeeClaimRoot registryOperations workTickets
     committeeClaims vrfKeysetCertificates vrfFinalizations maxWorkTickets =
     (if blockNumber = 0 \<or> registryRoot = 0 \<or> workStateRoot = 0 \<or> committeeClaimRoot = 0 \<or> maxWorkTickets = 0
      then Inl ErrInvalidLQCHeaderExtraV5
      else if length vrfFinalizations > MaxRabbitVRFFinalizationsPerBlockV1 then Inl ErrTooManyRabbitVRFFinalizationsPerBlock
      else
        let canonicalRegistry = CanonicalRegistryOperations registryOperations in
        case validateRegistryHeaderOperations canonicalRegistry of
          Some err \<Rightarrow> Inl (HeaderRegistry err)
        | None \<Rightarrow>
            (case CanonicalWorkTicketsV3 workTickets maxWorkTickets of
               Inl err \<Rightarrow> Inl (HeaderWork err)
             | Inr canonicalTickets \<Rightarrow>
                 (case CanonicalCommitteeParticipationClaimGroupsV1 blockNumber committeeClaims of
                    Inl err \<Rightarrow> Inl (HeaderClaim err)
                  | Inr canonicalClaims \<Rightarrow>
                      (case validateClaimRegistryOperationCapacityV4 canonicalRegistry canonicalClaims of
                         Some err \<Rightarrow> Inl err
                       | None \<Rightarrow>
                           (case CanonicalRabbitVRFFinalizationsV1 vrfFinalizations of
                              Inl err \<Rightarrow> Inl err
                            | Inr canonicalFinalizations \<Rightarrow>
                                let envelope = \<lparr>e5_Version = LQCHeaderEnvelopeVersionV5, e5_BlockNumber = blockNumber,
                                      e5_RegistryRoot = registryRoot, e5_WorkStateRoot = workStateRoot,
                                      e5_CommitteeClaimRoot = committeeClaimRoot, e5_RegistryOperations = canonicalRegistry,
                                      e5_WorkTickets = canonicalTickets, e5_CommitteeParticipationClaims = canonicalClaims,
                                      e5_RabbitVRFKeysetCertificates = vrfKeysetCertificates,
                                      e5_RabbitVRFFinalizations = canonicalFinalizations\<rparr>;
                                    payload = EncodeToBytes (envelope_v5_val envelope);
                                    extra = appendEmptyProducerSeal (registryHeaderMagic @ payload)
                                in if length extra > MaxRegistryHeaderExtraSize then Inl ErrInvalidLQCHeaderExtraV5
                                   else Inr extra)))))"

definition EncodeLQCHeaderExtraV5 ::
  "u64 \<Rightarrow> hash \<Rightarrow> hash \<Rightarrow> hash \<Rightarrow> RegistryOperation list \<Rightarrow> SignedRandomXWorkTicketV1 list
    \<Rightarrow> CommitteeParticipationClaimGroupV1 list \<Rightarrow> RabbitVRFFinalizationV1 list \<Rightarrow> u64 \<Rightarrow> header_error + bytes" where
  "EncodeLQCHeaderExtraV5 blockNumber registryRoot workStateRoot committeeClaimRoot registryOperations workTickets
     committeeClaims vrfFinalizations maxWorkTickets =
     encodeLQCHeaderExtraV5 blockNumber registryRoot workStateRoot committeeClaimRoot registryOperations workTickets
       committeeClaims [] vrfFinalizations maxWorkTickets"

definition EncodeLQCHeaderExtraV5WithKeysetCertificate ::
  "u64 \<Rightarrow> hash \<Rightarrow> hash \<Rightarrow> hash \<Rightarrow> RegistryOperation list \<Rightarrow> SignedRandomXWorkTicketV1 list
    \<Rightarrow> CommitteeParticipationClaimGroupV1 list \<Rightarrow> RabbitVRFKeysetCertificateV1 \<Rightarrow> RabbitVRFFinalizationV1 list \<Rightarrow> u64
    \<Rightarrow> header_error + bytes" where
  "EncodeLQCHeaderExtraV5WithKeysetCertificate blockNumber registryRoot workStateRoot committeeClaimRoot registryOperations
     workTickets committeeClaims certificate vrfFinalizations maxWorkTickets =
     encodeLQCHeaderExtraV5 blockNumber registryRoot workStateRoot committeeClaimRoot registryOperations workTickets
       committeeClaims [certificate] vrfFinalizations maxWorkTickets"

definition DecodeLQCHeaderExtraV5 :: "(bls_key \<Rightarrow> bool) \<Rightarrow> bytes \<Rightarrow> u64 \<Rightarrow> header_error + LQCHeaderEnvelopeV5" where
  "DecodeLQCHeaderExtraV5 decodes extra maxWorkTickets =
     (if maxWorkTickets = 0 \<or> length extra > MaxRegistryHeaderExtraSize then Inl ErrInvalidLQCHeaderExtraV5
      else case splitProducerSeal extra of
        Inl _ \<Rightarrow> Inl ErrInvalidLQCHeaderExtraV5
      | Inr (payloadExtra, _) \<Rightarrow>
          if \<not> IsRegistryHeaderExtra payloadExtra then Inl ErrInvalidLQCHeaderExtraV5
          else case DecodeBytes envelope_v5_type (drop (length registryHeaderMagic) payloadExtra) of
            None \<Rightarrow> Inl ErrInvalidLQCHeaderExtraV5
          | Some v \<Rightarrow>
              let envelope = envelope_v5_of_val v in
              if e5_Version envelope \<noteq> LQCHeaderEnvelopeVersionV5 then Inl ErrUnsupportedLQCHeaderV5
              else if e5_BlockNumber envelope = 0 \<or> e5_RegistryRoot envelope = 0 \<or> e5_WorkStateRoot envelope = 0
                \<or> e5_CommitteeClaimRoot envelope = 0
                \<or> length (e5_RabbitVRFKeysetCertificates envelope) > MaxRabbitVRFKeysetCertificatesPerBlockV1
                \<or> length (e5_RabbitVRFFinalizations envelope) > MaxRabbitVRFFinalizationsPerBlockV1
              then Inl ErrInvalidLQCHeaderExtraV5
              else
                let canonicalRegistry = CanonicalRegistryOperations (e5_RegistryOperations envelope) in
                case validateRegistryHeaderOperations canonicalRegistry of
                  Some err \<Rightarrow> Inl (HeaderRegistry err)
                | None \<Rightarrow>
                    if \<not> registryOperationsEqual canonicalRegistry (e5_RegistryOperations envelope)
                    then Inl (HeaderRegistry ErrNonCanonicalRegistryOperations)
                    else case CanonicalWorkTicketsV3 (e5_WorkTickets envelope) maxWorkTickets of
                      Inl err \<Rightarrow> Inl (HeaderWork err)
                    | Inr canonicalTickets \<Rightarrow>
                        if \<not> signedWorkTicketsEqualV3 canonicalTickets (e5_WorkTickets envelope)
                        then Inl (HeaderWork ErrNonCanonicalWorkTicketsV3)
                        else case ValidateCanonicalCommitteeParticipationClaimGroupsV1 (e5_BlockNumber envelope)
                               (e5_CommitteeParticipationClaims envelope) of
                          Some err \<Rightarrow> Inl (HeaderClaim err)
                        | None \<Rightarrow>
                            (case validateClaimRegistryOperationCapacityV4 (e5_RegistryOperations envelope)
                                    (e5_CommitteeParticipationClaims envelope) of
                               Some err \<Rightarrow> Inl err
                             | None \<Rightarrow>
                                 (case first_err (ValidateRabbitVRFKeysetCertificateShapeV1 decodes)
                                         (e5_RabbitVRFKeysetCertificates envelope) of
                                    Some err \<Rightarrow> Inl err
                                  | None \<Rightarrow>
                                      (case ValidateCanonicalRabbitVRFFinalizationsV1 (e5_RabbitVRFFinalizations envelope) of
                                         Some err \<Rightarrow> Inl err
                                       | None \<Rightarrow>
                                           (case encodeLQCHeaderExtraV5 (e5_BlockNumber envelope) (e5_RegistryRoot envelope)
                                                   (e5_WorkStateRoot envelope) (e5_CommitteeClaimRoot envelope)
                                                   (e5_RegistryOperations envelope) (e5_WorkTickets envelope)
                                                   (e5_CommitteeParticipationClaims envelope)
                                                   (e5_RabbitVRFKeysetCertificates envelope)
                                                   (e5_RabbitVRFFinalizations envelope) maxWorkTickets of
                                              Inl err \<Rightarrow> Inl err
                                            | Inr reencoded \<Rightarrow>
                                                (case splitProducerSeal reencoded of
                                                   Inl _ \<Rightarrow> Inl ErrInvalidLQCHeaderExtraV5
                                                 | Inr (reencodedPayload, _) \<Rightarrow>
                                                     if reencodedPayload \<noteq> payloadExtra then Inl ErrInvalidLQCHeaderExtraV5
                                                     else Inr envelope))))))"

definition ValidateLQCHeaderExtraV5 :: "(bls_key \<Rightarrow> bool) \<Rightarrow> u64 \<Rightarrow> u64 \<Rightarrow> bytes \<Rightarrow> header_error + LQCHeaderEnvelopeV5" where
  "ValidateLQCHeaderExtraV5 decodes blockNumber maxWorkTickets extra =
     (case DecodeLQCHeaderExtraV5 decodes extra maxWorkTickets of
        Inl err \<Rightarrow> Inl err
      | Inr envelope \<Rightarrow> if e5_BlockNumber envelope \<noteq> blockNumber then Inl ErrLQCHeaderBlockMismatchV5 else Inr envelope)"

section \<open>Sealed envelopes\<close>

text \<open>
  What the three codecs share: the magic, the RLP form of the envelope and a seal, a canonical form of the envelope, an
  encoder that canonicalises, and a decoder that accepts an envelope in canonical form if its re-encoding gives the payload.
\<close>

definition sealed_bytes :: "rlp_val \<Rightarrow> bytes \<Rightarrow> bytes" where
  "sealed_bytes v seal = registryHeaderMagic @ rlp_bytes v @ seal"

locale sealed_codec = rlp_codec ty to_val sized of_val
  for ty :: rlp_type and to_val :: "'a \<Rightarrow> rlp_val" and sized :: "'a \<Rightarrow> bool" and of_val :: "rlp_val \<Rightarrow> 'a" +
  fixes ok :: "'a \<Rightarrow> bool" and canon :: "'a \<Rightarrow> 'a" and enc :: "'a \<Rightarrow> 'e + bytes" and dec :: "bytes \<Rightarrow> 'e + 'a" and too_long :: 'e
  assumes canon_ok: "ok e \<Longrightarrow> canon e = e"
    and enc_eq: "ok (canon e) \<Longrightarrow> enc e = (let extra = appendEmptyProducerSeal (registryHeaderMagic @ EncodeToBytes (to_val (canon e)))
      in if length extra > MaxRegistryHeaderExtraSize then Inl too_long else Inr extra)"
    and dec_iff: "dec extra = Inr e \<longleftrightarrow> length extra \<le> MaxRegistryHeaderExtraSize \<and> (\<exists>p seal v r s. splitProducerSeal extra = Inr (p, seal)
      \<and> IsRegistryHeaderExtra p \<and> DecodeBytes ty (drop (length registryHeaderMagic) p) = Some v \<and> e = of_val v \<and> ok e
      \<and> enc e = Inr r \<and> splitProducerSeal r = Inr (p, s))"
begin

lemma enc_sealed:
  assumes "ok (canon e)" and "length (rlp_bytes (to_val (canon e))) < 2 ^ 64"
  shows "enc e = (let extra = sealed_bytes (to_val (canon e)) (replicate ProducerSealLength 0)
    in if length extra > MaxRegistryHeaderExtraSize then Inl too_long else Inr extra)"
  using enc_eq [OF assms(1)] EncodeToBytes_eq(1) [OF assms(2)]
  by (simp add: sealed_bytes_def appendEmptyProducerSeal_def Let_def)

lemma dec_sealed:
  "dec extra = Inr e \<longleftrightarrow> ok e \<and> length extra \<le> MaxRegistryHeaderExtraSize
     \<and> (\<exists>seal. length seal = ProducerSealLength \<and> extra = sealed_bytes (to_val e) seal)"
proof
  assume "dec extra = Inr e"
  then obtain p seal v where p: "splitProducerSeal extra = Inr (p, seal)" "IsRegistryHeaderExtra p"
      and v: "DecodeBytes ty (drop (length registryHeaderMagic) p) = Some v" "e = of_val v" "ok e"
      and len: "length extra \<le> MaxRegistryHeaderExtraSize"
    unfolding dec_iff by blast
  from p(2) obtain r where r: "p = registryHeaderMagic @ r" by (auto simp: IsRegistryHeaderExtra_iff)
  with v have "r = rlp_bytes (to_val e)" using decode_iff [of r v] by simp
  then show "ok e \<and> length extra \<le> MaxRegistryHeaderExtraSize
     \<and> (\<exists>seal. length seal = ProducerSealLength \<and> extra = sealed_bytes (to_val e) seal)"
    using p(1) r v(3) len by (auto simp: splitProducerSeal_Inr sealed_bytes_def)
next
  assume a: "ok e \<and> length extra \<le> MaxRegistryHeaderExtraSize
     \<and> (\<exists>seal. length seal = ProducerSealLength \<and> extra = sealed_bytes (to_val e) seal)"
  then obtain seal where s: "length seal = ProducerSealLength" "extra = sealed_bytes (to_val e) seal" by blast
  let ?b = "rlp_bytes (to_val e)" and ?z = "replicate ProducerSealLength (0 :: byte)"
  have small: "length ?b < 2 ^ 64"
    using a s(2) by (simp add: sealed_bytes_def MaxRegistryHeaderExtraSize_def)
  have split: "splitProducerSeal (sealed_bytes (to_val e) t) = Inr (registryHeaderMagic @ ?b, t)" if "length t = ProducerSealLength" for t
    using splitProducerSeal_append [OF that, of "registryHeaderMagic @ ?b"] by (simp add: sealed_bytes_def)
  have "enc e = Inr (sealed_bytes (to_val e) ?z)"
    using enc_sealed [of e] a s canon_ok [of e] small by (simp add: Let_def sealed_bytes_def)
  moreover have "DecodeBytes ty ?b = Some (to_val e)"
    using decode_iff [of ?b "to_val e"] fits_of_length [OF small] of_to by simp
  ultimately show "dec extra = Inr e"
    unfolding dec_iff using a s split [OF s(1)] split [of ?z] of_to
    by (auto simp: IsRegistryHeaderExtra_iff)
qed

lemma enc_small:
  assumes "ok (canon e)" and "vsize (to_val (canon e)) \<le> 1000"
  shows "enc e = Inr (sealed_bytes (to_val (canon e)) (replicate ProducerSealLength 0))"
proof -
  have "length (rlp_bytes (to_val (canon e))) \<le> 1000" using length_rlp_le_vsize [of "to_val (canon e)"] assms(2) by simp
  moreover have "length registryHeaderMagic \<le> 100" by (simp add: registryHeaderMagic_def ascii_def)
  ultimately show ?thesis
    using enc_sealed [OF assms(1)] by (simp add: sealed_bytes_def MaxRegistryHeaderExtraSize_def ProducerSealLength_eq)
qed

lemma dec_enc:
  assumes "ok (canon e)" and "length (rlp_bytes (to_val (canon e))) < 2 ^ 64" and "enc e = Inr extra"
  shows "dec extra = Inr (canon e)"
  using assms(1,3) enc_sealed [OF assms(1,2)] unfolding dec_sealed
  by (auto simp: Let_def intro!: exI [of _ "replicate ProducerSealLength 0"] split: if_splits)

end

section \<open>The values of the envelopes\<close>

lemma power_256: "8 * n = k \<Longrightarrow> (256 :: nat) ^ n = 2 ^ k"
  using power_mult [of "2 :: nat" 8 n] by simp

lemma be_bytes_of_be: "length b = n \<Longrightarrow> 8 * n = LENGTH('a) \<Longrightarrow> be_bytes n (unat (of_be b :: 'a :: len word)) = b"
  using be_nat_less [of b] be_bytes_be_nat [of b] power_256 [of n "LENGTH('a)"] by (simp add: of_be_def unat_of_nat)

lemma of_be_be_bytes: "8 * n = LENGTH('a) \<Longrightarrow> of_be (be_bytes n (unat (x :: 'a :: len word))) = x"
  using unsigned_less [of x, where ?'a = nat] power_256 [of n "LENGTH('a)"] by (simp add: of_be_def be_nat_be_bytes)

lemma key_bytes_simps [simp]: "length (key_bytes k) = 48" "of_be (key_bytes k) = k" "length b = 48 \<Longrightarrow> key_bytes (of_be b) = b"
  by (simp_all add: key_bytes_def of_be_be_bytes be_bytes_of_be)

lemma sig_bytes_simps [simp]: "length (sig_bytes s) = 96" "of_be (sig_bytes s) = s" "length b = 96 \<Longrightarrow> sig_bytes (of_be b) = b"
  by (simp_all add: sig_bytes_def of_be_be_bytes be_bytes_of_be)

lemma bitmap_bytes_simps [simp]: "length (bitmap_bytes m) = 16" "of_be (bitmap_bytes m) = m" "length b = 16 \<Longrightarrow> bitmap_bytes (of_be b) = b"
  by (simp_all add: bitmap_bytes_def of_be_be_bytes be_bytes_of_be)

lemmas item_types = operation_type_def ticket_type_def compact_type_def group_type_def share_type_def certificate_type_def
  finalization_type_def

lemmas struct_inverse = ucast_u64_u8_u64 addr_bytes_of_be hash_bytes_of_be comp_def map_idI

lemma ticket_val_simps [simp]: "ticket_of_val (ticket_val s) = s" "has_type ticket_type (ticket_val s)"
  by (simp_all add: ticket_of_val_def ticket_val_def ticket_type_def Let_def)

lemma ticket_val_inverse: "has_type ticket_type v \<Longrightarrow> ticket_val (ticket_of_val v) = v"
  unfolding ticket_type_def
  by (auto dest!: has_typeD simp: list_all2_Cons1 ticket_of_val_def ticket_val_def struct_inverse simp del: has_type.simps)

lemma compact_val_simps [simp]: "compact_of_val (compact_val c) = c" "has_type compact_type (compact_val c)"
  by (simp_all add: compact_of_val_def compact_val_def compact_type_def)

lemma compact_val_inverse: "has_type compact_type v \<Longrightarrow> compact_val (compact_of_val v) = v"
  unfolding compact_type_def
  by (auto dest!: has_typeD simp: list_all2_Cons1 compact_of_val_def compact_val_def struct_inverse simp del: has_type.simps)

lemma group_val_simps [simp]: "group_of_val (group_val g) = g" "has_type group_type (group_val g)"
  by (simp_all add: group_of_val_def group_val_def group_type_def list_all_iff comp_def)

lemma group_val_inverse: "has_type group_type v \<Longrightarrow> group_val (group_of_val v) = v"
  unfolding group_type_def
  by (auto dest!: has_typeD simp: list_all2_Cons1 group_of_val_def group_val_def struct_inverse compact_val_inverse
      simp del: has_type.simps)

lemma share_val_simps [simp]: "share_of_val (share_val s) = s" "has_type share_type (share_val s)"
  by (simp_all add: share_of_val_def share_val_def share_type_def)

lemma share_val_inverse: "has_type share_type v \<Longrightarrow> share_val (share_of_val v) = v"
  unfolding share_type_def
  by (auto dest!: has_typeD simp: list_all2_Cons1 share_of_val_def share_val_def struct_inverse simp del: has_type.simps)

lemma bytes_val_inverse: "has_type TBytes v \<Longrightarrow> VBytes (v_bytes v) = v"
  by (cases v) auto

lemma certificate_val_simps [simp]: "certificate_of_val (certificate_val c) = c" "has_type certificate_type (certificate_val c)"
  by (simp_all add: certificate_of_val_def certificate_val_def certificate_type_def list_all_iff comp_def)

lemma certificate_val_inverse: "has_type certificate_type v \<Longrightarrow> certificate_val (certificate_of_val v) = v"
  unfolding certificate_type_def
  by (auto dest!: has_typeD simp: list_all2_Cons1 certificate_of_val_def certificate_val_def struct_inverse share_val_inverse
      bytes_val_inverse simp del: has_type.simps)

lemma finalization_val_simps [simp]: "finalization_of_val (finalization_val x) = x" "has_type finalization_type (finalization_val x)"
  by (simp_all add: finalization_of_val_def finalization_val_def finalization_type_def)

lemma finalization_val_inverse: "has_type finalization_type v \<Longrightarrow> finalization_val (finalization_of_val v) = v"
  unfolding finalization_type_def
  by (auto dest!: has_typeD simp: list_all2_Cons1 finalization_of_val_def finalization_val_def struct_inverse simp del: has_type.simps)

lemmas item_inverses = operation_val_inverse ticket_val_inverse group_val_inverse certificate_val_inverse finalization_val_inverse

lemma envelope_v3_simps [simp]: "envelope_v3_of_val (envelope_v3_val e) = e" "has_type envelope_v3_type (envelope_v3_val e)"
  by (simp_all add: envelope_v3_of_val_def envelope_v3_val_def envelope_v3_type_def list_all_iff comp_def)

lemma envelope_v3_inverse: "has_type envelope_v3_type v \<Longrightarrow> envelope_v3_val (envelope_v3_of_val v) = v"
  unfolding envelope_v3_type_def
  by (auto dest!: has_typeD simp: list_all2_Cons1 envelope_v3_of_val_def envelope_v3_val_def struct_inverse item_inverses
      simp del: has_type.simps)

lemma type_ok_v3: "type_ok envelope_v3_type"
  by (simp add: envelope_v3_type_def item_types)

lemma envelope_v4_simps [simp]: "envelope_v4_of_val (envelope_v4_val e) = e" "has_type envelope_v4_type (envelope_v4_val e)"
  by (simp_all add: envelope_v4_of_val_def envelope_v4_val_def envelope_v4_type_def list_all_iff comp_def)

lemma envelope_v4_inverse: "has_type envelope_v4_type v \<Longrightarrow> envelope_v4_val (envelope_v4_of_val v) = v"
  unfolding envelope_v4_type_def
  by (auto dest!: has_typeD simp: list_all2_Cons1 envelope_v4_of_val_def envelope_v4_val_def struct_inverse item_inverses
      simp del: has_type.simps)

lemma type_ok_v4: "type_ok envelope_v4_type"
  by (simp add: envelope_v4_type_def item_types)

lemma envelope_v5_simps [simp]: "envelope_v5_of_val (envelope_v5_val e) = e" "has_type envelope_v5_type (envelope_v5_val e)"
  by (simp_all add: envelope_v5_of_val_def envelope_v5_val_def envelope_v5_type_def list_all_iff comp_def)

lemma envelope_v5_inverse: "has_type envelope_v5_type v \<Longrightarrow> envelope_v5_val (envelope_v5_of_val v) = v"
  unfolding envelope_v5_type_def
  by (auto dest!: has_typeD simp: list_all2_Cons1 envelope_v5_of_val_def envelope_v5_val_def struct_inverse item_inverses
      simp del: has_type.simps)

lemma type_ok_v5: "type_ok envelope_v5_type"
  by (simp add: envelope_v5_type_def item_types)

lemma validate_canonical_claims:
  "ValidateCanonicalCommitteeParticipationClaimGroupsV1 i gs = None \<longleftrightarrow> CanonicalCommitteeParticipationClaimGroupsV1 i gs = Inr gs"
proof -
  have "(\<lambda>a b :: CompactCommitteeParticipationV1. cc_Position a = cc_Position b \<and> cc_Signature a = cc_Signature b) = (=)"
    by (auto simp: fun_eq_iff intro: CompactCommitteeParticipationV1.equality)
  moreover have "(\<lambda>l r :: CommitteeParticipationClaimGroupV1. cg_TargetBlock l = cg_TargetBlock r \<and> cg_Participations l = cg_Participations r) = (=)"
    by (auto simp: fun_eq_iff intro: CommitteeParticipationClaimGroupV1.equality)
  ultimately have "committeeParticipationClaimGroupsEqualV1 xs ys \<longleftrightarrow> xs = ys" for xs ys
    by (simp add: committeeParticipationClaimGroupsEqualV1_def list.rel_eq)
  then show ?thesis by (auto simp: ValidateCanonicalCommitteeParticipationClaimGroupsV1_def split: sum.splits)
qed

lemma validate_canonical_finalizations:
  "ValidateCanonicalRabbitVRFFinalizationsV1 xs = None \<longleftrightarrow> CanonicalRabbitVRFFinalizationsV1 xs = Inr xs"
  by (auto simp: ValidateCanonicalRabbitVRFFinalizationsV1_def split: sum.splits)

lemma adjacent_duplicate_sorted: "sorted xs \<Longrightarrow> \<not> adjacent_duplicate xs \<longleftrightarrow> distinct xs"
  by (induction xs rule: adjacent_duplicate.induct) (auto simp: less_le)

lemma CanonicalFinalizations_iff:
  "CanonicalRabbitVRFFinalizationsV1 xs = Inr ys \<longleftrightarrow> (\<forall>x \<in> set xs. Finalization_Validate x = None)
     \<and> distinct (map vf_RequestID xs) \<and> ys = sort_key vf_RequestID xs"
  using adjacent_duplicate_sorted [of "map vf_RequestID (sort_key vf_RequestID xs)"]
  by (auto simp: CanonicalRabbitVRFFinalizationsV1_def first_err_None_iff Let_def distinct_map_mset [OF mset_sort]
      split: option.splits) (metis first_err_None_iff option.distinct(1))+

section \<open>The three codecs\<close>

definition work_payload_ok :: "u64 \<Rightarrow> u64 \<Rightarrow> hash \<Rightarrow> hash \<Rightarrow> RegistryOperation list \<Rightarrow> SignedRandomXWorkTicketV1 list \<Rightarrow> bool" where
  "work_payload_ok m n registryRoot workRoot ops tickets \<longleftrightarrow> m \<noteq> 0 \<and> n \<noteq> 0 \<and> registryRoot \<noteq> 0 \<and> workRoot \<noteq> 0
     \<and> validateRegistryHeaderOperations ops = None \<and> CanonicalRegistryOperations ops = ops
     \<and> CanonicalWorkTicketsV3 tickets m = Inr tickets"

definition envelope_v3_ok :: "u64 \<Rightarrow> LQCHeaderEnvelopeV3 \<Rightarrow> bool" where
  "envelope_v3_ok m e \<longleftrightarrow> e3_Version e = LQCHeaderEnvelopeVersionV3
     \<and> work_payload_ok m (e3_BlockNumber e) (e3_RegistryRoot e) (e3_WorkStateRoot e) (e3_RegistryOperations e) (e3_WorkTickets e)"

definition claims_ok :: "u64 \<Rightarrow> RegistryOperation list \<Rightarrow> CommitteeParticipationClaimGroupV1 list \<Rightarrow> bool" where
  "claims_ok n ops claims \<longleftrightarrow> CanonicalCommitteeParticipationClaimGroupsV1 n claims = Inr claims
     \<and> validateClaimRegistryOperationCapacityV4 ops claims = None"

definition envelope_v4_ok :: "u64 \<Rightarrow> LQCHeaderEnvelopeV4 \<Rightarrow> bool" where
  "envelope_v4_ok m e \<longleftrightarrow> e4_Version e = LQCHeaderEnvelopeVersionV4 \<and> e4_CommitteeClaimRoot e \<noteq> 0
     \<and> work_payload_ok m (e4_BlockNumber e) (e4_RegistryRoot e) (e4_WorkStateRoot e) (e4_RegistryOperations e) (e4_WorkTickets e)
     \<and> claims_ok (e4_BlockNumber e) (e4_RegistryOperations e) (e4_CommitteeParticipationClaims e)"

definition vrf_ok :: "(bls_key \<Rightarrow> bool) \<Rightarrow> RabbitVRFKeysetCertificateV1 list \<Rightarrow> RabbitVRFFinalizationV1 list \<Rightarrow> bool" where
  "vrf_ok decodes certificates finalizations \<longleftrightarrow> length certificates \<le> 1 \<and> length finalizations \<le> 32
     \<and> (\<forall>c \<in> set certificates. ValidateRabbitVRFKeysetCertificateShapeV1 decodes c = None)
     \<and> CanonicalRabbitVRFFinalizationsV1 finalizations = Inr finalizations"

definition envelope_v5_ok :: "(bls_key \<Rightarrow> bool) \<Rightarrow> u64 \<Rightarrow> LQCHeaderEnvelopeV5 \<Rightarrow> bool" where
  "envelope_v5_ok decodes m e \<longleftrightarrow> e5_Version e = LQCHeaderEnvelopeVersionV5 \<and> e5_CommitteeClaimRoot e \<noteq> 0
     \<and> work_payload_ok m (e5_BlockNumber e) (e5_RegistryRoot e) (e5_WorkStateRoot e) (e5_RegistryOperations e) (e5_WorkTickets e)
     \<and> claims_ok (e5_BlockNumber e) (e5_RegistryOperations e) (e5_CommitteeParticipationClaims e)
     \<and> vrf_ok decodes (e5_RabbitVRFKeysetCertificates e) (e5_RabbitVRFFinalizations e)"

text \<open>The canonical form of an envelope: what the encoder writes for it.\<close>

definition canon_v3 :: "LQCHeaderEnvelopeV3 \<Rightarrow> LQCHeaderEnvelopeV3" where
  "canon_v3 e = \<lparr>e3_Version = LQCHeaderEnvelopeVersionV3, e3_BlockNumber = e3_BlockNumber e, e3_RegistryRoot = e3_RegistryRoot e,
     e3_WorkStateRoot = e3_WorkStateRoot e, e3_RegistryOperations = CanonicalRegistryOperations (e3_RegistryOperations e),
     e3_WorkTickets = sort_key ticket_key (e3_WorkTickets e)\<rparr>"

definition canon_v4 :: "LQCHeaderEnvelopeV4 \<Rightarrow> LQCHeaderEnvelopeV4" where
  "canon_v4 e = \<lparr>e4_Version = LQCHeaderEnvelopeVersionV4, e4_BlockNumber = e4_BlockNumber e, e4_RegistryRoot = e4_RegistryRoot e,
     e4_WorkStateRoot = e4_WorkStateRoot e, e4_CommitteeClaimRoot = e4_CommitteeClaimRoot e,
     e4_RegistryOperations = CanonicalRegistryOperations (e4_RegistryOperations e),
     e4_WorkTickets = sort_key ticket_key (e4_WorkTickets e),
     e4_CommitteeParticipationClaims = canonical_groups (e4_CommitteeParticipationClaims e)\<rparr>"

definition canon_v5 :: "LQCHeaderEnvelopeV5 \<Rightarrow> LQCHeaderEnvelopeV5" where
  "canon_v5 e = \<lparr>e5_Version = LQCHeaderEnvelopeVersionV5, e5_BlockNumber = e5_BlockNumber e, e5_RegistryRoot = e5_RegistryRoot e,
     e5_WorkStateRoot = e5_WorkStateRoot e, e5_CommitteeClaimRoot = e5_CommitteeClaimRoot e,
     e5_RegistryOperations = CanonicalRegistryOperations (e5_RegistryOperations e),
     e5_WorkTickets = sort_key ticket_key (e5_WorkTickets e),
     e5_CommitteeParticipationClaims = canonical_groups (e5_CommitteeParticipationClaims e),
     e5_RabbitVRFKeysetCertificates = e5_RabbitVRFKeysetCertificates e,
     e5_RabbitVRFFinalizations = sort_key vf_RequestID (e5_RabbitVRFFinalizations e)\<rparr>"

abbreviation encode_v3 :: "u64 \<Rightarrow> LQCHeaderEnvelopeV3 \<Rightarrow> header_error + bytes" where
  "encode_v3 m e \<equiv> EncodeLQCHeaderExtraV3 (e3_BlockNumber e) (e3_RegistryRoot e) (e3_WorkStateRoot e) (e3_RegistryOperations e)
     (e3_WorkTickets e) m"

abbreviation encode_v4 :: "u64 \<Rightarrow> LQCHeaderEnvelopeV4 \<Rightarrow> header_error + bytes" where
  "encode_v4 m e \<equiv> EncodeLQCHeaderExtraV4 (e4_BlockNumber e) (e4_RegistryRoot e) (e4_WorkStateRoot e) (e4_CommitteeClaimRoot e)
     (e4_RegistryOperations e) (e4_WorkTickets e) (e4_CommitteeParticipationClaims e) m"

abbreviation encode_v5 :: "u64 \<Rightarrow> LQCHeaderEnvelopeV5 \<Rightarrow> header_error + bytes" where
  "encode_v5 m e \<equiv> encodeLQCHeaderExtraV5 (e5_BlockNumber e) (e5_RegistryRoot e) (e5_WorkStateRoot e) (e5_CommitteeClaimRoot e)
     (e5_RegistryOperations e) (e5_WorkTickets e) (e5_CommitteeParticipationClaims e) (e5_RabbitVRFKeysetCertificates e)
     (e5_RabbitVRFFinalizations e) m"

lemma canonical_of_sorted:
  "CanonicalWorkTicketsV3 (sort_key ticket_key ts) m = Inr (sort_key ticket_key ts) \<longleftrightarrow> CanonicalWorkTicketsV3 ts m = Inr (sort_key ticket_key ts)"
  by (auto simp: CanonicalWorkTickets_iff sort_key_sorted distinct_map_mset [OF mset_sort])

lemma length_claims_canonical [simp]: "length (claims_of (canonical_groups gs)) = length (claims_of gs)"
proof -
  have "length (claims_of gs) = sum_mset (image_mset (\<lambda>g. length (cg_Participations g)) (mset gs))" for gs
    by (induction gs) simp_all
  then show ?thesis by (simp add: image_mset.compositionality comp_def)
qed

lemma canonical_groups_idem [simp]: "canonical_groups (canonical_groups gs) = canonical_groups gs"
proof -
  have "sort_group (sort_group g) = sort_group g" for g by (simp add: sort_group_def sort_key_sorted)
  then have "map sort_group (canonical_groups gs) = canonical_groups gs" by (intro map_idI) auto
  then show ?thesis by (simp add: sort_key_sorted)
qed

lemma canonical_of_groups:
  "CanonicalCommitteeParticipationClaimGroupsV1 i (canonical_groups gs) = Inr (canonical_groups gs)
     \<longleftrightarrow> CanonicalCommitteeParticipationClaimGroupsV1 i gs = Inr (canonical_groups gs)"
  by (simp add: CanonicalGroups_iff)

lemma canonical_of_finalizations:
  "CanonicalRabbitVRFFinalizationsV1 (sort_key vf_RequestID xs) = Inr (sort_key vf_RequestID xs)
     \<longleftrightarrow> CanonicalRabbitVRFFinalizationsV1 xs = Inr (sort_key vf_RequestID xs)"
  by (simp add: CanonicalFinalizations_iff sort_key_sorted distinct_map_mset [OF mset_sort])

lemma canonical_values:
  "CanonicalWorkTicketsV3 ts m = Inr ts \<Longrightarrow> sort_key ticket_key ts = ts"
  "CanonicalCommitteeParticipationClaimGroupsV1 i gs = Inr gs \<Longrightarrow> canonical_groups gs = gs"
  "CanonicalRabbitVRFFinalizationsV1 xs = Inr xs \<Longrightarrow> sort_key vf_RequestID xs = xs"
  by (simp_all add: CanonicalWorkTickets_iff CanonicalGroups_iff CanonicalFinalizations_iff)

lemma decode_v3_iff:
  "DecodeLQCHeaderExtraV3 extra m = Inr e \<longleftrightarrow> length extra \<le> MaxRegistryHeaderExtraSize \<and> (\<exists>p seal v r s. splitProducerSeal extra = Inr (p, seal)
     \<and> IsRegistryHeaderExtra p \<and> DecodeBytes envelope_v3_type (drop (length registryHeaderMagic) p) = Some v \<and> e = envelope_v3_of_val v
     \<and> envelope_v3_ok m e \<and> encode_v3 m e = Inr r \<and> splitProducerSeal r = Inr (p, s))"
proof (cases "m \<noteq> 0 \<and> length extra \<le> MaxRegistryHeaderExtraSize \<and> (\<exists>p seal v. splitProducerSeal extra = Inr (p, seal)
    \<and> IsRegistryHeaderExtra p \<and> DecodeBytes envelope_v3_type (drop (length registryHeaderMagic) p) = Some v)")
  case True
  then obtain p seal v where m: "m \<noteq> 0" "length extra \<le> MaxRegistryHeaderExtraSize" and p: "splitProducerSeal extra = Inr (p, seal)"
      "IsRegistryHeaderExtra p" "DecodeBytes envelope_v3_type (drop (length registryHeaderMagic) p) = Some v" by blast
  show ?thesis
  proof (cases "envelope_v3_ok m (envelope_v3_of_val v)")
    case True
    with m p show ?thesis unfolding DecodeLQCHeaderExtraV3_def
      by (auto simp: envelope_v3_ok_def work_payload_ok_def Let_def split: sum.splits)
  next
    case False
    with m p show ?thesis unfolding DecodeLQCHeaderExtraV3_def
      by (auto simp: envelope_v3_ok_def work_payload_ok_def Let_def split: sum.splits option.splits)
  qed
next
  case False
  then show ?thesis unfolding DecodeLQCHeaderExtraV3_def envelope_v3_ok_def work_payload_ok_def
    by (auto split: sum.splits option.splits)
qed

interpretation v3: sealed_codec envelope_v3_type envelope_v3_val "\<lambda>e. vsize (envelope_v3_val e) < 2 ^ 64" envelope_v3_of_val
  "envelope_v3_ok m" canon_v3 "encode_v3 m" "\<lambda>x. DecodeLQCHeaderExtraV3 x m" ErrInvalidLQCHeaderExtraV3 for m
proof unfold_locales
  show "envelope_v3_ok m e \<Longrightarrow> canon_v3 e = e" for e
    by (cases e) (auto simp: envelope_v3_ok_def work_payload_ok_def canon_v3_def canonical_values)
  show "encode_v3 m e = (let extra = appendEmptyProducerSeal (registryHeaderMagic @ EncodeToBytes (envelope_v3_val (canon_v3 e)))
      in if length extra > MaxRegistryHeaderExtraSize then Inl ErrInvalidLQCHeaderExtraV3 else Inr extra)"
    if "envelope_v3_ok m (canon_v3 e)" for e
    using that by (simp add: envelope_v3_ok_def work_payload_ok_def canon_v3_def canonical_of_sorted EncodeLQCHeaderExtraV3_def Let_def)
qed (use decode_v3_iff in \<open>auto simp: type_ok_v3 envelope_v3_inverse simp del: has_type.simps dest: arg_cong [of _ _ envelope_v3_of_val]\<close>)

lemma decode_v4_iff:
  "DecodeLQCHeaderExtraV4 extra m = Inr e \<longleftrightarrow> length extra \<le> MaxRegistryHeaderExtraSize \<and> (\<exists>p seal v r s. splitProducerSeal extra = Inr (p, seal)
     \<and> IsRegistryHeaderExtra p \<and> DecodeBytes envelope_v4_type (drop (length registryHeaderMagic) p) = Some v \<and> e = envelope_v4_of_val v
     \<and> envelope_v4_ok m e \<and> encode_v4 m e = Inr r \<and> splitProducerSeal r = Inr (p, s))"
proof (cases "m \<noteq> 0 \<and> length extra \<le> MaxRegistryHeaderExtraSize \<and> (\<exists>p seal v. splitProducerSeal extra = Inr (p, seal)
    \<and> IsRegistryHeaderExtra p \<and> DecodeBytes envelope_v4_type (drop (length registryHeaderMagic) p) = Some v)")
  case True
  then obtain p seal v where m: "m \<noteq> 0" "length extra \<le> MaxRegistryHeaderExtraSize" and p: "splitProducerSeal extra = Inr (p, seal)"
      "IsRegistryHeaderExtra p" "DecodeBytes envelope_v4_type (drop (length registryHeaderMagic) p) = Some v" by blast
  show ?thesis
  proof (cases "envelope_v4_ok m (envelope_v4_of_val v)")
    case True
    with m p show ?thesis unfolding DecodeLQCHeaderExtraV4_def
      by (auto simp: envelope_v4_ok_def work_payload_ok_def claims_ok_def validate_canonical_claims [symmetric] Let_def split: sum.splits)
  next
    case False
    with m p show ?thesis unfolding DecodeLQCHeaderExtraV4_def
      by (auto simp: envelope_v4_ok_def work_payload_ok_def claims_ok_def validate_canonical_claims [symmetric] Let_def split: sum.splits option.splits)
  qed
next
  case False
  then show ?thesis unfolding DecodeLQCHeaderExtraV4_def envelope_v4_ok_def work_payload_ok_def claims_ok_def validate_canonical_claims [symmetric]
    by (auto split: sum.splits option.splits)
qed

interpretation v4: sealed_codec envelope_v4_type envelope_v4_val "\<lambda>e. vsize (envelope_v4_val e) < 2 ^ 64" envelope_v4_of_val
  "envelope_v4_ok m" canon_v4 "encode_v4 m" "\<lambda>x. DecodeLQCHeaderExtraV4 x m" ErrInvalidLQCHeaderExtraV4 for m
proof unfold_locales
  show "envelope_v4_ok m e \<Longrightarrow> canon_v4 e = e" for e
    by (cases e) (auto simp: envelope_v4_ok_def work_payload_ok_def claims_ok_def canon_v4_def canonical_values)
  show "encode_v4 m e = (let extra = appendEmptyProducerSeal (registryHeaderMagic @ EncodeToBytes (envelope_v4_val (canon_v4 e)))
      in if length extra > MaxRegistryHeaderExtraSize then Inl ErrInvalidLQCHeaderExtraV4 else Inr extra)"
    if "envelope_v4_ok m (canon_v4 e)" for e
    using that by (simp add: envelope_v4_ok_def work_payload_ok_def claims_ok_def canon_v4_def canonical_of_sorted canonical_of_groups EncodeLQCHeaderExtraV4_def Let_def)
qed (use decode_v4_iff in \<open>auto simp: type_ok_v4 envelope_v4_inverse simp del: has_type.simps dest: arg_cong [of _ _ envelope_v4_of_val]\<close>)

lemma decode_v5_iff:
  "DecodeLQCHeaderExtraV5 d extra m = Inr e \<longleftrightarrow> length extra \<le> MaxRegistryHeaderExtraSize \<and> (\<exists>p seal v r s. splitProducerSeal extra = Inr (p, seal)
     \<and> IsRegistryHeaderExtra p \<and> DecodeBytes envelope_v5_type (drop (length registryHeaderMagic) p) = Some v \<and> e = envelope_v5_of_val v
     \<and> envelope_v5_ok d m e \<and> encode_v5 m e = Inr r \<and> splitProducerSeal r = Inr (p, s))"
proof (cases "m \<noteq> 0 \<and> length extra \<le> MaxRegistryHeaderExtraSize \<and> (\<exists>p seal v. splitProducerSeal extra = Inr (p, seal)
    \<and> IsRegistryHeaderExtra p \<and> DecodeBytes envelope_v5_type (drop (length registryHeaderMagic) p) = Some v)")
  case True
  then obtain p seal v where m: "m \<noteq> 0" "length extra \<le> MaxRegistryHeaderExtraSize" and p: "splitProducerSeal extra = Inr (p, seal)"
      "IsRegistryHeaderExtra p" "DecodeBytes envelope_v5_type (drop (length registryHeaderMagic) p) = Some v" by blast
  show ?thesis
  proof (cases "envelope_v5_ok d m (envelope_v5_of_val v)")
    case True
    with m p show ?thesis unfolding DecodeLQCHeaderExtraV5_def
      by (auto simp: envelope_v5_ok_def work_payload_ok_def claims_ok_def validate_canonical_claims [symmetric] vrf_ok_def validate_canonical_finalizations [symmetric] first_err_None_iff [symmetric] MaxRabbitVRFFinalizationsPerBlockV1_def MaxRabbitVRFKeysetCertificatesPerBlockV1_def Let_def split: sum.splits)
  next
    case False
    with m p show ?thesis unfolding DecodeLQCHeaderExtraV5_def
      by (auto simp: envelope_v5_ok_def work_payload_ok_def claims_ok_def validate_canonical_claims [symmetric] vrf_ok_def validate_canonical_finalizations [symmetric] first_err_None_iff [symmetric] MaxRabbitVRFFinalizationsPerBlockV1_def MaxRabbitVRFKeysetCertificatesPerBlockV1_def Let_def split: sum.splits option.splits)
  qed
next
  case False
  then show ?thesis unfolding DecodeLQCHeaderExtraV5_def envelope_v5_ok_def work_payload_ok_def claims_ok_def validate_canonical_claims [symmetric] vrf_ok_def validate_canonical_finalizations [symmetric] first_err_None_iff [symmetric] MaxRabbitVRFFinalizationsPerBlockV1_def MaxRabbitVRFKeysetCertificatesPerBlockV1_def
    by (auto split: sum.splits option.splits)
qed

interpretation v5: sealed_codec envelope_v5_type envelope_v5_val "\<lambda>e. vsize (envelope_v5_val e) < 2 ^ 64" envelope_v5_of_val
  "envelope_v5_ok d m" canon_v5 "encode_v5 m" "\<lambda>x. DecodeLQCHeaderExtraV5 d x m" ErrInvalidLQCHeaderExtraV5 for d m
proof unfold_locales
  show "envelope_v5_ok d m e \<Longrightarrow> canon_v5 e = e" for e
    by (cases e) (auto simp: envelope_v5_ok_def work_payload_ok_def claims_ok_def vrf_ok_def MaxRabbitVRFFinalizationsPerBlockV1_def MaxRabbitVRFKeysetCertificatesPerBlockV1_def canon_v5_def canonical_values)
  show "encode_v5 m e = (let extra = appendEmptyProducerSeal (registryHeaderMagic @ EncodeToBytes (envelope_v5_val (canon_v5 e)))
      in if length extra > MaxRegistryHeaderExtraSize then Inl ErrInvalidLQCHeaderExtraV5 else Inr extra)"
    if "envelope_v5_ok d m (canon_v5 e)" for e
    using that by (simp add: envelope_v5_ok_def work_payload_ok_def claims_ok_def vrf_ok_def MaxRabbitVRFFinalizationsPerBlockV1_def MaxRabbitVRFKeysetCertificatesPerBlockV1_def canon_v5_def canonical_of_sorted canonical_of_groups canonical_of_finalizations encodeLQCHeaderExtraV5_def Let_def)
qed (use decode_v5_iff in \<open>auto simp: type_ok_v5 envelope_v5_inverse simp del: has_type.simps dest: arg_cong [of _ _ envelope_v5_of_val]\<close>)

section \<open>Sizes and versions\<close>

lemma sum_vsize_bound:
  "(\<And>x. x \<in> set xs \<Longrightarrow> vsize (f x) \<le> k) \<Longrightarrow> length xs \<le> n \<Longrightarrow> sum_list (map (\<lambda>x. vsize (f x)) xs) \<le> k * n"
  using sum_vsize_le [of xs f k] mult_le_mono2 [of "length xs" n k] order_trans by (fastforce simp: comp_def)

lemma operations_size:
  assumes "validateRegistryHeaderOperations ops = None"
  shows "sum_list (map (\<lambda>x. vsize (operation_val x)) ops) \<le> 10048"
proof -
  have "length ops \<le> 64" "\<And>op. op \<in> set ops \<Longrightarrow> vsize (operation_val op) \<le> 157"
    using assms validate_operations_fields [of None ops] vsize_operation
    by (auto simp: validateRegistryHeaderOperations_def MaxRegistryOperationsPerBlock_def split: if_splits)
  from sum_vsize_bound [OF this(2,1)] show ?thesis by simp
qed

lemma tickets_size:
  assumes "CanonicalWorkTicketsV3 ts m = Inr ts'" "unat m \<le> 2 ^ 32"
  shows "sum_list (map (\<lambda>x. vsize (ticket_val x)) ts) \<le> 148 * 2 ^ 32"
proof (rule sum_vsize_bound)
  show "vsize (ticket_val s) \<le> 148" if "s \<in> set ts" for s
    using assms(1) that shape_signature [of s] by (auto simp: CanonicalWorkTickets_iff ticket_val_def Let_def SignatureLength_def)
  show "length ts \<le> 2 ^ 32" using assms by (auto simp: CanonicalWorkTickets_iff)
qed

lemma groups_size:
  assumes "CanonicalCommitteeParticipationClaimGroupsV1 i gs = Inr gs'"
  shows "sum_list (map (\<lambda>x. vsize (group_val x)) gs) \<le> 12000 * 128"
proof (rule sum_vsize_bound)
  have ok: "groups_ok i gs" "length (claims_of gs) \<le> 128"
    using assms by (auto simp: CanonicalGroups_iff MaxCommitteeParticipationsV1_def)
  have len: "length (cg_Participations g) \<le> length (claims_of gs)" if "g \<in> set gs" for g
    using that by (induction gs) auto
  show "vsize (group_val g) \<le> 12000" if "g \<in> set gs" for g
  proof -
    have "vsize (compact_val c) \<le> 92" if "c \<in> set (cg_Participations g)" for c
      using ok(1) that \<open>g \<in> set gs\<close> by (auto simp: groups_ok_def compact_val_def claim_ok_def SignatureLength_def)
    from sum_vsize_bound [OF this] len [OF that] ok(2) show ?thesis
      by (fastforce simp: group_val_def comp_def)
  qed
  have "length gs \<le> length (claims_of gs)" using ok(1)
  proof (induction gs)
    case (Cons g gs)
    then have "length gs \<le> length (claims_of gs)" "cg_Participations g \<noteq> []" by (auto simp: groups_ok_def)
    then show ?case by (cases "cg_Participations g") simp_all
  qed simp
  with ok(2) show "length gs \<le> 128" by simp
qed

definition certificate_small :: "RabbitVRFKeysetCertificateV1 \<Rightarrow> bool" where
  "certificate_small c \<longleftrightarrow> length (kc_VerificationShareSamples c) \<le> 2 ^ 32 \<and> length (kc_Signatures c) \<le> 2 ^ 32"

lemma shape_signatures:
  "ValidateRabbitVRFKeysetCertificateShapeV1 d c = None \<Longrightarrow> s \<in> set (kc_Signatures c) \<Longrightarrow> length s \<le> 65"
  by (force simp: ValidateRabbitVRFKeysetCertificateShapeV1_def SignatureLength_def split: if_splits)

lemma vrf_size:
  assumes "vrf_ok d cs xs" "\<forall>c \<in> set cs. certificate_small c"
  shows "sum_list (map (\<lambda>x. vsize (certificate_val x)) cs) \<le> 200 * 2 ^ 32"
    and "sum_list (map (\<lambda>x. vsize (finalization_val x)) xs) \<le> 500 * 32"
proof -
  have "vsize (certificate_val c) \<le> 200 * 2 ^ 32" if c: "c \<in> set cs" for c
  proof -
    have sig: "length s \<le> 65" if "s \<in> set (kc_Signatures c)" for s
      using assms(1) c that shape_signatures by (auto simp: vrf_ok_def)
    have "sum_list (map (\<lambda>x. vsize (share_val x)) (kc_VerificationShareSamples c)) \<le> 75 * 2 ^ 32"
      using assms(2) c by (intro sum_vsize_bound) (auto simp: share_val_def certificate_small_def)
    moreover have "sum_list (map (\<lambda>x. vsize (VBytes x)) (kc_Signatures c)) \<le> 74 * 2 ^ 32"
      using assms(2) c sig by (intro sum_vsize_bound) (auto simp: certificate_small_def)
    ultimately show ?thesis by (simp add: certificate_val_def comp_def)
  qed
  from sum_vsize_bound [where n = 1 and xs = cs and f = certificate_val, OF this] assms(1) show "sum_list (map (\<lambda>x. vsize (certificate_val x)) cs) \<le> 200 * 2 ^ 32"
    by (simp add: vrf_ok_def)
  show "sum_list (map (\<lambda>x. vsize (finalization_val x)) xs) \<le> 500 * 32"
    using assms(1) by (intro sum_vsize_bound) (auto simp: finalization_val_def vrf_ok_def)
qed

lemma envelope_v3_size:
  assumes "envelope_v3_ok m e" and m: "unat m \<le> 2 ^ 32"
  shows "length (rlp_bytes (envelope_v3_val e)) < 2 ^ 64"
proof (rule rlp_bytes_sized)
  have "validateRegistryHeaderOperations (e3_RegistryOperations e) = None" "CanonicalWorkTicketsV3 (e3_WorkTickets e) m = Inr (e3_WorkTickets e)"
    using assms(1) by (simp_all add: envelope_v3_ok_def work_payload_ok_def)
  note operations_size [OF this(1)] tickets_size [OF this(2) m]
  then show "vsize (envelope_v3_val e) < 2 ^ 64" by (simp add: envelope_v3_val_def comp_def)
qed

lemma envelope_v4_size:
  assumes "envelope_v4_ok m e" and m: "unat m \<le> 2 ^ 32"
  shows "length (rlp_bytes (envelope_v4_val e)) < 2 ^ 64"
proof (rule rlp_bytes_sized)
  have "validateRegistryHeaderOperations (e4_RegistryOperations e) = None" "CanonicalWorkTicketsV3 (e4_WorkTickets e) m = Inr (e4_WorkTickets e)"
      "CanonicalCommitteeParticipationClaimGroupsV1 (e4_BlockNumber e) (e4_CommitteeParticipationClaims e) = Inr (e4_CommitteeParticipationClaims e)"
    using assms(1) by (simp_all add: envelope_v4_ok_def work_payload_ok_def claims_ok_def)
  note operations_size [OF this(1)] tickets_size [OF this(2) m] groups_size [OF this(3)]
  then show "vsize (envelope_v4_val e) < 2 ^ 64" by (simp add: envelope_v4_val_def comp_def)
qed

lemma envelope_v5_size:
  assumes "envelope_v5_ok d m e" and m: "unat m \<le> 2 ^ 32" and c: "\<forall>c \<in> set (e5_RabbitVRFKeysetCertificates e). certificate_small c"
  shows "length (rlp_bytes (envelope_v5_val e)) < 2 ^ 64"
proof (rule rlp_bytes_sized)
  have "validateRegistryHeaderOperations (e5_RegistryOperations e) = None" "CanonicalWorkTicketsV3 (e5_WorkTickets e) m = Inr (e5_WorkTickets e)"
      "CanonicalCommitteeParticipationClaimGroupsV1 (e5_BlockNumber e) (e5_CommitteeParticipationClaims e) = Inr (e5_CommitteeParticipationClaims e)"
      "vrf_ok d (e5_RabbitVRFKeysetCertificates e) (e5_RabbitVRFFinalizations e)"
    using assms(1) by (simp_all add: envelope_v5_ok_def work_payload_ok_def claims_ok_def)
  note operations_size [OF this(1)] tickets_size [OF this(2) m] groups_size [OF this(3)] vrf_size [OF this(4) c]
  then show "vsize (envelope_v5_val e) < 2 ^ 64" by (simp add: envelope_v5_val_def comp_def)
qed

text \<open>An encoder that succeeds has checked its arguments, so the canonical form of what it was given is accepted.\<close>

lemma canonical_results:
  "CanonicalWorkTicketsV3 ts m = Inr x \<Longrightarrow> x = sort_key ticket_key ts \<and> CanonicalWorkTicketsV3 (sort_key ticket_key ts) m = Inr (sort_key ticket_key ts)"
  "CanonicalCommitteeParticipationClaimGroupsV1 i gs = Inr y \<Longrightarrow> y = canonical_groups gs
     \<and> CanonicalCommitteeParticipationClaimGroupsV1 i (canonical_groups gs) = Inr (canonical_groups gs)"
  "CanonicalRabbitVRFFinalizationsV1 xs = Inr z \<Longrightarrow> z = sort_key vf_RequestID xs
     \<and> CanonicalRabbitVRFFinalizationsV1 (sort_key vf_RequestID xs) = Inr (sort_key vf_RequestID xs)"
  unfolding canonical_of_sorted canonical_of_groups canonical_of_finalizations
  by (simp_all add: CanonicalWorkTickets_iff CanonicalGroups_iff CanonicalFinalizations_iff)

lemma encode_v3_ok:
  assumes "encode_v3 m e = Inr built"
  shows "envelope_v3_ok m (canon_v3 e)"
proof -
  from assms obtain ts where g: "e3_BlockNumber e \<noteq> 0" "e3_RegistryRoot e \<noteq> 0" "e3_WorkStateRoot e \<noteq> 0" "m \<noteq> 0"
      "validateRegistryHeaderOperations (CanonicalRegistryOperations (e3_RegistryOperations e)) = None"
      and ts: "CanonicalWorkTicketsV3 (e3_WorkTickets e) m = Inr ts"
    unfolding EncodeLQCHeaderExtraV3_def Let_def result_iffs by blast
  from g canonical_results(1) [OF ts] show ?thesis by (simp add: envelope_v3_ok_def work_payload_ok_def canon_v3_def)
qed

lemma encode_v4_ok:
  assumes "encode_v4 m e = Inr built"
  shows "envelope_v4_ok m (canon_v4 e)"
proof -
  from assms obtain ts gs where g: "e4_BlockNumber e \<noteq> 0" "e4_RegistryRoot e \<noteq> 0" "e4_WorkStateRoot e \<noteq> 0" "e4_CommitteeClaimRoot e \<noteq> 0" "m \<noteq> 0"
      "validateRegistryHeaderOperations (CanonicalRegistryOperations (e4_RegistryOperations e)) = None"
      and ts: "CanonicalWorkTicketsV3 (e4_WorkTickets e) m = Inr ts"
      and gs: "CanonicalCommitteeParticipationClaimGroupsV1 (e4_BlockNumber e) (e4_CommitteeParticipationClaims e) = Inr gs"
      and cap: "validateClaimRegistryOperationCapacityV4 (CanonicalRegistryOperations (e4_RegistryOperations e)) gs = None"
    unfolding EncodeLQCHeaderExtraV4_def Let_def result_iffs by blast
  from g cap canonical_results(1) [OF ts] canonical_results(2) [OF gs] show ?thesis
    by (simp add: envelope_v4_ok_def work_payload_ok_def claims_ok_def canon_v4_def)
qed

lemma encode_v5_ok:
  assumes "encode_v5 m e = Inr built" and c: "length (e5_RabbitVRFKeysetCertificates e) \<le> 1"
      "\<And>c. c \<in> set (e5_RabbitVRFKeysetCertificates e) \<Longrightarrow> ValidateRabbitVRFKeysetCertificateShapeV1 d c = None"
  shows "envelope_v5_ok d m (canon_v5 e)"
proof -
  from assms(1) obtain ts gs xs where g: "e5_BlockNumber e \<noteq> 0" "e5_RegistryRoot e \<noteq> 0" "e5_WorkStateRoot e \<noteq> 0" "e5_CommitteeClaimRoot e \<noteq> 0" "m \<noteq> 0"
      "length (e5_RabbitVRFFinalizations e) \<le> MaxRabbitVRFFinalizationsPerBlockV1"
      "validateRegistryHeaderOperations (CanonicalRegistryOperations (e5_RegistryOperations e)) = None"
      and ts: "CanonicalWorkTicketsV3 (e5_WorkTickets e) m = Inr ts"
      and gs: "CanonicalCommitteeParticipationClaimGroupsV1 (e5_BlockNumber e) (e5_CommitteeParticipationClaims e) = Inr gs"
      and cap: "validateClaimRegistryOperationCapacityV4 (CanonicalRegistryOperations (e5_RegistryOperations e)) gs = None"
      and xs: "CanonicalRabbitVRFFinalizationsV1 (e5_RabbitVRFFinalizations e) = Inr xs"
    unfolding encodeLQCHeaderExtraV5_def Let_def result_iffs not_less by blast
  from g c cap canonical_results(1) [OF ts] canonical_results(2) [OF gs] canonical_results(3) [OF xs] show ?thesis
    by (simp add: envelope_v5_ok_def work_payload_ok_def claims_ok_def vrf_ok_def canon_v5_def MaxRabbitVRFFinalizationsPerBlockV1_def)
qed

text \<open>The envelopes have 4, 6, 8 and 10 fields, so that no extra data is accepted by two of the four decoders.\<close>

definition has_fields :: "nat \<Rightarrow> bytes \<Rightarrow> bool" where
  "has_fields k extra \<longleftrightarrow> length extra \<le> MaxRegistryHeaderExtraSize
     \<and> (\<exists>xs s. extra = sealed_bytes (VStruct xs) s \<and> length s = ProducerSealLength \<and> length xs = k)"

lemma has_fieldsI:
  "length extra \<le> MaxRegistryHeaderExtraSize \<Longrightarrow> length s = ProducerSealLength \<Longrightarrow> extra = sealed_bytes (VStruct xs) s \<Longrightarrow> length xs = k
   \<Longrightarrow> has_fields k extra"
  by (auto simp: has_fields_def)

lemma has_fields_unique:
  assumes "has_fields i extra" "has_fields j extra"
  shows "i = j"
proof -
  from assms obtain xs s ys t where x: "extra = registryHeaderMagic @ rlp_bytes (VStruct xs) @ s" "length s = ProducerSealLength" "length xs = i"
      and y: "extra = registryHeaderMagic @ rlp_bytes (VStruct ys) @ t" "length t = ProducerSealLength" "length ys = j"
      and l: "length extra \<le> MaxRegistryHeaderExtraSize"
    unfolding has_fields_def sealed_bytes_def by blast
  from x(1,2) y(1,2) have eq: "rlp_bytes (VStruct xs) = rlp_bytes (VStruct ys)" by simp
  have "length (rlp_bytes (VStruct xs)) \<le> length extra" unfolding x(1) by simp
  also have "\<dots> < 2 ^ 64" using l by (simp add: MaxRegistryHeaderExtraSize_def)
  finally have fits: "length (rlp_bytes (VStruct xs)) < 2 ^ 64" .
  from rlp_encode_inject [OF fits_of_length [OF fits] fits_of_length [OF fits [unfolded eq]]] eq
  have "map item_of xs = map item_of ys" by simp
  then show "i = j" unfolding x(3) [symmetric] y(3) [symmetric] by (rule map_eq_imp_length_eq)
qed

lemma accepted_fields:
  "DecodeRegistryHeaderExtra extra = Inr e2 \<Longrightarrow> has_fields 4 extra"
  "DecodeLQCHeaderExtraV3 extra m = Inr e3 \<Longrightarrow> has_fields 6 extra"
  "DecodeLQCHeaderExtraV4 extra m = Inr e4 \<Longrightarrow> has_fields 8 extra"
  "DecodeLQCHeaderExtraV5 d extra m = Inr e5 \<Longrightarrow> has_fields 10 extra"
  unfolding DecodeRegistryHeaderExtra_iff v3.dec_sealed v4.dec_sealed v5.dec_sealed envelope_extra_def sealed_bytes_def [symmetric]
    envelope_val_def envelope_v3_val_def envelope_v4_val_def envelope_v5_val_def
  by (elim conjE exE, erule (2) has_fieldsI, simp)+

lemma one_version:
  "length (filter id [\<not> isl (DecodeRegistryHeaderExtra extra), \<not> isl (DecodeLQCHeaderExtraV3 extra m),
     \<not> isl (DecodeLQCHeaderExtraV4 extra m), \<not> isl (DecodeLQCHeaderExtraV5 d extra m)]) \<le> 1"
proof -
  have not_isl: "\<not> isl r \<longleftrightarrow> (\<exists>x. r = Inr x)" for r :: "'e + 'v" by (cases r) auto
  have f: "\<not> isl (DecodeRegistryHeaderExtra extra) \<Longrightarrow> has_fields 4 extra" "\<not> isl (DecodeLQCHeaderExtraV3 extra m) \<Longrightarrow> has_fields 6 extra"
      "\<not> isl (DecodeLQCHeaderExtraV4 extra m) \<Longrightarrow> has_fields 8 extra" "\<not> isl (DecodeLQCHeaderExtraV5 d extra m) \<Longrightarrow> has_fields 10 extra"
    unfolding not_isl by (auto dest: accepted_fields)
  have no: "\<not> has_fields i extra \<or> \<not> has_fields j extra" if "i \<noteq> j" for i j
    using has_fields_unique that by blast
  show ?thesis
    using f no [of 4 6] no [of 4 8] no [of 4 10] no [of 6 8] no [of 6 10] no [of 8 10] by auto
qed

section \<open>Properties\<close>

text \<open>Claim C21: the work header extra data has one form per version. For each of V3, V4 and V5, decoding under a ticket limit
  succeeds exactly on the magic, the encoding of an envelope of that version whose roots are present and whose operations, tickets,
  claims, certificates and finalizations are valid and in canonical order, and 65 seal bytes, within the size bound; it
  returns that envelope. What an encoder builds decodes to the canonical form of what it was given, for V5 if the at most one
  keyset certificate has a valid shape (the encoder does not check it). No extra data is accepted by two of the four
  versions' decoders, so the order in which a caller tries them does not matter.\<close>

theorem work_header_codec:
  "(DecodeLQCHeaderExtraV3 extra m = Inr x3 \<longleftrightarrow> envelope_v3_ok m x3 \<and> length extra \<le> MaxRegistryHeaderExtraSize
      \<and> (\<exists>seal. length seal = ProducerSealLength \<and> extra = sealed_bytes (envelope_v3_val x3) seal))
   \<and> (DecodeLQCHeaderExtraV4 extra m = Inr x4 \<longleftrightarrow> envelope_v4_ok m x4 \<and> length extra \<le> MaxRegistryHeaderExtraSize
      \<and> (\<exists>seal. length seal = ProducerSealLength \<and> extra = sealed_bytes (envelope_v4_val x4) seal))
   \<and> (DecodeLQCHeaderExtraV5 decodes extra m = Inr x5 \<longleftrightarrow> envelope_v5_ok decodes m x5 \<and> length extra \<le> MaxRegistryHeaderExtraSize
      \<and> (\<exists>seal. length seal = ProducerSealLength \<and> extra = sealed_bytes (envelope_v5_val x5) seal))
   \<and> (unat m \<le> 2 ^ 32 \<and> encode_v3 m y3 = Inr b3 \<longrightarrow> DecodeLQCHeaderExtraV3 b3 m = Inr (canon_v3 y3))
   \<and> (unat m \<le> 2 ^ 32 \<and> encode_v4 m y4 = Inr b4 \<longrightarrow> DecodeLQCHeaderExtraV4 b4 m = Inr (canon_v4 y4))
   \<and> (unat m \<le> 2 ^ 32 \<and> encode_v5 m y5 = Inr b5 \<and> length (e5_RabbitVRFKeysetCertificates y5) \<le> 1
      \<and> (\<forall>c \<in> set (e5_RabbitVRFKeysetCertificates y5). ValidateRabbitVRFKeysetCertificateShapeV1 decodes c = None \<and> certificate_small c)
      \<longrightarrow> DecodeLQCHeaderExtraV5 decodes b5 m = Inr (canon_v5 y5))
   \<and> length (filter id [\<not> isl (DecodeRegistryHeaderExtra extra), \<not> isl (DecodeLQCHeaderExtraV3 extra m),
       \<not> isl (DecodeLQCHeaderExtraV4 extra m), \<not> isl (DecodeLQCHeaderExtraV5 decodes extra m)]) \<le> 1"
proof (intro conjI impI)
  show "DecodeLQCHeaderExtraV3 b3 m = Inr (canon_v3 y3)" if "unat m \<le> 2 ^ 32 \<and> encode_v3 m y3 = Inr b3"
    using that encode_v3_ok [of y3 m b3] by (intro v3.dec_enc envelope_v3_size [of m]) auto
  show "DecodeLQCHeaderExtraV4 b4 m = Inr (canon_v4 y4)" if "unat m \<le> 2 ^ 32 \<and> encode_v4 m y4 = Inr b4"
    using that encode_v4_ok [of y4 m b4] by (intro v4.dec_enc envelope_v4_size [of m]) auto
  assume a: "unat m \<le> 2 ^ 32 \<and> encode_v5 m y5 = Inr b5 \<and> length (e5_RabbitVRFKeysetCertificates y5) \<le> 1
      \<and> (\<forall>c \<in> set (e5_RabbitVRFKeysetCertificates y5). ValidateRabbitVRFKeysetCertificateShapeV1 decodes c = None \<and> certificate_small c)"
  then have ok: "envelope_v5_ok decodes m (canon_v5 y5)" using encode_v5_ok [of y5 m b5 decodes] by blast
  show "DecodeLQCHeaderExtraV5 decodes b5 m = Inr (canon_v5 y5)"
    using a ok by (intro v5.dec_enc envelope_v5_size [OF ok]) (auto simp: canon_v5_def)
qed (rule v3.dec_sealed v4.dec_sealed v5.dec_sealed one_version)+

definition sample_v5 :: LQCHeaderEnvelopeV5 where
  "sample_v5 = \<lparr>e5_Version = 5, e5_BlockNumber = 5, e5_RegistryRoot = 9, e5_WorkStateRoot = 8, e5_CommitteeClaimRoot = 7,
     e5_RegistryOperations = [], e5_WorkTickets = [], e5_CommitteeParticipationClaims = [], e5_RabbitVRFKeysetCertificates = [],
     e5_RabbitVRFFinalizations = []\<rparr>"

lemma sample_v5_encoded:
  "canon_v5 sample_v5 = sample_v5"
  "encode_v5 4 sample_v5 = Inr (sealed_bytes (envelope_v5_val sample_v5) (replicate ProducerSealLength 0))"
proof -
  show c: "canon_v5 sample_v5 = sample_v5"
    by (simp add: canon_v5_def sample_v5_def LQCHeaderEnvelopeVersionV5_def CanonicalRegistryOperations_def)
  have "envelope_v5_ok (\<lambda>_. False) 4 sample_v5"
    by (simp add: envelope_v5_ok_def sample_v5_def LQCHeaderEnvelopeVersionV5_def work_payload_ok_def claims_ok_def vrf_ok_def
        CanonicalWorkTickets_iff CanonicalGroups_iff CanonicalFinalizations_iff CanonicalRegistryOperations_def groups_ok_def
        validateRegistryHeaderOperations_def validateClaimRegistryOperationCapacityV4_def)
  moreover have "vsize (envelope_v5_val sample_v5) \<le> 1000" by (simp add: envelope_v5_val_def sample_v5_def)
  ultimately show "encode_v5 4 sample_v5 = Inr (sealed_bytes (envelope_v5_val sample_v5) (replicate ProducerSealLength 0))"
    using v5.enc_small [of "\<lambda>_. False" 4 sample_v5] c by simp
qed

theorem work_header_codec_witness:
  "\<exists>built. encode_v5 4 sample_v5 = Inr built \<and> DecodeLQCHeaderExtraV5 (\<lambda>_. False) built 4 = Inr (canon_v5 sample_v5)"
  using work_header_codec [of "[]" 4 undefined undefined "\<lambda>_. False" undefined undefined "[]" undefined "[]" sample_v5
      "sealed_bytes (envelope_v5_val sample_v5) (replicate ProducerSealLength 0)"] sample_v5_encoded(2)
  by (auto simp: sample_v5_def)

end
