(* ===== verification/Heap.thy ===== *)
theory Heap
  imports Prelude
begin

text \<open>
  The binary heap of the Go standard library (\<open>container/heap\<close>), as far as the seat selection uses it: \<open>Push\<close>, \<open>Fix\<close> and the
  two sift loops. \<open>Less(i, j)\<close> of the callers compares the elements at the two positions, so the order is a relation on
  elements. The bounded heap that keeps the smallest elements of a sequence is the use the callers make of it.
\<close>

section \<open>Push, Fix and the sift loops\<close>

definition heap_Swap :: "'a list \<Rightarrow> nat \<Rightarrow> nat \<Rightarrow> 'a list" where
  "heap_Swap xs i j = xs[i := xs ! j, j := xs ! i]"

text \<open>The parent of position \<open>0\<close> is \<open>-1 / 2 = 0\<close> in Go, and \<open>(0 - 1) div 2 = 0\<close> here.\<close>

function heap_up :: "('a \<Rightarrow> 'a \<Rightarrow> bool) \<Rightarrow> 'a list \<Rightarrow> nat \<Rightarrow> 'a list" where
  "heap_up Less xs j = (let i = (j - 1) div 2 in
     if i = j \<or> \<not> Less (xs ! j) (xs ! i) then xs else heap_up Less (heap_Swap xs i j) i)"
  by pat_completeness auto
termination
  by (relation "measure (\<lambda>(_, _, j). j)") auto

declare heap_up.simps [simp del]

text \<open>The second component is the final position. Positions stay far below the range of \<open>int\<close>, so \<open>j1 < 0\<close> does not occur.\<close>

function heap_down :: "('a \<Rightarrow> 'a \<Rightarrow> bool) \<Rightarrow> nat \<Rightarrow> 'a list \<Rightarrow> nat \<Rightarrow> 'a list \<times> nat" where
  "heap_down Less n xs i = (let j1 = 2 * i + 1 in
     if j1 \<ge> n then (xs, i)
     else let j = (if j1 + 1 < n \<and> Less (xs ! (j1 + 1)) (xs ! j1) then j1 + 1 else j1) in
       if \<not> Less (xs ! j) (xs ! i) then (xs, i)
       else heap_down Less n (heap_Swap xs i j) j)"
  by pat_completeness auto
termination
  by (relation "measure (\<lambda>(_, n, _, i). n - i)") auto

declare heap_down.simps [simp del]

definition heap_Push :: "('a \<Rightarrow> 'a \<Rightarrow> bool) \<Rightarrow> 'a list \<Rightarrow> 'a \<Rightarrow> 'a list" where
  "heap_Push Less xs x = heap_up Less (xs @ [x]) (length xs)"

definition heap_Fix :: "('a \<Rightarrow> 'a \<Rightarrow> bool) \<Rightarrow> 'a list \<Rightarrow> nat \<Rightarrow> 'a list" where
  "heap_Fix Less xs i = (let (ys, i') = heap_down Less (length xs) xs i in
     if i' > i then ys else heap_up Less ys i)"

section \<open>The heap order\<close>

lemma length_heap_Swap [simp]: "length (heap_Swap xs i j) = length xs"
  by (simp add: heap_Swap_def)

lemma mset_heap_Swap: "i < length xs \<Longrightarrow> j < length xs \<Longrightarrow> mset (heap_Swap xs i j) = mset xs"
  by (simp add: heap_Swap_def mset_swap)

lemma nth_heap_Swap:
  "i < length xs \<Longrightarrow> j < length xs \<Longrightarrow> k < length xs \<Longrightarrow>
    heap_Swap xs i j ! k = (if k = j then xs ! i else if k = i then xs ! j else xs ! k)"
  by (simp add: heap_Swap_def nth_list_update)

lemma children: "0 < k \<Longrightarrow> (k - Suc 0) div 2 = i \<longleftrightarrow> k = Suc (2 * i) \<or> k = Suc (Suc (2 * i))"
  by presburger

text \<open>The smallest elements of a sequence and one more element.\<close>

lemma sort_snoc: "sort (xs @ [x]) = insort x (sort xs)"
  by (rule properties_for_sort) (simp_all add: sorted_insort)

lemma take_insort: "take k (insort x ys) = take k (insort x (take k ys))"
  by (induction ys arbitrary: k) (auto simp: take_Cons split: nat.splits)

lemma mset_butlast_insort:
  assumes "sorted ys" and "ys \<noteq> []"
  shows "mset (butlast (insort x ys)) = (if x < last ys then add_mset x (mset ys - {#last ys#}) else mset ys)"
proof -
  have "last (insort x ys) = max x (last ys)"
    using assms
  proof (induction ys)
    case (Cons y ys)
    have "x \<le> y \<Longrightarrow> ys \<noteq> [] \<Longrightarrow> x \<le> last ys" using Cons.prems(1) by (auto intro: order_trans)
    with Cons show ?case by (auto simp: max_def insort_not_Nil)
  qed simp
  then have "mset (butlast (insort x ys)) = add_mset x (mset ys) - {#max x (last ys)#}"
    by (metis insort_not_Nil append_butlast_last_id mset_insort add_diff_cancel_right' mset.simps mset_append)
  then show ?thesis using assms(2) by (auto simp: max_def)
qed

locale priority =
  fixes Less :: "'a \<Rightarrow> 'a \<Rightarrow> bool" and key :: "'a \<Rightarrow> 'k::linorder"
  assumes Less_iff: "Less x y \<longleftrightarrow> key y < key x"
begin

text \<open>The heap order at every position but those of \<open>bad\<close>.\<close>

definition ordered_but :: "(nat \<Rightarrow> bool) \<Rightarrow> 'a list \<Rightarrow> bool" where
  "ordered_but bad xs \<longleftrightarrow> (\<forall>k. 0 < k \<longrightarrow> k < length xs \<longrightarrow> \<not> bad k \<longrightarrow> key (xs ! k) \<le> key (xs ! ((k - 1) div 2)))"

abbreviation is_heap :: "'a list \<Rightarrow> bool" where
  "is_heap \<equiv> ordered_but (\<lambda>_. False)"

text \<open>The children of a displaced position are below its parent.\<close>

definition bridged :: "nat \<Rightarrow> 'a list \<Rightarrow> bool" where
  "bridged j xs \<longleftrightarrow> (\<forall>k. 0 < k \<longrightarrow> k < length xs \<longrightarrow> 0 < j \<longrightarrow> (k - 1) div 2 = j \<longrightarrow> key (xs ! k) \<le> key (xs ! ((j - 1) div 2)))"

lemma up_step:
  assumes "j < length xs" and "ordered_but (\<lambda>k. k = j) xs" and "bridged j xs" and "0 < j" and "i = (j - 1) div 2"
    and "key (xs ! i) < key (xs ! j)"
  shows "ordered_but (\<lambda>k. k = i) (heap_Swap xs i j)" and "bridged i (heap_Swap xs i j)"
proof -
  have i: "i < j" using assms(4,5) by auto
  note n = nth_heap_Swap [OF less_trans [OF i assms(1)] assms(1)]
  have o: "key (xs ! k) \<le> key (xs ! ((k - 1) div 2))" if "0 < k" "k < length xs" "k \<noteq> j" for k
    using assms(2) that by (simp add: ordered_but_def)
  show "ordered_but (\<lambda>k. k = i) (heap_Swap xs i j)"
    unfolding ordered_but_def length_heap_Swap
  proof (intro allI impI)
    fix k assume k: "0 < k" "k < length xs" "k \<noteq> i"
    let ?p = "(k - 1) div 2"
    have p: "?p < length xs" using k by auto
    consider "k = j" | "k \<noteq> j" "?p = j" | "k \<noteq> j" "?p = i" | "k \<noteq> j" "?p \<noteq> j" "?p \<noteq> i" by blast
    then show "key (heap_Swap xs i j ! k) \<le> key (heap_Swap xs i j ! ?p)"
    proof cases
      case 1
      then show ?thesis using i assms(6) assms(1) by (simp add: n flip: assms(5) One_nat_def)
    next
      case 2
      then have "key (xs ! k) \<le> key (xs ! i)" using assms(3,4,5) k by (simp add: bridged_def)
      then show ?thesis using 2 k p by (simp add: n)
    next
      case 3
      then show ?thesis using o [of k] assms(6) k p i by (simp add: n)
    next
      case 4
      then show ?thesis using o [of k] k p by (simp add: n)
    qed
  qed
  show "bridged i (heap_Swap xs i j)"
    unfolding bridged_def length_heap_Swap
  proof (intro allI impI)
    fix k assume k: "0 < k" "k < length xs" "0 < i" "(k - 1) div 2 = i"
    have q: "(i - 1) div 2 < i" using k(3) by auto
    have "key (xs ! i) \<le> key (xs ! ((i - 1) div 2))" using o [of i] i assms(1) k(3) by simp
    moreover have "key (xs ! k) \<le> key (xs ! i)" if "k \<noteq> j" using o [of k] k that by simp
    moreover have "k \<noteq> i" using k by auto
    ultimately show "key (heap_Swap xs i j ! k) \<le> key (heap_Swap xs i j ! ((i - 1) div 2))"
      using k(2) q i assms(1) by (auto simp: n)
  qed
qed

lemma heap_up_heap:
  "j < length xs \<Longrightarrow> ordered_but (\<lambda>k. k = j) xs \<Longrightarrow> bridged j xs \<Longrightarrow>
    is_heap (heap_up Less xs j) \<and> mset (heap_up Less xs j) = mset xs"
proof (induction j arbitrary: xs rule: less_induct)
  case (less j)
  let ?i = "(j - 1) div 2"
  show ?case
  proof (cases "?i = j \<or> \<not> Less (xs ! j) (xs ! ?i)")
    case True
    then have "is_heap xs"
      using less.prems(2) by (auto simp: ordered_but_def Less_iff not_less)
    with True show ?thesis by (simp add: heap_up.simps [of _ xs])
  next
    case False
    then have j: "0 < j" and k: "key (xs ! ?i) < key (xs ! j)" by (auto simp: Less_iff)
    have i: "?i < j" using j by auto
    note u = up_step [OF less.prems j refl k]
    have l: "?i < length (heap_Swap xs ?i j)" using i less.prems(1) by simp
    have "heap_up Less xs j = heap_up Less (heap_Swap xs ?i j) ?i"
      using False by (simp add: heap_up.simps [of _ xs] Let_def)
    then show ?thesis
      using less.IH [OF i l u] mset_heap_Swap [of ?i xs j] i less.prems(1) by simp
  qed
qed

lemma down_step:
  assumes "i < length xs" and "ordered_but (\<lambda>k. (k - 1) div 2 = i) xs" and "bridged i xs"
    and "j < length xs" and "0 < j" and "(j - 1) div 2 = i"
    and "\<And>k. 0 < k \<Longrightarrow> k < length xs \<Longrightarrow> (k - 1) div 2 = i \<Longrightarrow> key (xs ! k) \<le> key (xs ! j)"
    and "key (xs ! i) < key (xs ! j)"
  shows "ordered_but (\<lambda>k. (k - 1) div 2 = j) (heap_Swap xs i j)" and "bridged j (heap_Swap xs i j)"
proof -
  have i: "i < j" using assms(5,6) by auto
  note n = nth_heap_Swap [OF assms(1,4)]
  have o: "key (xs ! k) \<le> key (xs ! ((k - 1) div 2))" if "0 < k" "k < length xs" "(k - 1) div 2 \<noteq> i" for k
    using assms(2) that by (simp add: ordered_but_def)
  show "ordered_but (\<lambda>k. (k - 1) div 2 = j) (heap_Swap xs i j)"
    unfolding ordered_but_def length_heap_Swap
  proof (intro allI impI)
    fix k assume k: "0 < k" "k < length xs" "(k - 1) div 2 \<noteq> j"
    let ?p = "(k - 1) div 2"
    have p: "?p < length xs" using k by auto
    consider "k = j" | "k \<noteq> j" "?p = i" | "k = i" | "?p \<noteq> i" "k \<noteq> i" "k \<noteq> j" by blast
    then show "key (heap_Swap xs i j ! k) \<le> key (heap_Swap xs i j ! ?p)"
    proof cases
      case 1
      then show ?thesis using i assms by (simp add: n)
    next
      case 2
      then have "k \<noteq> i" using k(1) by auto
      then show ?thesis using 2 assms(7) [of k] assms(1) k i by (simp add: n)
    next
      case 3
      have "?p < i" using 3 k(1) by auto
      moreover have "key (xs ! j) \<le> key (xs ! ?p)" using assms(3,4,5,6) 3 k(1) by (simp add: bridged_def)
      ultimately show ?thesis using 3 i p assms(1) by (simp add: n)
    next
      case 4
      then show ?thesis using o [of k] k p by (simp add: n)
    qed
  qed
  show "bridged j (heap_Swap xs i j)"
    unfolding bridged_def length_heap_Swap
  proof (intro allI impI)
    fix k assume k: "0 < k" "k < length xs" "0 < j" "(k - 1) div 2 = j"
    have "k \<noteq> j" "k \<noteq> i" using k i by auto
    moreover have "key (xs ! k) \<le> key (xs ! j)" using o [of k] k i by simp
    ultimately show "key (heap_Swap xs i j ! k) \<le> key (heap_Swap xs i j ! ((j - 1) div 2))"
      using k i assms(1,6) by (simp add: n)
  qed
qed

text \<open>The larger child, as the loop picks it.\<close>

lemma child_choice:
  assumes "2 * i + 1 < length xs"
    and "j = (if 2 * i + 1 + 1 < length xs \<and> Less (xs ! (2 * i + 1 + 1)) (xs ! (2 * i + 1)) then 2 * i + 1 + 1 else 2 * i + 1)"
  shows "j < length xs" and "0 < j" and "(j - 1) div 2 = i"
    and "0 < k \<Longrightarrow> k < length xs \<Longrightarrow> (k - 1) div 2 = i \<Longrightarrow> key (xs ! k) \<le> key (xs ! j)"
proof -
  show "j < length xs" "0 < j" using assms by auto
  then show "(j - 1) div 2 = i" using assms(2) by (simp add: children)
  assume "0 < k" "k < length xs" "(k - 1) div 2 = i"
  then have "k = Suc (2 * i) \<or> k = Suc (Suc (2 * i))" by (simp add: children)
  then show "key (xs ! k) \<le> key (xs ! j)"
    using \<open>k < length xs\<close> assms(2) by (auto simp: Less_iff not_less)
qed

lemma heap_down_heap:
  "i < length xs \<Longrightarrow> ordered_but (\<lambda>k. (k - 1) div 2 = i) xs \<Longrightarrow> bridged i xs \<Longrightarrow> heap_down Less (length xs) xs i = (ys, i') \<Longrightarrow>
    is_heap ys \<and> mset ys = mset xs \<and> i \<le> i'"
proof (induction "length xs - i" arbitrary: i xs rule: less_induct)
  case less
  let ?c = "2 * i + 1"
  define j where "j = (if ?c + 1 < length xs \<and> Less (xs ! (?c + 1)) (xs ! ?c) then ?c + 1 else ?c)"
  have e: "heap_down Less (length xs) xs i =
      (if ?c \<ge> length xs \<or> \<not> Less (xs ! j) (xs ! i) then (xs, i) else heap_down Less (length xs) (heap_Swap xs i j) j)"
    by (simp add: heap_down.simps [of _ _ xs] Let_def j_def)
  show ?case
  proof (cases "?c \<ge> length xs \<or> \<not> Less (xs ! j) (xs ! i)")
    case True
    have "key (xs ! k) \<le> key (xs ! i)" if k: "0 < k" "k < length xs" "(k - 1) div 2 = i" for k
    proof -
      have "?c < length xs" using k by (auto simp: children)
      then show ?thesis
        using True child_choice(4) [OF _ j_def k] by (auto simp: Less_iff not_less)
    qed
    then have "is_heap xs" using less.prems(2) by (auto simp: ordered_but_def)
    then show ?thesis using True less.prems(4) by (simp add: e)
  next
    case False
    then have c: "?c < length xs" and k: "key (xs ! i) < key (xs ! j)" by (auto simp: Less_iff)
    note j = child_choice [OF c j_def]
    note d = down_step [OF less.prems(1-3) j(1-3) j(4) k]
    have ij: "i < j" using j(2,3) by auto
    have r: "heap_down Less (length (heap_Swap xs i j)) (heap_Swap xs i j) j = (ys, i')"
      using less.prems(4) False by (simp add: e)
    have m: "length (heap_Swap xs i j) - j < length xs - i" and l: "j < length (heap_Swap xs i j)"
      using ij j(1) by simp_all
    show ?thesis
      using less.hyps [OF m l d r] mset_heap_Swap [OF less.prems(1) j(1)] ij by simp
  qed
qed

lemma heap_Push_heap:
  assumes "is_heap xs"
  shows "is_heap (heap_Push Less xs x)" and "mset (heap_Push Less xs x) = add_mset x (mset xs)"
proof -
  have "ordered_but (\<lambda>k. k = length xs) (xs @ [x])"
    using assms by (auto simp: ordered_but_def nth_append)
  moreover have "bridged (length xs) (xs @ [x])"
    by (auto simp: bridged_def children)
  ultimately show "is_heap (heap_Push Less xs x)" "mset (heap_Push Less xs x) = add_mset x (mset xs)"
    unfolding heap_Push_def using heap_up_heap [of "length xs" "xs @ [x]"] by simp_all
qed

text \<open>Replacing the root and calling \<open>Fix\<close> there.\<close>

lemma heap_Fix_root:
  assumes "is_heap xs" and "xs \<noteq> []"
  shows "is_heap (heap_Fix Less (xs[0 := x]) 0)"
    and "mset (heap_Fix Less (xs[0 := x]) 0) = add_mset x (mset xs - {#xs ! 0#})"
proof -
  let ?xs = "xs[0 := x]"
  obtain ys i where d: "heap_down Less (length ?xs) ?xs 0 = (ys, i)" by fastforce
  have "ordered_but (\<lambda>k. (k - 1) div 2 = 0) ?xs"
    using assms(1) by (auto simp: ordered_but_def nth_list_update)
  moreover have "bridged 0 ?xs" by (simp add: bridged_def)
  moreover have "0 < length ?xs" using assms(2) by simp
  ultimately have h: "is_heap ys" "mset ys = mset ?xs" using heap_down_heap [OF _ _ _ d] by blast+
  have "heap_up Less ys 0 = ys" by (simp add: heap_up.simps)
  then have "heap_Fix Less ?xs 0 = ys" using d by (simp add: heap_Fix_def)
  then show "is_heap (heap_Fix Less ?xs 0)" "mset (heap_Fix Less ?xs 0) = add_mset x (mset xs - {#xs ! 0#})"
    using h assms(2) by (simp_all add: mset_update)
qed

lemma heap_root_max:
  assumes "is_heap xs" and "k < length xs"
  shows "key (xs ! k) \<le> key (xs ! 0)"
  using assms(2)
proof (induction k rule: less_induct)
  case (less k)
  show ?case
  proof (cases "k = 0")
    case False
    then have "key (xs ! k) \<le> key (xs ! ((k - 1) div 2))" using assms(1) less.prems by (simp add: ordered_but_def)
    moreover have "(k - 1) div 2 < k" using False by auto
    ultimately show ?thesis using less.IH [of "(k - 1) div 2"] less.prems by fastforce
  qed simp
qed

text \<open>A heap that holds the keys of the \<open>k\<close> smallest elements of a sequence, and one more element.\<close>

definition holds :: "nat \<Rightarrow> 'k list \<Rightarrow> 'a list \<Rightarrow> bool" where
  "holds k keys xs \<longleftrightarrow> is_heap xs \<and> mset (map key xs) = mset (take k (sort keys))"

lemma holds_length: "holds k keys xs \<Longrightarrow> length xs = min k (length keys)"
  unfolding holds_def by (metis length_map length_take length_sort min.commute size_mset)

lemma holds_Push:
  assumes "holds k keys xs" and "length xs < k"
  shows "holds k (keys @ [key x]) (heap_Push Less xs x)"
proof -
  have l: "length keys < k" using holds_length [OF assms(1)] assms(2) by linarith
  then have "mset (take k (sort (keys @ [key x]))) = add_mset (key x) (mset keys)" by simp
  moreover have "mset (map key xs) = mset keys" using assms(1) l by (simp add: holds_def)
  ultimately show ?thesis using assms(1) heap_Push_heap [of xs x] by (simp add: holds_def)
qed

lemma holds_full:
  assumes "holds k keys xs" and "length xs = k" and "0 < k"
  shows "key (xs ! 0) = last (take k (sort keys))"
proof -
  let ?t = "take k (sort keys)"
  have s: "sorted ?t" by (rule sorted_wrt_take) simp
  have m: "set (map key xs) = set ?t" using assms(1) unfolding holds_def by (metis set_mset_mset)
  have ne: "?t \<noteq> []" "xs \<noteq> []" using assms(2,3) m by auto
  have "last ?t \<in> set (map key xs)" using m ne by simp
  then obtain j where "j < length xs" "last ?t = key (xs ! j)" by (auto simp: in_set_conv_nth)
  then have "last ?t \<le> key (xs ! 0)" using heap_root_max [of xs j] assms(1) by (simp add: holds_def)
  moreover have "key (xs ! 0) \<in> set ?t" using m ne by (metis length_greater_0_conv image_eqI list.set_map nth_mem)
  then have "key (xs ! 0) \<le> last ?t" using s by (metis in_set_conv_nth last_conv_nth ne(1) sorted_nth_mono Suc_pred'
      diff_less length_greater_0_conv less_Suc_eq_le zero_less_one)
  ultimately show ?thesis by simp
qed

lemma holds_offer:
  assumes "holds k keys xs" and "length xs = k" and "0 < k"
  shows "key x < key (xs ! 0) \<Longrightarrow> holds k (keys @ [key x]) (heap_Fix Less (xs[0 := x]) 0)"
    and "\<not> key x < key (xs ! 0) \<Longrightarrow> holds k (keys @ [key x]) xs"
proof -
  let ?t = "take k (sort keys)"
  have t: "length ?t = k" using assms(2) holds_length [OF assms(1)] by (simp add: min.commute)
  then have t': "?t \<noteq> []" using assms(3) by (metis length_0_conv less_not_refl)
  have ne: "xs \<noteq> []" using assms(2,3) by auto
  note r = holds_full [OF assms]
  have k: "take k (sort (keys @ [key x])) = butlast (insort (key x) ?t)"
    using take_insort [of k "key x" "sort keys"] t by (simp add: sort_snoc butlast_conv_take)
  note l = mset_butlast_insort [OF sorted_wrt_take [OF sorted_sort] t']
  have h: "is_heap xs" "mset (map key xs) = mset ?t" using assms(1) by (simp_all add: holds_def)
  show "holds k (keys @ [key x]) (heap_Fix Less (xs[0 := x]) 0)" if "key x < key (xs ! 0)"
    using that h heap_Fix_root [OF h(1) ne, of x] ne
    unfolding holds_def k by (simp add: l r image_mset_Diff flip: r)
  show "holds k (keys @ [key x]) xs" if "\<not> key x < key (xs ! 0)"
    using that h unfolding holds_def k by (simp add: l r)
qed

end

end
