(* ===== verification/Work_Selection.thy ===== *)
theory Work_Selection
  imports Work_Protocol Heap
begin

text \<open>
  Selection of work seats (\<open>consensus/lqc/work_protocol_v1_selection.go\<close>): the full order of the seats by score, the selection of its
  first seats with two bounded heaps, and the roles of a block. The heap struct of the code is the list of its items; the seats
  they point into are an argument.
\<close>

section \<open>Scores\<close>

record scoredWorkSeatV1 =
  sc_Index :: nat
  sc_Score :: hash

text \<open>\<open>bytes.Compare\<close> on arrays of equal length, and \<open>Address.Cmp\<close>.\<close>

definition bytes_Compare :: "'a::len word \<Rightarrow> 'a word \<Rightarrow> int" where
  "bytes_Compare a b = (if a < b then -1 else if a = b then 0 else 1)"

definition compareScoredWorkSeatsV1 :: "scoredWorkSeatV1 \<Rightarrow> scoredWorkSeatV1 \<Rightarrow> WorkSeatV1 list \<Rightarrow> int" where
  "compareScoredWorkSeatsV1 left right input = (let order = bytes_Compare (sc_Score left) (sc_Score right) in
     if order \<noteq> 0 then order
     else let leftSeat = input ! sc_Index left; rightSeat = input ! sc_Index right;
              order = bytes_Compare (ws_TicketHash leftSeat) (ws_TicketHash rightSeat)
       in if order \<noteq> 0 then order else bytes_Compare (ws_Participant leftSeat) (ws_Participant rightSeat))"

definition scored_Less :: "WorkSeatV1 list \<Rightarrow> scoredWorkSeatV1 \<Rightarrow> scoredWorkSeatV1 \<Rightarrow> bool" where
  "scored_Less input a b \<longleftrightarrow> compareScoredWorkSeatsV1 a b input > 0"

text \<open>\<open>Pop\<close> completes the heap interface; on no items its index is out of range, which panics (\<^const>\<open>None\<close>).\<close>

definition scored_Pop :: "scoredWorkSeatV1 list \<Rightarrow> (scoredWorkSeatV1 \<times> scoredWorkSeatV1 list) option" where
  "scored_Pop items = (if items = [] then None else Some (items ! (length items - 1), take (length items - 1) items))"

text \<open>The key that the comparison compares.\<close>

definition scored_key :: "WorkSeatV1 list \<Rightarrow> scoredWorkSeatV1 \<Rightarrow> hash \<times> hash \<times> address" where
  "scored_key input s = (sc_Score s, seat_key (input ! sc_Index s))"

text \<open>The 64 bytes of seed and ticket hash.\<close>

definition seat_score :: "crypto \<Rightarrow> hash \<Rightarrow> WorkSeatV1 \<Rightarrow> hash" where
  "seat_score cr selectionSeed seat = Keccak256Hash cr [hash_bytes selectionSeed @ hash_bytes (ws_TicketHash seat)]"

section \<open>Selecting and ordering\<close>

definition select_offer ::
  "WorkSeatV1 list \<Rightarrow> nat \<Rightarrow> scoredWorkSeatV1 \<Rightarrow> scoredWorkSeatV1 list \<Rightarrow> scoredWorkSeatV1 list" where
  "select_offer input limit candidate target =
     (if length target < limit then heap_Push (scored_Less input) target candidate
      else if compareScoredWorkSeatsV1 candidate (target ! 0) input < 0
      then heap_Fix (scored_Less input) (target[0 := candidate]) 0
      else target)"

definition select_step ::
  "crypto \<Rightarrow> hash \<Rightarrow> WorkSeatV1 list \<Rightarrow> nat \<Rightarrow> (WorkSeatV1 \<Rightarrow> bool) option \<Rightarrow> nat \<times> WorkSeatV1
    \<Rightarrow> scoredWorkSeatV1 list \<times> scoredWorkSeatV1 list \<Rightarrow> work_error + scoredWorkSeatV1 list \<times> scoredWorkSeatV1 list" where
  "select_step cr selectionSeed input limit preferred = (\<lambda>(index, seat) (primary, secondary).
     if ws_TicketHash seat = 0 \<or> ws_Participant seat = 0 then Inl ErrInvalidWorkSeat
     else let candidate = \<lparr>sc_Index = index, sc_Score = seat_score cr selectionSeed seat\<rparr> in
       if (case preferred of None \<Rightarrow> False | Some p \<Rightarrow> \<not> p seat)
       then Inr (primary, select_offer input limit candidate secondary)
       else Inr (select_offer input limit candidate primary, secondary))"

fun select_fill :: "nat \<Rightarrow> WorkSeatV1 list \<Rightarrow> WorkSeatV1 list \<Rightarrow> WorkSeatV1 list" where
  "select_fill limit result [] = result"
| "select_fill limit result (seat # seats) =
     (if length result = limit then result else select_fill limit (result @ [seat]) seats)"

text \<open>\<open>preferred\<close> is \<^const>\<open>None\<close> for a nil function. The limit is at most the number of seats, so it is an \<open>int\<close>.\<close>

definition deterministicallySelectWorkSeatsV1 ::
  "crypto \<Rightarrow> WorkSeatV1 list \<Rightarrow> hash \<Rightarrow> u64 \<Rightarrow> (WorkSeatV1 \<Rightarrow> bool) option \<Rightarrow> work_error + WorkSeatV1 list" where
  "deterministicallySelectWorkSeatsV1 cr input selectionSeed limit preferred =
     (if selectionSeed = 0 then Inl ErrInvalidWorkSelectionV1
      else if input = [] \<or> limit = 0 then Inr []
      else let limit = (if unat limit > length input then length input else unat limit) in
        case fold_res (select_step cr selectionSeed input limit preferred) (enumerate 0 input) ([], []) of
          Inl err \<Rightarrow> Inl err
        | Inr (primary, secondary) \<Rightarrow>
            let seats = map (\<lambda>s. input ! sc_Index s) \<circ> sort_key (scored_key input) in
            Inr (select_fill limit (seats primary) (seats secondary)))"

definition DeterministicallySelectWorkSeatsV1 ::
  "crypto \<Rightarrow> WorkSeatV1 list \<Rightarrow> hash \<Rightarrow> u64 \<Rightarrow> work_error + WorkSeatV1 list" where
  "DeterministicallySelectWorkSeatsV1 cr input selectionSeed limit =
     deterministicallySelectWorkSeatsV1 cr input selectionSeed limit None"

text \<open>The checks in the loop are those of \<^const>\<open>check_epoch_seats\<close>, in the same order.\<close>

definition DeterministicallyOrderWorkSeatsV1 :: "crypto \<Rightarrow> WorkSeatV1 list \<Rightarrow> hash \<Rightarrow> work_error + WorkSeatV1 list" where
  "DeterministicallyOrderWorkSeatsV1 cr input selectionSeed =
     (if selectionSeed = 0 then Inl ErrInvalidWorkSelectionV1
      else if input = [] then Inr []
      else case check_epoch_seats [] [] input of
        Some err \<Rightarrow> Inl err
      | None \<Rightarrow>
          let scored = map (\<lambda>(index, seat). \<lparr>sc_Index = index, sc_Score = seat_score cr selectionSeed seat\<rparr>) (enumerate 0 input)
          in Inr (map (\<lambda>s. input ! sc_Index s) (sort_key (scored_key input) scored)))"

section \<open>Roles\<close>

record WorkSelectionV1 =
  sl_Ordered :: "WorkSeatV1 list"
  sl_Producer :: "WorkSeatV1 option"
  sl_Fallbacks :: "WorkSeatV1 list"
  sl_Committee :: "WorkSeatV1 list"

definition buildWorkSelectionFromOrderedSeatsV1 :: "WorkSeatV1 list \<Rightarrow> u64 \<Rightarrow> u64 \<Rightarrow> WorkSelectionV1" where
  "buildWorkSelectionFromOrderedSeatsV1 ordered fallbackCount committeeSize =
     (if ordered = [] then \<lparr>sl_Ordered = [], sl_Producer = None, sl_Fallbacks = [], sl_Committee = []\<rparr>
      else let
        availableAfterProducer = length ordered - 1;
        fallbackEnd = (if unat fallbackCount < availableAfterProducer then 1 + unat fallbackCount else length ordered);
        fallbacks = (if fallbackEnd > 1 then take (fallbackEnd - 1) (drop 1 ordered) else []);
        committeeAvailable = length ordered - fallbackEnd;
        committeeTake = (if unat committeeSize > committeeAvailable then committeeAvailable else unat committeeSize);
        committeeEnd = fallbackEnd + committeeTake;
        committee = (if committeeEnd > fallbackEnd then take (committeeEnd - fallbackEnd) (drop fallbackEnd ordered) else [])
      in \<lparr>sl_Ordered = ordered, sl_Producer = Some (ordered ! 0), sl_Fallbacks = fallbacks, sl_Committee = committee\<rparr>)"

definition BuildWorkSelectionV1 ::
  "crypto \<Rightarrow> WorkSeatV1 list \<Rightarrow> hash \<Rightarrow> u64 \<Rightarrow> u64 \<Rightarrow> work_error + WorkSelectionV1" where
  "BuildWorkSelectionV1 cr seats selectionSeed fallbackCount committeeSize =
     (case DeterministicallyOrderWorkSeatsV1 cr seats selectionSeed of
        Inl err \<Rightarrow> Inl err
      | Inr ordered \<Rightarrow> Inr (buildWorkSelectionFromOrderedSeatsV1 ordered fallbackCount committeeSize))"

section \<open>The comparison is the order of the keys\<close>

lemma bytes_Compare_sign [simp]:
  "bytes_Compare a b < 0 \<longleftrightarrow> a < b" "0 < bytes_Compare a b \<longleftrightarrow> b < a" "bytes_Compare a b = 0 \<longleftrightarrow> a = b"
  by (auto simp: bytes_Compare_def)

lemma compareScored_key:
  "compareScoredWorkSeatsV1 a b input < 0 \<longleftrightarrow> scored_key input a < scored_key input b"
  "0 < compareScoredWorkSeatsV1 a b input \<longleftrightarrow> scored_key input b < scored_key input a"
  by (auto simp: compareScoredWorkSeatsV1_def Let_def scored_key_def seat_key_def less_prod_def)

interpretation seat_heap: priority "scored_Less input" "scored_key input" for input
  by unfold_locales (simp add: scored_Less_def compareScored_key)

text \<open>The rank of a seat, which is the key of its scored item.\<close>

definition seat_rank :: "crypto \<Rightarrow> hash \<Rightarrow> WorkSeatV1 \<Rightarrow> hash \<times> hash \<times> address" where
  "seat_rank cr selectionSeed seat = (seat_score cr selectionSeed seat, seat_key seat)"

definition rank_seat :: "hash \<times> hash \<times> address \<Rightarrow> WorkSeatV1" where
  "rank_seat = (\<lambda>(score, t, p). \<lparr>ws_TicketHash = t, ws_Participant = p\<rparr>)"

lemma rank_seat_rank [simp]: "rank_seat (seat_rank cr seed s) = s" "rank_seat (scored_key input i) = input ! sc_Index i"
  by (simp_all add: rank_seat_def seat_rank_def scored_key_def seat_key_def)

lemma seat_rank_inj: "inj (seat_rank cr seed)"
  by (rule inj_on_inverseI [of _ rank_seat]) simp

lemma sort_rank: "map rank_seat (sort (map (seat_rank cr seed) xs)) = sort_key (seat_rank cr seed) xs"
  using sort_key_map [of "\<lambda>x. x" "seat_rank cr seed" xs] by (simp add: comp_def)

lemma sort_scored: "map (\<lambda>s. input ! sc_Index s) (sort_key (scored_key input) items) = map rank_seat (sort (map (scored_key input) items))"
  using sort_key_map [of "\<lambda>x. x" "scored_key input" items] by (simp add: comp_def)

lemma scored_key_rank:
  "index < length input \<Longrightarrow> scored_key input \<lparr>sc_Index = index, sc_Score = seat_score cr seed (input ! index)\<rparr> = seat_rank cr seed (input ! index)"
  by (simp add: scored_key_def seat_rank_def)

section \<open>The full order\<close>

lemma Order_eq:
  "DeterministicallyOrderWorkSeatsV1 cr input seed = Inr ordered \<longleftrightarrow>
     seed \<noteq> 0 \<and> seats_ok input \<and> ordered = sort_key (seat_rank cr seed) input"
proof -
  let ?scored = "map (\<lambda>(index, seat). \<lparr>sc_Index = index, sc_Score = seat_score cr seed seat\<rparr>) (enumerate 0 input)"
  have "map (scored_key input) ?scored = map (seat_rank cr seed) input"
    by (rule nth_equalityI) (simp_all add: nth_enumerate_eq scored_key_rank)
  then have "map (\<lambda>s. input ! sc_Index s) (sort_key (scored_key input) ?scored) = sort_key (seat_rank cr seed) input"
    by (simp only: sort_scored sort_rank)
  moreover have "check_epoch_seats [] [] input = None \<longleftrightarrow> seats_ok input" by (simp add: check_epoch_seats_None)
  moreover have "seats_ok []" by (simp add: seats_ok_def)
  ultimately show ?thesis
    by (auto simp: DeterministicallyOrderWorkSeatsV1_def Let_def split: option.splits)
qed

section \<open>The bounded heaps\<close>

lemma offer_holds:
  assumes "seat_heap.holds input k keys target" and "0 < k"
  shows "seat_heap.holds input k (keys @ [scored_key input c]) (select_offer input k c target)"
proof (cases "length target < k")
  case True
  then show ?thesis using seat_heap.holds_Push [OF assms(1)] by (simp add: select_offer_def)
next
  case False
  then have "length target = k" using seat_heap.holds_length [OF assms(1)] by simp
  then show ?thesis
    using seat_heap.holds_offer [OF assms(1) _ assms(2)] False by (simp add: select_offer_def compareScored_key)
qed

definition is_preferred :: "(WorkSeatV1 \<Rightarrow> bool) option \<Rightarrow> WorkSeatV1 \<Rightarrow> bool" where
  "is_preferred preferred seat \<longleftrightarrow> (case preferred of None \<Rightarrow> True | Some p \<Rightarrow> p seat)"

lemma select_loop:
  assumes "0 < k" and "\<And>s. s \<in> set xs \<Longrightarrow> ws_TicketHash s \<noteq> 0 \<and> ws_Participant s \<noteq> 0"
    and "drop n input = xs"
    and "seat_heap.holds input k (map (seat_rank cr seed) A) p" and "seat_heap.holds input k (map (seat_rank cr seed) B) s"
  shows "\<exists>p' s'. fold_res (select_step cr seed input k q) (enumerate n xs) (p, s) = Inr (p', s')
    \<and> seat_heap.holds input k (map (seat_rank cr seed) (A @ filter (is_preferred q) xs)) p'
    \<and> seat_heap.holds input k (map (seat_rank cr seed) (B @ filter (\<lambda>x. \<not> is_preferred q x) xs)) s'"
  using assms(2-)
proof (induction xs arbitrary: n p s A B)
  case (Cons x xs)
  let ?c = "\<lparr>sc_Index = n, sc_Score = seat_score cr seed x\<rparr>"
  have n: "n < length input" "input ! n = x" "drop (Suc n) input = xs"
    using Cons.prems(2) by (metis drop_eq_Nil list.distinct(1) not_le, metis nth_via_drop, metis drop_Suc list.sel(3) tl_drop)
  have k: "scored_key input ?c = seat_rank cr seed x" using scored_key_rank [OF n(1), of cr seed] n(2) by simp
  have x: "ws_TicketHash x \<noteq> 0" "ws_Participant x \<noteq> 0" using Cons.prems(1) by simp_all
  show ?case
  proof (cases "is_preferred q x")
    case True
    have "seat_heap.holds input k (map (seat_rank cr seed) (A @ [x])) (select_offer input k ?c p)"
      using offer_holds [OF Cons.prems(3) assms(1), of ?c] k by simp
    from Cons.IH [OF Cons.prems(1) n(3) this Cons.prems(4)] show ?thesis
      using True x by (auto simp: select_step_def is_preferred_def split: option.splits)
  next
    case False
    have "seat_heap.holds input k (map (seat_rank cr seed) (B @ [x])) (select_offer input k ?c s)"
      using offer_holds [OF Cons.prems(4) assms(1), of ?c] k by simp
    from Cons.IH [OF Cons.prems(1) n(3) Cons.prems(3) this] show ?thesis
      using False x by (auto simp: select_step_def is_preferred_def split: option.splits)
  qed
qed simp

lemma holds_seats:
  assumes "seat_heap.holds input k (map (seat_rank cr seed) xs) items"
  shows "map (\<lambda>s. input ! sc_Index s) (sort_key (scored_key input) items) = take k (sort_key (seat_rank cr seed) xs)"
proof -
  have "mset (map (scored_key input) items) = mset (take k (sort (map (seat_rank cr seed) xs)))"
    using assms by (simp add: seat_heap.holds_def)
  then have "sort (map (scored_key input) items) = take k (sort (map (seat_rank cr seed) xs))"
    by (intro properties_for_sort) (simp_all add: sorted_wrt_take)
  then show ?thesis by (simp add: sort_scored sort_rank flip: take_map)
qed

lemma select_fill_eq: "length r \<le> k \<Longrightarrow> select_fill k r ss = r @ take (k - length r) ss"
proof (induction k r ss rule: select_fill.induct)
  case (2 k r s ss)
  have "k - length r = Suc (k - Suc (length r))" if "length r \<noteq> k" using 2(2) that by linarith
  with 2 show ?case by auto
qed simp

text \<open>What a selection returns: the first seats of the preferred ones in the full order, then of the others.\<close>

lemma Select_eq:
  assumes "seed \<noteq> 0" and "\<And>s. s \<in> set input \<Longrightarrow> ws_TicketHash s \<noteq> 0 \<and> ws_Participant s \<noteq> 0"
  shows "deterministicallySelectWorkSeatsV1 cr input seed limit q =
    Inr (take (unat limit) (sort_key (seat_rank cr seed) (filter (is_preferred q) input)
      @ sort_key (seat_rank cr seed) (filter (\<lambda>x. \<not> is_preferred q x) input)))"
proof (cases "input = [] \<or> limit = 0")
  case False
  let ?k = "if unat limit > length input then length input else unat limit"
  let ?A = "sort_key (seat_rank cr seed) (filter (is_preferred q) input)"
    and ?B = "sort_key (seat_rank cr seed) (filter (\<lambda>x. \<not> is_preferred q x) input)"
  have k: "0 < ?k" using False by (simp add: unat_gt_0)
  have e: "seat_heap.holds input ?k (map (seat_rank cr seed) []) []"
    by (simp add: seat_heap.holds_def seat_heap.ordered_but_def)
  obtain p s where r: "fold_res (select_step cr seed input ?k q) (enumerate 0 input) ([], []) = Inr (p, s)"
    and h: "seat_heap.holds input ?k (map (seat_rank cr seed) (filter (is_preferred q) input)) p"
      "seat_heap.holds input ?k (map (seat_rank cr seed) (filter (\<lambda>x. \<not> is_preferred q x) input)) s"
    using select_loop [where xs = input and q = q, OF k assms(2) drop_0 e e] by auto
  have "select_fill ?k (take ?k ?A) (take ?k ?B) = take ?k (?A @ ?B)"
    by (subst select_fill_eq) (auto simp: min_def)
  also have "\<dots> = take (unat limit) (?A @ ?B)"
    using sum_length_filter_compl [of "is_preferred q" input] by auto
  finally show ?thesis
    using assms(1) False r holds_seats [OF h(1)] holds_seats [OF h(2)]
    by (simp add: deterministicallySelectWorkSeatsV1_def Let_def del: if_split)
qed (use assms(1) in \<open>auto simp: deterministicallySelectWorkSeatsV1_def\<close>)

section \<open>Properties\<close>

text \<open>Claim C9: the heap selection of work seats is the prefix of the full order. On a proper seat set with one seat per ticket and
  per participant, the full order exists for every seed but the zero one, lists the same seats, and does not depend on the order of
  the input. Selecting with a limit returns exactly its first seats, and with a preference the first seats of the preferred ones
  in that order followed by the others. With the zero seed both are refused.\<close>

theorem heap_selection_is_prefix:
  assumes "seats_ok input"
  shows "((\<exists>ordered. DeterministicallyOrderWorkSeatsV1 cr input seed = Inr ordered) \<longleftrightarrow> seed \<noteq> 0)
    \<and> (DeterministicallyOrderWorkSeatsV1 cr input seed = Inr ordered \<longrightarrow>
      mset ordered = mset input
      \<and> DeterministicallySelectWorkSeatsV1 cr input seed limit = Inr (take (unat limit) ordered)
      \<and> deterministicallySelectWorkSeatsV1 cr input seed limit (Some p) =
          Inr (take (unat limit) (filter p ordered @ filter (\<lambda>s. \<not> p s) ordered))
      \<and> (mset input' = mset input \<longrightarrow> DeterministicallyOrderWorkSeatsV1 cr input' seed = Inr ordered))
    \<and> DeterministicallySelectWorkSeatsV1 cr input 0 limit = Inl ErrInvalidWorkSelectionV1"
  (is "?a \<and> (?o \<longrightarrow> ?b) \<and> ?c")
proof (intro conjI impI)
  show ?a using assms by (simp add: Order_eq)
  show ?c by (simp add: DeterministicallySelectWorkSeatsV1_def deterministicallySelectWorkSeatsV1_def)
next
  assume ?o
  then have o: "seed \<noteq> 0" "ordered = sort_key (seat_rank cr seed) input" by (simp_all add: Order_eq)
  have z: "\<And>s. s \<in> set input \<Longrightarrow> ws_TicketHash s \<noteq> 0 \<and> ws_Participant s \<noteq> 0" using assms by (simp add: seats_ok_def)
  have q: "is_preferred None = (\<lambda>_. True)" "is_preferred (Some p) = p" by (auto simp: is_preferred_def)
  note e = Select_eq [OF o(1) z, where limit = limit and cr = cr]
  show "mset ordered = mset input" by (simp add: o(2))
  show "DeterministicallySelectWorkSeatsV1 cr input seed limit = Inr (take (unat limit) ordered)"
    by (simp add: DeterministicallySelectWorkSeatsV1_def e q o(2))
  show "deterministicallySelectWorkSeatsV1 cr input seed limit (Some p) =
      Inr (take (unat limit) (filter p ordered @ filter (\<lambda>s. \<not> p s) ordered))"
    by (simp add: e q o(2) filter_sort)
  show "DeterministicallyOrderWorkSeatsV1 cr input' seed = Inr ordered" if m: "mset input' = mset input"
  proof -
    have "sort_key (seat_rank cr seed) input' = ordered"
      unfolding o(2) by (rule sort_key_perm_cong [OF inj_on_subset [OF seat_rank_inj subset_UNIV] m])
    then show ?thesis using seats_ok_perm [OF m] assms o(1) by (simp add: Order_eq)
  qed
qed

theorem heap_selection_is_prefix_witness:
  "\<exists>ordered. DeterministicallyOrderWorkSeatsV1 sample_crypto [sample_seat 3, sample_seat 2] 1 = Inr ordered
    \<and> DeterministicallySelectWorkSeatsV1 sample_crypto [sample_seat 3, sample_seat 2] 1 1 = Inr (take 1 ordered)"
proof -
  have s: "seats_ok [sample_seat 3, sample_seat 2]" by (simp add: seats_ok_def sample_seat_def)
  note h = heap_selection_is_prefix [OF s, of sample_crypto 1 _ 1 "\<lambda>_. True" "[]"]
  have "(1 :: hash) \<noteq> 0" by simp
  then obtain ordered where o: "DeterministicallyOrderWorkSeatsV1 sample_crypto [sample_seat 3, sample_seat 2] 1 = Inr ordered"
    using h [THEN conjunct1] by blast
  then have "DeterministicallySelectWorkSeatsV1 sample_crypto [sample_seat 3, sample_seat 2] 1 1 = Inr (take (unat (1 :: u64)) ordered)"
    using h [THEN conjunct2, THEN conjunct1] by blast
  with o show ?thesis by simp
qed

text \<open>The roles of a selection are consecutive parts of the full order: the first seat produces, the fallbacks follow it, then the committee, and
  each group is cut only by its size and by the seats that are left.\<close>

lemma work_selection_roles:
  assumes "ordered \<noteq> []"
  shows "buildWorkSelectionFromOrderedSeatsV1 ordered f c =
    \<lparr>sl_Ordered = ordered, sl_Producer = Some (hd ordered), sl_Fallbacks = take (unat f) (tl ordered),
      sl_Committee = take (unat c) (drop (unat f) (tl ordered))\<rparr>"
proof (cases ordered)
  case (Cons x xs)
  show ?thesis
    by (cases "unat f < length xs"; cases "unat c > length xs - unat f")
      (simp_all add: buildWorkSelectionFromOrderedSeatsV1_def Let_def Cons)
qed (use assms in simp)

lemma work_selection_distinct:
  assumes "BuildWorkSelectionV1 cr seats seed f c = Inr sel"
  shows "distinct (map ws_Participant ((case sl_Producer sel of None \<Rightarrow> [] | Some p \<Rightarrow> [p]) @ sl_Fallbacks sel @ sl_Committee sel))"
proof -
  obtain ordered where o: "DeterministicallyOrderWorkSeatsV1 cr seats seed = Inr ordered"
    and sel: "sel = buildWorkSelectionFromOrderedSeatsV1 ordered f c"
    using assms by (auto simp: BuildWorkSelectionV1_def split: sum.splits)
  have d: "distinct (map ws_Participant ordered)"
    using o by (auto simp: Order_eq seats_ok_def distinct_sort_key_map)
  show ?thesis
  proof (cases ordered)
    case (Cons x xs)
    have "take (unat f) xs @ take (unat c) (drop (unat f) xs) = take (unat f + unat c) xs" by (simp add: take_add)
    then have "map ws_Participant (x # take (unat f) xs @ take (unat c) (drop (unat f) xs)) =
        take (Suc (unat f + unat c)) (map ws_Participant ordered)" by (simp add: Cons take_map)
    then have "distinct (map ws_Participant (x # take (unat f) xs @ take (unat c) (drop (unat f) xs)))"
      using distinct_take [OF d] by simp
    then show ?thesis using Cons work_selection_roles [of ordered f c] by (simp add: sel)
  qed (simp add: sel buildWorkSelectionFromOrderedSeatsV1_def)
qed

end
