(* ===== verification/Work_Snapshot.thy ===== *)
theory Work_Snapshot
  imports Work_Protocol
begin

text \<open>
  The work state of a block (\<open>consensus/lqc/work_protocol_v1_snapshot.go\<close>): the seats admitted in the open commit epoch, the persistent
  seats of the last closed epoch, the state root over both, and the step from a block to its child. A nil pointer is
  \<^const>\<open>None\<close>; \<open>clone\<close> is the identity on values.
\<close>

section \<open>The snapshot and its root\<close>

record WorkChainSnapshotV1 =
  cs_Number :: u64
  cs_Hash :: hash
  cs_EpochLength :: u64
  cs_StateRoot :: hash
  cs_CommitEpoch :: u64
  cs_CommitAnchor :: hash
  cs_CommitDifficulty :: "int option"
  cs_CommitSeats :: "WorkSeatV1 list"
  cs_SelectionEpoch :: u64
  cs_SelectionAnchor :: hash
  cs_SelectionDifficulty :: "int option"
  cs_SelectionRoot :: hash
  cs_SelectionSeats :: "WorkSeatV1 list"

definition workChainStateRootDomainV1 :: bytes where
  "workChainStateRootDomainV1 = ascii ''RABBIT-LQC-WORK-CHAIN-STATE-V1''"

definition workChainStateRootPayloadV1 :: "int option \<Rightarrow> WorkChainSnapshotV1 \<Rightarrow> rlp_val" where
  "workChainStateRootPayloadV1 chainID s = VStruct [VBytes workChainStateRootDomainV1,
     VUint (ucast RandomXWorkProtocolVersion), big_val chainID, VUint (cs_Number s), VUint (cs_EpochLength s),
     VUint (cs_CommitEpoch s), VArray (hash_bytes (cs_CommitAnchor s)), big_val (cs_CommitDifficulty s),
     VSlice (map seat_val (cs_CommitSeats s)),
     VUint (cs_SelectionEpoch s), VArray (hash_bytes (cs_SelectionAnchor s)), big_val (cs_SelectionDifficulty s),
     VArray (hash_bytes (cs_SelectionRoot s)), VSlice (map seat_val (cs_SelectionSeats s))]"

definition validateOptionalWorkEpochStateV1 ::
  "u64 \<Rightarrow> hash \<Rightarrow> int option \<Rightarrow> WorkSeatV1 list \<Rightarrow> work_error option" where
  "validateOptionalWorkEpochStateV1 epoch anchor difficulty seats =
     (if epoch = 0 then
        (if anchor \<noteq> 0 \<or> difficulty \<noteq> None \<or> length seats \<noteq> 0 then Some ErrInvalidWorkChainSnapshotV1 else None)
      else if anchor = 0 \<or> not_positive difficulty then Some ErrInvalidWorkChainSnapshotV1
      else case canonicalWorkEpochSeatsV1 seats of
        Inl err \<Rightarrow> Some err
      | Inr canonical \<Rightarrow>
          if length canonical \<noteq> length seats then Some ErrInvalidWorkChainSnapshotV1
          else if \<not> list_all2 (\<lambda>a b. a = b) canonical seats then Some ErrInvalidWorkChainSnapshotV1
          else None)"

definition check_selection_root :: "crypto \<Rightarrow> int option \<Rightarrow> WorkChainSnapshotV1 \<Rightarrow> work_error option" where
  "check_selection_root cr chainID s =
     (if cs_SelectionEpoch s = 0 then
        (if cs_SelectionRoot s \<noteq> 0 then Some ErrInvalidWorkChainSnapshotV1 else None)
      else case WorkEpochRootV1 cr chainID (cs_SelectionEpoch s) (cs_SelectionAnchor s) (cs_SelectionDifficulty s)
          (cs_SelectionSeats s) of
        Inl err \<Rightarrow> Some err
      | Inr (rt, canonical) \<Rightarrow>
          if rt \<noteq> cs_SelectionRoot s \<or> length canonical \<noteq> length (cs_SelectionSeats s)
          then Some ErrInvalidWorkChainSnapshotV1 else None)"

definition WorkChainStateRootV1 :: "crypto \<Rightarrow> int option \<Rightarrow> WorkChainSnapshotV1 option \<Rightarrow> work_error + hash" where
  "WorkChainStateRootV1 cr chainID snapshot = (case snapshot of
      None \<Rightarrow> Inl ErrInvalidWorkChainSnapshotV1
    | Some s \<Rightarrow>
        if not_positive chainID \<or> cs_Hash s = 0 \<or> cs_EpochLength s = 0 then Inl ErrInvalidWorkChainSnapshotV1
        else case validateOptionalWorkEpochStateV1 (cs_CommitEpoch s) (cs_CommitAnchor s) (cs_CommitDifficulty s)
            (cs_CommitSeats s) of
          Some err \<Rightarrow> Inl err
        | None \<Rightarrow>
            (case validateOptionalWorkEpochStateV1 (cs_SelectionEpoch s) (cs_SelectionAnchor s) (cs_SelectionDifficulty s)
                (cs_SelectionSeats s) of
               Some err \<Rightarrow> Inl err
             | None \<Rightarrow>
                 (case check_selection_root cr chainID s of
                    Some err \<Rightarrow> Inl err
                  | None \<Rightarrow> Inr (Keccak256Hash cr [EncodeToBytes (workChainStateRootPayloadV1 chainID s)]))))"

definition empty_snapshot :: "u64 \<Rightarrow> hash \<Rightarrow> u64 \<Rightarrow> WorkChainSnapshotV1" where
  "empty_snapshot number h epochLength = \<lparr>cs_Number = number, cs_Hash = h, cs_EpochLength = epochLength, cs_StateRoot = 0,
     cs_CommitEpoch = 0, cs_CommitAnchor = 0, cs_CommitDifficulty = None, cs_CommitSeats = [],
     cs_SelectionEpoch = 0, cs_SelectionAnchor = 0, cs_SelectionDifficulty = None, cs_SelectionRoot = 0, cs_SelectionSeats = []\<rparr>"

definition NewWorkChainSnapshotV1 ::
  "crypto \<Rightarrow> int option \<Rightarrow> u64 \<Rightarrow> hash \<Rightarrow> u64 \<Rightarrow> work_error + WorkChainSnapshotV1" where
  "NewWorkChainSnapshotV1 cr chainID number h epochLength =
     (if not_positive chainID \<or> h = 0 \<or> epochLength = 0 then Inl ErrInvalidWorkChainSnapshotV1
      else let snapshot = empty_snapshot number h epochLength in
        case WorkChainStateRootV1 cr chainID (Some snapshot) of
          Inl err \<Rightarrow> Inl err
        | Inr rt \<Rightarrow> Inr (snapshot\<lparr>cs_StateRoot := rt\<rparr>))"

definition WorkChainSnapshot_Validate :: "crypto \<Rightarrow> int option \<Rightarrow> WorkChainSnapshotV1 option \<Rightarrow> work_error option" where
  "WorkChainSnapshot_Validate cr chainID sp = (case sp of
      None \<Rightarrow> Some ErrInvalidWorkChainSnapshotV1
    | Some s \<Rightarrow>
        if cs_StateRoot s = 0 then Some ErrInvalidWorkChainSnapshotV1
        else case WorkChainStateRootV1 cr chainID sp of
          Inl err \<Rightarrow> Some err
        | Inr rt \<Rightarrow> if rt \<noteq> cs_StateRoot s then Some ErrInvalidWorkChainSnapshotV1 else None)"

text \<open>\<open>Inr None\<close> is the result \<open>nil, false, nil\<close>. The last line of the code returns the snapshot together with the error
  of its validation.\<close>

definition SelectionSnapshotV1 ::
  "crypto \<Rightarrow> WorkChainSnapshotV1 option \<Rightarrow> int option \<Rightarrow> u64 \<Rightarrow> work_error + WorkEpochSnapshotV1 option" where
  "SelectionSnapshotV1 cr sp chainID blockNumber = (case sp of
      None \<Rightarrow> Inl ErrInvalidWorkChainSnapshotV1
    | Some s \<Rightarrow>
        if cs_EpochLength s = 0 then Inl ErrInvalidWorkChainSnapshotV1
        else case WorkSelectionSourceEpochV1 blockNumber (cs_EpochLength s) of
          Inl err \<Rightarrow> Inl err
        | Inr None \<Rightarrow> Inr None
        | Inr (Some want) \<Rightarrow>
            if cs_SelectionEpoch s \<noteq> want \<or> cs_SelectionAnchor s = 0 \<or> cs_SelectionDifficulty s = None \<or> cs_SelectionRoot s = 0
            then Inl ErrWorkSelectionSnapshotMissingV1
            else let out = \<lparr>we_Epoch = cs_SelectionEpoch s, we_Anchor = cs_SelectionAnchor s,
                we_Difficulty = cs_SelectionDifficulty s, we_Root = cs_SelectionRoot s, we_Seats = cs_SelectionSeats s\<rparr> in
              (case WorkEpochSnapshot_Validate cr chainID out of
                 Some err \<Rightarrow> Inl err
               | None \<Rightarrow> Inr (Some out)))"

section \<open>The step to a child block\<close>

text \<open>The commit context of the child: the one that is open, or a new one.\<close>

definition open_commit ::
  "u64 \<Rightarrow> hash \<Rightarrow> int option \<Rightarrow> WorkChainSnapshotV1 \<Rightarrow> work_error + WorkChainSnapshotV1" where
  "open_commit commitEpoch commitAnchor commitDifficulty s =
     (if commitAnchor = 0 \<or> not_positive commitDifficulty then Inl ErrWorkCommitContextMismatchV1
      else let
        fresh = s\<lparr>cs_CommitEpoch := commitEpoch, cs_CommitAnchor := commitAnchor, cs_CommitDifficulty := commitDifficulty,
          cs_CommitSeats := []\<rparr>
      in if cs_CommitEpoch s \<noteq> 0 \<and> cs_CommitEpoch s \<noteq> commitEpoch then Inl ErrWorkCommitEpochMismatchV1
      else let s' = (if cs_CommitEpoch s = 0 then fresh else s) in
        if cs_CommitAnchor s' \<noteq> commitAnchor \<or> cs_CommitDifficulty s' \<noteq> commitDifficulty then Inl ErrWorkCommitContextMismatchV1
        else Inr s')"

definition admit_seats ::
  "u64 \<Rightarrow> VerifiedRandomXWorkTicketV1 list \<Rightarrow> WorkChainSnapshotV1 \<Rightarrow> work_error + WorkChainSnapshotV1" where
  "admit_seats commitEpoch verified s =
     (if \<exists>item \<in> set verified. tk_Epoch (vt_Ticket item) \<noteq> commitEpoch then Inl ErrWorkCommitEpochMismatchV1
      else case CanonicalWorkSeatsV1 verified of
        Inl err \<Rightarrow> Inl err
      | Inr newSeats \<Rightarrow>
          if \<exists>seat \<in> set newSeats. ws_Participant seat \<in> ws_Participant ` set (cs_SelectionSeats s)
          then Inl ErrWorkParticipantAlreadySeatedV1
          else case canonicalWorkEpochSeatsV1 (cs_CommitSeats s @ newSeats) of
            Inl err \<Rightarrow> Inl err
          | Inr seats \<Rightarrow> Inr (s\<lparr>cs_CommitSeats := seats\<rparr>))"

definition close_epoch :: "crypto \<Rightarrow> int option \<Rightarrow> WorkChainSnapshotV1 \<Rightarrow> work_error + WorkChainSnapshotV1" where
  "close_epoch cr chainID s =
     (case NewWorkEpochSnapshotV1 cr chainID (cs_CommitEpoch s) (cs_CommitAnchor s) (cs_CommitDifficulty s) (cs_CommitSeats s) of
        Inl err \<Rightarrow> Inl err
      | Inr closedEpoch \<Rightarrow>
          (case canonicalWorkEpochSeatsV1 (cs_SelectionSeats s @ we_Seats closedEpoch) of
             Inl err \<Rightarrow> Inl err
           | Inr persistentSeats \<Rightarrow>
               (case NewWorkEpochSnapshotV1 cr chainID (we_Epoch closedEpoch) (we_Anchor closedEpoch) (we_Difficulty closedEpoch) persistentSeats of
                  Inl err \<Rightarrow> Inl err
                | Inr selection \<Rightarrow> Inr (s\<lparr>
                    cs_SelectionEpoch := we_Epoch selection, cs_SelectionAnchor := we_Anchor selection,
                    cs_SelectionDifficulty := we_Difficulty selection, cs_SelectionRoot := we_Root selection,
                    cs_SelectionSeats := we_Seats selection,
                    cs_CommitEpoch := 0, cs_CommitAnchor := 0, cs_CommitDifficulty := None, cs_CommitSeats := []\<rparr>))))"

definition commit_block ::
  "crypto \<Rightarrow> int option \<Rightarrow> u64 \<Rightarrow> hash \<Rightarrow> int option \<Rightarrow> VerifiedRandomXWorkTicketV1 list \<Rightarrow> WorkChainSnapshotV1
    \<Rightarrow> work_error + WorkChainSnapshotV1" where
  "commit_block cr chainID commitEpoch commitAnchor commitDifficulty verified s =
     (case open_commit commitEpoch commitAnchor commitDifficulty s of
        Inl err \<Rightarrow> Inl err
      | Inr opened \<Rightarrow>
          (case admit_seats commitEpoch verified opened of
             Inl err \<Rightarrow> Inl err
           | Inr s' \<Rightarrow> if cs_Number s mod cs_EpochLength s = 0 then close_epoch cr chainID s' else Inr s'))"

definition ApplyVerifiedBlockV1 ::
  "crypto \<Rightarrow> WorkChainSnapshotV1 option \<Rightarrow> int option \<Rightarrow> u64 \<Rightarrow> hash \<Rightarrow> hash \<Rightarrow> hash \<Rightarrow> int option
    \<Rightarrow> VerifiedRandomXWorkTicketV1 list \<Rightarrow> work_error + WorkChainSnapshotV1" where
  "ApplyVerifiedBlockV1 cr sp chainID blockNumber blockHash parentHash commitAnchor commitDifficulty verified =
     (case WorkChainSnapshot_Validate cr chainID sp of
        Some err \<Rightarrow> Inl err
      | None \<Rightarrow> let s = the sp in
          if cs_Number s = maxU64 \<or> blockNumber \<noteq> cs_Number s + 1 \<or> parentHash \<noteq> cs_Hash s \<or> blockHash = 0
          then Inl ErrWorkChainSnapshotMismatchV1
          else let child = s\<lparr>cs_Number := blockNumber, cs_Hash := blockHash\<rparr> in
            case WorkCommitTargetEpochV1 blockNumber (cs_EpochLength s) of
              Inl err \<Rightarrow> Inl err
            | Inr target \<Rightarrow>
                (case (case target of
                    None \<Rightarrow>
                      if length verified \<noteq> 0 then Inl ErrUnexpectedWorkCommitV1
                      else if commitAnchor \<noteq> 0 \<or> commitDifficulty \<noteq> None then Inl ErrUnexpectedWorkCommitV1
                      else Inr child
                  | Some commitEpoch \<Rightarrow> commit_block cr chainID commitEpoch commitAnchor commitDifficulty verified child) of
                   Inl err \<Rightarrow> Inl err
                 | Inr nxt \<Rightarrow>
                     (case WorkChainStateRootV1 cr chainID (Some nxt) of
                        Inl err \<Rightarrow> Inl err
                      | Inr rt \<Rightarrow> Inr (nxt\<lparr>cs_StateRoot := rt\<rparr>))))"

definition workSeatBytesV1 :: "WorkSeatV1 list \<Rightarrow> bytes" where
  "workSeatBytesV1 seats = EncodeToBytes (VSlice (map seat_val seats))"

definition EqualConsensusStateV1 :: "WorkChainSnapshotV1 option \<Rightarrow> WorkChainSnapshotV1 option \<Rightarrow> bool" where
  "EqualConsensusStateV1 sp op = (case (sp, op) of
      (Some s, Some other) \<Rightarrow>
        \<not> (cs_Number s \<noteq> cs_Number other \<or> cs_Hash s \<noteq> cs_Hash other \<or> cs_EpochLength s \<noteq> cs_EpochLength other
          \<or> cs_StateRoot s \<noteq> cs_StateRoot other \<or> cs_CommitEpoch s \<noteq> cs_CommitEpoch other
          \<or> cs_CommitAnchor s \<noteq> cs_CommitAnchor other \<or> cs_SelectionEpoch s \<noteq> cs_SelectionEpoch other
          \<or> cs_SelectionAnchor s \<noteq> cs_SelectionAnchor other \<or> cs_SelectionRoot s \<noteq> cs_SelectionRoot other)
        \<and> cs_CommitDifficulty s = cs_CommitDifficulty other \<and> cs_SelectionDifficulty s = cs_SelectionDifficulty other
        \<and> workSeatBytesV1 (cs_CommitSeats s) = workSeatBytesV1 (cs_CommitSeats other)
        \<and> workSeatBytesV1 (cs_SelectionSeats s) = workSeatBytesV1 (cs_SelectionSeats other)
    | _ \<Rightarrow> sp = None \<and> op = None)"

section \<open>What a valid snapshot is\<close>

lemma not_positive_iff [simp]: "not_positive None" "not_positive (Some k) \<longleftrightarrow> k \<le> 0"
  by (simp_all add: not_positive_def)

definition epoch_state_ok :: "u64 \<Rightarrow> hash \<Rightarrow> int option \<Rightarrow> WorkSeatV1 list \<Rightarrow> bool" where
  "epoch_state_ok epoch anchor difficulty seats \<longleftrightarrow>
     (if epoch = 0 then anchor = 0 \<and> difficulty = None \<and> seats = []
      else anchor \<noteq> 0 \<and> \<not> not_positive difficulty \<and> seats_ok seats \<and> sorted (map seat_key seats))"

lemma sort_seats_id: "sort_key seat_key seats = seats \<longleftrightarrow> sorted (map seat_key seats)"
  using sort_key_sorted [of seat_key seats] sorted_sort_key [of seat_key seats] by metis

lemma canonicalSeats_cases:
  obtains "seats_ok seats" and "canonicalWorkEpochSeatsV1 seats = Inr (sort_key seat_key seats)"
    | err where "\<not> seats_ok seats" and "canonicalWorkEpochSeatsV1 seats = Inl err"
  using canonicalWorkEpochSeats_iff [of seats] by (cases "canonicalWorkEpochSeatsV1 seats") auto

lemma validateOptional_None:
  "validateOptionalWorkEpochStateV1 epoch anchor difficulty seats = None \<longleftrightarrow> epoch_state_ok epoch anchor difficulty seats"
  by (rule canonicalSeats_cases [of seats])
    (auto simp: validateOptionalWorkEpochStateV1_def epoch_state_ok_def list.rel_eq sort_seats_id)

text \<open>The root of a seat set, and the root of a state.\<close>

definition seats_root :: "crypto \<Rightarrow> int \<Rightarrow> u64 \<Rightarrow> hash \<Rightarrow> int option \<Rightarrow> WorkSeatV1 list \<Rightarrow> hash" where
  "seats_root cr c epoch anchor difficulty seats =
     Keccak256Hash cr [EncodeToBytes (workEpochRootPayloadV1 (Some c, epoch, anchor, difficulty, seats))]"

definition state_root :: "crypto \<Rightarrow> int \<Rightarrow> WorkChainSnapshotV1 \<Rightarrow> hash" where
  "state_root cr c s = Keccak256Hash cr [EncodeToBytes (workChainStateRootPayloadV1 (Some c) s)]"

definition snapshot_ok :: "crypto \<Rightarrow> int \<Rightarrow> WorkChainSnapshotV1 \<Rightarrow> bool" where
  "snapshot_ok cr c s \<longleftrightarrow> 0 < c \<and> cs_Hash s \<noteq> 0 \<and> cs_EpochLength s \<noteq> 0
     \<and> epoch_state_ok (cs_CommitEpoch s) (cs_CommitAnchor s) (cs_CommitDifficulty s) (cs_CommitSeats s)
     \<and> epoch_state_ok (cs_SelectionEpoch s) (cs_SelectionAnchor s) (cs_SelectionDifficulty s) (cs_SelectionSeats s)
     \<and> cs_SelectionRoot s = (if cs_SelectionEpoch s = 0 then 0
         else seats_root cr c (cs_SelectionEpoch s) (cs_SelectionAnchor s) (cs_SelectionDifficulty s) (cs_SelectionSeats s))"

lemma EpochRoot_iff:
  "WorkEpochRootV1 cr (Some c) epoch anchor difficulty seats = Inr (rt, canonical) \<longleftrightarrow>
     0 < c \<and> epoch \<noteq> 0 \<and> anchor \<noteq> 0 \<and> \<not> not_positive difficulty \<and> seats_ok seats \<and> canonical = sort_key seat_key seats
     \<and> rt = seats_root cr c epoch anchor difficulty canonical"
  by (rule canonicalSeats_cases [of seats]) (auto simp: WorkEpochRootV1_def seats_root_def)

lemma check_selection_root_None:
  assumes "0 < c" and "epoch_state_ok (cs_SelectionEpoch s) (cs_SelectionAnchor s) (cs_SelectionDifficulty s) (cs_SelectionSeats s)"
  shows "check_selection_root cr (Some c) s = None \<longleftrightarrow> cs_SelectionRoot s = (if cs_SelectionEpoch s = 0 then 0
    else seats_root cr c (cs_SelectionEpoch s) (cs_SelectionAnchor s) (cs_SelectionDifficulty s) (cs_SelectionSeats s))"
proof (cases "cs_SelectionEpoch s = 0")
  case False
  then have o: "cs_SelectionAnchor s \<noteq> 0" "\<not> not_positive (cs_SelectionDifficulty s)" "seats_ok (cs_SelectionSeats s)"
    "sort_key seat_key (cs_SelectionSeats s) = cs_SelectionSeats s"
    using assms(2) by (auto simp: epoch_state_ok_def sort_seats_id)
  have "WorkEpochRootV1 cr (Some c) (cs_SelectionEpoch s) (cs_SelectionAnchor s) (cs_SelectionDifficulty s) (cs_SelectionSeats s) =
      Inr (seats_root cr c (cs_SelectionEpoch s) (cs_SelectionAnchor s) (cs_SelectionDifficulty s) (cs_SelectionSeats s), cs_SelectionSeats s)"
    unfolding EpochRoot_iff using assms(1) False o by simp
  then show ?thesis using False by (auto simp: check_selection_root_def)
qed (simp add: check_selection_root_def)

lemma StateRoot_iff:
  "WorkChainStateRootV1 cr (Some c) (Some s) = Inr rt \<longleftrightarrow> snapshot_ok cr c s \<and> rt = state_root cr c s"
  unfolding WorkChainStateRootV1_def option.case result_iffs validateOptional_None
  using check_selection_root_None [of c s cr] by (auto simp: snapshot_ok_def state_root_def)

lemma Snapshot_Validate_iff:
  "WorkChainSnapshot_Validate cr (Some c) (Some s) = None \<longleftrightarrow>
     snapshot_ok cr c s \<and> cs_StateRoot s = state_root cr c s \<and> cs_StateRoot s \<noteq> 0"
proof (cases "WorkChainStateRootV1 cr (Some c) (Some s)")
  case (Inl err)
  then have "\<not> snapshot_ok cr c s" using StateRoot_iff [of cr c s] by auto
  with Inl show ?thesis by (simp add: WorkChainSnapshot_Validate_def)
next
  case (Inr rt)
  moreover from this have "snapshot_ok cr c s" "rt = state_root cr c s" by (simp_all add: StateRoot_iff)
  ultimately show ?thesis by (auto simp: WorkChainSnapshot_Validate_def)
qed

section \<open>What a block changes\<close>

text \<open>Keccak-256 of a preimage is never the zero hash: the code takes a zero root for a missing one.\<close>

definition nonzero_hash :: "crypto \<Rightarrow> bool" where
  "nonzero_hash cr \<longleftrightarrow> (\<forall>b. keccak256 cr b \<noteq> 0)"

lemma nonzero_roots:
  assumes "nonzero_hash cr"
  shows "seats_root cr c e a d seats \<noteq> 0" and "state_root cr c s \<noteq> 0"
  using assms by (simp_all add: nonzero_hash_def seats_root_def state_root_def Keccak256Hash_def)

text \<open>The tickets a block may commit: well formed, of the commit epoch, with new hashes, by participants that neither
  hold a seat nor have committed in this epoch.\<close>

definition admissible :: "u64 \<Rightarrow> VerifiedRandomXWorkTicketV1 list \<Rightarrow> WorkChainSnapshotV1 \<Rightarrow> bool" where
  "admissible e verified s \<longleftrightarrow>
     (\<forall>item \<in> set verified. validateRandomXWorkTicketV1 (vt_Ticket item) = None \<and> tk_Epoch (vt_Ticket item) = e)
     \<and> seats_ok (cs_CommitSeats s @ map seat_of verified)
     \<and> ws_Participant ` set (map seat_of verified) \<inter> ws_Participant ` set (cs_SelectionSeats s) = {}"

abbreviation sort_seats :: "WorkSeatV1 list \<Rightarrow> WorkSeatV1 list" where
  "sort_seats \<equiv> sort_key seat_key"

lemma seats_ok_append:
  "seats_ok (xs @ ys) \<longleftrightarrow> seats_ok xs \<and> seats_ok ys \<and> ws_TicketHash ` set xs \<inter> ws_TicketHash ` set ys = {}
     \<and> ws_Participant ` set xs \<inter> ws_Participant ` set ys = {}"
  by (auto simp: seats_ok_def)

lemma CanonicalWorkSeats_iff:
  "CanonicalWorkSeatsV1 verified = Inr seats \<longleftrightarrow> (\<forall>item \<in> set verified. validateRandomXWorkTicketV1 (vt_Ticket item) = None)
     \<and> seats_ok (map seat_of verified) \<and> seats = sort_seats (map seat_of verified)"
  using check_verified_None [of "[]" "[]" verified] check_epoch_seats_None [of "[]" "[]" "map seat_of verified"]
  by (auto simp: CanonicalWorkSeatsV1_def split: option.splits)

lemma admit_seats_iff:
  "admit_seats e verified s = Inr s' \<longleftrightarrow>
     admissible e verified s \<and> s' = s\<lparr>cs_CommitSeats := sort_seats (cs_CommitSeats s @ map seat_of verified)\<rparr>"
proof -
  let ?new = "map seat_of verified"
  have p: "mset (cs_CommitSeats s @ sort_seats ?new) = mset (cs_CommitSeats s @ ?new)" by simp
  note c = seats_ok_perm [OF p] sort_seats_perm [OF p]
  have "admit_seats e verified s = Inr s' \<longleftrightarrow> (\<forall>item \<in> set verified. tk_Epoch (vt_Ticket item) = e)
      \<and> (\<forall>item \<in> set verified. validateRandomXWorkTicketV1 (vt_Ticket item) = None) \<and> seats_ok ?new
      \<and> (\<forall>seat \<in> set ?new. ws_Participant seat \<notin> ws_Participant ` set (cs_SelectionSeats s))
      \<and> seats_ok (cs_CommitSeats s @ ?new) \<and> s' = s\<lparr>cs_CommitSeats := sort_seats (cs_CommitSeats s @ ?new)\<rparr>"
    unfolding admit_seats_def result_iffs CanonicalWorkSeats_iff canonicalWorkEpochSeats_iff using c by auto
  moreover have "(\<forall>seat \<in> set ?new. ws_Participant seat \<notin> ws_Participant ` set (cs_SelectionSeats s)) \<longleftrightarrow>
      ws_Participant ` set ?new \<inter> ws_Participant ` set (cs_SelectionSeats s) = {}" by blast
  ultimately show ?thesis unfolding admissible_def using seats_ok_append by blast
qed

lemma NewEpoch_iff:
  assumes "nonzero_hash cr"
  shows "NewWorkEpochSnapshotV1 cr (Some c) e a d seats = Inr w \<longleftrightarrow> 0 < c \<and> e \<noteq> 0 \<and> a \<noteq> 0 \<and> \<not> not_positive d \<and> seats_ok seats
    \<and> w = \<lparr>we_Epoch = e, we_Anchor = a, we_Difficulty = d, we_Root = seats_root cr c e a d (sort_seats seats), we_Seats = sort_seats seats\<rparr>"
  using nonzero_roots(1) [OF assms, of c e a d "sort_seats seats"]
  by (auto simp: NewWorkEpochSnapshotV1_def result_iffs EpochRoot_iff)

definition close_with :: "crypto \<Rightarrow> int \<Rightarrow> WorkSeatV1 list \<Rightarrow> WorkChainSnapshotV1 \<Rightarrow> WorkChainSnapshotV1" where
  "close_with cr c seats s = s\<lparr>cs_SelectionEpoch := cs_CommitEpoch s, cs_SelectionAnchor := cs_CommitAnchor s,
     cs_SelectionDifficulty := cs_CommitDifficulty s,
     cs_SelectionRoot := seats_root cr c (cs_CommitEpoch s) (cs_CommitAnchor s) (cs_CommitDifficulty s) seats,
     cs_SelectionSeats := seats,
     cs_CommitEpoch := 0, cs_CommitAnchor := 0, cs_CommitDifficulty := None, cs_CommitSeats := []\<rparr>"

lemma close_epoch_iff:
  assumes "nonzero_hash cr"
  shows "close_epoch cr (Some c) s = Inr s' \<longleftrightarrow> 0 < c \<and> cs_CommitEpoch s \<noteq> 0 \<and> cs_CommitAnchor s \<noteq> 0
    \<and> \<not> not_positive (cs_CommitDifficulty s) \<and> seats_ok (cs_SelectionSeats s @ cs_CommitSeats s)
    \<and> s' = close_with cr c (sort_seats (cs_SelectionSeats s @ cs_CommitSeats s)) s"
proof -
  have p: "mset (cs_SelectionSeats s @ sort_seats (cs_CommitSeats s)) = mset (cs_SelectionSeats s @ cs_CommitSeats s)" by simp
  note c = seats_ok_perm [OF p] sort_seats_perm [OF p]
  have i: "sort_seats (sort_seats xs) = sort_seats xs" for xs by (rule sort_seats_perm) simp
  show ?thesis
    unfolding close_epoch_def result_iffs NewEpoch_iff [OF assms] canonicalWorkEpochSeats_iff
    using c by (auto simp: i close_with_def seats_ok_append)
qed

lemma open_commit_iff:
  "open_commit e a d s = Inr s' \<longleftrightarrow> a \<noteq> 0 \<and> \<not> not_positive d
     \<and> (if cs_CommitEpoch s = 0 then s' = s\<lparr>cs_CommitEpoch := e, cs_CommitAnchor := a, cs_CommitDifficulty := d, cs_CommitSeats := []\<rparr>
        else cs_CommitEpoch s = e \<and> cs_CommitAnchor s = a \<and> cs_CommitDifficulty s = d \<and> s' = s)"
  by (auto simp: open_commit_def Let_def)

section \<open>The child of a valid snapshot\<close>

text \<open>The child with its commit context, before and after its tickets.\<close>

definition with_context :: "u64 \<Rightarrow> hash \<Rightarrow> int option \<Rightarrow> WorkSeatV1 list \<Rightarrow> WorkChainSnapshotV1 \<Rightarrow> WorkChainSnapshotV1" where
  "with_context e a d seats s = s\<lparr>cs_CommitEpoch := e, cs_CommitAnchor := a, cs_CommitDifficulty := d, cs_CommitSeats := seats\<rparr>"

definition context_ok :: "u64 \<Rightarrow> hash \<Rightarrow> int option \<Rightarrow> WorkChainSnapshotV1 \<Rightarrow> bool" where
  "context_ok e a d s \<longleftrightarrow> e \<noteq> 0 \<and> a \<noteq> 0 \<and> \<not> not_positive d
     \<and> (cs_CommitEpoch s \<noteq> 0 \<longrightarrow> cs_CommitEpoch s = e \<and> cs_CommitAnchor s = a \<and> cs_CommitDifficulty s = d)"

definition commit_next ::
  "crypto \<Rightarrow> int \<Rightarrow> u64 \<Rightarrow> hash \<Rightarrow> int option \<Rightarrow> VerifiedRandomXWorkTicketV1 list \<Rightarrow> WorkChainSnapshotV1 \<Rightarrow> WorkChainSnapshotV1" where
  "commit_next cr c e a d verified s = (let s' = with_context e a d (sort_seats (cs_CommitSeats s @ map seat_of verified)) s in
     if cs_Number s mod cs_EpochLength s = 0 then close_with cr c (sort_seats (cs_SelectionSeats s @ cs_CommitSeats s')) s' else s')"

definition commit_ok :: "u64 \<Rightarrow> hash \<Rightarrow> int option \<Rightarrow> VerifiedRandomXWorkTicketV1 list \<Rightarrow> WorkChainSnapshotV1 \<Rightarrow> bool" where
  "commit_ok e a d verified s \<longleftrightarrow> context_ok e a d s \<and> admissible e verified s
     \<and> (cs_Number s mod cs_EpochLength s = 0 \<longrightarrow> seats_ok (cs_SelectionSeats s @ cs_CommitSeats s @ map seat_of verified))"

lemma open_commit_ok:
  assumes "cs_CommitEpoch s = 0 \<longrightarrow> cs_CommitSeats s = []" and "e \<noteq> 0"
  shows "open_commit e a d s = Inr s' \<longleftrightarrow> context_ok e a d s \<and> s' = with_context e a d (cs_CommitSeats s) s"
  unfolding open_commit_iff context_ok_def with_context_def using assms by auto

lemma commit_block_iff:
  assumes "nonzero_hash cr" and "0 < c" and "cs_CommitEpoch s = 0 \<longrightarrow> cs_CommitSeats s = []" and "e \<noteq> 0"
  shows "commit_block cr (Some c) e a d verified s = Inr s' \<longleftrightarrow> commit_ok e a d verified s \<and> s' = commit_next cr c e a d verified s"
proof (cases "context_ok e a d s")
  case True
  let ?o = "with_context e a d (cs_CommitSeats s) s"
  let ?n = "with_context e a d (sort_seats (cs_CommitSeats s @ map seat_of verified)) s"
  have o: "open_commit e a d s = Inr ?o" using open_commit_ok [OF assms(3,4)] True by blast
  have m: "admit_seats e verified ?o = Inr s'' \<longleftrightarrow> admissible e verified s \<and> s'' = ?n" for s''
    unfolding admit_seats_iff by (simp add: with_context_def admissible_def)
  have p: "seats_ok (cs_SelectionSeats s @ sort_seats xs) \<longleftrightarrow> seats_ok (cs_SelectionSeats s @ xs)" for xs
    by (rule seats_ok_perm) simp
  have cl: "close_epoch cr (Some c) ?n = Inr s' \<longleftrightarrow> seats_ok (cs_SelectionSeats s @ cs_CommitSeats s @ map seat_of verified)
      \<and> s' = close_with cr c (sort_seats (cs_SelectionSeats s @ cs_CommitSeats ?n)) ?n"
    unfolding close_epoch_iff [OF assms(1)] using True assms(2) by (simp add: with_context_def context_ok_def p)
  show ?thesis
  proof (cases "admissible e verified s")
    case a: True
    then have "admit_seats e verified ?o = Inr ?n" using m by blast
    then have "commit_block cr (Some c) e a d verified s = (if cs_Number s mod cs_EpochLength s = 0 then close_epoch cr (Some c) ?n else Inr ?n)"
      by (simp add: commit_block_def o)
    then show ?thesis using True a cl by (auto simp: commit_ok_def commit_next_def Let_def)
  next
    case False
    then obtain err where "admit_seats e verified ?o = Inl err" using m by (cases "admit_seats e verified ?o") auto
    then show ?thesis using False by (simp add: commit_block_def o commit_ok_def)
  qed
next
  case False
  then obtain err where "open_commit e a d s = Inl err"
    using open_commit_ok [OF assms(3,4)] by (cases "open_commit e a d s") auto
  then show ?thesis using False by (simp add: commit_block_def commit_ok_def)
qed

definition commit_epoch :: "u64 \<Rightarrow> u64 \<Rightarrow> u64 option" where
  "commit_epoch b L = (let q = (unat b - 1) div unat L in if q = 0 then None else Some (of_nat q))"

lemma CommitTarget_eq:
  assumes "b \<noteq> 0" and "L \<noteq> 0"
  shows "WorkCommitTargetEpochV1 b L = Inr (commit_epoch b L)"
proof -
  let ?q = "(unat b - 1) div unat L"
  have q: "?q + 1 < 2 ^ 64"
  proof -
    have "?q \<le> unat b - 1" by (rule div_le_dividend)
    moreover have "0 < unat b" using assms(1) by (simp add: unat_gt_0)
    ultimately have "?q + 1 \<le> unat b" by linarith
    also have "unat b < 2 ^ 64" by simp
    finally show ?thesis .
  qed
  have e: "WorkEpochForBlockV1 b L = Inr (of_nat ?q + 1)"
    unfolding EpochForBlock_iff using assms q by (simp add: unat_word_ariths unat_of_nat)
  have "of_nat ?q + 1 \<le> (1 :: u64) \<longleftrightarrow> ?q = 0"
    using q by (simp add: word_le_nat_alt unat_word_ariths unat_of_nat)
  then show ?thesis by (simp add: WorkCommitTargetEpochV1_def e WorkCommitDelayEpochsV1_def commit_epoch_def Let_def)
qed

lemma commit_epoch_nonzero: "commit_epoch b L = Some e \<Longrightarrow> e \<noteq> 0"
proof -
  assume a: "commit_epoch b L = Some e"
  let ?q = "(unat b - 1) div unat L"
  have "?q \<noteq> 0" "e = of_nat ?q" using a by (auto simp: commit_epoch_def Let_def split: if_splits)
  moreover have "?q \<le> unat b" using div_le_dividend [of "unat b - 1" "unat L"] by linarith
  then have "?q < 2 ^ 64" by (rule le_less_trans) simp
  ultimately show "e \<noteq> 0" by (metis unat_0 unat_of_nat_u64)
qed

text \<open>Which blocks are accepted, and the state after them.\<close>

abbreviation child :: "WorkChainSnapshotV1 \<Rightarrow> u64 \<Rightarrow> hash \<Rightarrow> WorkChainSnapshotV1" where
  "child s b h \<equiv> s\<lparr>cs_Number := b, cs_Hash := h\<rparr>"

definition work_block_ok ::
  "WorkChainSnapshotV1 \<Rightarrow> u64 \<Rightarrow> hash \<Rightarrow> hash \<Rightarrow> hash \<Rightarrow> int option \<Rightarrow> VerifiedRandomXWorkTicketV1 list \<Rightarrow> bool" where
  "work_block_ok s b h parent a d verified \<longleftrightarrow> cs_Number s \<noteq> maxU64 \<and> b = cs_Number s + 1 \<and> parent = cs_Hash s \<and> h \<noteq> 0
     \<and> (case commit_epoch b (cs_EpochLength s) of
          None \<Rightarrow> verified = [] \<and> a = 0 \<and> d = None
        | Some e \<Rightarrow> commit_ok e a d verified (child s b h))"

definition work_block_next ::
  "crypto \<Rightarrow> int \<Rightarrow> WorkChainSnapshotV1 \<Rightarrow> u64 \<Rightarrow> hash \<Rightarrow> hash \<Rightarrow> int option \<Rightarrow> VerifiedRandomXWorkTicketV1 list \<Rightarrow> WorkChainSnapshotV1" where
  "work_block_next cr c s b h a d verified = (let
     nxt = (case commit_epoch b (cs_EpochLength s) of
         None \<Rightarrow> child s b h
       | Some e \<Rightarrow> commit_next cr c e a d verified (child s b h))
   in nxt\<lparr>cs_StateRoot := state_root cr c nxt\<rparr>)"

lemma state_root_frame [simp]: "state_root cr c (s\<lparr>cs_StateRoot := r\<rparr>) = state_root cr c s"
  "state_root cr c (s\<lparr>cs_Hash := h\<rparr>) = state_root cr c s"
  by (simp_all add: state_root_def workChainStateRootPayloadV1_def)

lemma snapshot_ok_frame [simp]: "snapshot_ok cr c (s\<lparr>cs_StateRoot := r\<rparr>) \<longleftrightarrow> snapshot_ok cr c s"
  by (simp add: snapshot_ok_def)

lemma commit_next_ok:
  assumes "snapshot_ok cr c s" and "commit_ok e a d verified s"
  shows "snapshot_ok cr c (commit_next cr c e a d verified s)"
proof -
  have o: "e \<noteq> 0" "a \<noteq> 0" "\<not> not_positive d" "seats_ok (cs_CommitSeats s @ map seat_of verified)"
    using assms(2) by (auto simp: commit_ok_def context_ok_def admissible_def)
  have p: "seats_ok (cs_SelectionSeats s @ sort_seats xs) \<longleftrightarrow> seats_ok (cs_SelectionSeats s @ xs)" for xs
    by (rule seats_ok_perm) simp
  have cl: "seats_ok (cs_SelectionSeats s @ cs_CommitSeats s @ map seat_of verified)" if "cs_Number s mod cs_EpochLength s = 0"
    using assms(2) that by (simp add: commit_ok_def)
  show ?thesis
    using assms(1) o cl unfolding commit_next_def Let_def
    by (auto simp: snapshot_ok_def epoch_state_ok_def with_context_def close_with_def p)
qed

lemma block_next_ok:
  assumes "nonzero_hash cr" and "snapshot_ok cr c s" and "work_block_ok s b h parent a d verified"
  shows "WorkChainSnapshot_Validate cr (Some c) (Some (work_block_next cr c s b h a d verified)) = None"
proof -
  have h: "h \<noteq> 0" using assms(3) by (simp add: work_block_ok_def)
  then have c: "snapshot_ok cr c (child s b h)" using assms(2) by (simp add: snapshot_ok_def)
  have "snapshot_ok cr c (case commit_epoch b (cs_EpochLength s) of None \<Rightarrow> child s b h
      | Some e \<Rightarrow> commit_next cr c e a d verified (child s b h))"
    using c commit_next_ok [OF c] assms(3) by (auto simp: work_block_ok_def split: option.splits)
  then show ?thesis
    unfolding Snapshot_Validate_iff work_block_next_def Let_def using nonzero_roots(2) [OF assms(1)] by simp
qed

lemma Apply_iff:
  assumes "nonzero_hash cr" and "WorkChainSnapshot_Validate cr (Some c) (Some s) = None"
  shows "ApplyVerifiedBlockV1 cr (Some s) (Some c) b h parent a d verified = Inr s' \<longleftrightarrow>
    work_block_ok s b h parent a d verified \<and> s' = work_block_next cr c s b h a d verified"
proof (cases "cs_Number s \<noteq> maxU64 \<and> b = cs_Number s + 1 \<and> parent = cs_Hash s \<and> h \<noteq> 0")
  case False
  then show ?thesis using assms(2) by (auto simp: ApplyVerifiedBlockV1_def work_block_ok_def)
next
  case g: True
  have ok: "snapshot_ok cr c s" using assms(2) by (simp add: Snapshot_Validate_iff)
  then have s: "0 < c" "cs_EpochLength s \<noteq> 0" "cs_CommitEpoch s = 0 \<longrightarrow> cs_CommitSeats s = []"
    by (auto simp: snapshot_ok_def epoch_state_ok_def)
  have b: "b \<noteq> 0" using g by (metis add.inverse_unique add.commute)
  let ?r = "case commit_epoch b (cs_EpochLength s) of
      None \<Rightarrow> if length verified \<noteq> 0 then Inl ErrUnexpectedWorkCommitV1
        else if a \<noteq> 0 \<or> d \<noteq> None then Inl ErrUnexpectedWorkCommitV1 else Inr (child s b h)
    | Some e \<Rightarrow> commit_block cr (Some c) e a d verified (child s b h)"
  let ?n = "case commit_epoch b (cs_EpochLength s) of None \<Rightarrow> child s b h
      | Some e \<Rightarrow> commit_next cr c e a d verified (child s b h)"
  have r: "?r = Inr s'' \<longleftrightarrow> work_block_ok s b h parent a d verified \<and> s'' = ?n" for s''
    using g commit_block_iff [OF assms(1) s(1), of "child s b h"] s(3) commit_epoch_nonzero [of b "cs_EpochLength s"]
    by (auto simp: work_block_ok_def split: option.splits)
  have ap: "ApplyVerifiedBlockV1 cr (Some s) (Some c) b h parent a d verified = (case ?r of Inl err \<Rightarrow> Inl err
      | Inr nxt \<Rightarrow> (case WorkChainStateRootV1 cr (Some c) (Some nxt) of Inl err \<Rightarrow> Inl err | Inr rt \<Rightarrow> Inr (nxt\<lparr>cs_StateRoot := rt\<rparr>)))"
  proof -
    have "cs_Number s \<noteq> maxU64" "cs_Number s + 1 = b" "parent = cs_Hash s" "h \<noteq> 0" using g by simp_all
    then show ?thesis using assms(2) CommitTarget_eq [OF b s(2)] by (simp add: ApplyVerifiedBlockV1_def Let_def)
  qed
  show ?thesis
  proof (cases ?r)
    case (Inl err)
    then have "\<not> work_block_ok s b h parent a d verified" using r by auto
    then show ?thesis using ap Inl by simp
  next
    case (Inr n)
    then have w: "work_block_ok s b h parent a d verified" "n = ?n" using r by blast+
    have "snapshot_ok cr c n"
      using block_next_ok [OF assms(1) ok w(1)] w(2) unfolding Snapshot_Validate_iff work_block_next_def Let_def by simp
    then have "WorkChainStateRootV1 cr (Some c) (Some n) = Inr (state_root cr c n)" by (simp add: StateRoot_iff)
    then show ?thesis using ap Inr w by (auto simp: work_block_next_def Let_def)
  qed
qed

end
