(* ===== verification/Work_Runtime.thy ===== *)
theory Work_Runtime
  imports Work_Snapshot
begin

text \<open>
  The canonical work runtime (\<open>consensus/lqc/work_protocol_v1_runtime_state.go\<close>): the difficulty schedule of odd and even work epochs,
  and the state that joins it with the work snapshot of a block. A difficulty is never an argument of a block: it follows from the
  blocks before it. A nil pointer is \<^const>\<open>None\<close>.
\<close>

section \<open>The difficulty schedule\<close>

record WorkDifficultyStateV1 =
  ds_OddEpoch :: u64
  ds_OddDifficulty :: "int option"
  ds_EvenEpoch :: u64
  ds_EvenDifficulty :: "int option"
  ds_StateRoot :: hash

definition workDifficultyStateRootDomainV1 :: bytes where
  "workDifficultyStateRootDomainV1 = ascii ''RABBIT-LQC-WORK-DIFFICULTY-STATE-V1''"

definition canonicalWorkRuntimeRootDomainV1 :: bytes where
  "canonicalWorkRuntimeRootDomainV1 = ascii ''RABBIT-LQC-WORK-RUNTIME-STATE-V1''"

definition workDifficultyStateRootPayloadV1 :: "int option \<Rightarrow> WorkDifficultyStateV1 \<Rightarrow> rlp_val" where
  "workDifficultyStateRootPayloadV1 chainID s = VStruct [VBytes workDifficultyStateRootDomainV1,
     VUint (ucast RandomXWorkProtocolVersion), big_val chainID, VUint (ds_OddEpoch s), big_val (ds_OddDifficulty s),
     VUint (ds_EvenEpoch s), big_val (ds_EvenDifficulty s)]"

definition WorkDifficultyStateRootV1 :: "crypto \<Rightarrow> int option \<Rightarrow> WorkDifficultyStateV1 option \<Rightarrow> work_error + hash" where
  "WorkDifficultyStateRootV1 cr chainID sp = (case sp of
      None \<Rightarrow> Inl ErrInvalidWorkDifficultyStateV1
    | Some s \<Rightarrow>
        if not_positive chainID \<or> ds_OddEpoch s = 0 \<or> ds_OddEpoch s mod 2 \<noteq> 1 \<or> not_positive (ds_OddDifficulty s)
          \<or> ds_EvenEpoch s = 0 \<or> ds_EvenEpoch s mod 2 \<noteq> 0 \<or> not_positive (ds_EvenDifficulty s)
        then Inl ErrInvalidWorkDifficultyStateV1
        else Inr (Keccak256Hash cr [EncodeToBytes (workDifficultyStateRootPayloadV1 chainID s)]))"

definition NewWorkDifficultyStateV1 :: "crypto \<Rightarrow> int option \<Rightarrow> int option \<Rightarrow> work_error + WorkDifficultyStateV1" where
  "NewWorkDifficultyStateV1 cr chainID initialDifficulty =
     (if not_positive chainID \<or> not_positive initialDifficulty then Inl ErrInvalidWorkDifficultyStateV1
      else let state = \<lparr>ds_OddEpoch = 1, ds_OddDifficulty = initialDifficulty, ds_EvenEpoch = 2,
          ds_EvenDifficulty = initialDifficulty, ds_StateRoot = 0\<rparr> in
        case WorkDifficultyStateRootV1 cr chainID (Some state) of
          Inl err \<Rightarrow> Inl err
        | Inr rt \<Rightarrow> Inr (state\<lparr>ds_StateRoot := rt\<rparr>))"

definition WorkDifficultyState_Validate ::
  "crypto \<Rightarrow> int option \<Rightarrow> WorkDifficultyStateV1 option \<Rightarrow> work_error option" where
  "WorkDifficultyState_Validate cr chainID sp = (case sp of
      None \<Rightarrow> Some ErrInvalidWorkDifficultyStateV1
    | Some s \<Rightarrow>
        if ds_StateRoot s = 0 then Some ErrInvalidWorkDifficultyStateV1
        else case WorkDifficultyStateRootV1 cr chainID sp of
          Inl err \<Rightarrow> Some err
        | Inr rt \<Rightarrow> if rt \<noteq> ds_StateRoot s then Some ErrInvalidWorkDifficultyStateV1 else None)"

definition DifficultyForEpochV1 ::
  "crypto \<Rightarrow> WorkDifficultyStateV1 option \<Rightarrow> int option \<Rightarrow> u64 \<Rightarrow> work_error + int option" where
  "DifficultyForEpochV1 cr sp chainID epoch = (case WorkDifficultyState_Validate cr chainID sp of
      Some err \<Rightarrow> Inl err
    | None \<Rightarrow> let s = the sp in
        if epoch = ds_OddEpoch s then Inr (ds_OddDifficulty s)
        else if epoch = ds_EvenEpoch s then Inr (ds_EvenDifficulty s)
        else Inl ErrWorkDifficultyEpochUnavailableV1)"

definition AdvanceClosedEpochV1 ::
  "crypto \<Rightarrow> WorkDifficultyStateV1 option \<Rightarrow> int option \<Rightarrow> WorkEpochSnapshotV1 option \<Rightarrow> work_error + WorkDifficultyStateV1" where
  "AdvanceClosedEpochV1 cr sp chainID closedEpoch = (case WorkDifficultyState_Validate cr chainID sp of
      Some err \<Rightarrow> Inl err
    | None \<Rightarrow> (case closedEpoch of
        None \<Rightarrow> Inl ErrInvalidWorkDifficultyStateV1
      | Some w \<Rightarrow> (case WorkEpochSnapshot_Validate cr chainID w of
          Some err \<Rightarrow> Inl err
        | None \<Rightarrow> (case DifficultyForEpochV1 cr sp chainID (we_Epoch w) of
            Inl err \<Rightarrow> Inl err
          | Inr current \<Rightarrow>
              if we_Difficulty w = None \<or> current \<noteq> we_Difficulty w then Inl ErrWorkDifficultyClosedEpochMismatchV1
              else case NextWorkDifficultyV1 current (of_nat (length (we_Seats w))) of
                Inl err \<Rightarrow> Inl err
              | Inr nextDifficulty \<Rightarrow>
                  if we_Epoch w > maxU64 - 2 then Inl ErrInvalidWorkDifficultyStateV1
                  else let s = the sp;
                      nxt = (if we_Epoch w mod 2 = 1
                        then s\<lparr>ds_OddEpoch := we_Epoch w + 2, ds_OddDifficulty := Some nextDifficulty\<rparr>
                        else s\<lparr>ds_EvenEpoch := we_Epoch w + 2, ds_EvenDifficulty := Some nextDifficulty\<rparr>)
                    in case WorkDifficultyStateRootV1 cr chainID (Some nxt) of
                      Inl err \<Rightarrow> Inl err
                    | Inr rt \<Rightarrow> Inr (nxt\<lparr>ds_StateRoot := rt\<rparr>)))))"

section \<open>The runtime state\<close>

record CanonicalWorkRuntimeStateV1 =
  rs_Work :: "WorkChainSnapshotV1 option"
  rs_Difficulty :: "WorkDifficultyStateV1 option"
  rs_StateRoot :: hash

definition canonicalWorkRuntimeRootPayloadV1 :: "int option \<Rightarrow> hash \<Rightarrow> hash \<Rightarrow> rlp_val" where
  "canonicalWorkRuntimeRootPayloadV1 chainID workRoot difficultyRoot = VStruct [VBytes canonicalWorkRuntimeRootDomainV1,
     VUint (ucast RandomXWorkProtocolVersion), big_val chainID, VArray (hash_bytes workRoot), VArray (hash_bytes difficultyRoot)]"

definition CanonicalWorkRuntimeStateRootV1 ::
  "crypto \<Rightarrow> int option \<Rightarrow> CanonicalWorkRuntimeStateV1 option \<Rightarrow> work_error + hash" where
  "CanonicalWorkRuntimeStateRootV1 cr chainID sp = (case sp of
      None \<Rightarrow> Inl ErrInvalidCanonicalWorkRuntimeStateV1
    | Some s \<Rightarrow> (case (rs_Work s, rs_Difficulty s) of
        (Some w, Some d) \<Rightarrow>
          if not_positive chainID then Inl ErrInvalidCanonicalWorkRuntimeStateV1
          else (case WorkChainSnapshot_Validate cr chainID (Some w) of
              Some err \<Rightarrow> Inl err
            | None \<Rightarrow> (case WorkDifficultyState_Validate cr chainID (Some d) of
                Some err \<Rightarrow> Inl err
              | None \<Rightarrow> Inr (Keccak256Hash cr
                  [EncodeToBytes (canonicalWorkRuntimeRootPayloadV1 chainID (cs_StateRoot w) (ds_StateRoot d))])))
      | _ \<Rightarrow> Inl ErrInvalidCanonicalWorkRuntimeStateV1))"

definition NewCanonicalWorkRuntimeStateV1 ::
  "crypto \<Rightarrow> int option \<Rightarrow> u64 \<Rightarrow> hash \<Rightarrow> u64 \<Rightarrow> int option \<Rightarrow> work_error + CanonicalWorkRuntimeStateV1" where
  "NewCanonicalWorkRuntimeStateV1 cr chainID number h epochLength initialDifficulty =
     (case NewWorkChainSnapshotV1 cr chainID number h epochLength of
        Inl err \<Rightarrow> Inl err
      | Inr work \<Rightarrow> (case NewWorkDifficultyStateV1 cr chainID initialDifficulty of
          Inl err \<Rightarrow> Inl err
        | Inr difficulty \<Rightarrow>
            let state = \<lparr>rs_Work = Some work, rs_Difficulty = Some difficulty, rs_StateRoot = 0\<rparr> in
            (case CanonicalWorkRuntimeStateRootV1 cr chainID (Some state) of
               Inl err \<Rightarrow> Inl err
             | Inr rt \<Rightarrow> Inr (state\<lparr>rs_StateRoot := rt\<rparr>))))"

definition CanonicalWorkRuntimeState_Validate ::
  "crypto \<Rightarrow> int option \<Rightarrow> CanonicalWorkRuntimeStateV1 option \<Rightarrow> work_error option" where
  "CanonicalWorkRuntimeState_Validate cr chainID sp = (case sp of
      None \<Rightarrow> Some ErrInvalidCanonicalWorkRuntimeStateV1
    | Some s \<Rightarrow>
        if rs_StateRoot s = 0 then Some ErrInvalidCanonicalWorkRuntimeStateV1
        else case CanonicalWorkRuntimeStateRootV1 cr chainID sp of
          Inl err \<Rightarrow> Some err
        | Inr rt \<Rightarrow> if rt \<noteq> rs_StateRoot s then Some ErrInvalidCanonicalWorkRuntimeStateV1 else None)"

text \<open>The second component is the flag \<open>ok\<close>. Validation has shown that both fields are set.\<close>

definition CommitDifficultyV1 ::
  "crypto \<Rightarrow> CanonicalWorkRuntimeStateV1 option \<Rightarrow> int option \<Rightarrow> u64 \<Rightarrow> work_error + int option \<times> bool" where
  "CommitDifficultyV1 cr sp chainID blockNumber = (case CanonicalWorkRuntimeState_Validate cr chainID sp of
      Some err \<Rightarrow> Inl err
    | None \<Rightarrow> let s = the sp in
        (case WorkCommitTargetEpochV1 blockNumber (cs_EpochLength (the (rs_Work s))) of
           Inl err \<Rightarrow> Inl err
         | Inr None \<Rightarrow> Inr (None, False)
         | Inr (Some epoch) \<Rightarrow> (case DifficultyForEpochV1 cr (rs_Difficulty s) chainID epoch of
             Inl err \<Rightarrow> Inl err
           | Inr difficulty \<Rightarrow> Inr (difficulty, True))))"

text \<open>The seats of the next state whose participants hold no seat in the state before.\<close>

definition admissions :: "WorkChainSnapshotV1 \<Rightarrow> WorkChainSnapshotV1 \<Rightarrow> WorkSeatV1 list" where
  "admissions work nextWork =
     filter (\<lambda>seat. ws_Participant seat \<notin> ws_Participant ` set (cs_SelectionSeats work)) (cs_SelectionSeats nextWork)"

definition advance_difficulty ::
  "crypto \<Rightarrow> int option \<Rightarrow> WorkChainSnapshotV1 \<Rightarrow> WorkChainSnapshotV1 \<Rightarrow> WorkDifficultyStateV1 \<Rightarrow> work_error + WorkDifficultyStateV1" where
  "advance_difficulty cr chainID work nextWork difficulty =
     (if cs_SelectionEpoch nextWork \<noteq> 0 \<and> cs_SelectionEpoch nextWork \<noteq> cs_SelectionEpoch work
      then case NewWorkEpochSnapshotV1 cr chainID (cs_SelectionEpoch nextWork) (cs_SelectionAnchor nextWork)
          (cs_SelectionDifficulty nextWork) (admissions work nextWork) of
        Inl err \<Rightarrow> Inl err
      | Inr closedEpoch \<Rightarrow> AdvanceClosedEpochV1 cr (Some difficulty) chainID (Some closedEpoch)
      else Inr difficulty)"

definition Runtime_ApplyVerifiedBlockV1 ::
  "crypto \<Rightarrow> CanonicalWorkRuntimeStateV1 option \<Rightarrow> int option \<Rightarrow> u64 \<Rightarrow> hash \<Rightarrow> hash \<Rightarrow> hash
    \<Rightarrow> VerifiedRandomXWorkTicketV1 list \<Rightarrow> work_error + CanonicalWorkRuntimeStateV1" where
  "Runtime_ApplyVerifiedBlockV1 cr sp chainID blockNumber blockHash parentHash commitChallengeAnchor verified =
     (case CanonicalWorkRuntimeState_Validate cr chainID sp of
        Some err \<Rightarrow> Inl err
      | None \<Rightarrow> let s = the sp; work = the (rs_Work s) in
          (case CommitDifficultyV1 cr sp chainID blockNumber of
             Inl err \<Rightarrow> Inl err
           | Inr (difficulty, hasCommit) \<Rightarrow>
               let commitDifficulty = (if \<not> hasCommit then None else difficulty) in
               (case ApplyVerifiedBlockV1 cr (rs_Work s) chainID blockNumber blockHash parentHash commitChallengeAnchor
                   commitDifficulty verified of
                  Inl err \<Rightarrow> Inl err
                | Inr nextWork \<Rightarrow>
                    (case advance_difficulty cr chainID work nextWork (the (rs_Difficulty s)) of
                       Inl err \<Rightarrow> Inl err
                     | Inr nextDifficulty \<Rightarrow>
                         let nxt = \<lparr>rs_Work = Some nextWork, rs_Difficulty = Some nextDifficulty, rs_StateRoot = 0\<rparr> in
                         (case CanonicalWorkRuntimeStateRootV1 cr chainID (Some nxt) of
                            Inl err \<Rightarrow> Inl err
                          | Inr rt \<Rightarrow> Inr (nxt\<lparr>rs_StateRoot := rt\<rparr>))))))"

section \<open>Valid states\<close>

definition difficulty_ok :: "WorkDifficultyStateV1 \<Rightarrow> bool" where
  "difficulty_ok s \<longleftrightarrow> odd (unat (ds_OddEpoch s)) \<and> \<not> not_positive (ds_OddDifficulty s)
     \<and> ds_EvenEpoch s \<noteq> 0 \<and> even (unat (ds_EvenEpoch s)) \<and> \<not> not_positive (ds_EvenDifficulty s)"

definition difficulty_root :: "crypto \<Rightarrow> int \<Rightarrow> WorkDifficultyStateV1 \<Rightarrow> hash" where
  "difficulty_root cr c s = Keccak256Hash cr [EncodeToBytes (workDifficultyStateRootPayloadV1 (Some c) s)]"

definition runtime_root :: "crypto \<Rightarrow> int \<Rightarrow> hash \<Rightarrow> hash \<Rightarrow> hash" where
  "runtime_root cr c workRoot difficultyRoot =
     Keccak256Hash cr [EncodeToBytes (canonicalWorkRuntimeRootPayloadV1 (Some c) workRoot difficultyRoot)]"

lemma more_nonzero_roots:
  assumes "nonzero_hash cr"
  shows "difficulty_root cr c s \<noteq> 0" and "runtime_root cr c x y \<noteq> 0"
  using assms by (simp_all add: nonzero_hash_def difficulty_root_def runtime_root_def Keccak256Hash_def)

lemma difficulty_root_frame [simp]: "difficulty_root cr c (s\<lparr>ds_StateRoot := r\<rparr>) = difficulty_root cr c s"
  by (simp add: difficulty_root_def workDifficultyStateRootPayloadV1_def)

lemma difficulty_ok_frame [simp]: "difficulty_ok (s\<lparr>ds_StateRoot := r\<rparr>) \<longleftrightarrow> difficulty_ok s"
  by (simp add: difficulty_ok_def)

lemma u64_parity: "(e :: u64) mod 2 = 1 \<longleftrightarrow> odd (unat e)" "e mod 2 = 0 \<longleftrightarrow> even (unat e)"
  by (simp_all add: word_unat_eq_iff unat_mod_distrib odd_iff_mod_2_eq_one even_iff_mod_2_eq_zero)

lemma DifficultyRoot_iff:
  "WorkDifficultyStateRootV1 cr (Some c) (Some s) = Inr rt \<longleftrightarrow> 0 < c \<and> difficulty_ok s \<and> rt = difficulty_root cr c s"
proof -
  have "ds_OddEpoch s \<noteq> 0" if "odd (unat (ds_OddEpoch s))" using that by auto
  then show ?thesis
    by (auto simp: WorkDifficultyStateRootV1_def difficulty_ok_def difficulty_root_def u64_parity)
qed

definition difficulty_valid :: "crypto \<Rightarrow> int \<Rightarrow> WorkDifficultyStateV1 \<Rightarrow> bool" where
  "difficulty_valid cr c s \<longleftrightarrow> 0 < c \<and> difficulty_ok s \<and> ds_StateRoot s = difficulty_root cr c s \<and> ds_StateRoot s \<noteq> 0"

lemma Difficulty_Validate_iff: "WorkDifficultyState_Validate cr (Some c) (Some s) = None \<longleftrightarrow> difficulty_valid cr c s"
proof (cases "WorkDifficultyStateRootV1 cr (Some c) (Some s)")
  case (Inl err)
  then have "\<not> (0 < c \<and> difficulty_ok s)" using DifficultyRoot_iff [of cr c s] by auto
  with Inl show ?thesis by (auto simp: WorkDifficultyState_Validate_def difficulty_valid_def)
next
  case (Inr rt)
  moreover from this have "0 < c" "difficulty_ok s" "rt = difficulty_root cr c s" by (simp_all add: DifficultyRoot_iff)
  ultimately show ?thesis by (auto simp: WorkDifficultyState_Validate_def difficulty_valid_def)
qed

definition runtime_parts :: "crypto \<Rightarrow> int \<Rightarrow> WorkChainSnapshotV1 \<Rightarrow> WorkDifficultyStateV1 \<Rightarrow> CanonicalWorkRuntimeStateV1 \<Rightarrow> bool" where
  "runtime_parts cr c w d s \<longleftrightarrow> rs_Work s = Some w \<and> rs_Difficulty s = Some d
     \<and> WorkChainSnapshot_Validate cr (Some c) (Some w) = None \<and> difficulty_valid cr c d"

lemma RuntimeRoot_iff:
  "CanonicalWorkRuntimeStateRootV1 cr (Some c) (Some s) = Inr rt \<longleftrightarrow>
     (\<exists>w d. runtime_parts cr c w d s \<and> rt = runtime_root cr c (cs_StateRoot w) (ds_StateRoot d))"
proof (cases "rs_Work s = None \<or> rs_Difficulty s = None")
  case False
  then obtain w d where p: "rs_Work s = Some w" "rs_Difficulty s = Some d" by auto
  let ?W = "WorkChainSnapshot_Validate cr (Some c) (Some w)" and ?D = "WorkDifficultyState_Validate cr (Some c) (Some d)"
  have "CanonicalWorkRuntimeStateRootV1 cr (Some c) (Some s) = (if c \<le> 0 then Inl ErrInvalidCanonicalWorkRuntimeStateV1
      else case ?W of Some err \<Rightarrow> Inl err | None \<Rightarrow> (case ?D of Some err \<Rightarrow> Inl err
        | None \<Rightarrow> Inr (runtime_root cr c (cs_StateRoot w) (ds_StateRoot d))))"
    unfolding runtime_root_def CanonicalWorkRuntimeStateRootV1_def by (simp add: p)
  then have "CanonicalWorkRuntimeStateRootV1 cr (Some c) (Some s) = Inr rt \<longleftrightarrow>
      \<not> c \<le> 0 \<and> ?W = None \<and> ?D = None \<and> runtime_root cr c (cs_StateRoot w) (ds_StateRoot d) = rt"
    by (simp only: result_iffs sum.inject)
  moreover have "?D = None \<Longrightarrow> \<not> c \<le> 0" by (simp add: Difficulty_Validate_iff difficulty_valid_def)
  ultimately show ?thesis by (auto simp: runtime_parts_def p Difficulty_Validate_iff)
qed (auto simp: CanonicalWorkRuntimeStateRootV1_def runtime_parts_def split: option.splits)

definition runtime_valid :: "crypto \<Rightarrow> int \<Rightarrow> WorkChainSnapshotV1 \<Rightarrow> WorkDifficultyStateV1 \<Rightarrow> CanonicalWorkRuntimeStateV1 \<Rightarrow> bool" where
  "runtime_valid cr c w d s \<longleftrightarrow> runtime_parts cr c w d s \<and> rs_StateRoot s = runtime_root cr c (cs_StateRoot w) (ds_StateRoot d)
     \<and> rs_StateRoot s \<noteq> 0"

lemma Runtime_Validate_iff:
  "CanonicalWorkRuntimeState_Validate cr (Some c) (Some s) = None \<longleftrightarrow> (\<exists>w d. runtime_valid cr c w d s)"
proof (cases "CanonicalWorkRuntimeStateRootV1 cr (Some c) (Some s)")
  case (Inl err)
  then have "\<not> (\<exists>w d. runtime_parts cr c w d s)" using RuntimeRoot_iff [of cr c s] by auto
  with Inl show ?thesis by (simp add: CanonicalWorkRuntimeState_Validate_def runtime_valid_def)
next
  case (Inr rt)
  then obtain w d where p: "runtime_parts cr c w d s" "rt = runtime_root cr c (cs_StateRoot w) (ds_StateRoot d)"
    by (auto simp: RuntimeRoot_iff)
  have "(\<exists>w' d'. runtime_valid cr c w' d' s) \<longleftrightarrow> runtime_valid cr c w d s"
    using p(1) unfolding runtime_valid_def runtime_parts_def by (metis option.inject)
  moreover have "CanonicalWorkRuntimeState_Validate cr (Some c) (Some s) = None \<longleftrightarrow> rs_StateRoot s \<noteq> 0 \<and> rt = rs_StateRoot s"
    by (simp add: CanonicalWorkRuntimeState_Validate_def Inr)
  ultimately show ?thesis using p unfolding runtime_valid_def by metis
qed

section \<open>Advancing the schedule\<close>

text \<open>After \<open>m\<close> closed epochs the difficulties of \<open>m + 1\<close> and \<open>m + 2\<close> are known.\<close>

definition scheduled :: "nat \<Rightarrow> WorkDifficultyStateV1 \<Rightarrow> bool" where
  "scheduled m d \<longleftrightarrow> (if even m then unat (ds_OddEpoch d) = m + 1 \<and> unat (ds_EvenEpoch d) = m + 2
     else unat (ds_OddEpoch d) = m + 2 \<and> unat (ds_EvenEpoch d) = m + 1)"

definition difficulty_of :: "WorkDifficultyStateV1 \<Rightarrow> u64 \<Rightarrow> int option" where
  "difficulty_of d e = (if e = ds_OddEpoch d then ds_OddDifficulty d else ds_EvenDifficulty d)"

lemma DifficultyForEpoch_eq:
  assumes "difficulty_valid cr c d" and "scheduled m d" and "unat e = m + 1 \<or> unat e = m + 2"
  shows "DifficultyForEpochV1 cr (Some d) (Some c) e = Inr (difficulty_of d e)"
    and "\<not> not_positive (difficulty_of d e)"
proof -
  have "e = ds_OddEpoch d \<or> e = ds_EvenEpoch d"
    using assms(2,3) by (auto simp: scheduled_def word_unat_eq_iff split: if_splits)
  moreover have "WorkDifficultyState_Validate cr (Some c) (Some d) = None" using assms(1) by (simp add: Difficulty_Validate_iff)
  ultimately show "DifficultyForEpochV1 cr (Some d) (Some c) e = Inr (difficulty_of d e)"
    by (auto simp: DifficultyForEpochV1_def difficulty_of_def Let_def)
  show "\<not> not_positive (difficulty_of d e)" using assms(1) by (simp add: difficulty_of_def difficulty_valid_def difficulty_ok_def)
qed

lemma Epoch_Validate_new:
  assumes "nonzero_hash cr" and "NewWorkEpochSnapshotV1 cr (Some c) e a d seats = Inr w"
  shows "WorkEpochSnapshot_Validate cr (Some c) w = None"
proof -
  have w: "0 < c" "e \<noteq> 0" "a \<noteq> 0" "\<not> not_positive d" "seats_ok seats"
    "w = \<lparr>we_Epoch = e, we_Anchor = a, we_Difficulty = d, we_Root = seats_root cr c e a d (sort_seats seats), we_Seats = sort_seats seats\<rparr>"
    using assms(2) unfolding NewEpoch_iff [OF assms(1)] by blast+
  have i: "sort_seats (sort_seats seats) = sort_seats seats" by (rule sort_seats_perm) simp
  have "WorkEpochRootV1 cr (Some c) e a d (sort_seats seats) = Inr (seats_root cr c e a d (sort_seats seats), sort_seats seats)"
    unfolding EpochRoot_iff using w(1-5) i by simp
  then show ?thesis
    using w nonzero_roots(1) [OF assms(1)] by (simp add: WorkEpochSnapshot_Validate_def list.rel_eq)
qed

text \<open>Closing the epoch whose turn it is schedules the epoch after the next with the retargeted difficulty, and keeps the
  difficulty of the next one.\<close>

definition retargeted :: "int option \<Rightarrow> nat \<Rightarrow> int option \<Rightarrow> bool" where
  "retargeted current observed nxt \<longleftrightarrow> (\<exists>v. NextWorkDifficultyV1 current (of_nat observed) = Inr v \<and> nxt = Some v)"

lemma Advance_eq:
  assumes "nonzero_hash cr" and "difficulty_valid cr c d" and "scheduled m d" and "m + 3 < 2 ^ 64" and "unat e = m + 1"
    and "NewWorkEpochSnapshotV1 cr (Some c) e a (difficulty_of d e) seats = Inr w"
  obtains d' where "AdvanceClosedEpochV1 cr (Some d) (Some c) (Some w) = Inr d'" and "difficulty_valid cr c d'"
    and "scheduled (m + 1) d'" and "\<And>e'. unat e' = m + 2 \<Longrightarrow> difficulty_of d' e' = difficulty_of d e'"
    and "retargeted (difficulty_of d e) (length seats) (difficulty_of d' (e + 2))"
proof -
  note D = DifficultyForEpoch_eq [OF assms(2,3) disjI1 [OF assms(5)]]
  obtain k where k: "difficulty_of d e = Some k" "0 < k" using D(2) by (cases "difficulty_of d e") auto
  obtain v where v: "NextWorkDifficultyV1 (Some k) (of_nat (length seats)) = Inr v" "1 \<le> v" using retarget_bounds [OF k(2)] by blast
  have w: "we_Epoch w = e" "we_Difficulty w = Some k" "we_Seats w = sort_seats seats"
    using assms(6) unfolding NewEpoch_iff [OF assms(1)] k by simp_all
  have o: "\<not> e > maxU64 - 2" using assms(4,5) by (simp add: word_less_nat_alt)
  have e2: "unat (e + 2) = m + 3" using assms(4,5) by (simp add: unat_word_ariths)
  have p: "e mod 2 = 1 \<longleftrightarrow> even m" using assms(5) by (simp add: u64_parity)
  define n where "n = (if even m then d\<lparr>ds_OddEpoch := e + 2, ds_OddDifficulty := Some v\<rparr> else d\<lparr>ds_EvenEpoch := e + 2, ds_EvenDifficulty := Some v\<rparr>)"
  let ?d = "n\<lparr>ds_StateRoot := difficulty_root cr c n\<rparr>"
  have e0: "e + 2 \<noteq> 0" using e2 by (metis add_is_0 unat_0 numeral_3_eq_3 nat.distinct(1))
  have ok: "0 < c" "difficulty_ok n"
    using assms(2) v(2) e2 e0 by (auto simp: n_def difficulty_valid_def difficulty_ok_def)
  then have r: "WorkDifficultyStateRootV1 cr (Some c) (Some n) = Inr (difficulty_root cr c n)" by (simp add: DifficultyRoot_iff)
  have "WorkDifficultyState_Validate cr (Some c) (Some d) = None" using assms(2) by (simp add: Difficulty_Validate_iff)
  then have "AdvanceClosedEpochV1 cr (Some d) (Some c) (Some w) =
      (case WorkDifficultyStateRootV1 cr (Some c) (Some n) of Inl err \<Rightarrow> Inl err | Inr rt \<Rightarrow> Inr (n\<lparr>ds_StateRoot := rt\<rparr>))"
    unfolding AdvanceClosedEpochV1_def Let_def n_def
    using Epoch_Validate_new [OF assms(1,6)] D(1) o by (cases "even m") (simp_all add: w k v p split: sum.split)
  then have A: "AdvanceClosedEpochV1 cr (Some d) (Some c) (Some w) = Inr ?d" by (simp add: r)
  have V: "difficulty_valid cr c ?d"
    unfolding difficulty_valid_def using ok more_nonzero_roots(1) [OF assms(1)] by simp
  have S: "scheduled (m + 1) ?d" using assms(3) e2 by (simp add: n_def scheduled_def)
  have K: "difficulty_of ?d e' = difficulty_of d e'" if "unat e' = m + 2" for e'
    using assms(3) that e2 by (auto simp: n_def difficulty_of_def scheduled_def word_unat_eq_iff)
  have N: "difficulty_of ?d (e + 2) = Some v"
    using assms(3) e2 by (auto simp: n_def difficulty_of_def scheduled_def word_unat_eq_iff)
  have R: "retargeted (difficulty_of d e) (length seats) (difficulty_of ?d (e + 2))"
    unfolding retargeted_def N k(1) using v(1) by blast
  show thesis by (rule that [OF A V S K R])
qed

section \<open>States on schedule\<close>

text \<open>At block \<open>n\<close> with epochs of \<open>L\<close> blocks, \<open>n div L - 1\<close> work epochs are closed, the commit epoch is open strictly inside an
  epoch, it is the one whose turn it is, and it has the scheduled difficulty.\<close>

definition closed_epochs :: "WorkChainSnapshotV1 \<Rightarrow> nat" where
  "closed_epochs w = unat (cs_Number w) div unat (cs_EpochLength w) - 1"

definition on_schedule :: "WorkChainSnapshotV1 \<Rightarrow> WorkDifficultyStateV1 \<Rightarrow> bool" where
  "on_schedule w d \<longleftrightarrow> unat (cs_SelectionEpoch w) = closed_epochs w
     \<and> unat (cs_CommitEpoch w) = (if unat (cs_Number w) mod unat (cs_EpochLength w) = 0 then 0
         else unat (cs_Number w) div unat (cs_EpochLength w))
     \<and> scheduled (closed_epochs w) d
     \<and> (cs_CommitEpoch w \<noteq> 0 \<longrightarrow> cs_CommitDifficulty w = difficulty_of d (cs_CommitEpoch w))
     \<and> ws_Participant ` set (cs_CommitSeats w) \<inter> ws_Participant ` set (cs_SelectionSeats w) = {}"

text \<open>Which blocks a state on schedule accepts.\<close>

definition runtime_block_ok :: "WorkChainSnapshotV1 \<Rightarrow> u64 \<Rightarrow> hash \<Rightarrow> hash \<Rightarrow> hash \<Rightarrow> VerifiedRandomXWorkTicketV1 list \<Rightarrow> bool" where
  "runtime_block_ok w b h parent a verified \<longleftrightarrow> b = cs_Number w + 1 \<and> parent = cs_Hash w \<and> h \<noteq> 0
     \<and> (case commit_epoch b (cs_EpochLength w) of
          None \<Rightarrow> verified = [] \<and> a = 0
        | Some e \<Rightarrow> a \<noteq> 0 \<and> (cs_CommitEpoch w \<noteq> 0 \<longrightarrow> cs_CommitAnchor w = a) \<and> admissible e verified w
            \<and> (b mod cs_EpochLength w = 0 \<longrightarrow>
                ws_TicketHash ` set (cs_SelectionSeats w) \<inter> ws_TicketHash ` set (cs_CommitSeats w @ map seat_of verified) = {}))"

lemma commit_epoch_Some:
  assumes "unat b = Suc n" and "n < 2 ^ 64"
  shows "commit_epoch b L = Some e \<longleftrightarrow> n div unat L \<noteq> 0 \<and> unat e = n div unat L"
    and "commit_epoch b L = None \<longleftrightarrow> n div unat L = 0"
proof -
  have "n div unat L \<le> n" by (rule div_le_dividend)
  then have "n div unat L < 2 ^ 64" using assms(2) by (rule le_less_trans)
  then have "unat (of_nat (n div unat L) :: u64) = n div unat L" by (rule unat_of_nat_u64)
  then show "commit_epoch b L = Some e \<longleftrightarrow> n div unat L \<noteq> 0 \<and> unat e = n div unat L"
    using assms(1) by (auto simp: commit_epoch_def Let_def word_unat_eq_iff)
  show "commit_epoch b L = None \<longleftrightarrow> n div unat L = 0" using assms(1) by (simp add: commit_epoch_def Let_def)
qed

lemma mod_eq_0_unat: "(b :: u64) mod L = 0 \<longleftrightarrow> unat b mod unat L = 0"
  by (simp add: word_unat_eq_iff unat_mod_distrib)

text \<open>The difficulty of a commit is the scheduled one.\<close>

lemma CommitDifficulty_eq:
  assumes "runtime_valid cr c w d s" and "on_schedule w d" and "unat b = Suc (unat (cs_Number w))"
  shows "CommitDifficultyV1 cr (Some s) (Some c) b =
    Inr (case commit_epoch b (cs_EpochLength w) of None \<Rightarrow> (None, False) | Some e \<Rightarrow> (difficulty_of d e, True))"
    and "commit_epoch b (cs_EpochLength w) = Some e \<Longrightarrow> unat e = closed_epochs w + 1 \<and> \<not> not_positive (difficulty_of d e)"
proof -
  have v: "CanonicalWorkRuntimeState_Validate cr (Some c) (Some s) = None" using assms(1) by (auto simp: Runtime_Validate_iff)
  have p: "rs_Work s = Some w" "rs_Difficulty s = Some d" "difficulty_valid cr c d" "snapshot_ok cr c w"
    using assms(1) by (simp_all add: runtime_valid_def runtime_parts_def Snapshot_Validate_iff)
  have b: "b \<noteq> 0" "cs_EpochLength w \<noteq> 0" using assms(3) p(4) by (auto simp: snapshot_ok_def)
  have n: "unat (cs_Number w) < 2 ^ 64" by simp
  have e: "unat e = closed_epochs w + 1" if "commit_epoch b (cs_EpochLength w) = Some e" for e
    using that unfolding commit_epoch_Some(1) [OF assms(3) n] closed_epochs_def by linarith
  have s: "scheduled (closed_epochs w) d" using assms(2) by (simp add: on_schedule_def)
  note D = DifficultyForEpoch_eq [OF p(3) s disjI1 [OF e]]
  show "CommitDifficultyV1 cr (Some s) (Some c) b =
    Inr (case commit_epoch b (cs_EpochLength w) of None \<Rightarrow> (None, False) | Some e \<Rightarrow> (difficulty_of d e, True))"
    using v D(1) by (simp add: CommitDifficultyV1_def Let_def p CommitTarget_eq [OF b] split: option.split)
  show "unat e = closed_epochs w + 1 \<and> \<not> not_positive (difficulty_of d e)" if "commit_epoch b (cs_EpochLength w) = Some e"
    using e [OF that] D(2) [OF that] by blast
qed

abbreviation commit_difficulty :: "WorkChainSnapshotV1 \<Rightarrow> WorkDifficultyStateV1 \<Rightarrow> u64 \<Rightarrow> int option" where
  "commit_difficulty w d b \<equiv> (case commit_epoch b (cs_EpochLength w) of None \<Rightarrow> None | Some e \<Rightarrow> difficulty_of d e)"

lemma work_block_ok_iff:
  assumes "runtime_valid cr c w d s" and "on_schedule w d" and "cs_Number w \<noteq> maxU64"
  shows "work_block_ok w b h parent a (commit_difficulty w d b) verified \<longleftrightarrow> runtime_block_ok w b h parent a verified"
proof (cases "b = cs_Number w + 1 \<and> parent = cs_Hash w \<and> h \<noteq> 0")
  case False
  then show ?thesis by (auto simp: work_block_ok_def runtime_block_ok_def)
next
  case g: True
  then have b: "unat b = Suc (unat (cs_Number w))"
    using assms(3) unat_u64_Suc [of "cs_Number w"] by (metis add.commute add.inverse_unique)
  have ok: "snapshot_ok cr c w" using assms(1) by (simp add: runtime_valid_def runtime_parts_def Snapshot_Validate_iff)
  show ?thesis
  proof (cases "commit_epoch b (cs_EpochLength w)")
    case None
    then show ?thesis using g assms(3) by (auto simp: work_block_ok_def runtime_block_ok_def)
  next
    case (Some e)
    note E = CommitDifficulty_eq(2) [OF assms(1,2) b Some]
    have n: "unat (cs_Number w) < 2 ^ 64" by simp
    have q: "unat e = unat (cs_Number w) div unat (cs_EpochLength w)" using Some commit_epoch_Some(1) [OF b n] by blast
    have c1: "context_ok e a (difficulty_of d e) (child w b h) \<longleftrightarrow> a \<noteq> 0 \<and> (cs_CommitEpoch w \<noteq> 0 \<longrightarrow> cs_CommitAnchor w = a)"
    proof -
      have "cs_CommitEpoch w = e" if "cs_CommitEpoch w \<noteq> 0"
        using assms(2) that q by (auto simp: on_schedule_def word_unat_eq_iff split: if_splits)
      then show ?thesis
        using assms(2) E commit_epoch_nonzero [OF Some] by (auto simp: context_ok_def on_schedule_def)
    qed
    have c2: "seats_ok (cs_SelectionSeats w)"
      using ok by (auto simp: snapshot_ok_def epoch_state_ok_def seats_ok_def split: if_splits)
    have c3: "seats_ok (cs_SelectionSeats w @ cs_CommitSeats w @ map seat_of verified) \<longleftrightarrow>
        ws_TicketHash ` set (cs_SelectionSeats w) \<inter> ws_TicketHash ` set (cs_CommitSeats w @ map seat_of verified) = {}"
      if "admissible e verified w"
    proof -
      have "ws_Participant ` set (cs_SelectionSeats w) \<inter> ws_Participant ` set (cs_CommitSeats w @ map seat_of verified) = {}"
        using that assms(2) unfolding admissible_def on_schedule_def set_append image_Un by blast
      then show ?thesis using c2 that unfolding admissible_def by (simp add: seats_ok_append [of "cs_SelectionSeats w"])
    qed
    have "admissible e verified (child w b h) \<longleftrightarrow> admissible e verified w" by (simp add: admissible_def)
    moreover have "work_block_ok w b h parent a (commit_difficulty w d b) verified \<longleftrightarrow> commit_ok e a (difficulty_of d e) verified (child w b h)"
      unfolding work_block_ok_def Some option.case using g assms(3) by blast
    ultimately have "work_block_ok w b h parent a (commit_difficulty w d b) verified \<longleftrightarrow>
        a \<noteq> 0 \<and> (cs_CommitEpoch w \<noteq> 0 \<longrightarrow> cs_CommitAnchor w = a) \<and> admissible e verified w \<and> (b mod cs_EpochLength w = 0 \<longrightarrow>
          ws_TicketHash ` set (cs_SelectionSeats w) \<inter> ws_TicketHash ` set (cs_CommitSeats w @ map seat_of verified) = {})"
      unfolding commit_ok_def c1 using c3 by (cases "admissible e verified w") simp_all
    then show ?thesis unfolding runtime_block_ok_def Some option.case using g by argo
  qed
qed

section \<open>The step of a state on schedule\<close>

lemma block_next_fields:
  "cs_Number (work_block_next cr c w b h a d verified) = b" "cs_Hash (work_block_next cr c w b h a d verified) = h"
  "cs_EpochLength (work_block_next cr c w b h a d verified) = cs_EpochLength w"
  by (auto simp: work_block_next_def commit_next_def with_context_def close_with_def Let_def split: option.splits)

lemma block_next_open:
  assumes "commit_epoch b (cs_EpochLength w) = Some e" and "b mod cs_EpochLength w \<noteq> 0"
    and n: "n = work_block_next cr c w b h a d verified"
  shows "cs_CommitEpoch n = e" "cs_CommitAnchor n = a" "cs_CommitDifficulty n = d"
    "cs_CommitSeats n = sort_seats (cs_CommitSeats w @ map seat_of verified)"
    "cs_SelectionEpoch n = cs_SelectionEpoch w" "cs_SelectionSeats n = cs_SelectionSeats w"
  using assms by (simp_all add: work_block_next_def commit_next_def with_context_def Let_def)

lemma block_next_close:
  assumes "commit_epoch b (cs_EpochLength w) = Some e" and "b mod cs_EpochLength w = 0"
    and n: "n = work_block_next cr c w b h a d verified"
  shows "cs_CommitEpoch n = 0" "cs_CommitSeats n = []"
    "cs_SelectionEpoch n = e" "cs_SelectionAnchor n = a" "cs_SelectionDifficulty n = d"
    "cs_SelectionSeats n = sort_seats (cs_SelectionSeats w @ cs_CommitSeats w @ map seat_of verified)"
proof -
  have "sort_seats (xs @ sort_seats ys) = sort_seats (xs @ ys)" for xs ys by (rule sort_seats_perm) simp
  then show "cs_CommitEpoch n = 0" "cs_CommitSeats n = []" "cs_SelectionEpoch n = e" "cs_SelectionAnchor n = a"
    "cs_SelectionDifficulty n = d" "cs_SelectionSeats n = sort_seats (cs_SelectionSeats w @ cs_CommitSeats w @ map seat_of verified)"
    using assms by (simp_all add: work_block_next_def commit_next_def with_context_def close_with_def Let_def)
qed

text \<open>The seats admitted by a closing block are those of its commit epoch.\<close>

lemma admissions_close:
  assumes "commit_epoch b (cs_EpochLength w) = Some e" and "b mod cs_EpochLength w = 0"
    and "on_schedule w d" and "admissible e verified w"
  shows "admissions w (work_block_next cr c w b h a dd verified) = sort_seats (cs_CommitSeats w @ map seat_of verified)"
proof -
  let ?P = "\<lambda>seat. ws_Participant seat \<notin> ws_Participant ` set (cs_SelectionSeats w)"
  have d: "ws_Participant ` set (cs_CommitSeats w @ map seat_of verified) \<inter> ws_Participant ` set (cs_SelectionSeats w) = {}"
    using assms(3,4) unfolding admissible_def on_schedule_def set_append image_Un by blast
  have "filter ?P (cs_SelectionSeats w) = []" by (auto simp: filter_empty_conv)
  moreover have "filter ?P (cs_CommitSeats w @ map seat_of verified) = cs_CommitSeats w @ map seat_of verified"
    using d by (intro filter_True) blast
  ultimately have "filter ?P (cs_SelectionSeats w @ cs_CommitSeats w @ map seat_of verified) = cs_CommitSeats w @ map seat_of verified"
    unfolding filter_append [of _ "cs_SelectionSeats w"] by simp
  then show ?thesis by (simp add: admissions_def block_next_close [OF assms(1,2) refl] filter_sort)
qed

lemma schedule_div:
  assumes "unat b = Suc n"
  shows "unat b div L = (if unat b mod L = 0 then Suc (n div L) else n div L)"
  using assms by (simp add: div_Suc)

lemma step_open:
  assumes "on_schedule w d" and "unat b = Suc (unat (cs_Number w))"
    and "runtime_block_ok w b h parent a verified" and "commit_epoch b (cs_EpochLength w) = None \<or> b mod cs_EpochLength w \<noteq> 0"
    and n: "n = work_block_next cr c w b h a (commit_difficulty w d b) verified"
  shows "advance_difficulty cr (Some c) w n d = Inr d" and "on_schedule n d"
proof -
  let ?n = "unat (cs_Number w)" and ?L = "unat (cs_EpochLength w)"
  have s: "unat (cs_SelectionEpoch w) = ?n div ?L - 1" "scheduled (?n div ?L - 1) d"
    "unat (cs_CommitEpoch w) = (if ?n mod ?L = 0 then 0 else ?n div ?L)"
    "ws_Participant ` set (cs_CommitSeats w) \<inter> ws_Participant ` set (cs_SelectionSeats w) = {}"
    using assms(1) by (simp_all add: on_schedule_def closed_epochs_def)
  note N = block_next_fields [of cr c w b h a "commit_difficulty w d b" verified, folded n]
  have n64: "?n < 2 ^ 64" by simp
  have "advance_difficulty cr (Some c) w n d = Inr d \<and> on_schedule n d"
  proof (cases "commit_epoch b (cs_EpochLength w)")
    case None
    then have z: "?n div ?L = 0" using commit_epoch_Some(2) [OF assms(2) n64] by blast
    then have c0: "cs_CommitEpoch w = 0" using s(3) by (simp add: word_unat_eq_iff)
    have f: "cs_SelectionEpoch n = cs_SelectionEpoch w" "cs_CommitEpoch n = cs_CommitEpoch w" "cs_CommitSeats n = cs_CommitSeats w"
      "cs_SelectionSeats n = cs_SelectionSeats w" by (simp_all add: n work_block_next_def None Let_def)
    have "unat b div ?L \<le> 1" using schedule_div [OF assms(2), of ?L] z by simp
    then have "unat b div ?L - 1 = 0" "unat b mod ?L \<noteq> 0 \<longrightarrow> unat b div ?L = 0"
      using schedule_div [OF assms(2), of ?L] z by auto
    then show ?thesis
      using s z c0 by (auto simp: advance_difficulty_def on_schedule_def closed_epochs_def N f)
  next
    case (Some e)
    then have m: "b mod cs_EpochLength w \<noteq> 0" using assms(4) by simp
    have e: "unat e = ?n div ?L" using Some commit_epoch_Some(1) [OF assms(2) n64] by blast
    have q: "unat b div ?L = ?n div ?L" "unat b mod ?L \<noteq> 0"
      using schedule_div [OF assms(2), of ?L] m by (simp_all add: mod_eq_0_unat)
    note F = block_next_open [OF Some m n]
    have a: "admissible e verified w" using assms(3) by (simp add: runtime_block_ok_def Some)
    have "ws_Participant ` set (cs_CommitSeats w @ map seat_of verified) \<inter> ws_Participant ` set (cs_SelectionSeats w) = {}"
      using a s(4) unfolding admissible_def set_append image_Un by blast
    then show ?thesis
      using s e q by (simp add: advance_difficulty_def on_schedule_def closed_epochs_def N F Some)
  qed
  then show "advance_difficulty cr (Some c) w n d = Inr d" "on_schedule n d" by blast+
qed

lemma step_close:
  assumes "nonzero_hash cr" and "runtime_valid cr c w d s" and "on_schedule w d" and "unat b = Suc (unat (cs_Number w))"
    and "unat b + 3 < 2 ^ 64" and "runtime_block_ok w b h parent a verified"
    and "commit_epoch b (cs_EpochLength w) = Some e" and "b mod cs_EpochLength w = 0"
    and n: "n = work_block_next cr c w b h a (commit_difficulty w d b) verified"
  obtains d' where "advance_difficulty cr (Some c) w n d = Inr d'" and "difficulty_valid cr c d'" and "on_schedule n d'"
    and "retargeted (difficulty_of d e) (length (cs_CommitSeats w @ map seat_of verified)) (difficulty_of d' (e + 2))"
proof -
  let ?n = "unat (cs_Number w)" and ?L = "unat (cs_EpochLength w)" and ?seats = "cs_CommitSeats w @ map seat_of verified"
  let ?m = "?n div ?L - 1"
  have s: "scheduled ?m d" "unat (cs_SelectionEpoch w) = ?m" using assms(3) by (simp_all add: on_schedule_def closed_epochs_def)
  have dv: "difficulty_valid cr c d" using assms(2) by (simp add: runtime_valid_def runtime_parts_def)
  have n64: "?n < 2 ^ 64" by simp
  have e: "?n div ?L \<noteq> 0" "unat e = ?n div ?L" using assms(7) commit_epoch_Some(1) [OF assms(4) n64] by blast+
  have em: "unat e = ?m + 1" using e by linarith
  have "?n div ?L \<le> ?n" by (rule div_le_dividend)
  then have m3: "?m + 3 < 2 ^ 64" using assms(4,5) by linarith
  have ok: "a \<noteq> 0" "admissible e verified w" using assms(6) by (simp_all add: runtime_block_ok_def assms(7))
  note F = block_next_close [OF assms(7,8) n] and N = block_next_fields [of cr c w b h a "commit_difficulty w d b" verified, folded n]
  have A: "admissions w n = sort_seats ?seats" unfolding n by (rule admissions_close [OF assms(7,8,3) ok(2)])
  have E: "\<not> not_positive (difficulty_of d e)" using CommitDifficulty_eq(2) [OF assms(2,3,4,7)] by blast
  have "seats_ok ?seats" using ok(2) by (simp add: admissible_def)
  moreover have "0 < c" using dv by (simp add: difficulty_valid_def)
  ultimately obtain wE where wE: "NewWorkEpochSnapshotV1 cr (Some c) e a (difficulty_of d e) (sort_seats ?seats) = Inr wE"
    unfolding NewEpoch_iff [OF assms(1)] using ok(1) E commit_epoch_nonzero [OF assms(7)] by simp
  obtain d' where d': "AdvanceClosedEpochV1 cr (Some d) (Some c) (Some wE) = Inr d'" "difficulty_valid cr c d'"
    "scheduled (?m + 1) d'" "retargeted (difficulty_of d e) (length (sort_seats ?seats)) (difficulty_of d' (e + 2))"
    by (rule Advance_eq [OF assms(1) dv s(1) m3 em wE])
  have ne: "e \<noteq> 0" "e \<noteq> cs_SelectionEpoch w" using commit_epoch_nonzero [OF assms(7)] em s(2) by auto
  have "unat b div ?L - 1 = ?n div ?L" "unat b mod ?L = 0"
    using schedule_div [OF assms(4), of ?L] assms(8) by (simp_all add: mod_eq_0_unat)
  then have "on_schedule n d'"
    using d'(3) em e(2) by (simp add: on_schedule_def closed_epochs_def N F)
  moreover have "advance_difficulty cr (Some c) w n d = Inr d'"
    unfolding advance_difficulty_def A F(3-5) assms(7) option.case using wE d'(1) ne by simp
  ultimately show thesis using that d'(2,4) by simp
qed

lemma unat_next: "cs_Number w \<noteq> maxU64 \<Longrightarrow> unat (cs_Number w + 1) = Suc (unat (cs_Number w))"
  by (rule unat_u64_Suc) (metis add.commute add.inverse_unique)

text \<open>The runtime step once its difficulty is known.\<close>

lemma Runtime_Apply_eq:
  assumes "runtime_valid cr c w d s" and "CommitDifficultyV1 cr (Some s) (Some c) b = Inr (difficulty, hasCommit)"
  shows "Runtime_ApplyVerifiedBlockV1 cr (Some s) (Some c) b h parent a verified =
    (case ApplyVerifiedBlockV1 cr (Some w) (Some c) b h parent a (if \<not> hasCommit then None else difficulty) verified of
       Inl err \<Rightarrow> Inl err
     | Inr nextWork \<Rightarrow> (case advance_difficulty cr (Some c) w nextWork d of
         Inl err \<Rightarrow> Inl err
       | Inr nextDifficulty \<Rightarrow>
           let nxt = \<lparr>rs_Work = Some nextWork, rs_Difficulty = Some nextDifficulty, rs_StateRoot = 0\<rparr> in
           (case CanonicalWorkRuntimeStateRootV1 cr (Some c) (Some nxt) of
              Inl err \<Rightarrow> Inl err
            | Inr rt \<Rightarrow> Inr (nxt\<lparr>rs_StateRoot := rt\<rparr>))))"
proof -
  have v: "CanonicalWorkRuntimeState_Validate cr (Some c) (Some s) = None" using assms(1) by (auto simp: Runtime_Validate_iff)
  have p: "rs_Work s = Some w" "rs_Difficulty s = Some d" using assms(1) by (simp_all add: runtime_valid_def runtime_parts_def)
  show ?thesis
    unfolding Runtime_ApplyVerifiedBlockV1_def Let_def option.sel v p assms(2) option.case sum.case prod.case by (rule refl)
qed

lemma Runtime_Apply_rejects:
  assumes "nonzero_hash cr" and "runtime_valid cr c w d s" and "on_schedule w d"
    and "Runtime_ApplyVerifiedBlockV1 cr (Some s) (Some c) b h parent a verified = Inr s'"
  shows "runtime_block_ok w b h parent a verified" and "cs_Number w \<noteq> maxU64"
proof -
  have v: "CanonicalWorkRuntimeState_Validate cr (Some c) (Some s) = None" using assms(2) by (auto simp: Runtime_Validate_iff)
  have w: "WorkChainSnapshot_Validate cr (Some c) (Some w) = None" using assms(2) by (simp add: runtime_valid_def runtime_parts_def)
  obtain difficulty hasCommit where D: "CommitDifficultyV1 cr (Some s) (Some c) b = Inr (difficulty, hasCommit)"
    using assms(4) v by (cases "CommitDifficultyV1 cr (Some s) (Some c) b") (auto simp: Runtime_ApplyVerifiedBlockV1_def Let_def)
  then obtain nw where "ApplyVerifiedBlockV1 cr (Some w) (Some c) b h parent a (if \<not> hasCommit then None else difficulty) verified = Inr nw"
    using assms(4) unfolding Runtime_Apply_eq [OF assms(2) D] by (auto split: sum.splits)
  then have ok: "work_block_ok w b h parent a (if \<not> hasCommit then None else difficulty) verified"
    unfolding Apply_iff [OF assms(1) w] by blast
  then show m: "cs_Number w \<noteq> maxU64" by (simp add: work_block_ok_def)
  have "unat b = Suc (unat (cs_Number w))" using ok unat_next [OF m] by (simp add: work_block_ok_def)
  from CommitDifficulty_eq(1) [OF assms(2,3) this] D
  have "(if \<not> hasCommit then None else difficulty) = commit_difficulty w d b" by (auto split: option.splits)
  then show "runtime_block_ok w b h parent a verified" using ok work_block_ok_iff [OF assms(2,3) m] by metis
qed

lemma Runtime_Apply_accepts:
  assumes "nonzero_hash cr" and "runtime_valid cr c w d s" and "on_schedule w d" and "unat (cs_Number w) + 4 < 2 ^ 64"
    and "runtime_block_ok w b h parent a verified" and n: "n = work_block_next cr c w b h a (commit_difficulty w d b) verified"
  obtains d' s' where "Runtime_ApplyVerifiedBlockV1 cr (Some s) (Some c) b h parent a verified = Inr s'"
    and "runtime_valid cr c n d' s'" and "on_schedule n d'"
    and "\<And>e. commit_epoch b (cs_EpochLength w) = Some e \<Longrightarrow> b mod cs_EpochLength w = 0 \<Longrightarrow>
      retargeted (difficulty_of d e) (length (cs_CommitSeats w @ map seat_of verified)) (difficulty_of d' (e + 2))"
proof -
  have "unat (cs_Number w + 1) = Suc (unat (cs_Number w))" using unat_u64_plus [of "cs_Number w" 1] assms(4) by simp
  then have m: "cs_Number w \<noteq> maxU64" by auto
  have b: "unat b = Suc (unat (cs_Number w))" using assms(5) unat_next [OF m] by (simp add: runtime_block_ok_def)
  have w1: "WorkChainSnapshot_Validate cr (Some c) (Some w) = None" using assms(2) by (simp add: runtime_valid_def runtime_parts_def)
  then have w2: "snapshot_ok cr c w" by (simp add: Snapshot_Validate_iff)
  have ok: "work_block_ok w b h parent a (commit_difficulty w d b) verified" using assms(5) work_block_ok_iff [OF assms(2,3) m] by blast
  have nv: "WorkChainSnapshot_Validate cr (Some c) (Some n) = None" unfolding n by (rule block_next_ok [OF assms(1) w2 ok])
  have ap: "ApplyVerifiedBlockV1 cr (Some w) (Some c) b h parent a (commit_difficulty w d b) verified = Inr n"
    unfolding Apply_iff [OF assms(1) w1] n using ok by blast
  obtain d' where d': "advance_difficulty cr (Some c) w n d = Inr d'" "difficulty_valid cr c d'" "on_schedule n d'"
    "\<And>e. commit_epoch b (cs_EpochLength w) = Some e \<Longrightarrow> b mod cs_EpochLength w = 0 \<Longrightarrow>
      retargeted (difficulty_of d e) (length (cs_CommitSeats w @ map seat_of verified)) (difficulty_of d' (e + 2))"
  proof (cases "commit_epoch b (cs_EpochLength w) = None \<or> b mod cs_EpochLength w \<noteq> 0")
    case True
    have "difficulty_valid cr c d" using assms(2) by (simp add: runtime_valid_def runtime_parts_def)
    with step_open [OF assms(3) b assms(5) True n] True show thesis by (intro that [of d]) auto
  next
    case False
    then obtain e where e: "commit_epoch b (cs_EpochLength w) = Some e" "b mod cs_EpochLength w = 0" by auto
    have "unat b + 3 < 2 ^ 64" using assms(4) b by simp
    from step_close [OF assms(1,2,3) b this assms(5) e n] obtain d' where "advance_difficulty cr (Some c) w n d = Inr d'"
      "difficulty_valid cr c d'" "on_schedule n d'"
      "retargeted (difficulty_of d e) (length (cs_CommitSeats w @ map seat_of verified)) (difficulty_of d' (e + 2))" by metis
    with e(1) show thesis by (intro that [of d']) auto
  qed
  let ?s = "\<lparr>rs_Work = Some n, rs_Difficulty = Some d', rs_StateRoot = 0\<rparr>"
  let ?r = "runtime_root cr c (cs_StateRoot n) (ds_StateRoot d')"
  have p: "runtime_parts cr c n d' ?s" using nv d'(2) by (simp add: runtime_parts_def)
  then have r: "CanonicalWorkRuntimeStateRootV1 cr (Some c) (Some ?s) = Inr ?r" unfolding RuntimeRoot_iff by blast
  obtain difficulty hasCommit where D: "CommitDifficultyV1 cr (Some s) (Some c) b = Inr (difficulty, hasCommit)"
    "(if \<not> hasCommit then None else difficulty) = commit_difficulty w d b"
    using CommitDifficulty_eq(1) [OF assms(2,3) b] by (cases "commit_epoch b (cs_EpochLength w)") auto
  have "Runtime_ApplyVerifiedBlockV1 cr (Some s) (Some c) b h parent a verified = Inr (?s\<lparr>rs_StateRoot := ?r\<rparr>)"
    unfolding Runtime_Apply_eq [OF assms(2) D(1)] D(2) ap using d'(1) r by (simp add: Let_def)
  moreover have "runtime_valid cr c n d' (?s\<lparr>rs_StateRoot := ?r\<rparr>)"
    using p more_nonzero_roots(2) [OF assms(1)] by (simp add: runtime_valid_def runtime_parts_def)
  ultimately show thesis using that d'(3,4) by blast
qed

section \<open>Chains of runtime states\<close>

text \<open>The states of a chain of fewer than \<open>2^63\<close> blocks that starts at its genesis.\<close>

inductive runtime_chain :: "crypto \<Rightarrow> int \<Rightarrow> CanonicalWorkRuntimeStateV1 \<Rightarrow> bool" for cr c where
  genesis: "NewCanonicalWorkRuntimeStateV1 cr (Some c) 0 h L initial = Inr s \<Longrightarrow> runtime_chain cr c s"
| block: "\<lbrakk>runtime_chain cr c s; unat b < 2 ^ 63;
    Runtime_ApplyVerifiedBlockV1 cr (Some s) (Some c) b h parent a verified = Inr s'\<rbrakk> \<Longrightarrow> runtime_chain cr c s'"

definition chain_state :: "crypto \<Rightarrow> int \<Rightarrow> WorkChainSnapshotV1 \<Rightarrow> WorkDifficultyStateV1 \<Rightarrow> CanonicalWorkRuntimeStateV1 \<Rightarrow> bool" where
  "chain_state cr c w d s \<longleftrightarrow> runtime_valid cr c w d s \<and> on_schedule w d \<and> unat (cs_Number w) < 2 ^ 63"

lemma genesis_state:
  assumes "nonzero_hash cr" and "NewCanonicalWorkRuntimeStateV1 cr (Some c) 0 h L initial = Inr s"
  shows "\<exists>w d. chain_state cr c w d s"
proof -
  let ?w = "(empty_snapshot 0 h L)\<lparr>cs_StateRoot := state_root cr c (empty_snapshot 0 h L)\<rparr>"
  let ?e = "\<lparr>ds_OddEpoch = 1, ds_OddDifficulty = initial, ds_EvenEpoch = 2, ds_EvenDifficulty = initial, ds_StateRoot = 0\<rparr>"
  let ?d = "?e\<lparr>ds_StateRoot := difficulty_root cr c ?e\<rparr>"
  obtain w d rt where n: "NewWorkChainSnapshotV1 cr (Some c) 0 h L = Inr w" "NewWorkDifficultyStateV1 cr (Some c) initial = Inr d"
    and r: "CanonicalWorkRuntimeStateRootV1 cr (Some c) (Some \<lparr>rs_Work = Some w, rs_Difficulty = Some d, rs_StateRoot = 0\<rparr>) = Inr rt"
    and s: "s = \<lparr>rs_Work = Some w, rs_Difficulty = Some d, rs_StateRoot = rt\<rparr>"
    using assms(2) unfolding NewCanonicalWorkRuntimeStateV1_def Let_def result_iffs by auto
  have w: "w = ?w" and L: "L \<noteq> 0"
    using n(1) unfolding NewWorkChainSnapshotV1_def Let_def result_iffs StateRoot_iff by auto
  have d: "d = ?d" using n(2) unfolding NewWorkDifficultyStateV1_def Let_def result_iffs DifficultyRoot_iff by auto
  from r obtain "runtime_parts cr c w d \<lparr>rs_Work = Some w, rs_Difficulty = Some d, rs_StateRoot = 0\<rparr>"
    and "rt = runtime_root cr c (cs_StateRoot w) (ds_StateRoot d)" unfolding RuntimeRoot_iff by (auto simp: runtime_parts_def)
  then have "runtime_valid cr c w d s"
    using more_nonzero_roots(2) [OF assms(1)] by (simp add: runtime_valid_def runtime_parts_def s)
  moreover have "on_schedule w d"
    using L unfolding w d on_schedule_def closed_epochs_def scheduled_def by (simp add: empty_snapshot_def)
  ultimately show ?thesis unfolding chain_state_def by (intro exI [of _ w] exI [of _ d]) (simp add: w empty_snapshot_def)
qed

lemma chain_step:
  assumes "nonzero_hash cr" and "chain_state cr c w d s" and "unat b < 2 ^ 63"
    and "Runtime_ApplyVerifiedBlockV1 cr (Some s) (Some c) b h parent a verified = Inr s'"
  obtains w' d' where "chain_state cr c w' d' s'" and "runtime_block_ok w b h parent a verified"
    and "w' = work_block_next cr c w b h a (commit_difficulty w d b) verified"
    and "\<And>e. commit_epoch b (cs_EpochLength w) = Some e \<Longrightarrow> b mod cs_EpochLength w = 0 \<Longrightarrow>
      retargeted (difficulty_of d e) (length (cs_CommitSeats w @ map seat_of verified)) (difficulty_of d' (e + 2))"
proof -
  have v: "runtime_valid cr c w d s" "on_schedule w d" using assms(2) by (simp_all add: chain_state_def)
  have n: "unat (cs_Number w) + 4 < 2 ^ 64" using assms(2) by (simp add: chain_state_def)
  note ok = Runtime_Apply_rejects(1) [OF assms(1) v assms(4)]
  let ?w = "work_block_next cr c w b h a (commit_difficulty w d b) verified"
  from Runtime_Apply_accepts [OF assms(1) v n ok refl] obtain d' s''
    where a: "Runtime_ApplyVerifiedBlockV1 cr (Some s) (Some c) b h parent a verified = Inr s''"
      "runtime_valid cr c ?w d' s''" "on_schedule ?w d'"
      "\<And>e. commit_epoch b (cs_EpochLength w) = Some e \<Longrightarrow> b mod cs_EpochLength w = 0 \<Longrightarrow>
        retargeted (difficulty_of d e) (length (cs_CommitSeats w @ map seat_of verified)) (difficulty_of d' (e + 2))" by blast
  have "s'' = s'" using a(1) assms(4) by simp
  then have "chain_state cr c ?w d' s'" using a(2,3) assms(3) by (simp add: chain_state_def block_next_fields)
  from that [OF this ok refl a(4)] show thesis .
qed

lemma chain_invariant:
  assumes "runtime_chain cr c s" and "nonzero_hash cr"
  shows "\<exists>w d. chain_state cr c w d s"
  using assms
proof (induction rule: runtime_chain.induct)
  case (genesis h L initial s)
  then show ?case by (intro genesis_state)
next
  case (block s b h parent a verified s')
  then obtain w d where "chain_state cr c w d s" by blast
  from chain_step [OF block.prems this block.hyps(2,3)] show ?case by metis
qed

section \<open>Selection\<close>

lemma SelectionSource_eq:
  assumes "unat b = Suc n" and "L \<noteq> 0"
  shows "n div unat L < 2 \<Longrightarrow> WorkSelectionSourceEpochV1 b L = Inr None"
    and "2 \<le> n div unat L \<Longrightarrow> \<exists>e. WorkSelectionSourceEpochV1 b L = Inr (Some e) \<and> unat e = n div unat L - 1"
proof -
  let ?q = "n div unat L"
  have b: "b \<noteq> 0" using assms(1) by auto
  have "?q \<le> n" by (rule div_le_dividend)
  moreover have "Suc n < 2 ^ 64" unfolding assms(1) [symmetric] by simp
  ultimately have q: "?q + 1 < 2 ^ 64" by linarith
  have e: "WorkEpochForBlockV1 b L = Inr (of_nat ?q + 1)"
    unfolding EpochForBlock_iff using assms b q by (simp add: unat_word_ariths unat_of_nat)
  have l: "of_nat ?q + 1 \<le> (2 :: u64) \<longleftrightarrow> ?q < 2"
    using q by (auto simp: word_le_nat_alt unat_word_ariths unat_of_nat)
  show "WorkSelectionSourceEpochV1 b L = Inr None" if "?q < 2"
    using that by (simp add: WorkSelectionSourceEpochV1_def e WorkSelectionDelayEpochsV1_def l)
  show "\<exists>e. WorkSelectionSourceEpochV1 b L = Inr (Some e) \<and> unat e = ?q - 1" if "2 \<le> ?q"
  proof -
    have "unat (of_nat ?q + 1 - 2 :: u64) = ?q - 1"
      using that q unat_sub [of 2 "of_nat ?q + 1 :: u64"] l by (simp add: word_le_nat_alt unat_word_ariths unat_of_nat)
    then show ?thesis using that by (simp add: WorkSelectionSourceEpochV1_def e WorkSelectionDelayEpochsV1_def l)
  qed
qed

text \<open>The seats that a state offers for the selection at the next block.\<close>

definition selection_of :: "WorkChainSnapshotV1 \<Rightarrow> WorkEpochSnapshotV1 option" where
  "selection_of w = (if unat (cs_Number w) div unat (cs_EpochLength w) < 2 then None
     else Some \<lparr>we_Epoch = cs_SelectionEpoch w, we_Anchor = cs_SelectionAnchor w, we_Difficulty = cs_SelectionDifficulty w,
       we_Root = cs_SelectionRoot w, we_Seats = cs_SelectionSeats w\<rparr>)"

lemma Selection_available:
  assumes "nonzero_hash cr" and "chain_state cr c w d s"
  shows "SelectionSnapshotV1 cr (Some w) (Some c) (cs_Number w + 1) = Inr (selection_of w)"
proof -
  let ?q = "unat (cs_Number w) div unat (cs_EpochLength w)"
  have ok: "snapshot_ok cr c w" and sch: "unat (cs_SelectionEpoch w) = ?q - 1" and n: "unat (cs_Number w) < 2 ^ 63"
    using assms(2) by (auto simp: chain_state_def runtime_valid_def runtime_parts_def Snapshot_Validate_iff on_schedule_def closed_epochs_def)
  have L: "cs_EpochLength w \<noteq> 0" using ok by (simp add: snapshot_ok_def)
  have b: "unat (cs_Number w + 1) = Suc (unat (cs_Number w))" using unat_u64_plus [of "cs_Number w" 1] n by simp
  show ?thesis
  proof (cases "?q < 2")
    case True
    then show ?thesis using SelectionSource_eq(1) [OF b L] L by (simp add: SelectionSnapshotV1_def selection_of_def)
  next
    case False
    then obtain e where e: "WorkSelectionSourceEpochV1 (cs_Number w + 1) (cs_EpochLength w) = Inr (Some e)" "unat e = ?q - 1"
      using SelectionSource_eq(2) [OF b L] by auto
    have se: "cs_SelectionEpoch w = e" "e \<noteq> 0" using e(2) sch False by (auto simp: word_unat_eq_iff)
    note o = ok [unfolded snapshot_ok_def epoch_state_ok_def, simplified se, simplified]
    have srt: "sort_seats (cs_SelectionSeats w) = cs_SelectionSeats w" using o by (simp add: sort_seats_id)
    have "WorkEpochRootV1 cr (Some c) e (cs_SelectionAnchor w) (cs_SelectionDifficulty w) (cs_SelectionSeats w) =
        Inr (cs_SelectionRoot w, cs_SelectionSeats w)"
      unfolding EpochRoot_iff using o se srt by simp
    moreover have "cs_SelectionRoot w \<noteq> 0" using o nonzero_roots(1) [OF assms(1)] by simp
    moreover have "cs_SelectionDifficulty w \<noteq> None" using o by (cases "cs_SelectionDifficulty w") auto
    ultimately show ?thesis
      using L e(1) se o False by (simp add: SelectionSnapshotV1_def selection_of_def WorkEpochSnapshot_Validate_def list.rel_eq)
  qed
qed

section \<open>Properties\<close>


lemma on_schedule_distinct:
  assumes "chain_state cr c w d s"
  shows "distinct (map ws_Participant (cs_SelectionSeats w @ cs_CommitSeats w))"
proof -
  have "snapshot_ok cr c w" and dis: "ws_Participant ` set (cs_CommitSeats w) \<inter> ws_Participant ` set (cs_SelectionSeats w) = {}"
    using assms by (simp_all add: chain_state_def runtime_valid_def runtime_parts_def Snapshot_Validate_iff on_schedule_def)
  then have "distinct (map ws_Participant (cs_SelectionSeats w))" "distinct (map ws_Participant (cs_CommitSeats w))"
    by (auto simp: snapshot_ok_def epoch_state_ok_def seats_ok_def split: if_splits)
  with dis show ?thesis unfolding map_append distinct_append set_map by blast
qed

text \<open>Closing blocks are those that change the selection epoch.\<close>

lemma closing_iff:
  assumes "chain_state cr c w d s" and "unat b = Suc (unat (cs_Number w))" and "n = work_block_next cr c w b h a dd verified"
  shows "cs_SelectionEpoch n \<noteq> cs_SelectionEpoch w \<longleftrightarrow> commit_epoch b (cs_EpochLength w) \<noteq> None \<and> b mod cs_EpochLength w = 0"
proof (cases "commit_epoch b (cs_EpochLength w)")
  case None
  then show ?thesis by (simp add: assms(3) work_block_next_def Let_def)
next
  case (Some e)
  have v: "runtime_valid cr c w d s" "on_schedule w d" using assms(1) by (simp_all add: chain_state_def)
  have "unat e = closed_epochs w + 1" using CommitDifficulty_eq(2) [OF v assms(2) Some] by blast
  then have "e \<noteq> cs_SelectionEpoch w" using v(2) by (auto simp: on_schedule_def)
  then show ?thesis
    using block_next_open(5) [OF Some _ assms(3)] block_next_close(3) [OF Some _ assms(3)] Some
    by (cases "b mod cs_EpochLength w = 0") auto
qed

lemma chain_next_number:
  assumes "chain_state cr c w d s" and "runtime_block_ok w b h parent a verified"
  shows "unat b = Suc (unat (cs_Number w))"
  using assms unat_u64_plus [of "cs_Number w" 1] by (simp add: chain_state_def runtime_block_ok_def)

lemma closing_difficulty:
  assumes "chain_state cr c w d s" and "chain_state cr c w' d' s'" and "unat b = Suc (unat (cs_Number w))"
    and "commit_epoch b (cs_EpochLength w) = Some e" and "b mod cs_EpochLength w = 0"
    and "w' = work_block_next cr c w b h a dd verified"
    and "retargeted (difficulty_of d e) (length (cs_CommitSeats w @ map seat_of verified)) (difficulty_of d' (e + 2))"
  shows "unat e = unat (cs_SelectionEpoch w) + 1"
    and "\<exists>k k'. DifficultyForEpochV1 cr (rs_Difficulty s) (Some c) e = Inr k
      \<and> NextWorkDifficultyV1 k (of_nat (length (cs_SelectionSeats w') - length (cs_SelectionSeats w))) = Inr k'
      \<and> DifficultyForEpochV1 cr (rs_Difficulty s') (Some c) (e + 2) = Inr (Some k')"
proof -
  have v: "runtime_valid cr c w d s" "on_schedule w d" and v': "runtime_valid cr c w' d' s'" "on_schedule w' d'"
    using assms(1,2) by (simp_all add: chain_state_def)
  have p: "rs_Difficulty s = Some d" "difficulty_valid cr c d" "rs_Difficulty s' = Some d'" "difficulty_valid cr c d'"
    using v(1) v'(1) by (simp_all add: runtime_valid_def runtime_parts_def)
  have e: "unat e = closed_epochs w + 1" using CommitDifficulty_eq(2) [OF v assms(3,4)] by blast
  then show "unat e = unat (cs_SelectionEpoch w) + 1" using v(2) by (simp add: on_schedule_def)
  note F = block_next_close [OF assms(4,5,6)]
  have e': "unat e = closed_epochs w'" using v'(2) F(3) by (simp add: on_schedule_def)
  have "closed_epochs w' \<le> unat (cs_Number w')" unfolding closed_epochs_def using div_le_dividend [of "unat (cs_Number w')"] by (rule diff_le_self [THEN le_trans])
  then have "unat e + 2 < 2 ^ 64" using e' assms(2) by (simp add: chain_state_def)
  then have e2: "unat (e + 2) = closed_epochs w' + 2" using e' by (simp add: unat_word_ariths)
  have D: "DifficultyForEpochV1 cr (rs_Difficulty s) (Some c) e = Inr (difficulty_of d e)"
    using DifficultyForEpoch_eq(1) [OF p(2) _ disjI1 [OF e]] v(2) by (simp add: p on_schedule_def)
  have D': "DifficultyForEpochV1 cr (rs_Difficulty s') (Some c) (e + 2) = Inr (difficulty_of d' (e + 2))"
    using DifficultyForEpoch_eq(1) [OF p(4) _ disjI2 [OF e2]] v'(2) by (simp add: p on_schedule_def)
  have l: "length (cs_SelectionSeats w') - length (cs_SelectionSeats w) = length (cs_CommitSeats w @ map seat_of verified)"
    by (simp add: F)
  from assms(7) obtain k' where k: "NextWorkDifficultyV1 (difficulty_of d e) (of_nat (length (cs_CommitSeats w @ map seat_of verified))) = Inr k'"
    "difficulty_of d' (e + 2) = Some k'" unfolding retargeted_def by blast
  then show "\<exists>k k'. DifficultyForEpochV1 cr (rs_Difficulty s) (Some c) e = Inr k
      \<and> NextWorkDifficultyV1 k (of_nat (length (cs_SelectionSeats w') - length (cs_SelectionSeats w))) = Inr k'
      \<and> DifficultyForEpochV1 cr (rs_Difficulty s') (Some c) (e + 2) = Inr (Some k')"
    unfolding l D D' by (intro exI [of _ "difficulty_of d e"] exI [of _ k']) simp
qed


section \<open>A sample chain\<close>

text \<open>Epochs of one block: block 1 commits nothing, block 2 commits and closes work epoch 1.\<close>

lemma sample_nonzero_hash: "nonzero_hash sample_crypto"
  by (simp add: nonzero_hash_def)

lemma sample_genesis:
  "\<exists>s w. NewCanonicalWorkRuntimeStateV1 sample_crypto (Some 1) 0 5 1 (Some 9) = Inr s \<and> rs_Work s = Some w
    \<and> cs_Number w = 0 \<and> cs_Hash w = 5 \<and> cs_EpochLength w = 1"
proof -
  have "snapshot_ok sample_crypto 1 (empty_snapshot 0 5 1)"
    by (simp add: snapshot_ok_def epoch_state_ok_def empty_snapshot_def)
  then have r: "WorkChainStateRootV1 sample_crypto (Some 1) (Some (empty_snapshot 0 5 1)) =
      Inr (state_root sample_crypto 1 (empty_snapshot 0 5 1))" by (simp add: StateRoot_iff)
  define w where "w = (empty_snapshot 0 5 1)\<lparr>cs_StateRoot := state_root sample_crypto 1 (empty_snapshot 0 5 1)\<rparr>"
  have w: "NewWorkChainSnapshotV1 sample_crypto (Some 1) 0 5 1 = Inr w"
    by (simp add: NewWorkChainSnapshotV1_def Let_def r w_def)
  obtain d where d: "NewWorkDifficultyStateV1 sample_crypto (Some 1) (Some 9) = Inr d" "difficulty_valid sample_crypto 1 d"
  proof -
    define d where "d = \<lparr>ds_OddEpoch = 1, ds_OddDifficulty = Some 9, ds_EvenEpoch = 2, ds_EvenDifficulty = Some 9, ds_StateRoot = 0\<rparr>"
    have o: "difficulty_ok d" by (simp add: d_def difficulty_ok_def)
    then have r: "WorkDifficultyStateRootV1 sample_crypto (Some 1) (Some d) = Inr (difficulty_root sample_crypto 1 d)"
      by (simp add: DifficultyRoot_iff)
    have "NewWorkDifficultyStateV1 sample_crypto (Some 1) (Some 9) = Inr (d\<lparr>ds_StateRoot := difficulty_root sample_crypto 1 d\<rparr>)"
      unfolding NewWorkDifficultyStateV1_def Let_def d_def [symmetric] r by simp
    moreover have "difficulty_valid sample_crypto 1 (d\<lparr>ds_StateRoot := difficulty_root sample_crypto 1 d\<rparr>)"
      using o more_nonzero_roots(1) [OF sample_nonzero_hash] by (simp add: difficulty_valid_def)
    ultimately show thesis by (rule that)
  qed
  have "WorkChainSnapshot_Validate sample_crypto (Some 1) (Some w) = None"
    using \<open>snapshot_ok sample_crypto 1 (empty_snapshot 0 5 1)\<close> nonzero_roots(2) [OF sample_nonzero_hash]
    by (simp add: Snapshot_Validate_iff w_def)
  then obtain rt where "CanonicalWorkRuntimeStateRootV1 sample_crypto (Some 1)
      (Some \<lparr>rs_Work = Some w, rs_Difficulty = Some d, rs_StateRoot = 0\<rparr>) = Inr rt"
    using d(2) by (simp add: RuntimeRoot_iff runtime_parts_def)
  then show ?thesis using w d(1) by (simp add: NewCanonicalWorkRuntimeStateV1_def w_def empty_snapshot_def)
qed

definition sample_ticket :: VerifiedRandomXWorkTicketV1 where
  "sample_ticket = \<lparr>vt_Ticket = \<lparr>tk_Version = 2, tk_Epoch = 1, tk_Participant = 7, tk_Nonce = 0\<rparr>, vt_Hash = 12\<rparr>"

lemma sample_block1:
  "\<exists>s w. runtime_chain sample_crypto 1 s \<and> rs_Work s = Some w \<and> cs_Number w = 1 \<and> cs_Hash w = 6 \<and> cs_EpochLength w = 1
    \<and> cs_CommitEpoch w = 0 \<and> cs_CommitSeats w = [] \<and> cs_SelectionSeats w = [] \<and> runtime_block_ok w 2 8 6 3 [sample_ticket]"
proof -
  obtain s w where s: "NewCanonicalWorkRuntimeStateV1 sample_crypto (Some 1) 0 5 1 (Some 9) = Inr s" and rw: "rs_Work s = Some w"
    and w: "cs_Number w = 0" "cs_Hash w = 5" "cs_EpochLength w = 1" using sample_genesis by blast
  have ch: "runtime_chain sample_crypto 1 s" by (rule runtime_chain.genesis [OF s])
  obtain d where st: "chain_state sample_crypto 1 w d s"
    using chain_invariant [OF ch sample_nonzero_hash] rw by (auto simp: chain_state_def runtime_valid_def runtime_parts_def)
  have ok: "runtime_block_ok w 1 6 5 0 []" by (simp add: runtime_block_ok_def w commit_epoch_def)
  have v: "runtime_valid sample_crypto 1 w d s" "on_schedule w d" "unat (cs_Number w) + 4 < 2 ^ 64"
    using st by (simp_all add: chain_state_def w)
  obtain d' s' where a: "Runtime_ApplyVerifiedBlockV1 sample_crypto (Some s) (Some 1) 1 6 5 0 [] = Inr s'"
    "runtime_valid sample_crypto 1 (work_block_next sample_crypto 1 w 1 6 0 (commit_difficulty w d 1) []) d' s'"
    using Runtime_Apply_accepts [OF sample_nonzero_hash v ok refl] by metis
  define w1 where "w1 = work_block_next sample_crypto 1 w 1 6 0 (commit_difficulty w d 1) []"
  have e: "commit_epoch 1 1 = None" "commit_epoch 2 1 = Some 1" by (simp_all add: commit_epoch_def)
  have "snapshot_ok sample_crypto 1 w" using v(1) by (simp add: runtime_valid_def runtime_parts_def Snapshot_Validate_iff)
  moreover have "unat (cs_CommitEpoch w) = 0" "unat (cs_SelectionEpoch w) = 0"
    using v(2) by (simp_all add: on_schedule_def closed_epochs_def w)
  ultimately have z: "cs_CommitEpoch w = 0" "cs_CommitSeats w = []" "cs_SelectionSeats w = []"
    by (auto simp: snapshot_ok_def epoch_state_ok_def word_unat_eq_iff split: if_splits)
  have f: "cs_CommitEpoch w1 = 0" "cs_CommitSeats w1 = []" "cs_SelectionSeats w1 = []"
    using z by (simp_all add: w1_def work_block_next_def w e Let_def)
  have g: "cs_Number w1 = 1" "cs_Hash w1 = 6" "cs_EpochLength w1 = 1" by (simp_all add: w1_def block_next_fields w)
  have ok2: "runtime_block_ok w1 2 8 6 3 [sample_ticket]"
    by (simp add: runtime_block_ok_def g e f admissible_def sample_ticket_def seat_of_def seats_ok_def
        validateRandomXWorkTicketV1_def RandomXWorkProtocolVersion_def)
  have "runtime_chain sample_crypto 1 s'" by (rule runtime_chain.block [OF ch _ a(1)]) simp
  moreover have "rs_Work s' = Some w1" using a(2) by (simp add: w1_def runtime_valid_def runtime_parts_def)
  ultimately show ?thesis using f g ok2 by blast
qed



end
