(* ===== verification/Exec_Rules.thy ===== *)
theory Exec_Rules
  imports Header
begin

text \<open>
  The execution rules of a header that the engine enforces itself: the gas limit (\<open>consensus/misc/gaslimit.go\<close>), the base fee
  (\<open>consensus/misc/eip1559/eip1559.go\<close>), the fork schedule (\<open>params/config.go\<close>) and \<open>verifyExecutionHeaderRules\<close> of
  \<open>consensus/lqc/lqc.go\<close>. Go's \<open>int64\<close> arithmetic is arithmetic of 64-bit words read as signed numbers. A chain
  identifier is not negative. \<open>GoPanic\<close> is a run-time panic: a division by zero or a nil pointer.
\<close>

section \<open>The chain configuration\<close>

record ChainConfig =
  cc_ChainID :: "nat option"
  cc_LondonBlock :: "int option"
  cc_ShanghaiTime :: "u64 option"
  cc_CancunTime :: "u64 option"
  cc_PragueTime :: "u64 option"

definition isBlockForked :: "int option \<Rightarrow> int option \<Rightarrow> bool" where
  "isBlockForked s head = (case (s, head) of (Some s, Some head) \<Rightarrow> s \<le> head | _ \<Rightarrow> False)"

definition isTimestampForked :: "u64 option \<Rightarrow> u64 \<Rightarrow> bool" where
  "isTimestampForked s head = (case s of None \<Rightarrow> False | Some s \<Rightarrow> s \<le> head)"

definition IsLondon :: "ChainConfig \<Rightarrow> int option \<Rightarrow> bool" where
  "IsLondon c num = isBlockForked (cc_LondonBlock c) num"

definition IsShanghai :: "ChainConfig \<Rightarrow> int option \<Rightarrow> u64 \<Rightarrow> bool" where
  "IsShanghai c num time = (IsLondon c num \<and> isTimestampForked (cc_ShanghaiTime c) time)"

definition IsCancun :: "ChainConfig \<Rightarrow> int option \<Rightarrow> u64 \<Rightarrow> bool" where
  "IsCancun c num time = (IsLondon c num \<and> isTimestampForked (cc_CancunTime c) time)"

definition IsPrague :: "ChainConfig \<Rightarrow> int option \<Rightarrow> u64 \<Rightarrow> bool" where
  "IsPrague c num time = (IsLondon c num \<and> isTimestampForked (cc_PragueTime c) time)"

definition BaseFeeChangeDenominator :: u64 where
  "BaseFeeChangeDenominator = 8"

definition ElasticityMultiplier :: u64 where
  "ElasticityMultiplier = 2"

definition GasLimitBoundDivisor :: u64 where
  "GasLimitBoundDivisor = 1024"

definition MinGasLimit :: u64 where
  "MinGasLimit = 5000"

definition MaxGasLimit :: u64 where
  "MaxGasLimit = 0x7fffffffffffffff"

definition InitialBaseFee :: int where
  "InitialBaseFee = 1000000000"

section \<open>Gas limit and base fee\<close>

datatype exec_error =
    ErrGasLimitOutOfBounds
  | ErrGasLimitBelowMinimum
  | ErrMissingBaseFee
  | ErrParentMissingBaseFee
  | ErrInvalidBaseFee
  | ErrMissingChainConfig
  | ErrGasLimitAboveMaximum
  | ErrGasUsedAboveLimit
  | ErrBaseFeeBeforeFork
  | ErrLondonParentMissingBaseFee
  | ErrUnsupportedShanghai
  | ErrInvalidWithdrawalsHash
  | ErrUnsupportedCancun
  | ErrInvalidExcessBlobGas
  | ErrInvalidBlobGasUsed
  | ErrInvalidParentBeaconRoot
  | ErrUnsupportedPrague
  | ErrInvalidRequestsHash
  | GoPanic

definition VerifyGaslimit :: "u64 \<Rightarrow> u64 \<Rightarrow> exec_error option" where
  "VerifyGaslimit parentGasLimit headerGasLimit =
     (let diff0 = parentGasLimit - headerGasLimit;
          diff = (if sint diff0 < 0 then - diff0 else diff0);
          limit = parentGasLimit div GasLimitBoundDivisor
      in if diff \<ge> limit then Some ErrGasLimitOutOfBounds
         else if headerGasLimit < MinGasLimit then Some ErrGasLimitBelowMinimum
         else None)"

definition CalcBaseFee :: "ChainConfig \<Rightarrow> Header \<Rightarrow> exec_error + int" where
  "CalcBaseFee config parent =
     (if \<not> IsLondon config (h_Number parent) then Inr InitialBaseFee
      else
        let parentGasTarget = h_GasLimit parent div ElasticityMultiplier in
        case h_BaseFee parent of
          None \<Rightarrow> Inl GoPanic
        | Some baseFee \<Rightarrow>
            if h_GasUsed parent = parentGasTarget then Inr baseFee
            else if parentGasTarget = 0 then Inl GoPanic
            else if h_GasUsed parent > parentGasTarget then
              let num = uint (h_GasUsed parent - parentGasTarget) * baseFee div uint parentGasTarget
                          div uint BaseFeeChangeDenominator
              in if num < 1 then Inr (baseFee + 1) else Inr (baseFee + num)
            else
              let num = uint (parentGasTarget - h_GasUsed parent) * baseFee div uint parentGasTarget
                          div uint BaseFeeChangeDenominator;
                  fee = baseFee - num
              in Inr (if fee < 0 then 0 else fee))"

definition VerifyEIP1559Header :: "ChainConfig \<Rightarrow> Header \<Rightarrow> Header \<Rightarrow> exec_error option" where
  "VerifyEIP1559Header config parent header =
     (let parentGasLimit = (if \<not> IsLondon config (h_Number parent) then h_GasLimit parent * ElasticityMultiplier
                            else h_GasLimit parent)
      in case VerifyGaslimit parentGasLimit (h_GasLimit header) of
           Some err \<Rightarrow> Some err
         | None \<Rightarrow>
             (case h_BaseFee header of
                None \<Rightarrow> Some ErrMissingBaseFee
              | Some baseFee \<Rightarrow>
                  if IsLondon config (h_Number parent) \<and> h_BaseFee parent = None then Some ErrParentMissingBaseFee
                  else case CalcBaseFee config parent of
                    Inl err \<Rightarrow> Some err
                  | Inr expectedBaseFee \<Rightarrow> if baseFee \<noteq> expectedBaseFee then Some ErrInvalidBaseFee else None))"

section \<open>The rules of a header\<close>

definition fork_rules :: "ChainConfig \<Rightarrow> Header \<Rightarrow> exec_error option" where
  "fork_rules config header =
     (if IsShanghai config (h_Number header) (h_Time header) then Some ErrUnsupportedShanghai
      else if h_WithdrawalsHash header \<noteq> None then Some ErrInvalidWithdrawalsHash
      else if IsCancun config (h_Number header) (h_Time header) then Some ErrUnsupportedCancun
      else if h_ExcessBlobGas header \<noteq> None then Some ErrInvalidExcessBlobGas
      else if h_BlobGasUsed header \<noteq> None then Some ErrInvalidBlobGasUsed
      else if h_ParentBeaconRoot header \<noteq> None then Some ErrInvalidParentBeaconRoot
      else if IsPrague config (h_Number header) (h_Time header) then Some ErrUnsupportedPrague
      else if h_RequestsHash header \<noteq> None then Some ErrInvalidRequestsHash
      else None)"

definition verifyExecutionHeaderRules :: "ChainConfig option \<Rightarrow> Header \<Rightarrow> Header \<Rightarrow> exec_error option" where
  "verifyExecutionHeaderRules chainConfig parent header =
     (case chainConfig of
        None \<Rightarrow> Some ErrMissingChainConfig
      | Some config \<Rightarrow>
          if h_GasLimit header > MaxGasLimit then Some ErrGasLimitAboveMaximum
          else if h_GasUsed header > h_GasLimit header then Some ErrGasUsedAboveLimit
          else
            (case (if \<not> IsLondon config (h_Number header) then
                     if h_BaseFee header \<noteq> None then Some ErrBaseFeeBeforeFork
                     else VerifyGaslimit (h_GasLimit parent) (h_GasLimit header)
                   else
                     if IsLondon config (h_Number parent) \<and> h_BaseFee parent = None then Some ErrLondonParentMissingBaseFee
                     else VerifyEIP1559Header config parent header) of
               Some err \<Rightarrow> Some err
             | None \<Rightarrow> fork_rules config header))"

section \<open>Bounds\<close>

lemma sint_diff_small:
  fixes a b :: u64
  assumes "unat a < 2 ^ 63" "unat b < 2 ^ 63"
  shows "sint (a - b) = int (unat a) - int (unat b)"
proof -
  have "int (unat a) < 2 ^ 63" "int (unat b) < 2 ^ 63" using assms by (metis of_nat_less_iff of_nat_numeral of_nat_power)+
  then have "go_int (int (unat a) - int (unat b)) = int (unat a) - int (unat b)" by (intro go_int_id) linarith+
  then show ?thesis by (simp add: go_int_def)
qed

lemma VerifyGaslimit_None:
  assumes "unat p < 2 ^ 63" "unat h < 2 ^ 63"
  shows "VerifyGaslimit p h = None \<longleftrightarrow> \<bar>int (unat p) - int (unat h)\<bar> < int (unat p div 1024) \<and> 5000 \<le> unat h"
proof -
  define d where "d = (if sint (p - h) < 0 then - (p - h) else p - h)"
  have s: "sint (p - h) = int (unat p) - int (unat h)" by (rule sint_diff_small [OF assms])
  have d: "int (unat d) = \<bar>int (unat p) - int (unat h)\<bar>"
    using s uint_sub_lem [of h p] uint_sub_lem [of p h] unfolding d_def by (cases "h \<le> p") (simp_all add: word_le_def)
  have "VerifyGaslimit p h = None \<longleftrightarrow> unat d < unat p div 1024 \<and> 5000 \<le> unat h"
    unfolding VerifyGaslimit_def Let_def d_def [symmetric] none_iffs
    by (simp add: word_le_nat_alt word_less_nat_alt MinGasLimit_def GasLimitBoundDivisor_def unat_div not_le not_less)
  also have "unat d < unat p div 1024 \<longleftrightarrow> \<bar>int (unat p) - int (unat h)\<bar> < int (unat p div 1024)"
    unfolding d [symmetric] by (rule of_nat_less_iff [symmetric])
  finally show ?thesis .
qed

text \<open>The base fee moves towards the demand, by at most an eighth (or one unit, upwards).\<close>

lemma fee_step:
  fixes b d t :: int
  assumes "0 \<le> b" "0 < t" "0 \<le> d" "d \<le> t"
  shows "0 \<le> d * b div t div 8 \<and> d * b div t div 8 \<le> b div 8"
proof -
  have "d * b div t \<le> t * b div t" using assms by (intro zdiv_mono1 mult_right_mono) auto
  then have "d * b div t \<le> b" using assms by simp
  moreover have "0 \<le> d * b div t" using assms by (simp add: pos_imp_zdiv_nonneg_iff)
  ultimately show ?thesis by (simp add: zdiv_mono1 pos_imp_zdiv_nonneg_iff)
qed

lemma CalcBaseFee_bounds:
  assumes "IsLondon config (h_Number parent)" "h_BaseFee parent = Some b" "0 \<le> b"
    and "h_GasUsed parent \<le> h_GasLimit parent" "2 \<le> unat (h_GasLimit parent)" "even (unat (h_GasLimit parent))"
  shows "\<exists>fee. CalcBaseFee config parent = Inr fee \<and> 0 \<le> fee \<and> fee \<le> b + max 1 (b div 8) \<and> b - b div 8 \<le> fee
    \<and> (unat (h_GasLimit parent) < 2 * unat (h_GasUsed parent) \<longrightarrow> b < fee)
    \<and> (2 * unat (h_GasUsed parent) < unat (h_GasLimit parent) \<longrightarrow> fee \<le> b)
    \<and> (2 * unat (h_GasUsed parent) = unat (h_GasLimit parent) \<longrightarrow> fee = b)"
proof -
  define t where "t = h_GasLimit parent div ElasticityMultiplier"
  have t: "unat t = unat (h_GasLimit parent) div 2" by (simp add: t_def ElasticityMultiplier_def unat_div)
  have l: "unat (h_GasLimit parent) = 2 * unat t" using t assms(6) by simp
  have "0 < unat t" using l assms(5) by linarith
  then have pos: "t \<noteq> 0" "0 < uint t" by (auto simp only: unat_0 uint_nat of_nat_0_less_iff)
  let ?u = "h_GasUsed parent"
  have u: "unat ?u \<le> 2 * unat t" using assms(4) l by (simp add: word_le_nat_alt)
  consider "?u = t" | "t < ?u" | "?u < t" by fastforce
  then show ?thesis
  proof cases
    case 1
    then show ?thesis using assms l by (simp add: CalcBaseFee_def t_def [symmetric] pos_imp_zdiv_nonneg_iff max.coboundedI1)
  next
    case 2
    then have "uint (?u - t) = uint ?u - uint t" using uint_sub_lem [of t ?u] by (simp add: word_less_def)
    moreover have "uint ?u \<le> 2 * uint t" using u by (metis of_nat_mono of_nat_mult of_nat_numeral uint_nat)
    ultimately have "uint (?u - t) \<le> uint t" by linarith
    from fee_step [OF assms(3) pos(2) unsigned_greater_eq this] 2 assms(1,2,3) pos(1) show ?thesis
      by (auto simp: CalcBaseFee_def t_def [symmetric] Let_def BaseFeeChangeDenominator_def l word_less_nat_alt)
  next
    case 3
    then have "uint (t - ?u) = uint t - uint ?u" using uint_sub_lem [of ?u t] by (simp add: word_less_def)
    then have "uint (t - ?u) \<le> uint t" by (simp add: unsigned_greater_eq)
    from fee_step [OF assms(3) pos(2) unsigned_greater_eq this] 3 assms(1,2,3) pos(1) show ?thesis
      by (auto simp: CalcBaseFee_def t_def [symmetric] Let_def BaseFeeChangeDenominator_def l word_less_nat_alt)
  qed
qed

text \<open>A parent gas limit that passes the gas limit rule leaves a target to divide by.\<close>

lemma VerifyGaslimit_parent:
  assumes "VerifyGaslimit p h = None"
  shows "1024 \<le> unat p"
proof -
  have "0 < unat (p div GasLimitBoundDivisor)"
    using assms by (auto simp: VerifyGaslimit_def Let_def none_iffs word_le_nat_alt)
  then show ?thesis by (simp add: GasLimitBoundDivisor_def unat_div)
qed

lemma CalcBaseFee_total:
  assumes "IsLondon config (h_Number parent) \<longrightarrow> h_BaseFee parent \<noteq> None \<and> 1024 \<le> unat (h_GasLimit parent)"
  shows "\<exists>fee. CalcBaseFee config parent = Inr fee"
proof -
  have "1024 \<le> unat (h_GasLimit parent) \<Longrightarrow> unat (h_GasLimit parent div ElasticityMultiplier) \<noteq> 0"
    by (simp add: ElasticityMultiplier_def unat_div)
  then show ?thesis using assms by (auto simp: CalcBaseFee_def Let_def split: option.splits)
qed

lemma VerifyEIP1559Header_None:
  "VerifyEIP1559Header config parent header = None \<longleftrightarrow>
     VerifyGaslimit (if IsLondon config (h_Number parent) then h_GasLimit parent else h_GasLimit parent * 2) (h_GasLimit header) = None
     \<and> (\<exists>fee. h_BaseFee header = Some fee \<and> CalcBaseFee config parent = Inr fee)
     \<and> (IsLondon config (h_Number parent) \<longrightarrow> h_BaseFee parent \<noteq> None)"
  by (auto simp: VerifyEIP1559Header_def Let_def ElasticityMultiplier_def split: option.splits sum.splits)

lemma VerifyEIP1559Header_no_panic: "VerifyEIP1559Header config parent header \<noteq> Some GoPanic"
proof
  assume a: "VerifyEIP1559Header config parent header = Some GoPanic"
  let ?l = "if IsLondon config (h_Number parent) then h_GasLimit parent else h_GasLimit parent * ElasticityMultiplier"
  have g: "VerifyGaslimit ?l (h_GasLimit header) = None"
    using a by (auto simp: VerifyEIP1559Header_def Let_def VerifyGaslimit_def split: if_splits)
  have "IsLondon config (h_Number parent) \<longrightarrow> h_BaseFee parent \<noteq> None"
    using a g by (auto simp: VerifyEIP1559Header_def Let_def split: option.splits if_splits)
  then obtain fee where "CalcBaseFee config parent = Inr fee"
    using CalcBaseFee_total [of config parent] VerifyGaslimit_parent [OF g]
    by (cases "IsLondon config (h_Number parent)") auto
  with a g show False by (auto simp: VerifyEIP1559Header_def Let_def split: option.splits if_splits)
qed

lemma rules_no_panic: "VerifyGaslimit p h \<noteq> Some GoPanic" "fork_rules config header \<noteq> Some GoPanic"
  by (simp_all add: VerifyGaslimit_def fork_rules_def Let_def)

lemma verifyExecutionHeaderRules_no_panic: "verifyExecutionHeaderRules c parent header \<noteq> Some GoPanic"
proof -
  have "(case x of None \<Rightarrow> y | Some e \<Rightarrow> Some e) = Some g \<longleftrightarrow> x = Some g \<or> x = None \<and> y = Some g" for x y :: "exec_error option" and g
    by (cases x) auto
  then show ?thesis using VerifyEIP1559Header_no_panic rules_no_panic by (cases c) (auto simp: verifyExecutionHeaderRules_def)
qed

lemma fork_rules_None:
  "fork_rules config header = None \<longleftrightarrow> \<not> IsShanghai config (h_Number header) (h_Time header) \<and> h_WithdrawalsHash header = None
     \<and> \<not> IsCancun config (h_Number header) (h_Time header) \<and> h_ExcessBlobGas header = None \<and> h_BlobGasUsed header = None
     \<and> h_ParentBeaconRoot header = None \<and> \<not> IsPrague config (h_Number header) (h_Time header) \<and> h_RequestsHash header = None"
  by (simp add: fork_rules_def)

lemma verifyExecutionHeaderRules_None:
  "verifyExecutionHeaderRules (Some config) parent header = None \<longleftrightarrow>
     h_GasLimit header \<le> MaxGasLimit \<and> h_GasUsed header \<le> h_GasLimit header \<and> fork_rules config header = None
     \<and> (if IsLondon config (h_Number header) then VerifyEIP1559Header config parent header = None
        else h_BaseFee header = None \<and> VerifyGaslimit (h_GasLimit parent) (h_GasLimit header) = None)"
  using VerifyEIP1559Header_None [of config parent header]
  by (auto simp: verifyExecutionHeaderRules_def not_less split: option.splits if_splits)

section \<open>Properties\<close>

text \<open>Claim C25: the execution rules of a header. Checking a header never panics, whatever the parent is. A header that
  passes against a parent whose gas limit is below 2 to the 62 has a gas limit between 5000 and 2 to the 63 minus 1 that differs from the
  one it extends (twice the parent's at the London fork) by less than a 1024th, uses no more gas than that, carries exactly
  the computed base fee after London and none before, and no withdrawals, blob, beacon root or requests field. The base fee of a
  parent with an even gas limit rises when the parent used more than half of it, falls or stays when it used less, and
  changes by at most an eighth, or by one unit.\<close>

theorem execution_rules:
  "verifyExecutionHeaderRules c parent header \<noteq> Some GoPanic
   \<and> (verifyExecutionHeaderRules (Some config) parent header = None \<and> unat (h_GasLimit parent) < 2 ^ 62 \<longrightarrow>
      (let base = (if IsLondon config (h_Number header) \<and> \<not> IsLondon config (h_Number parent) then 2 else 1) * unat (h_GasLimit parent)
       in 5000 \<le> unat (h_GasLimit header) \<and> unat (h_GasLimit header) < 2 ^ 63 \<and> h_GasUsed header \<le> h_GasLimit header
          \<and> \<bar>int base - int (unat (h_GasLimit header))\<bar> < int (base div 1024))
      \<and> (if IsLondon config (h_Number header) then (\<exists>fee. h_BaseFee header = Some fee \<and> CalcBaseFee config parent = Inr fee)
         else h_BaseFee header = None)
      \<and> h_WithdrawalsHash header = None \<and> h_BlobGasUsed header = None \<and> h_ExcessBlobGas header = None
      \<and> h_ParentBeaconRoot header = None \<and> h_RequestsHash header = None)
   \<and> (IsLondon config (h_Number parent) \<and> h_BaseFee parent = Some b \<and> 0 \<le> b \<and> h_GasUsed parent \<le> h_GasLimit parent
      \<and> 2 \<le> unat (h_GasLimit parent) \<and> even (unat (h_GasLimit parent)) \<longrightarrow>
      (\<exists>fee. CalcBaseFee config parent = Inr fee \<and> 0 \<le> fee \<and> fee \<le> b + max 1 (b div 8) \<and> b - b div 8 \<le> fee
        \<and> (unat (h_GasLimit parent) < 2 * unat (h_GasUsed parent) \<longrightarrow> b < fee)
        \<and> (2 * unat (h_GasUsed parent) < unat (h_GasLimit parent) \<longrightarrow> fee \<le> b)
        \<and> (2 * unat (h_GasUsed parent) = unat (h_GasLimit parent) \<longrightarrow> fee = b)))"
proof (intro conjI impI)
  assume a: "verifyExecutionHeaderRules (Some config) parent header = None \<and> unat (h_GasLimit parent) < 2 ^ 62"
  let ?base = "if IsLondon config (h_Number header) \<and> \<not> IsLondon config (h_Number parent) then h_GasLimit parent * 2 else h_GasLimit parent"
  have h: "unat (h_GasLimit header) < 2 ^ 63"
    using a by (auto simp: verifyExecutionHeaderRules_None MaxGasLimit_def word_le_nat_alt)
  have "unat (h_GasLimit parent * 2) = 2 * unat (h_GasLimit parent)"
    using a by (subst unat_mult_lem [THEN iffD1]) simp_all
  then have base: "unat ?base = (if IsLondon config (h_Number header) \<and> \<not> IsLondon config (h_Number parent) then 2 else 1) * unat (h_GasLimit parent)"
    by simp
  with a have b: "unat ?base < 2 ^ 63" by auto
  have "VerifyGaslimit ?base (h_GasLimit header) = None"
    using a by (auto simp: verifyExecutionHeaderRules_None VerifyEIP1559Header_None split: if_splits)
  from this [unfolded VerifyGaslimit_None [OF b h], unfolded base] a h
  show "let base = (if IsLondon config (h_Number header) \<and> \<not> IsLondon config (h_Number parent) then 2 else 1) * unat (h_GasLimit parent)
       in 5000 \<le> unat (h_GasLimit header) \<and> unat (h_GasLimit header) < 2 ^ 63 \<and> h_GasUsed header \<le> h_GasLimit header
          \<and> \<bar>int base - int (unat (h_GasLimit header))\<bar> < int (base div 1024)"
    unfolding Let_def verifyExecutionHeaderRules_None by blast
  show "if IsLondon config (h_Number header) then (\<exists>fee. h_BaseFee header = Some fee \<and> CalcBaseFee config parent = Inr fee)
         else h_BaseFee header = None"
    using a by (auto simp: verifyExecutionHeaderRules_None VerifyEIP1559Header_None)
next
  assume "IsLondon config (h_Number parent) \<and> h_BaseFee parent = Some b \<and> 0 \<le> b \<and> h_GasUsed parent \<le> h_GasLimit parent
      \<and> 2 \<le> unat (h_GasLimit parent) \<and> even (unat (h_GasLimit parent))"
  then show "\<exists>fee. CalcBaseFee config parent = Inr fee \<and> 0 \<le> fee \<and> fee \<le> b + max 1 (b div 8) \<and> b - b div 8 \<le> fee
        \<and> (unat (h_GasLimit parent) < 2 * unat (h_GasUsed parent) \<longrightarrow> b < fee)
        \<and> (2 * unat (h_GasUsed parent) < unat (h_GasLimit parent) \<longrightarrow> fee \<le> b)
        \<and> (2 * unat (h_GasUsed parent) = unat (h_GasLimit parent) \<longrightarrow> fee = b)"
    by (intro CalcBaseFee_bounds) blast+
qed (simp_all add: verifyExecutionHeaderRules_no_panic verifyExecutionHeaderRules_None fork_rules_None)

definition sample_chain_config :: ChainConfig where
  "sample_chain_config = \<lparr>cc_ChainID = Some 1, cc_LondonBlock = Some 0, cc_ShanghaiTime = None, cc_CancunTime = None, cc_PragueTime = None\<rparr>"

definition sample_london :: "u64 \<Rightarrow> u64 \<Rightarrow> int \<Rightarrow> Header" where
  "sample_london number gasUsed baseFee =
     (sample_header 3 number [])\<lparr>h_GasLimit := 30000000, h_GasUsed := gasUsed, h_BaseFee := Some baseFee\<rparr>"

lemma sample_london_rules:
  "verifyExecutionHeaderRules (Some sample_chain_config) (sample_london 4 20000000 800) (sample_london 5 0 833) = None"
  unfolding verifyExecutionHeaderRules_None fork_rules_None VerifyEIP1559Header_None IsShanghai_def IsCancun_def IsPrague_def IsLondon_def
  by (simp add: sample_chain_config_def sample_london_def sample_header_def isBlockForked_def isTimestampForked_def MaxGasLimit_def
      VerifyGaslimit_None CalcBaseFee_def IsLondon_def ElasticityMultiplier_def BaseFeeChangeDenominator_def Let_def)

theorem execution_rules_witness:
  "\<exists>fee. CalcBaseFee sample_chain_config (sample_london 4 20000000 800) = Inr fee \<and> h_BaseFee (sample_london 5 0 833) = Some fee
     \<and> 5000 \<le> unat (h_GasLimit (sample_london 5 0 833)) \<and> 800 < fee \<and> fee \<le> 800 + max 1 (800 div 8)"
  using execution_rules [of None "sample_london 4 20000000 800" "sample_london 5 0 833" sample_chain_config 800] sample_london_rules
  by (auto simp: sample_london_def sample_header_def IsLondon_def isBlockForked_def sample_chain_config_def)

end
