(* ===== verification/LRU.thy ===== *)
theory LRU
  imports Prelude
begin

text \<open>
  The bounded cache with least-recently-used eviction (\<open>common/lru/basiclru.go\<close>), which \<open>common/lru/lru.go\<close> guards by a mutex.
  The doubly-linked list is the list of its elements from the front: every key of the item map owns one element, so an
  element is named by its key.
\<close>

section \<open>The linked list\<close>

definition pushElem :: "'k \<Rightarrow> 'k list \<Rightarrow> 'k list" where
  "pushElem e l = e # l"

definition list_remove :: "'k \<Rightarrow> 'k list \<Rightarrow> 'k list" where
  "list_remove e l = remove1 e l"

definition moveToFront :: "'k \<Rightarrow> 'k list \<Rightarrow> 'k list" where
  "moveToFront e l = pushElem e (list_remove e l)"

definition list_last :: "'k list \<Rightarrow> 'k option" where
  "list_last l = (if l = [] then None else Some (last l))"

definition removeLast :: "'k list \<Rightarrow> 'k option \<times> 'k list" where
  "removeLast l = (case list_last l of None \<Rightarrow> (None, l) | Some e \<Rightarrow> (Some e, butlast l))"

definition appendTo :: "'k list \<Rightarrow> 'k list \<Rightarrow> 'k list" where
  "appendTo l keys = keys @ rev l"

section \<open>The cache\<close>

record ('k, 'v) BasicLRU =
  lru_list :: "'k list"
  lru_items :: "('k, 'v) fmap"
  lru_cap :: nat

definition NewBasicLRU :: "int \<Rightarrow> ('k, 'v) BasicLRU" where
  "NewBasicLRU capacity = \<lparr>lru_list = [], lru_items = fmempty, lru_cap = nat (if capacity \<le> 0 then 1 else capacity)\<rparr>"

definition LRU_Len :: "('k, 'v) BasicLRU \<Rightarrow> nat" where
  "LRU_Len c = fcard (fmdom (lru_items c))"

definition LRU_Add3 :: "'k \<Rightarrow> 'v \<Rightarrow> ('k, 'v) BasicLRU \<Rightarrow> ('k \<times> 'v) option \<times> ('k, 'v) BasicLRU" where
  "LRU_Add3 key value c =
     (case fmlookup (lru_items c) key of
        Some _ \<Rightarrow> (None, c\<lparr>lru_items := fmupd key value (lru_items c), lru_list := moveToFront key (lru_list c)\<rparr>)
      | None \<Rightarrow>
          if LRU_Len c \<ge> lru_cap c then
            (case removeLast (lru_list c) of
               (None, _) \<Rightarrow> (None, c)
             | (Some ek, l) \<Rightarrow>
                 (map_option (Pair ek) (fmlookup (lru_items c) ek),
                  c\<lparr>lru_items := fmupd key value (fmdrop ek (lru_items c)), lru_list := pushElem key l\<rparr>))
          else (None, c\<lparr>lru_items := fmupd key value (lru_items c), lru_list := pushElem key (lru_list c)\<rparr>))"

definition LRU_Add :: "'k \<Rightarrow> 'v \<Rightarrow> ('k, 'v) BasicLRU \<Rightarrow> bool \<times> ('k, 'v) BasicLRU" where
  "LRU_Add key value c = (case LRU_Add3 key value c of (evicted, c') \<Rightarrow> (evicted \<noteq> None, c'))"

definition LRU_Contains :: "('k, 'v) BasicLRU \<Rightarrow> 'k \<Rightarrow> bool" where
  "LRU_Contains c key = (fmlookup (lru_items c) key \<noteq> None)"

definition LRU_Get :: "'k \<Rightarrow> ('k, 'v) BasicLRU \<Rightarrow> 'v option \<times> ('k, 'v) BasicLRU" where
  "LRU_Get key c =
     (case fmlookup (lru_items c) key of
        None \<Rightarrow> (None, c)
      | Some value \<Rightarrow> (Some value, c\<lparr>lru_list := moveToFront key (lru_list c)\<rparr>))"

definition LRU_Peek :: "('k, 'v) BasicLRU \<Rightarrow> 'k \<Rightarrow> 'v option" where
  "LRU_Peek c key = fmlookup (lru_items c) key"

definition LRU_GetOldest :: "('k, 'v) BasicLRU \<Rightarrow> ('k \<times> 'v) option" where
  "LRU_GetOldest c = (case list_last (lru_list c) of None \<Rightarrow> None | Some key \<Rightarrow> map_option (Pair key) (fmlookup (lru_items c) key))"

definition LRU_Purge :: "('k, 'v) BasicLRU \<Rightarrow> ('k, 'v) BasicLRU" where
  "LRU_Purge c = c\<lparr>lru_list := [], lru_items := fmempty\<rparr>"

definition LRU_Remove :: "'k \<Rightarrow> ('k, 'v) BasicLRU \<Rightarrow> bool \<times> ('k, 'v) BasicLRU" where
  "LRU_Remove key c =
     (case fmlookup (lru_items c) key of
        None \<Rightarrow> (False, c)
      | Some _ \<Rightarrow> (True, c\<lparr>lru_items := fmdrop key (lru_items c), lru_list := list_remove key (lru_list c)\<rparr>))"

definition LRU_RemoveOldest :: "('k, 'v) BasicLRU \<Rightarrow> ('k \<times> 'v) option \<times> ('k, 'v) BasicLRU" where
  "LRU_RemoveOldest c =
     (case list_last (lru_list c) of
        None \<Rightarrow> (None, c)
      | Some key \<Rightarrow> (map_option (Pair key) (fmlookup (lru_items c) key),
                     c\<lparr>lru_items := fmdrop key (lru_items c), lru_list := list_remove key (lru_list c)\<rparr>))"

definition LRU_Keys :: "('k, 'v) BasicLRU \<Rightarrow> 'k list" where
  "LRU_Keys c = appendTo (lru_list c) []"

section \<open>Recency\<close>

text \<open>The cache holds what a list of associations, most recently used first, holds.\<close>

definition lru_wf :: "('k, 'v) BasicLRU \<Rightarrow> bool" where
  "lru_wf c \<longleftrightarrow> distinct (lru_list c) \<and> set (lru_list c) = fset (fmdom (lru_items c)) \<and> length (lru_list c) \<le> lru_cap c \<and> 0 < lru_cap c"

definition recent :: "('k, 'v) BasicLRU \<Rightarrow> ('k \<times> 'v) list" where
  "recent c = map (\<lambda>k. (k, the (fmlookup (lru_items c) k))) (lru_list c)"

lemma lru_Len: "lru_wf c \<Longrightarrow> LRU_Len c = length (lru_list c)"
  using distinct_card [of "lru_list c"] by (simp add: lru_wf_def LRU_Len_def fcard.rep_eq)

lemma lru_lookup: "lru_wf c \<Longrightarrow> fmlookup (lru_items c) k = map_of (recent c) k"
proof -
  assume wf: "lru_wf c"
  have "map_of (recent c) k = (if k \<in> set (lru_list c) then Some (the (fmlookup (lru_items c) k)) else None)"
    unfolding recent_def map_of_map_restrict by (simp add: restrict_map_def)
  moreover have "fmlookup (lru_items c) k = None \<longleftrightarrow> k \<notin> set (lru_list c)"
    using wf by (metis lru_wf_def fmdom_notI fmdom_notD)
  ultimately show ?thesis by (cases "fmlookup (lru_items c) k") simp_all
qed

text \<open>Moving a key to the front of the recency list.\<close>

definition bump :: "'k \<Rightarrow> 'v \<Rightarrow> ('k \<times> 'v) list \<Rightarrow> ('k \<times> 'v) list" where
  "bump key value xs = (key, value) # filter (\<lambda>x. fst x \<noteq> key) xs"

lemma filter_recent:
  "distinct (lru_list c) \<Longrightarrow> filter (\<lambda>x. fst x \<noteq> key) (recent c) = map (\<lambda>k. (k, the (fmlookup (lru_items c) k))) (remove1 key (lru_list c))"
proof -
  assume "distinct (lru_list c)"
  then have "remove1 key (lru_list c) = filter (\<lambda>k. k \<noteq> key) (lru_list c)"
    unfolding removeAll_filter_not_eq distinct_remove1_removeAll [OF \<open>distinct (lru_list c)\<close>] by (intro filter_cong) auto
  then show ?thesis by (simp add: recent_def filter_map comp_def)
qed

lemma length_recent [simp]: "length (recent c) = length (lru_list c)"
  by (simp add: recent_def)

lemmas lru_defs = LRU_Add_def LRU_Add3_def LRU_Get_def LRU_Remove_def LRU_RemoveOldest_def moveToFront_def pushElem_def list_remove_def
  removeLast_def list_last_def

lemma lru_present:
  assumes "lru_wf c" "fmlookup (lru_items c) key = Some v0"
  shows "lru_wf (c\<lparr>lru_items := fmupd key v (lru_items c), lru_list := key # remove1 key (lru_list c)\<rparr>)"
    and "recent (c\<lparr>lru_items := fmupd key v (lru_items c), lru_list := key # remove1 key (lru_list c)\<rparr>) = bump key v (recent c)"
    and "Suc (length (remove1 key (lru_list c))) = length (lru_list c)"
proof -
  have k: "key \<in> set (lru_list c)" using assms by (auto simp: lru_wf_def intro: fmdomI)
  then show len: "Suc (length (remove1 key (lru_list c))) = length (lru_list c)"
    using length_pos_if_in_set [OF k] by (simp add: length_remove1)
  show "lru_wf (c\<lparr>lru_items := fmupd key v (lru_items c), lru_list := key # remove1 key (lru_list c)\<rparr>)"
    using assms(1) k len by (auto simp: lru_wf_def)
  show "recent (c\<lparr>lru_items := fmupd key v (lru_items c), lru_list := key # remove1 key (lru_list c)\<rparr>) = bump key v (recent c)"
    using assms(1) filter_recent [of c key] by (auto simp: lru_wf_def recent_def bump_def)
qed

lemma lru_full:
  assumes wf: "lru_wf c" and "key \<notin> set (lru_list c)" and len: "length (lru_list c) = lru_cap c"
  shows "lru_wf (c\<lparr>lru_items := fmupd key v (fmdrop (last (lru_list c)) (lru_items c)), lru_list := key # butlast (lru_list c)\<rparr>)" (is "lru_wf ?d")
    and "recent (c\<lparr>lru_items := fmupd key v (fmdrop (last (lru_list c)) (lru_items c)), lru_list := key # butlast (lru_list c)\<rparr>)
      = take (lru_cap c) (bump key v (recent c))"
proof -
  obtain l x where l: "lru_list c = l @ [x]" using wf len by (cases "lru_list c" rule: rev_cases) (auto simp: lru_wf_def)
  have d: "distinct l" "x \<notin> set l" "key \<notin> set l" "key \<noteq> x" using wf assms(2) l by (auto simp: lru_wf_def)
  have "fset (fmdom (lru_items c)) = insert x (set l)" using wf l by (simp add: lru_wf_def)
  then show "lru_wf ?d" using wf l len d by (auto simp: lru_wf_def)
  have "bump key v (recent c) = (key, v) # map (\<lambda>k. (k, the (fmlookup (lru_items c) k))) (l @ [x])"
    using d by (auto simp: bump_def recent_def l intro!: filter_True)
  moreover have "lru_cap c = Suc (length l)" using len l by simp
  ultimately show "recent ?d = take (lru_cap c) (bump key v (recent c))" using d l by (auto simp: recent_def)
qed

lemma lru_Add_cases:
  "lru_wf c \<Longrightarrow> snd (LRU_Add key v c) =
     (if fmlookup (lru_items c) key \<noteq> None then c\<lparr>lru_items := fmupd key v (lru_items c), lru_list := key # remove1 key (lru_list c)\<rparr>
      else if length (lru_list c) = lru_cap c
      then c\<lparr>lru_items := fmupd key v (fmdrop (last (lru_list c)) (lru_items c)), lru_list := key # butlast (lru_list c)\<rparr>
      else c\<lparr>lru_items := fmupd key v (lru_items c), lru_list := key # lru_list c\<rparr>)"
  using lru_Len [of c] by (cases "fmlookup (lru_items c) key") (auto simp: lru_defs lru_wf_def)

lemma lru_Add_wf_recent:
  assumes wf: "lru_wf c"
  shows "lru_wf (snd (LRU_Add key v c)) \<and> recent (snd (LRU_Add key v c)) = take (lru_cap c) (bump key v (recent c))"
proof (cases "fmlookup (lru_items c) key")
  case (Some v0)
  have "length (bump key v (recent c)) \<le> lru_cap c"
    using lru_present(3) [OF wf Some] wf by (simp add: lru_wf_def bump_def filter_recent)
  then show ?thesis using lru_present(1,2) [OF wf Some, of v] Some by (simp add: lru_Add_cases [OF wf])
next
  case None
  then have k: "key \<notin> set (lru_list c)" using wf by (auto simp: lru_wf_def)
  then have b: "bump key v (recent c) = (key, v) # recent c" by (auto simp: bump_def recent_def intro!: filter_True)
  show ?thesis
  proof (cases "length (lru_list c) = lru_cap c")
    case True
    then show ?thesis using lru_full [OF wf k True, of v] None by (simp add: lru_Add_cases [OF wf])
  next
    case False
    then have "length (lru_list c) < lru_cap c" using wf by (simp add: lru_wf_def)
    with False show ?thesis using None wf k b by (auto simp: lru_Add_cases [OF wf] lru_wf_def recent_def)
  qed
qed

lemma lru_cap_Add [simp]: "lru_cap (snd (LRU_Add key v c)) = lru_cap c"
  by (auto simp: LRU_Add_def LRU_Add3_def split: option.split prod.split)

lemmas lru_Add_wf = lru_Add_wf_recent [THEN conjunct1] and lru_Add_recent = lru_Add_wf_recent [THEN conjunct2]

lemma lru_Get:
  assumes wf: "lru_wf c"
  shows "fst (LRU_Get key c) = map_of (recent c) key" and "lru_wf (snd (LRU_Get key c))"
    and "recent (snd (LRU_Get key c)) = (case map_of (recent c) key of None \<Rightarrow> recent c | Some v \<Rightarrow> bump key v (recent c))"
proof -
  show "fst (LRU_Get key c) = map_of (recent c) key"
    by (simp add: LRU_Get_def lru_lookup [OF wf, symmetric] split: option.split)
  have "lru_wf (snd (LRU_Get key c)) \<and> recent (snd (LRU_Get key c)) = (case map_of (recent c) key of None \<Rightarrow> recent c | Some v \<Rightarrow> bump key v (recent c))"
  proof (cases "fmlookup (lru_items c) key")
    case (Some v)
    then have "fmupd key v (lru_items c) = lru_items c" by (intro fmap_ext) auto
    with Some lru_present(1,2) [OF wf Some, of v] show ?thesis
      by (simp add: LRU_Get_def lru_lookup [OF wf, symmetric] moveToFront_def pushElem_def list_remove_def)
  qed (use wf in \<open>simp add: LRU_Get_def lru_lookup [OF wf, symmetric]\<close>)
  then show "lru_wf (snd (LRU_Get key c))"
      "recent (snd (LRU_Get key c)) = (case map_of (recent c) key of None \<Rightarrow> recent c | Some v \<Rightarrow> bump key v (recent c))" by blast+
qed

lemma lru_Remove:
  assumes wf: "lru_wf c"
  shows "lru_wf (snd (LRU_Remove key c)) \<and> recent (snd (LRU_Remove key c)) = filter (\<lambda>x. fst x \<noteq> key) (recent c)"
proof (cases "fmlookup (lru_items c) key")
  case None
  then have "key \<notin> set (lru_list c)" using wf by (auto simp: lru_wf_def)
  then show ?thesis using None wf by (auto simp: LRU_Remove_def recent_def intro!: filter_True [symmetric])
next
  case (Some v)
  then show ?thesis using wf filter_recent [of c key]
    by (auto simp: LRU_Remove_def list_remove_def lru_wf_def recent_def length_remove1 dest: notin_set_remove1)
qed

lemma lru_RemoveOldest:
  assumes wf: "lru_wf c"
  shows "lru_wf (snd (LRU_RemoveOldest c)) \<and> recent (snd (LRU_RemoveOldest c)) = butlast (recent c)"
proof (cases "lru_list c" rule: rev_cases)
  case Nil
  then show ?thesis using wf by (simp add: LRU_RemoveOldest_def list_last_def recent_def)
next
  case (snoc l x)
  then have "x \<notin> set l" "distinct l" "fset (fmdom (lru_items c)) = insert x (set l)" using wf by (auto simp: lru_wf_def)
  then show ?thesis using snoc wf
    by (auto simp: LRU_RemoveOldest_def list_last_def list_remove_def remove1_append lru_wf_def recent_def)
qed

section \<open>A store that may forget\<close>

text \<open>
  What a client of a cache relies on: a lookup returns what was stored last under the key, or nothing. A property of all stored
  values is then a property of all values that lookups return.
\<close>

locale lossy_store =
  fixes get :: "'s \<Rightarrow> 'k \<Rightarrow> 'v option" and put :: "'k \<Rightarrow> 'v \<Rightarrow> 's \<Rightarrow> 's" and touch :: "'k \<Rightarrow> 's \<Rightarrow> 's"
    and inv :: "'s \<Rightarrow> bool" and ok :: "'k \<Rightarrow> 'v \<Rightarrow> bool"
  assumes get_put: "inv s \<Longrightarrow> ok k v \<Longrightarrow> get (put k v s) j = Some w \<Longrightarrow> if j = k then w = v else get s j = Some w"
    and get_touch: "inv s \<Longrightarrow> get (touch k s) j = get s j"
    and inv_put: "inv s \<Longrightarrow> ok k v \<Longrightarrow> inv (put k v s)"
    and inv_touch: "inv s \<Longrightarrow> inv (touch k s)"
begin

lemma put_keeps:
  assumes "inv s" "ok k v" "\<And>j w. get s j = Some w \<Longrightarrow> P j w" "P k v" "get (put k v s) j = Some w"
  shows "P j w"
  using get_put [OF assms(1,2,5)] assms(3,4) by (auto split: if_splits)

lemma touch_keeps: "inv s \<Longrightarrow> (\<And>j w. get s j = Some w \<Longrightarrow> P j w) \<Longrightarrow> get (touch k s) j = Some w \<Longrightarrow> P j w"
  by (simp add: get_touch)

end

lemma map_of_bump: "map_of (bump k v xs) j = (if j = k then Some v else map_of xs j)"
proof -
  have "j \<noteq> k \<Longrightarrow> map_of (filter (\<lambda>x. fst x \<noteq> k) xs) j = map_of xs j" by (induction xs) auto
  then show ?thesis by (auto simp: bump_def)
qed

lemma map_of_take: "map_of (take n xs) j = Some w \<Longrightarrow> map_of xs j = Some w"
proof (induction xs arbitrary: n)
  case (Cons x xs)
  then show ?case by (cases n; cases x) (auto split: if_splits)
qed simp

interpretation lru: lossy_store LRU_Peek "\<lambda>k v c. snd (LRU_Add k v c)" "\<lambda>k c. snd (LRU_Get k c)" lru_wf "\<lambda>_ _. True"
proof
  fix s :: "('k, 'v) BasicLRU" and k j :: 'k and v w :: 'v
  assume wf: "lru_wf s"
  show "lru_wf (snd (LRU_Add k v s))" by (rule lru_Add_wf [OF wf])
  show "lru_wf (snd (LRU_Get k s))" by (rule lru_Get(2) [OF wf])
  show "LRU_Peek (snd (LRU_Get k s)) j = LRU_Peek s j" by (simp add: LRU_Peek_def LRU_Get_def split: option.split)
  assume "LRU_Peek (snd (LRU_Add k v s)) j = Some w"
  then have "map_of (bump k v (recent s)) j = Some w"
    using map_of_take unfolding LRU_Peek_def lru_lookup [OF lru_Add_wf [OF wf]] lru_Add_recent [OF wf] by fastforce
  then show "if j = k then w = v else LRU_Peek s j = Some w"
    by (auto simp: map_of_bump LRU_Peek_def lru_lookup [OF wf] split: if_splits)
qed

section \<open>Properties\<close>

datatype ('k, 'v) lru_call = LAdd 'k 'v | LGet 'k | LRemove 'k | LRemoveOldest | LPurge

fun lru_step :: "('k, 'v) lru_call \<Rightarrow> ('k, 'v) BasicLRU \<Rightarrow> ('k, 'v) BasicLRU" where
  "lru_step (LAdd k v) c = snd (LRU_Add k v c)"
| "lru_step (LGet k) c = snd (LRU_Get k c)"
| "lru_step (LRemove k) c = snd (LRU_Remove k c)"
| "lru_step LRemoveOldest c = snd (LRU_RemoveOldest c)"
| "lru_step LPurge c = LRU_Purge c"

text \<open>The specification: a list of associations, most recently used first, cut to the capacity.\<close>

fun recency_step :: "nat \<Rightarrow> ('k, 'v) lru_call \<Rightarrow> ('k \<times> 'v) list \<Rightarrow> ('k \<times> 'v) list" where
  "recency_step n (LAdd k v) xs = take n (bump k v xs)"
| "recency_step n (LGet k) xs = (case map_of xs k of None \<Rightarrow> xs | Some v \<Rightarrow> bump k v xs)"
| "recency_step n (LRemove k) xs = filter (\<lambda>x. fst x \<noteq> k) xs"
| "recency_step n LRemoveOldest xs = butlast xs"
| "recency_step n LPurge xs = []"

lemma lru_caps [simp]:
  "lru_cap (snd (LRU_Get k c)) = lru_cap c" "lru_cap (snd (LRU_Remove k c)) = lru_cap c" "lru_cap (snd (LRU_RemoveOldest c)) = lru_cap c"
  by (simp_all add: LRU_Get_def LRU_Remove_def LRU_RemoveOldest_def split: option.split)

lemma lru_step_refines:
  "lru_wf c \<Longrightarrow> lru_wf (lru_step call c) \<and> recent (lru_step call c) = recency_step (lru_cap c) call (recent c) \<and> lru_cap (lru_step call c) = lru_cap c"
proof (cases call)
  case LPurge
  assume "lru_wf c"
  then show ?thesis using LPurge by (simp add: LRU_Purge_def lru_wf_def recent_def)
qed (simp_all add: lru_Add_wf lru_Add_recent lru_Get lru_Remove lru_RemoveOldest)

lemma lru_run_refines:
  "lru_wf c \<Longrightarrow> lru_wf (fold lru_step calls c) \<and> recent (fold lru_step calls c) = fold (recency_step (lru_cap c)) calls (recent c)
     \<and> lru_cap (fold lru_step calls c) = lru_cap c"
  by (induction calls arbitrary: c) (simp_all add: lru_step_refines)

text \<open>Claim C27: over any sequence of calls, the cache behaves as the list of its associations, most recently used first, cut to
  the capacity after each addition: a lookup returns the association of the list, the oldest entry is its last, the keys
  are listed from the oldest, and the cache never holds more than its capacity.\<close>

theorem lru_cache_refines:
  fixes calls :: "('k, 'v) lru_call list"
  shows "let c = fold lru_step calls (NewBasicLRU n); xs = fold (recency_step (if n \<le> 0 then 1 else nat n)) calls []
    in fst (LRU_Get key c) = map_of xs key \<and> LRU_Peek c key = map_of xs key \<and> (LRU_Contains c key \<longleftrightarrow> key \<in> fst ` set xs)
      \<and> LRU_GetOldest c = (if xs = [] then None else Some (last xs)) \<and> LRU_Keys c = rev (map fst xs)
      \<and> LRU_Len c = length xs \<and> distinct (map fst xs) \<and> length xs \<le> (if n \<le> 0 then 1 else nat n)"
proof -
  define c where "c = fold lru_step calls (NewBasicLRU n)"
  have "lru_wf (NewBasicLRU n :: ('k, 'v) BasicLRU)" "recent (NewBasicLRU n :: ('k, 'v) BasicLRU) = []"
      "lru_cap (NewBasicLRU n :: ('k, 'v) BasicLRU) = (if n \<le> 0 then 1 else nat n)"
    by (simp_all add: NewBasicLRU_def lru_wf_def recent_def)
  with lru_run_refines [of "NewBasicLRU n" calls] have wf: "lru_wf c" and cap: "lru_cap c = (if n \<le> 0 then 1 else nat n)"
      and xs: "recent c = fold (recency_step (if n \<le> 0 then 1 else nat n)) calls []"
    unfolding c_def by simp_all
  have keys: "map fst (recent c) = lru_list c" by (simp add: recent_def comp_def)
  have oldest: "LRU_GetOldest c = (if recent c = [] then None else Some (last (recent c)))"
  proof (cases "lru_list c" rule: rev_cases)
    case (snoc l x)
    then have "fmlookup (lru_items c) x \<noteq> None" using wf by (auto simp: lru_wf_def dest: fmdom_notI)
    with snoc show ?thesis by (auto simp: LRU_GetOldest_def list_last_def recent_def)
  qed (simp add: LRU_GetOldest_def list_last_def recent_def)
  have "LRU_Contains c key \<longleftrightarrow> key \<in> fst ` set (recent c)"
    using lru_lookup [OF wf, of key] by (simp add: LRU_Contains_def map_of_eq_None_iff)
  then show ?thesis
    using lru_Get(1) [OF wf, of key] lru_lookup [OF wf, of key] oldest lru_Len [OF wf] keys wf cap
    unfolding Let_def c_def [symmetric] xs [symmetric] by (simp add: LRU_Peek_def LRU_Keys_def appendTo_def lru_wf_def)
qed

end
