(* ===== verification/Engine.thy ===== *)
theory Engine
  imports Registry_Snapshot Registry_Pool Runtime_Registry Work_Header Exec_Rules LRU
begin

text \<open>
  The consensus engine (\<open>consensus/lqc/lqc.go\<close>, the default build): its configuration (\<open>params/config.go\<close>), its state, the
  schedule of the consensus forks, recovery, block times, the legacy selection and the reward amounts. The engine and the
  chain reader it is given are never nil, its configuration may be; a setting that is missing reads as zero, which is what the
  code's guards make of a nil configuration. The package-level registry of \<open>registry.go\<close> is part of the engine's state.
\<close>

section \<open>Configuration and state\<close>

record LQCConfig =
  lc_CommitteeMin :: u64
  lc_CommitteeMax :: u64
  lc_CommitteeRatioBps :: u64
  lc_FallbackSlots :: u64
  lc_FallbackWindowMs :: u64
  lc_TargetBlockTimeMs :: u64
  lc_EraLength :: u64
  lc_ProofDifficulty :: u64
  lc_ActivityWindow :: u64
  lc_EpochLength :: u64
  lc_RegistryMode :: string
  lc_BootstrapParticipants :: "address list"
  lc_RegistryProtocolBlock :: u64
  lc_ConsensusHardeningBlock :: u64
  lc_ConsensusStabilizationBlock :: u64
  lc_ConsensusFairnessBlock :: u64
  lc_ConsensusLivenessV3Block :: u64
  lc_ConsensusLivenessV4Block :: u64
  lc_ConsensusLivenessV5Block :: u64
  lc_ConsensusLivenessV6Block :: u64
  lc_VRFProtocolBlock :: u64
  lc_BootstrapOnlyUntil :: u64
  lc_MinBond :: "int option"
  lc_ActivationDelay :: u64
  lc_HeartbeatWindow :: u64
  lc_HeartbeatGrace :: u64
  lc_RecoveryTimeoutMs :: u64
  lc_CommitteeSize :: u64
  lc_FallbackCount :: u64
  lc_JailBlocks :: u64
  lc_MaxMissedTurns :: u64
  lc_MinorSlashBps :: u64
  lc_MajorSlashBps :: u64

record LQC =
  lq_recoveryStopping :: bool
  lq_config :: "LQCConfig option"
  lq_chainID :: "nat option"
  lq_db :: "kvdb option"
  lq_registryCache :: "(hash, RegistrySnapshot) BasicLRU"
  lq_registryPool :: RegistryOperationPool
  lq_runtimeRegistry :: Registry

record ChainHeaderReader =
  ch_Config :: "ChainConfig option"
  ch_CurrentHeader :: "Header option"
  ch_GetHeader :: "hash \<Rightarrow> u64 \<Rightarrow> Header option"
  ch_GetHeaderByHash :: "hash \<Rightarrow> Header option"
  ch_GetHeaderByNumber :: "u64 \<Rightarrow> Header option"

datatype engine_error =
    EngineRegistry registry_error
  | EngineHeader header_error
  | EngineSeal seal_error
  | EngineExec exec_error
  | errUnknownAncestor
  | errInvalidBlockNumber
  | errUnclesNotAllowed
  | errInvalidExtra
  | errBlockTimeOverflow
  | errRegistryProtocolUnavailable
  | ErrRegistryPoolDisabled
  | ErrFutureBlock
  | ErrNilHeader
  | ErrMissingBlockNumber
  | ErrNonIncreasingTime
  | ErrNonzeroDifficulty
  | ErrNonzeroNonce
  | ErrNonzeroMixDigest
  | ErrMissingProducerCoinbase
  | ErrUnauthorizedProducer
  | ErrPublishedTooEarly
  | ErrNotSelected
  | EnginePanic

definition registrySnapshotMemoryLimit :: int where
  "registrySnapshotMemoryLimit = 256"

definition LQC_New :: "LQCConfig option \<Rightarrow> kvdb option \<Rightarrow> Registry \<Rightarrow> LQC" where
  "LQC_New config db runtime = \<lparr>lq_recoveryStopping = False, lq_config = config, lq_chainID = None, lq_db = db,
     lq_registryCache = NewBasicLRU registrySnapshotMemoryLimit, lq_registryPool = NewRegistryOperationPool,
     lq_runtimeRegistry = runtime\<rparr>"

definition SetChainID :: "LQC \<Rightarrow> nat option \<Rightarrow> LQC" where
  "SetChainID l chainID = (case chainID of None \<Rightarrow> l | Some c \<Rightarrow> l\<lparr>lq_chainID := Some c\<rparr>)"

definition StopLocalReconstruction :: "LQC \<Rightarrow> LQC" where
  "StopLocalReconstruction l = l\<lparr>lq_recoveryStopping := True\<rparr>"

definition setting :: "(LQCConfig \<Rightarrow> u64) \<Rightarrow> LQC \<Rightarrow> u64" where
  "setting f l = (case lq_config l of None \<Rightarrow> 0 | Some c \<Rightarrow> f c)"

definition Author :: "Header \<Rightarrow> address" where
  "Author header = h_Coinbase header"

section \<open>The consensus forks\<close>

definition isConsensusStabilizationBlock :: "LQC \<Rightarrow> u64 \<Rightarrow> bool" where
  "isConsensusStabilizationBlock l n = (setting lc_ConsensusStabilizationBlock l \<noteq> 0 \<and> n = setting lc_ConsensusStabilizationBlock l)"

definition isConsensusFairnessBlock :: "LQC \<Rightarrow> u64 \<Rightarrow> bool" where
  "isConsensusFairnessBlock l n = (setting lc_ConsensusFairnessBlock l \<noteq> 0 \<and> n = setting lc_ConsensusFairnessBlock l)"

definition consensusFairnessActive :: "LQC \<Rightarrow> u64 \<Rightarrow> bool" where
  "consensusFairnessActive l n = (setting lc_ConsensusFairnessBlock l \<noteq> 0 \<and> n \<ge> setting lc_ConsensusFairnessBlock l)"

definition consensusLivenessV3Active :: "LQC \<Rightarrow> u64 \<Rightarrow> bool" where
  "consensusLivenessV3Active l n = (setting lc_ConsensusLivenessV3Block l \<noteq> 0 \<and> n \<ge> setting lc_ConsensusLivenessV3Block l)"

definition consensusLivenessV4Active :: "LQC \<Rightarrow> u64 \<Rightarrow> bool" where
  "consensusLivenessV4Active l n = (setting lc_ConsensusLivenessV4Block l \<noteq> 0 \<and> n \<ge> setting lc_ConsensusLivenessV4Block l)"

definition consensusLivenessV5Active :: "LQC \<Rightarrow> u64 \<Rightarrow> bool" where
  "consensusLivenessV5Active l n = (setting lc_ConsensusLivenessV5Block l \<noteq> 0 \<and> n \<ge> setting lc_ConsensusLivenessV5Block l)"

definition consensusLivenessV6Active :: "LQC \<Rightarrow> u64 \<Rightarrow> bool" where
  "consensusLivenessV6Active l n = (setting lc_ConsensusLivenessV6Block l \<noteq> 0 \<and> n \<ge> setting lc_ConsensusLivenessV6Block l)"

definition vrfForkLivenessActive :: "LQC \<Rightarrow> u64 \<Rightarrow> bool" where
  "vrfForkLivenessActive l n = (setting lc_VRFProtocolBlock l \<noteq> 0 \<and> n \<ge> setting lc_VRFProtocolBlock l)"

definition consensusCommitteeLivenessActive :: "LQC \<Rightarrow> u64 \<Rightarrow> bool" where
  "consensusCommitteeLivenessActive l n =
     (setting lc_ConsensusStabilizationBlock l \<noteq> 0 \<and> n > setting lc_ConsensusStabilizationBlock l)"

definition isAuthorAllowedAt :: "LQC \<Rightarrow> u64 \<Rightarrow> HybridSelection \<Rightarrow> address \<Rightarrow> bool \<times> int" where
  "isAuthorAllowedAt l n selection author =
     (if consensusLivenessV5Active l n then IsAuthorAllowedBounded selection author
      else if consensusLivenessV4Active l n then IsAuthorAllowed selection author
      else if consensusLivenessV3Active l n then IsAuthorAllowedBounded selection author
      else IsAuthorAllowed selection author)"

section \<open>Recovery and block times\<close>

definition recoveryTimeoutSeconds :: "LQC \<Rightarrow> u64" where
  "recoveryTimeoutSeconds l =
     (let ms = setting lc_RecoveryTimeoutMs l
      in if ms = 0 then 0 else if ms mod 1000 \<noteq> 0 then ms div 1000 + 1 else ms div 1000)"

definition recoveryOpenAt :: "LQC \<Rightarrow> Header option \<Rightarrow> u64 \<Rightarrow> bool" where
  "recoveryOpenAt l parent candidateTime =
     (let timeout = recoveryTimeoutSeconds l in
      if timeout = 0 then False
      else case parent of
        None \<Rightarrow> False
      | Some p \<Rightarrow>
          (case h_Number p of
             None \<Rightarrow> False
           | Some number \<Rightarrow>
               if number = 0 then False
               else case checkedRegistryBlockAdd [h_Time p, timeout] of
                 None \<Rightarrow> False
               | Some recoveryTime \<Rightarrow> candidateTime \<ge> recoveryTime))"

definition openActivationForHeader :: "LQC \<Rightarrow> ChainHeaderReader \<Rightarrow> Header \<Rightarrow> bool" where
  "openActivationForHeader l chain header =
     (case h_Number header of
        None \<Rightarrow> False
      | Some number \<Rightarrow>
          let n = big_Uint64 number in
          if number \<le> 0 then False
          else if isConsensusStabilizationBlock l n \<or> isConsensusFairnessBlock l n then False
          else if n = 1 then (case lq_config l of None \<Rightarrow> True | Some c \<Rightarrow> lc_BootstrapParticipants c = [])
          else recoveryOpenAt l (ch_GetHeader chain (h_ParentHash header) (n - 1)) (h_Time header))"

definition legacyAllowedFutureBlockTimeSeconds :: u64 where
  "legacyAllowedFutureBlockTimeSeconds = 30"

definition hardenedAllowedFutureBlockTimeSeconds :: u64 where
  "hardenedAllowedFutureBlockTimeSeconds = 1"

definition IsUint64 :: "int \<Rightarrow> bool" where
  "IsUint64 n = (0 \<le> n \<and> n < 2 ^ 64)"

definition futureBlockTimeTolerance :: "LQC \<Rightarrow> int option \<Rightarrow> u64" where
  "futureBlockTimeTolerance l number =
     (case number of
        None \<Rightarrow> legacyAllowedFutureBlockTimeSeconds
      | Some n \<Rightarrow>
          if setting lc_ConsensusHardeningBlock l \<noteq> 0 \<and> IsUint64 n \<and> big_Uint64 n \<ge> setting lc_ConsensusHardeningBlock l
          then hardenedAllowedFutureBlockTimeSeconds else legacyAllowedFutureBlockTimeSeconds)"

definition targetBlockSeconds :: "LQC \<Rightarrow> u64" where
  "targetBlockSeconds l =
     (let ms = setting lc_TargetBlockTimeMs l; sec = ms div 1000
      in if ms > 0 then if sec = 0 then 1 else sec else 15)"

definition fallbackWindowSeconds :: "LQC \<Rightarrow> u64" where
  "fallbackWindowSeconds l =
     (let ms = setting lc_FallbackWindowMs l; sec = ms div 1000
      in if ms > 0 then if sec = 0 then 1 else sec else 5)"

definition minAllowedTimeChecked :: "LQC \<Rightarrow> u64 \<Rightarrow> int \<Rightarrow> engine_error + u64" where
  "minAllowedTimeChecked l parentTime queuePos =
     (let base = targetBlockSeconds l in
      if queuePos \<le> 0 then
        (case checkedRegistryBlockAdd [parentTime, base] of None \<Rightarrow> Inl errBlockTimeOverflow | Some minTime \<Rightarrow> Inr minTime)
      else
        let window = fallbackWindowSeconds l; position = word_of_int queuePos in
        if window \<noteq> 0 \<and> position > maxU64 div window then Inl errBlockTimeOverflow
        else case checkedRegistryBlockAdd [parentTime, base, position * window] of
          None \<Rightarrow> Inl errBlockTimeOverflow
        | Some minTime \<Rightarrow> Inr minTime)"

definition minAllowedTime :: "LQC \<Rightarrow> u64 \<Rightarrow> int \<Rightarrow> u64" where
  "minAllowedTime l parentTime queuePos = (case minAllowedTimeChecked l parentTime queuePos of Inl _ \<Rightarrow> maxU64 | Inr t \<Rightarrow> t)"

section \<open>The legacy extra data\<close>

definition makeExtra :: "u64 \<Rightarrow> bytes" where
  "makeExtra number = appendEmptyProducerSeal (ascii ''LQC:1:'' @ dec_bytes (unat number))"

definition verifyExtra :: "Header \<Rightarrow> engine_error option" where
  "verifyExtra header =
     (case h_Number header of
        None \<Rightarrow> Some errInvalidExtra
      | Some number \<Rightarrow>
          (case splitProducerSeal (h_Extra header) of
             Inl _ \<Rightarrow> Some errInvalidExtra
           | Inr (payload, _) \<Rightarrow>
               (case splitProducerSeal (makeExtra (big_Uint64 number)) of
                  Inl _ \<Rightarrow> Some errInvalidExtra
                | Inr (expected, _) \<Rightarrow> if payload \<noteq> expected then Some errInvalidExtra else None)))"

section \<open>Selections\<close>

definition registryProtocolEnabled :: "LQC \<Rightarrow> int option \<Rightarrow> bool" where
  "registryProtocolEnabled l number =
     (case number of
        None \<Rightarrow> False
      | Some n \<Rightarrow> setting lc_RegistryProtocolBlock l > 0 \<and> 0 \<le> n \<and> big_Uint64 n \<ge> setting lc_RegistryProtocolBlock l)"

definition registryRules :: "LQC \<Rightarrow> RegistrySnapshotRules" where
  "registryRules l = \<lparr>sr_ProofDifficulty = setting lc_ProofDifficulty l, sr_ActivationDelay = setting lc_ActivationDelay l,
     sr_HeartbeatWindow = nonzero_or 64 (setting lc_HeartbeatWindow l), sr_HeartbeatGrace = nonzero_or 16 (setting lc_HeartbeatGrace l),
     sr_JailBlocks = nonzero_or 256 (setting lc_JailBlocks l), sr_MaxMissedTurns = nonzero_or 3 (setting lc_MaxMissedTurns l)\<rparr>"

definition registryCheckpointInterval :: "LQC \<Rightarrow> u64" where
  "registryCheckpointInterval l = nonzero_or 128 (setting lc_EpochLength l)"

definition rewardActivityWindow :: "LQC \<Rightarrow> u64" where
  "rewardActivityWindow l = nonzero_or 128 (setting lc_ActivityWindow l)"

definition hybridCfg :: "LQC \<Rightarrow> HybridLQCConfig" where
  "hybridCfg l = normalizeHybridConfig \<lparr>
     hc_MinBond = (case lq_config l of None \<Rightarrow> None | Some c \<Rightarrow> lc_MinBond c),
     hc_ActivationDelay = setting lc_ActivationDelay l,
     hc_HeartbeatWindow = setting lc_HeartbeatWindow l,
     hc_HeartbeatGrace = setting lc_HeartbeatGrace l,
     hc_CommitteeSize = (if setting lc_CommitteeSize l > 0 then setting lc_CommitteeSize l
       else if setting lc_CommitteeMax l > 0 then setting lc_CommitteeMax l else setting lc_CommitteeMin l),
     hc_FallbackCount = (if setting lc_FallbackCount l > 0 then setting lc_FallbackCount l else setting lc_FallbackSlots l),
     hc_JailBlocks = setting lc_JailBlocks l,
     hc_MaxMissedTurns = setting lc_MaxMissedTurns l,
     hc_MinorSlashBps = setting lc_MinorSlashBps l,
     hc_MajorSlashBps = setting lc_MajorSlashBps l,
     hc_BootstrapOnlyUntil = setting lc_BootstrapOnlyUntil l\<rparr>"

definition empty_selection :: HybridSelection where
  "empty_selection = \<lparr>sel_Ordered = [], sel_Producer = None, sel_Fallbacks = [], sel_Committee = []\<rparr>"

definition activation_participant :: "u64 \<Rightarrow> address \<Rightarrow> HybridParticipant" where
  "activation_participant n coinbase = \<lparr>hp_Address = coinbase, hp_Payout = coinbase, hp_NodeID = '''', hp_Bond = Some 25,
     hp_RegisteredAt = n, hp_LastHeartbeat = n, hp_JailedUntil = 0, hp_MissedTurns = 0, hp_Status = ParticipantActiveCandidate,
     hp_IsBootstrap = False\<rparr>"

definition activation_selection :: "u64 \<Rightarrow> address \<Rightarrow> HybridSelection \<Rightarrow> HybridSelection" where
  "activation_selection n coinbase sel =
     sel\<lparr>sel_Ordered := [activation_participant n coinbase], sel_Producer := Some (activation_participant n coinbase)\<rparr>"

definition legacySelectionForHeader :: "crypto \<Rightarrow> LQC \<Rightarrow> Header \<Rightarrow> engine_error + HybridSelection" where
  "legacySelectionForHeader cr l header =
     (case h_Number header of
        None \<Rightarrow> Inr empty_selection
      | Some number \<Rightarrow>
          let n = big_Uint64 number;
              mode = (case lq_config l of None \<Rightarrow> ''open'' | Some c \<Rightarrow> if lc_RegistryMode c \<noteq> '''' then lc_RegistryMode c else ''open'');
              bootstrap = NormalizeBootstrapParticipants (case lq_config l of None \<Rightarrow> [] | Some c \<Rightarrow> lc_BootstrapParticipants c);
              reg = ApplyActivityWindow (RealRegistry (lq_runtimeRegistry l) n bootstrap mode) n (rewardActivityWindow l)
          in case BuildHybridSelection cr bootstrap (ToHybridParticipants reg) (h_ParentHash header) n (hybridCfg l) of
               None \<Rightarrow> Inl EnginePanic
             | Some sel \<Rightarrow>
                 if sel_Ordered sel = [] \<and> h_Coinbase header \<noteq> 0
                 then Inr (activation_selection n (h_Coinbase header) sel) else Inr sel)"

definition canonicalSelection :: "crypto \<Rightarrow> LQC \<Rightarrow> RegistrySnapshot \<Rightarrow> Header \<Rightarrow> engine_error + HybridSelection" where
  "canonicalSelection cr l snapshot header =
     (case h_Number header of
        None \<Rightarrow> Inl (EngineRegistry ErrInvalidRegistrySnapshot)
      | Some number \<Rightarrow>
          (case Snapshot_Registry cr snapshot of
             Inl err \<Rightarrow> Inl (EngineRegistry err)
           | Inr registry \<Rightarrow>
               let rules = registryRules l;
                   ordered = OrderedParticipantsForBlock cr registry (h_ParentHash header) (big_Uint64 number)
                     (sr_ActivationDelay rules) (sr_HeartbeatWindow rules) (sr_HeartbeatGrace rules);
                   committeeSize =
                     (if setting lc_CommitteeSize l > 0 then setting lc_CommitteeSize l
                      else ComputeCommitteeSizeWithBounds (of_nat (length ordered))
                             (nonzero_or 32 (setting lc_CommitteeMin l)) (nonzero_or 128 (setting lc_CommitteeMax l)))
               in case assign_roles ((hybridCfg l)\<lparr>hc_CommitteeSize := committeeSize\<rparr>) ordered of
                    None \<Rightarrow> Inl EnginePanic
                  | Some selection \<Rightarrow> Inr selection))"

end
