(* ===== verification/Engine_Snapshot.thy ===== *)
theory Engine_Snapshot
  imports Engine
begin

text \<open>
  The registry snapshot of a block (\<open>consensus/lqc/registry_engine.go\<close>): the snapshot cache in front of the checkpoint database, the
  application of a header of any envelope version, and the reconstruction that walks back to a cached ancestor and replays. The
  specification is the replay from the bootstrap snapshot without any cache.
\<close>

section \<open>The snapshot cache\<close>

definition registryChainID :: "ChainHeaderReader \<Rightarrow> engine_error + nat" where
  "registryChainID chain = (case ch_Config chain of
      None \<Rightarrow> Inl errRegistryProtocolUnavailable
    | Some c \<Rightarrow> (case cc_ChainID c of None \<Rightarrow> Inl errRegistryProtocolUnavailable | Some chainID \<Rightarrow> Inr chainID))"

definition localRecoveryCheckpointNumber :: "LQC \<Rightarrow> u64 \<Rightarrow> bool" where
  "localRecoveryCheckpointNumber l number =
     (let interval = registryCheckpointInterval l; remainder = number mod interval
      in remainder = 0 \<or> remainder = interval - 1)"

definition rememberRegistrySnapshot :: "crypto \<Rightarrow> LQC \<Rightarrow> RegistrySnapshot \<Rightarrow> LQC" where
  "rememberRegistrySnapshot cr l snapshot =
     (let l1 = l\<lparr>lq_registryCache := snd (LRU_Add (rs_Hash snapshot) snapshot (lq_registryCache l))\<rparr>
      in case lq_db l1 of
           None \<Rightarrow> l1
         | Some db \<Rightarrow>
             if localRecoveryCheckpointNumber l1 (rs_Number snapshot) then
               (case StoreRegistrySnapshot cr db snapshot of Inl _ \<Rightarrow> l1 | Inr db' \<Rightarrow> l1\<lparr>lq_db := Some db'\<rparr>)
             else l1)"

definition cachedRegistrySnapshot :: "crypto \<Rightarrow> LQC \<Rightarrow> u64 \<Rightarrow> hash \<Rightarrow> RegistrySnapshot option \<times> LQC" where
  "cachedRegistrySnapshot cr l number h =
     (if h = 0 then (None, l)
      else
        let (entry, cache) = LRU_Get h (lq_registryCache l);
            l1 = l\<lparr>lq_registryCache := cache\<rparr>;
            load = (case lq_db l1 of
                None \<Rightarrow> (None, l1)
              | Some db \<Rightarrow>
                  if number mod registryCheckpointInterval l1 = 0 then
                    (case LoadRegistrySnapshot cr db h of
                       Inl _ \<Rightarrow> (None, l1)
                     | Inr snapshot \<Rightarrow>
                         if rs_Number snapshot = number
                         then (Some snapshot, l1\<lparr>lq_registryCache := snd (LRU_Add h snapshot (lq_registryCache l1))\<rparr>)
                         else (None, l1))
                  else (None, l1))
        in case entry of
             Some snapshot \<Rightarrow> if rs_Number snapshot = number then (Some snapshot, l1) else load
           | None \<Rightarrow> load)"

section \<open>Applying a header\<close>

definition applyRegistryHeaderWithOpenActivation ::
  "crypto \<Rightarrow> LQC \<Rightarrow> RegistrySnapshot \<Rightarrow> nat \<Rightarrow> RegistrySnapshotRules \<Rightarrow> Header \<Rightarrow> bool \<Rightarrow> engine_error + RegistrySnapshot" where
  "applyRegistryHeaderWithOpenActivation cr l parent chainID rules header openActivation =
     (let preserveRegistry = (case h_Number header of
            None \<Rightarrow> False
          | Some number \<Rightarrow> consensusCommitteeLivenessActive l (big_Uint64 number))
      in map_sum EngineRegistry id
           (applyHeaderWithOpenActivation cr parent chainID rules header openActivation preserveRegistry))"

definition replayRegistryRootMismatchByWorkSeats :: "engine_error \<Rightarrow> engine_error + RegistrySnapshot" where
  "replayRegistryRootMismatchByWorkSeats original = Inl original"

text \<open>The block number, registry root and operations of a V5, V4 or V3 envelope, with the error for a block number that does not match.\<close>

definition decode_work_envelope ::
  "(bls_key \<Rightarrow> bool) \<Rightarrow> bytes \<Rightarrow> (u64 \<times> hash \<times> RegistryOperation list \<times> header_error) option" where
  "decode_work_envelope decodes extra =
     (case DecodeLQCHeaderExtraV5 decodes extra MaxWorkTicketsPerBlockV1 of
        Inr e \<Rightarrow> Some (e5_BlockNumber e, e5_RegistryRoot e, e5_RegistryOperations e, ErrLQCHeaderBlockMismatchV5)
      | Inl _ \<Rightarrow>
          (case DecodeLQCHeaderExtraV4 extra MaxWorkTicketsPerBlockV1 of
             Inr e \<Rightarrow> Some (e4_BlockNumber e, e4_RegistryRoot e, e4_RegistryOperations e, ErrLQCHeaderBlockMismatchV4)
           | Inl _ \<Rightarrow>
               (case DecodeLQCHeaderExtraV3 extra MaxWorkTicketsPerBlockV1 of
                  Inr e \<Rightarrow> Some (e3_BlockNumber e, e3_RegistryRoot e, e3_RegistryOperations e, ErrLQCHeaderBlockMismatchV3)
                | Inl _ \<Rightarrow> None)))"

definition apply_work_envelope ::
  "crypto \<Rightarrow> LQC \<Rightarrow> ChainHeaderReader \<Rightarrow> RegistrySnapshot \<Rightarrow> Header \<Rightarrow> u64 \<Rightarrow> hash \<Rightarrow> RegistryOperation list
    \<Rightarrow> engine_error + RegistrySnapshot" where
  "apply_work_envelope cr l chain parent header blockNumber envelopeRoot operations =
     (case registryChainID chain of
        Inl err \<Rightarrow> Inl err
      | Inr chainID \<Rightarrow>
          let rules = registryRules l in
          case EncodeRegistryHeaderExtra blockNumber envelopeRoot operations of
            Inl err \<Rightarrow> Inl (EngineRegistry err)
          | Inr v2Extra \<Rightarrow>
              (case ValidateRegistryHeaderExtra cr chainID blockNumber (sr_ProofDifficulty rules) v2Extra of
                 Inl err \<Rightarrow> Inl (EngineRegistry err)
               | Inr validated \<Rightarrow>
                   (case Snapshot_Registry cr parent of
                      Inl err \<Rightarrow> Inl (EngineRegistry err)
                    | Inr registry \<Rightarrow>
                        (case apply_operations cr chainID blockNumber (sr_ProofDifficulty rules) (env_Operations validated) registry of
                           Inl err \<Rightarrow> Inl (EngineRegistry err)
                         | Inr registry' \<Rightarrow>
                             if Root cr registry' = envelopeRoot
                             then Inr (newRegistrySnapshot cr blockNumber (Header_Hash cr header) registry')
                             else
                               let synthetic = (CopyHeader header)\<lparr>h_Extra := v2Extra\<rparr> in
                               case applyRegistryHeaderWithOpenActivation cr l parent chainID rules synthetic
                                      (openActivationForHeader l chain header) of
                                 Inl err \<Rightarrow>
                                   if err = EngineRegistry ErrRegistryRootMismatch
                                   then replayRegistryRootMismatchByWorkSeats err else Inl err
                               | Inr legacy \<Rightarrow>
                                   (case Snapshot_Registry cr legacy of
                                      Inl err \<Rightarrow> Inl (EngineRegistry err)
                                    | Inr legacyRegistry \<Rightarrow>
                                        if Root cr legacyRegistry \<noteq> envelopeRoot
                                        then Inl (EngineRegistry ErrRegistryRootMismatch)
                                        else Inr (newRegistrySnapshot cr blockNumber (Header_Hash cr header) legacyRegistry))))))"

definition applyRegistrySnapshotHeaderMaybeV3 ::
  "crypto \<Rightarrow> (bls_key \<Rightarrow> bool) \<Rightarrow> LQC \<Rightarrow> ChainHeaderReader \<Rightarrow> RegistrySnapshot \<Rightarrow> Header \<Rightarrow> engine_error + RegistrySnapshot" where
  "applyRegistrySnapshotHeaderMaybeV3 cr decodes l chain parent header =
     (case h_Number header of
        None \<Rightarrow> Inl (EngineRegistry ErrRegistrySnapshotChainMismatch)
      | Some number \<Rightarrow>
          if rs_Number parent = maxU64 \<or> big_Uint64 number \<noteq> rs_Number parent + 1 \<or> h_ParentHash header \<noteq> rs_Hash parent
          then Inl (EngineRegistry ErrRegistrySnapshotChainMismatch)
          else
            (case decode_work_envelope decodes (h_Extra header) of
               Some (envelopeBlockNumber, envelopeRegistryRoot, envelopeOperations, blockMismatchErr) \<Rightarrow>
                 if envelopeBlockNumber \<noteq> big_Uint64 number then Inl (EngineHeader blockMismatchErr)
                 else apply_work_envelope cr l chain parent header (big_Uint64 number) envelopeRegistryRoot envelopeOperations
             | None \<Rightarrow>
                 (case registryChainID chain of
                    Inl err \<Rightarrow> Inl err
                  | Inr chainID \<Rightarrow>
                      applyRegistryHeaderWithOpenActivation cr l parent chainID (registryRules l) header
                        (openActivationForHeader l chain header))))"

section \<open>The snapshot of a block\<close>

text \<open>
  The walk back to the closest cached ancestor above the block before activation, collecting the headers to replay. The block
  numbers decrease, so the walk ends.
\<close>

function walk_back ::
  "crypto \<Rightarrow> ChainHeaderReader \<Rightarrow> u64 \<Rightarrow> u64 \<Rightarrow> hash \<Rightarrow> Header list \<Rightarrow> LQC
    \<Rightarrow> (engine_error + RegistrySnapshot option \<times> u64 \<times> hash \<times> Header list) \<times> LQC" where
  "walk_back cr chain before currentNumber currentHash pending l =
     (if currentNumber \<le> before then (Inr (None, currentNumber, currentHash, pending), l)
      else case cachedRegistrySnapshot cr l currentNumber currentHash of
        (Some snapshot, l1) \<Rightarrow> (Inr (Some snapshot, currentNumber, currentHash, pending), l1)
      | (None, l1) \<Rightarrow>
          (case ch_GetHeader chain currentHash currentNumber of
             None \<Rightarrow> (Inl errUnknownAncestor, l1)
           | Some header \<Rightarrow> walk_back cr chain before (currentNumber - 1) (h_ParentHash header) (pending @ [header]) l1))"
  by pat_completeness auto

termination
proof (relation "measure (\<lambda>(_, _, _, n, _, _, _). unat n)")
  fix before n :: u64
  assume "\<not> n \<le> before"
  then have "0 < n" by (metis leI not_gr_zero word_not_simps(1) word_zero_le order.strict_trans1 not_le)
  then show "((cr, chain, before, n - 1, h, p, l), cr, chain, before, n, h', p', l') \<in> measure (\<lambda>(_, _, _, n, _, _, _). unat n)"
    for cr chain h p l h' p' l'
    by (simp add: unat_gt_0 unat_minus_one word_gt_0)
qed auto

fun replay_headers ::
  "crypto \<Rightarrow> (bls_key \<Rightarrow> bool) \<Rightarrow> ChainHeaderReader \<Rightarrow> Header list \<Rightarrow> RegistrySnapshot \<Rightarrow> LQC
    \<Rightarrow> (engine_error + RegistrySnapshot) \<times> LQC" where
  "replay_headers cr decodes chain [] base l = (Inr base, l)"
| "replay_headers cr decodes chain (header # rest) base l =
     (case applyRegistrySnapshotHeaderMaybeV3 cr decodes l chain base header of
        Inl err \<Rightarrow> (Inl err, l)
      | Inr next \<Rightarrow> replay_headers cr decodes chain rest next (rememberRegistrySnapshot cr l next))"

definition snapshot_base ::
  "crypto \<Rightarrow> LQCConfig \<Rightarrow> RegistrySnapshot option \<Rightarrow> u64 \<Rightarrow> hash \<Rightarrow> LQC \<Rightarrow> (engine_error + RegistrySnapshot) \<times> LQC" where
  "snapshot_base cr config found currentNumber currentHash l =
     (case found of
        Some base \<Rightarrow> (Inr base, l)
      | None \<Rightarrow>
          if currentNumber \<noteq> lc_RegistryProtocolBlock config - 1 then (Inl (EngineRegistry ErrRegistrySnapshotChainMismatch), l)
          else case NewBootstrapRegistrySnapshot cr currentNumber currentHash (lc_BootstrapParticipants config) of
            Inl err \<Rightarrow> (Inl (EngineRegistry err), l)
          | Inr base \<Rightarrow> (Inr base, rememberRegistrySnapshot cr l base))"

definition registrySnapshotAt ::
  "crypto \<Rightarrow> (bls_key \<Rightarrow> bool) \<Rightarrow> LQC \<Rightarrow> ChainHeaderReader \<Rightarrow> u64 \<Rightarrow> hash \<Rightarrow> (engine_error + RegistrySnapshot) \<times> LQC" where
  "registrySnapshotAt cr decodes l chain number h =
     (case lq_config l of
        None \<Rightarrow> (Inl errRegistryProtocolUnavailable, l)
      | Some config \<Rightarrow>
          if lc_RegistryProtocolBlock config = 0 \<or> h = 0 then (Inl errRegistryProtocolUnavailable, l)
          else if number < lc_RegistryProtocolBlock config - 1 then (Inl (EngineRegistry ErrRegistrySnapshotChainMismatch), l)
          else
            (case cachedRegistrySnapshot cr l number h of
               (Some snapshot, l1) \<Rightarrow> (Inr snapshot, l1)
             | (None, l1) \<Rightarrow>
                 (case walk_back cr chain (lc_RegistryProtocolBlock config - 1) number h [] l1 of
                    (Inl err, l2) \<Rightarrow> (Inl err, l2)
                  | (Inr (found, currentNumber, currentHash, pending), l2) \<Rightarrow>
                      (case snapshot_base cr config found currentNumber currentHash l2 of
                         (Inl err, l3) \<Rightarrow> (Inl err, l3)
                       | (Inr base, l3) \<Rightarrow>
                           (case replay_headers cr decodes chain (rev pending) base l3 of
                              (Inl err, l4) \<Rightarrow> (Inl err, l4)
                            | (Inr snapshot, l4) \<Rightarrow>
                                if rs_Number snapshot \<noteq> number \<or> rs_Hash snapshot \<noteq> h
                                then (Inl (EngineRegistry ErrRegistrySnapshotChainMismatch), l4)
                                else (Inr snapshot, l4))))))"

section \<open>Replay without a cache\<close>

lemma above_pos: "(b :: u64) < n \<Longrightarrow> unat (n - 1) < unat n"
proof -
  assume "b < n"
  then have "n \<noteq> 0" by auto
  then show ?thesis by (simp add: unat_minus_one unat_gt_0)
qed

lemma not_below_pos: "\<not> n < (b :: u64) \<Longrightarrow> n \<noteq> b \<Longrightarrow> unat (n - 1) < unat n"
  by (rule above_pos [of b]) simp

text \<open>The specification of \<open>registrySnapshotAt\<close>: replay every header from the bootstrap snapshot before activation.\<close>

function replay_snapshot ::
  "crypto \<Rightarrow> (bls_key \<Rightarrow> bool) \<Rightarrow> LQC \<Rightarrow> ChainHeaderReader \<Rightarrow> LQCConfig \<Rightarrow> u64 \<Rightarrow> hash \<Rightarrow> engine_error + RegistrySnapshot" where
  "replay_snapshot cr decodes l chain config n h =
     (if n < lc_RegistryProtocolBlock config - 1 then Inl (EngineRegistry ErrRegistrySnapshotChainMismatch)
      else if n = lc_RegistryProtocolBlock config - 1
      then map_sum EngineRegistry id (NewBootstrapRegistrySnapshot cr n h (lc_BootstrapParticipants config))
      else case ch_GetHeader chain h n of
        None \<Rightarrow> Inl errUnknownAncestor
      | Some header \<Rightarrow>
          (case replay_snapshot cr decodes l chain config (n - 1) (h_ParentHash header) of
             Inl err \<Rightarrow> Inl err
           | Inr parent \<Rightarrow> applyRegistrySnapshotHeaderMaybeV3 cr decodes l chain parent header))"
  by pat_completeness auto

termination
  by (relation "measure (\<lambda>(_, _, _, _, _, n, _). unat n)") (auto dest: not_below_pos)

declare walk_back.simps [simp del] replay_snapshot.simps [simp del]

lemma setting_cong: "lq_config l = lq_config l' \<Longrightarrow> setting f l = setting f l'"
  by (simp add: setting_def)

lemmas config_defs = isConsensusStabilizationBlock_def isConsensusFairnessBlock_def consensusCommitteeLivenessActive_def
  recoveryTimeoutSeconds_def recoveryOpenAt_def openActivationForHeader_def registryRules_def applyRegistryHeaderWithOpenActivation_def

lemma apply_cong:
  assumes "lq_config l = lq_config l'"
  shows "applyRegistrySnapshotHeaderMaybeV3 cr d l chain s blk = applyRegistrySnapshotHeaderMaybeV3 cr d l' chain s blk"
  unfolding applyRegistrySnapshotHeaderMaybeV3_def apply_work_envelope_def config_defs setting_cong [OF assms] assms by (rule refl)

lemma replay_cong:
  "lq_config l = lq_config l' \<Longrightarrow> replay_snapshot cr d l chain config n h = replay_snapshot cr d l' chain config n h"
proof (induction cr d l chain config n h rule: replay_snapshot.induct)
  case (1 cr d l chain config n h)
  show ?case
    using "1.IH" "1.prems" apply_cong [OF "1.prems"]
    by (subst (1 2) replay_snapshot.simps) (auto split: option.splits sum.splits)
qed

text \<open>The chain reader's law: a header is found under its hash.\<close>

definition keyed :: "crypto \<Rightarrow> ChainHeaderReader \<Rightarrow> bool" where
  "keyed cr chain \<longleftrightarrow> (\<forall>h n blk. ch_GetHeader chain h n = Some blk \<longrightarrow> Header_Hash cr blk = h)"

lemma keyedD: "keyed cr chain \<Longrightarrow> ch_GetHeader chain h n = Some blk \<Longrightarrow> Header_Hash cr blk = h"
  by (simp add: keyed_def)

lemma apply_fields:
  assumes "applyRegistrySnapshotHeaderMaybeV3 cr d l chain s blk = Inr s'"
  shows "rs_Number s' = rs_Number s + 1" and "rs_Hash s' = Header_Hash cr blk" and "rs_Hash s = h_ParentHash blk"
proof -
  have legacy: "rs_Number t = rs_Number s + 1 \<and> rs_Hash t = Header_Hash cr g"
    if "applyRegistryHeaderWithOpenActivation cr l s chainID rules g op = Inr t" for chainID rules g op t
  proof -
    from that obtain pres where "applyHeaderWithOpenActivation cr s chainID rules g op pres = Inr t"
      by (auto simp: applyRegistryHeaderWithOpenActivation_def map_sum_def Let_def split: sum.splits)
    then show ?thesis by (rule applyHeader_Inr) (auto simp: newRegistrySnapshot_def)
  qed
  from assms obtain number where n: "h_Number blk = Some number" "big_Uint64 number = rs_Number s + 1" "h_ParentHash blk = rs_Hash s"
    by (auto simp: applyRegistrySnapshotHeaderMaybeV3_def split: option.splits if_splits)
  then show "rs_Hash s = h_ParentHash blk" by simp
  have "rs_Number s' = rs_Number s + 1 \<and> rs_Hash s' = Header_Hash cr blk"
  proof (cases "decode_work_envelope d (h_Extra blk)")
    case None
    then show ?thesis using assms n legacy
      by (auto simp: applyRegistrySnapshotHeaderMaybeV3_def split: if_splits sum.splits)
  next
    case (Some e)
    then obtain root ops where "apply_work_envelope cr l chain s blk (rs_Number s + 1) root ops = Inr s'"
      using assms n by (auto simp: applyRegistrySnapshotHeaderMaybeV3_def split: if_splits prod.splits)
    then obtain r where "s' = newRegistrySnapshot cr (rs_Number s + 1) (Header_Hash cr blk) r"
      by (auto simp: apply_work_envelope_def Let_def replayRegistryRootMismatchByWorkSeats_def split: sum.splits if_splits)
    then show ?thesis by (simp add: newRegistrySnapshot_def)
  qed
  then show "rs_Number s' = rs_Number s + 1" "rs_Hash s' = Header_Hash cr blk" by blast+
qed

lemma replay_fields:
  assumes "keyed cr chain" "replay_snapshot cr d l chain config n h = Inr s"
  shows "rs_Number s = n \<and> rs_Hash s = h"
  using assms(2)
proof (induction n arbitrary: h s rule: measure_induct_rule [where f = unat])
  case (less n)
  let ?b = "lc_RegistryProtocolBlock config - 1"
  show ?case
  proof (cases "n \<le> ?b")
    case True
    then show ?thesis using less.prems
      by (subst (asm) replay_snapshot.simps)
        (auto simp: NewBootstrapRegistrySnapshot_def newRegistrySnapshot_def split: if_splits sum.splits)
  next
    case False
    then obtain blk p where blk: "ch_GetHeader chain h n = Some blk"
        and p: "replay_snapshot cr d l chain config (n - 1) (h_ParentHash blk) = Inr p"
        and s: "applyRegistrySnapshotHeaderMaybeV3 cr d l chain p blk = Inr s"
      using less.prems by (subst (asm) replay_snapshot.simps) (auto split: if_splits option.splits sum.splits)
    have "rs_Number p = n - 1" using less.IH [OF above_pos p] False by (auto simp: not_le)
    then show ?thesis using apply_fields [OF s] keyedD [OF assms(1) blk] by simp
  qed
qed

section \<open>The cache is transparent\<close>

definition checkpoint :: "crypto \<Rightarrow> kvdb \<Rightarrow> hash \<Rightarrow> RegistrySnapshot option" where
  "checkpoint cr db h = (case LoadRegistrySnapshot cr db h of Inl _ \<Rightarrow> None | Inr s \<Rightarrow> Some s)"

definition put_checkpoint :: "crypto \<Rightarrow> RegistrySnapshot \<Rightarrow> kvdb \<Rightarrow> kvdb" where
  "put_checkpoint cr s db = (case StoreRegistrySnapshot cr db s of Inl _ \<Rightarrow> db | Inr db' \<Rightarrow> db')"

definition small_snapshot :: "RegistrySnapshot \<Rightarrow> bool" where
  "small_snapshot s \<longleftrightarrow> length (rs_Participants s) < 2 ^ 57"

interpretation checkpoints: lossy_store "checkpoint cr" "\<lambda>_. put_checkpoint cr" "\<lambda>_ db. db" "\<lambda>_. True"
  "\<lambda>h s. h = rs_Hash s \<and> small_snapshot s \<and> \<not> isl (Snapshot_Registry cr s)" for cr
proof unfold_locales
  fix db k s j w
  assume ok: "k = rs_Hash s \<and> small_snapshot s \<and> \<not> isl (Snapshot_Registry cr s)" and w: "checkpoint cr (put_checkpoint cr s db) j = Some w"
  then obtain db' where "StoreRegistrySnapshot cr db s = Inr db'"
    by (cases "Snapshot_Registry cr s") (auto simp: StoreRegistrySnapshot_def)
  with Load_Store [OF this] ok w show "if j = k then w = s else checkpoint cr db j = Some w"
    by (auto simp: checkpoint_def put_checkpoint_def small_snapshot_def)
qed simp_all

text \<open>
  A cache is sound for a chain if everything it holds, in memory or in the database, is what the replay gives for that block.
\<close>

definition cache_sound :: "crypto \<Rightarrow> (bls_key \<Rightarrow> bool) \<Rightarrow> ChainHeaderReader \<Rightarrow> LQCConfig \<Rightarrow> LQC \<Rightarrow> bool" where
  "cache_sound cr d chain config l \<longleftrightarrow> lru_wf (lq_registryCache l)
     \<and> (\<forall>h s. LRU_Peek (lq_registryCache l) h = Some s \<longrightarrow> replay_snapshot cr d l chain config (rs_Number s) h = Inr s)
     \<and> (\<forall>db h s. lq_db l = Some db \<longrightarrow> checkpoint cr db h = Some s \<longrightarrow> replay_snapshot cr d l chain config (rs_Number s) h = Inr s)"

text \<open>What the snapshot operations leave alone.\<close>

definition same_engine :: "LQC \<Rightarrow> LQC \<Rightarrow> bool" where
  "same_engine l l' \<longleftrightarrow> lq_config l' = lq_config l \<and> lq_registryPool l' = lq_registryPool l \<and> lq_runtimeRegistry l' = lq_runtimeRegistry l
     \<and> lq_chainID l' = lq_chainID l \<and> lq_recoveryStopping l' = lq_recoveryStopping l \<and> (lq_db l' = None \<longleftrightarrow> lq_db l = None)"

lemma same_engine_refl [simp]: "same_engine l l"
  by (simp add: same_engine_def)

lemma same_engine_trans: "same_engine l l' \<Longrightarrow> same_engine l' l'' \<Longrightarrow> same_engine l l''"
  by (simp add: same_engine_def)

lemma same_engine_replay: "same_engine l l' \<Longrightarrow> replay_snapshot cr d l' chain config n h = replay_snapshot cr d l chain config n h"
  by (rule replay_cong) (simp add: same_engine_def)

lemma remember_same: "same_engine l (rememberRegistrySnapshot cr l s)"
  by (simp add: rememberRegistrySnapshot_def same_engine_def Let_def split: option.split sum.split)

lemma cached_same: "cachedRegistrySnapshot cr l n h = (r, l') \<Longrightarrow> same_engine l l'"
  by (auto simp: cachedRegistrySnapshot_def same_engine_def Let_def split: option.splits sum.splits if_splits prod.splits)

lemma remember_db:
  "lq_db (rememberRegistrySnapshot cr l s) = lq_db l
   \<or> (\<exists>db. lq_db l = Some db \<and> \<not> isl (Snapshot_Registry cr s) \<and> lq_db (rememberRegistrySnapshot cr l s) = Some (put_checkpoint cr s db))"
  by (auto simp: rememberRegistrySnapshot_def put_checkpoint_def StoreRegistrySnapshot_def Let_def split: option.split sum.split)

lemma remember_sound:
  assumes "cache_sound cr d chain config l" and "small_snapshot s"
    and "replay_snapshot cr d l chain config (rs_Number s) (rs_Hash s) = Inr s"
  shows "cache_sound cr d chain config (rememberRegistrySnapshot cr l s)"
proof -
  let ?l = "rememberRegistrySnapshot cr l s" and ?P = "\<lambda>h t. replay_snapshot cr d l chain config (rs_Number t) h = Inr t"
  have wf: "lru_wf (lq_registryCache l)" and mem: "\<And>h t. LRU_Peek (lq_registryCache l) h = Some t \<Longrightarrow> ?P h t"
      and db: "\<And>db h t. lq_db l = Some db \<Longrightarrow> checkpoint cr db h = Some t \<Longrightarrow> ?P h t"
    using assms(1) by (auto simp: cache_sound_def)
  have cache: "lq_registryCache ?l = snd (LRU_Add (rs_Hash s) s (lq_registryCache l))"
    by (simp add: rememberRegistrySnapshot_def Let_def split: option.split sum.split)
  have "?P h t" if "LRU_Peek (lq_registryCache ?l) h = Some t" for h t
    by (rule lru.put_keeps [where P = ?P, OF wf TrueI mem assms(3) that [unfolded cache]])
  moreover have "?P h t" if a: "lq_db ?l = Some db'" "checkpoint cr db' h = Some t" for db' h t
  proof -
    from remember_db [of cr l s] show ?thesis
    proof
      assume "lq_db ?l = lq_db l"
      with a show ?thesis by (intro db [of db']) simp_all
    next
      assume "\<exists>db. lq_db l = Some db \<and> \<not> isl (Snapshot_Registry cr s) \<and> lq_db ?l = Some (put_checkpoint cr s db)"
      then obtain db where d: "lq_db l = Some db" "\<not> isl (Snapshot_Registry cr s)" "db' = put_checkpoint cr s db" using a by auto
      have ok: "rs_Hash s = rs_Hash s \<and> small_snapshot s \<and> \<not> isl (Snapshot_Registry cr s)" using d assms(2) by simp
      from checkpoints.put_keeps [where P = ?P, OF TrueI ok db [OF d(1)] assms(3)] a(2) d(3) show ?thesis by blast
    qed
  qed
  ultimately show ?thesis
    using wf lru_Add_wf [OF wf] same_engine_replay [OF remember_same] by (auto simp: cache_sound_def cache)
qed

lemma cached_cases:
  assumes "cachedRegistrySnapshot cr l n h = (r, l')"
  shows "l' = l \<and> r = None
    \<or> l' = l\<lparr>lq_registryCache := snd (LRU_Get h (lq_registryCache l))\<rparr> \<and> (\<forall>t. r = Some t \<longrightarrow> LRU_Peek (lq_registryCache l) h = Some t \<and> rs_Number t = n)
    \<or> (\<exists>db s. lq_db l = Some db \<and> checkpoint cr db h = Some s \<and> rs_Number s = n \<and> r = Some s
        \<and> l' = l\<lparr>lq_registryCache := snd (LRU_Add h s (snd (LRU_Get h (lq_registryCache l))))\<rparr>)"
proof (cases "h = 0")
  case True
  then show ?thesis using assms by (simp add: cachedRegistrySnapshot_def)
next
  case False
  obtain e c where g: "LRU_Get h (lq_registryCache l) = (e, c)" by (cases "LRU_Get h (lq_registryCache l)")
  have e: "e = LRU_Peek (lq_registryCache l) h"
    using arg_cong [OF g, of fst] by (simp add: LRU_Get_def LRU_Peek_def split: option.splits)
  show ?thesis
  proof (cases "\<exists>t. e = Some t \<and> rs_Number t = n")
    case True
    then show ?thesis using assms False g e by (auto simp: cachedRegistrySnapshot_def)
  next
    case not: False
    then have "cachedRegistrySnapshot cr l n h = (case lq_db l of
        None \<Rightarrow> (None, l\<lparr>lq_registryCache := c\<rparr>)
      | Some db \<Rightarrow>
          if n mod registryCheckpointInterval (l\<lparr>lq_registryCache := c\<rparr>) = 0 then
            (case LoadRegistrySnapshot cr db h of
               Inl _ \<Rightarrow> (None, l\<lparr>lq_registryCache := c\<rparr>)
             | Inr snapshot \<Rightarrow>
                 if rs_Number snapshot = n then (Some snapshot, l\<lparr>lq_registryCache := snd (LRU_Add h snapshot c)\<rparr>)
                 else (None, l\<lparr>lq_registryCache := c\<rparr>))
          else (None, l\<lparr>lq_registryCache := c\<rparr>))"
      using False g by (cases e) (simp_all add: cachedRegistrySnapshot_def Let_def cong: option.case_cong sum.case_cong if_cong)
    then show ?thesis using assms g by (auto simp: checkpoint_def split: option.splits sum.splits if_splits)
  qed
qed

lemma cached_sound:
  assumes "cache_sound cr d chain config l" and "cachedRegistrySnapshot cr l n h = (r, l')"
  shows "cache_sound cr d chain config l'" and "r = Some s \<Longrightarrow> replay_snapshot cr d l chain config n h = Inr s"
proof -
  let ?P = "\<lambda>h t. replay_snapshot cr d l chain config (rs_Number t) h = Inr t" and ?c = "snd (LRU_Get h (lq_registryCache l))"
  have wf: "lru_wf (lq_registryCache l)" and mem: "\<And>h t. LRU_Peek (lq_registryCache l) h = Some t \<Longrightarrow> ?P h t"
      and db: "\<And>db h t. lq_db l = Some db \<Longrightarrow> checkpoint cr db h = Some t \<Longrightarrow> ?P h t"
    using assms(1) by (auto simp: cache_sound_def)
  note same = same_engine_replay [OF cached_same [OF assms(2)]]
  have wf': "lru_wf ?c" by (rule lru.inv_touch [OF wf])
  have mem': "?P j t" if "LRU_Peek ?c j = Some t" for j t by (rule lru.touch_keeps [where P = ?P, OF wf mem that])
  from cached_cases [OF assms(2)]
  have "cache_sound cr d chain config l' \<and> (\<forall>s. r = Some s \<longrightarrow> replay_snapshot cr d l chain config n h = Inr s)"
  proof (elim disjE exE conjE)
    assume "l' = l" "r = None"
    then show ?thesis using assms(1) by simp
  next
    assume "l' = l\<lparr>lq_registryCache := ?c\<rparr>" "\<forall>t. r = Some t \<longrightarrow> LRU_Peek (lq_registryCache l) h = Some t \<and> rs_Number t = n"
    then show ?thesis using wf' mem' mem db same by (auto simp: cache_sound_def)
  next
    fix db' s'
    assume c: "lq_db l = Some db'" "checkpoint cr db' h = Some s'" "rs_Number s' = n" "r = Some s'"
      and l': "l' = l\<lparr>lq_registryCache := snd (LRU_Add h s' ?c)\<rparr>"
    have "?P j t" if "LRU_Peek (snd (LRU_Add h s' ?c)) j = Some t" for j t
      by (rule lru.put_keeps [where P = ?P, OF wf' TrueI mem' db [OF c(1,2)] that])
    then show ?thesis using c l' lru_Add_wf [OF wf'] db same by (auto simp: cache_sound_def)
  qed
  then show "cache_sound cr d chain config l'" "r = Some s \<Longrightarrow> replay_snapshot cr d l chain config n h = Inr s" by blast+
qed

text \<open>Every registry along the chain is small enough for its RLP form.\<close>

definition small_replay :: "crypto \<Rightarrow> (bls_key \<Rightarrow> bool) \<Rightarrow> LQC \<Rightarrow> ChainHeaderReader \<Rightarrow> LQCConfig \<Rightarrow> bool" where
  "small_replay cr d l chain config \<longleftrightarrow> (\<forall>n h s. replay_snapshot cr d l chain config n h = Inr s \<longrightarrow> small_snapshot s)"

lemma small_replayD: "small_replay cr d l chain config \<Longrightarrow> replay_snapshot cr d l chain config n h = Inr s \<Longrightarrow> small_snapshot s"
  by (simp add: small_replay_def)

text \<open>Headers that continue the chain from a block.\<close>

fun linked :: "crypto \<Rightarrow> ChainHeaderReader \<Rightarrow> u64 \<Rightarrow> hash \<Rightarrow> Header list \<Rightarrow> bool" where
  "linked cr chain n h [] = True"
| "linked cr chain n h (blk # rest) =
     (n \<noteq> maxU64 \<and> h_ParentHash blk = h \<and> ch_GetHeader chain (Header_Hash cr blk) (n + 1) = Some blk \<and> linked cr chain (n + 1) (Header_Hash cr blk) rest)"

lemma linked_snoc:
  "linked cr chain n h (xs @ [blk]) \<longleftrightarrow> linked cr chain n h xs \<and> linked cr chain (n + of_nat (length xs))
     (fold (\<lambda>b _. Header_Hash cr b) xs h) [blk]"
  by (induction xs arbitrary: n h) (auto simp: add.assoc)

lemma next_number: "(n :: u64) \<noteq> maxU64 \<Longrightarrow> unat (n + 1) = Suc (unat n)"
  by (rule unat_u64_Suc) (simp add: eq_neg_iff_add_eq_0 [symmetric])

lemma replay_above:
  assumes "lc_RegistryProtocolBlock config - 1 < n"
  shows "replay_snapshot cr d l chain config n h = (case ch_GetHeader chain h n of
      None \<Rightarrow> Inl errUnknownAncestor
    | Some blk \<Rightarrow> (case replay_snapshot cr d l chain config (n - 1) (h_ParentHash blk) of
        Inl err \<Rightarrow> Inl err | Inr parent \<Rightarrow> applyRegistrySnapshotHeaderMaybeV3 cr d l chain parent blk))"
  using assms by (subst replay_snapshot.simps) auto

lemma replay_step:
  assumes "lc_RegistryProtocolBlock config - 1 \<le> n" "n \<noteq> maxU64" "ch_GetHeader chain h (n + 1) = Some blk"
    and "replay_snapshot cr d l chain config n (h_ParentHash blk) = r"
  shows "replay_snapshot cr d l chain config (n + 1) h =
     (case r of Inl err \<Rightarrow> Inl err | Inr s \<Rightarrow> applyRegistrySnapshotHeaderMaybeV3 cr d l chain s blk)"
proof -
  have "lc_RegistryProtocolBlock config - 1 < n + 1" using assms(1,2) by (simp add: word_less_nat_alt word_le_nat_alt next_number)
  then show ?thesis using assms(3,4) by (simp add: replay_above)
qed

definition replay_from ::
  "crypto \<Rightarrow> (bls_key \<Rightarrow> bool) \<Rightarrow> LQC \<Rightarrow> ChainHeaderReader \<Rightarrow> Header list \<Rightarrow> RegistrySnapshot \<Rightarrow> engine_error + RegistrySnapshot" where
  "replay_from cr d l chain = fold_res (\<lambda>blk s. applyRegistrySnapshotHeaderMaybeV3 cr d l chain s blk)"

text \<open>The replay loop gives what the pure fold gives, and everything it remembers is the replay of its block.\<close>

lemma replay_headers_sound:
  assumes "keyed cr chain" and small: "small_replay cr d l0 chain config"
  shows "cache_sound cr d chain config l \<Longrightarrow> same_engine l0 l \<Longrightarrow> replay_snapshot cr d l0 chain config n h = Inr base
    \<Longrightarrow> lc_RegistryProtocolBlock config - 1 \<le> n \<Longrightarrow> linked cr chain n h hs \<Longrightarrow> replay_headers cr d chain hs base l = (r, l')
    \<Longrightarrow> r = replay_from cr d l0 chain hs base \<and> cache_sound cr d chain config l' \<and> same_engine l0 l'"
proof (induction hs arbitrary: n h base l)
  case (Cons blk hs)
  have ap: "applyRegistrySnapshotHeaderMaybeV3 cr d l chain base blk = applyRegistrySnapshotHeaderMaybeV3 cr d l0 chain base blk"
    by (rule apply_cong) (use Cons.prems(2) in \<open>simp add: same_engine_def\<close>)
  show ?case
  proof (cases "applyRegistrySnapshotHeaderMaybeV3 cr d l0 chain base blk")
    case (Inl err)
    have "r = Inl err" "l' = l" using Cons.prems(6) by (auto simp: ap Inl)
    then show ?thesis using Cons.prems(1,2) by (simp add: replay_from_def Inl)
  next
    case (Inr s)
    have b: "n \<noteq> maxU64" "h_ParentHash blk = h" "ch_GetHeader chain (Header_Hash cr blk) (n + 1) = Some blk"
        "linked cr chain (n + 1) (Header_Hash cr blk) hs" using Cons.prems(5) by auto
    from replay_step [OF Cons.prems(4) b(1,3), of cr d l0] b(2) Cons.prems(3) Inr
    have s: "replay_snapshot cr d l0 chain config (n + 1) (Header_Hash cr blk) = Inr s" by simp
    have f: "rs_Number s = n + 1 \<and> rs_Hash s = Header_Hash cr blk" by (rule replay_fields [OF assms(1) s])
    have le: "lc_RegistryProtocolBlock config - 1 \<le> n + 1"
      using Cons.prems(4) b(1) by (simp add: word_le_nat_alt next_number)
    have "cache_sound cr d chain config (rememberRegistrySnapshot cr l s)"
      using s f small_replayD [OF small s] same_engine_replay [OF Cons.prems(2)] by (intro remember_sound [OF Cons.prems(1)]) auto
    from Cons.IH [OF this same_engine_trans [OF Cons.prems(2) remember_same] s le b(4)] Cons.prems(6) Inr ap
    show ?thesis by (simp add: replay_from_def)
  qed
qed (simp add: replay_from_def)

text \<open>The walk back ends at a block whose replay is known, with the headers that lead from there to the block asked for.\<close>

definition walk_result ::
  "crypto \<Rightarrow> (bls_key \<Rightarrow> bool) \<Rightarrow> LQC \<Rightarrow> ChainHeaderReader \<Rightarrow> LQCConfig \<Rightarrow> u64 \<Rightarrow> hash \<Rightarrow> Header list
    \<Rightarrow> engine_error + RegistrySnapshot option \<times> u64 \<times> hash \<times> Header list \<Rightarrow> bool" where
  "walk_result cr d l chain config n h pending res \<longleftrightarrow> (case res of
      Inl err \<Rightarrow> replay_snapshot cr d l chain config n h = Inl err
    | Inr (found, n', h', pending') \<Rightarrow> \<exists>hs. pending' = pending @ rev hs \<and> linked cr chain n' h' hs \<and> lc_RegistryProtocolBlock config - 1 \<le> n'
        \<and> n = n' + of_nat (length hs) \<and> h = fold (\<lambda>b _. Header_Hash cr b) hs h'
        \<and> (case found of None \<Rightarrow> n' = lc_RegistryProtocolBlock config - 1 | Some s \<Rightarrow> replay_snapshot cr d l chain config n' h' = Inr s)
        \<and> replay_snapshot cr d l chain config n h =
          (case replay_snapshot cr d l chain config n' h' of Inl err \<Rightarrow> Inl err | Inr s \<Rightarrow> replay_from cr d l chain hs s))"

lemma walk_result_stop:
  assumes "lc_RegistryProtocolBlock config - 1 \<le> n"
    and "case found of None \<Rightarrow> n = lc_RegistryProtocolBlock config - 1 | Some s \<Rightarrow> replay_snapshot cr d l chain config n h = Inr s"
  shows "walk_result cr d l chain config n h pending (Inr (found, n, h, pending))"
proof -
  have "(case r of Inl err \<Rightarrow> Inl err | Inr s \<Rightarrow> replay_from cr d l chain [] s) = r" for r :: "engine_error + RegistrySnapshot"
    by (simp add: replay_from_def split: sum.split)
  then show ?thesis using assms by (auto simp: walk_result_def intro!: exI [of _ "[]"])
qed

lemma walk_result_step:
  assumes "keyed cr chain" "lc_RegistryProtocolBlock config - 1 < n" "ch_GetHeader chain h n = Some blk"
    and "walk_result cr d l chain config (n - 1) (h_ParentHash blk) (pending @ [blk]) res"
  shows "walk_result cr d l chain config n h pending res"
proof (cases res)
  case (Inl err)
  then show ?thesis using assms(2-4) by (simp add: walk_result_def replay_above)
next
  case (Inr q)
  obtain found n' h' pending' where q: "q = (found, n', h', pending')" by (cases q)
  from assms(4) Inr q obtain hs where hs: "pending' = pending @ [blk] @ rev hs" "linked cr chain n' h' hs"
      "lc_RegistryProtocolBlock config - 1 \<le> n'" "n - 1 = n' + of_nat (length hs)"
      "h_ParentHash blk = fold (\<lambda>b _. Header_Hash cr b) hs h'"
      "case found of None \<Rightarrow> n' = lc_RegistryProtocolBlock config - 1 | Some s \<Rightarrow> replay_snapshot cr d l chain config n' h' = Inr s"
      "replay_snapshot cr d l chain config (n - 1) (h_ParentHash blk) =
        (case replay_snapshot cr d l chain config n' h' of Inl err \<Rightarrow> Inl err | Inr s \<Rightarrow> replay_from cr d l chain hs s)"
    by (auto simp: walk_result_def)
  have key: "Header_Hash cr blk = h" by (rule keyedD [OF assms(1,3)])
  have n: "n = n' + of_nat (length hs) + 1" using hs(4) by (simp add: algebra_simps)
  have "n \<noteq> 0" using assms(2) by auto
  then have "n' + of_nat (length hs) \<noteq> maxU64" using n by auto
  then have "linked cr chain n' h' (hs @ [blk])" using hs(2,5) assms(3) key n by (simp add: linked_snoc)
  moreover have "replay_snapshot cr d l chain config n h =
        (case replay_snapshot cr d l chain config n' h' of Inl err \<Rightarrow> Inl err | Inr s \<Rightarrow> replay_from cr d l chain (hs @ [blk]) s)"
    using hs(7) assms(3) by (auto simp: replay_above [OF assms(2)] replay_from_def fold_res_append split: sum.splits)
  moreover have "n = n' + of_nat (length (hs @ [blk]))" using n by simp
  ultimately show ?thesis using hs(1,3,6) key unfolding walk_result_def Inr q by (auto intro!: exI [of _ "hs @ [blk]"])
qed

lemma walk_result_cong:
  assumes "same_engine l l'"
  shows "walk_result cr d l' chain config n h pending res = walk_result cr d l chain config n h pending res"
proof -
  have replay: "replay_snapshot cr d l' chain config = replay_snapshot cr d l chain config"
    using same_engine_replay [OF assms] by (intro ext)
  have "replay_from cr d l' chain = replay_from cr d l chain"
    using apply_cong [of l l'] assms by (simp add: replay_from_def same_engine_def)
  then show ?thesis unfolding walk_result_def replay by (rule ssubst) (rule refl)
qed

lemma walk_back_sound:
  "walk_back cr chain before n h pending l = (res, l') \<Longrightarrow> keyed cr chain \<Longrightarrow> before = lc_RegistryProtocolBlock config - 1
    \<Longrightarrow> cache_sound cr d chain config l \<Longrightarrow> before \<le> n
    \<Longrightarrow> cache_sound cr d chain config l' \<and> same_engine l l' \<and> walk_result cr d l chain config n h pending res"
proof (induction cr chain before n h pending l arbitrary: res l' rule: walk_back.induct)
  case (1 cr chain before n h pending l)
  show ?case
  proof (cases "n \<le> before")
    case True
    then have "n = before" using "1.prems"(5) by simp
    then have "res = Inr (None, n, h, pending)" "l' = l" using "1.prems"(1) by (auto simp: walk_back.simps)
    then show ?thesis using \<open>n = before\<close> "1.prems" by (auto intro!: walk_result_stop)
  next
    case False
    obtain r l1 where c: "cachedRegistrySnapshot cr l n h = (r, l1)" by (cases "cachedRegistrySnapshot cr l n h")
    have l1: "cache_sound cr d chain config l1" "same_engine l l1" "\<And>s. r = Some s \<Longrightarrow> replay_snapshot cr d l chain config n h = Inr s"
      using cached_sound [OF "1.prems"(4) c] cached_same [OF c] by blast+
    note above = replay_above [of config n, OF False [unfolded not_le "1.prems"(3)]]
    show ?thesis
    proof (cases r)
      case (Some s)
      then have "res = Inr (Some s, n, h, pending)" "l' = l1" using "1.prems"(1) False c by (auto simp: walk_back.simps)
      then show ?thesis using l1 Some "1.prems"(3,5) by (auto intro!: walk_result_stop)
    next
      case None
      show ?thesis
      proof (cases "ch_GetHeader chain h n")
        case None
        then have "res = Inl errUnknownAncestor" "l' = l1" using "1.prems"(1) False c \<open>r = None\<close> by (auto simp: walk_back.simps)
        then show ?thesis using l1 None by (simp add: walk_result_def above)
      next
        case (Some blk)
        then have w: "walk_back cr chain before (n - 1) (h_ParentHash blk) (pending @ [blk]) l1 = (res, l')"
          using "1.prems"(1) False c \<open>r = None\<close> by (subst (asm) walk_back.simps) simp
        have "n \<noteq> 0" using False by auto
        then have "before \<le> n - 1" using False by (simp add: word_le_nat_alt unat_minus_one)
        from "1.IH" [OF False c [symmetric] \<open>r = None\<close> Some w "1.prems"(2,3) l1(1) this]
        have ih: "cache_sound cr d chain config l'" "same_engine l1 l'"
            "walk_result cr d l1 chain config (n - 1) (h_ParentHash blk) (pending @ [blk]) res" by blast+
        have "walk_result cr d l chain config n h pending res"
          using False "1.prems"(3) ih(3) [unfolded walk_result_cong [OF l1(2)]]
          by (intro walk_result_step [OF "1.prems"(2) _ Some]) auto
        then show ?thesis using ih same_engine_trans [OF l1(2)] by blast
      qed
    qed
  qed
qed

text \<open>What \<open>registrySnapshotAt\<close> returns is the replay, whatever the cache holds.\<close>

lemma snapshot_base_sound:
  assumes "keyed cr chain" "cache_sound cr d chain config l" "same_engine l0 l"
    and small: "small_replay cr d l0 chain config"
    and "case found of None \<Rightarrow> n = lc_RegistryProtocolBlock config - 1 | Some s \<Rightarrow> replay_snapshot cr d l0 chain config n h = Inr s"
    and "snapshot_base cr config found n h l = (r, l')"
  shows "r = replay_snapshot cr d l0 chain config n h \<and> cache_sound cr d chain config l' \<and> same_engine l0 l'"
proof (cases found)
  case (Some s)
  then show ?thesis using assms by (auto simp: snapshot_base_def)
next
  case None
  then have n: "n = lc_RegistryProtocolBlock config - 1" using assms(5) by simp
  then have rep: "replay_snapshot cr d l0 chain config n h = map_sum EngineRegistry id (NewBootstrapRegistrySnapshot cr n h (lc_BootstrapParticipants config))"
    by (subst replay_snapshot.simps) simp
  show ?thesis
  proof (cases "NewBootstrapRegistrySnapshot cr n h (lc_BootstrapParticipants config)")
    case (Inl e)
    then show ?thesis using assms(2,3,6) None n rep by (auto simp: snapshot_base_def)
  next
    case (Inr s)
    then have s: "replay_snapshot cr d l0 chain config n h = Inr s" using rep by simp
    have "cache_sound cr d chain config (rememberRegistrySnapshot cr l s)"
      using s replay_fields [OF assms(1) s] small_replayD [OF small s] same_engine_replay [OF assms(3)] by (intro remember_sound [OF assms(2)]) auto
    then show ?thesis using assms(6) None n Inr s same_engine_trans [OF assms(3) remember_same] by (auto simp: snapshot_base_def)
  qed
qed

lemma registrySnapshotAt_sound:
  assumes "keyed cr chain" "lq_config l = Some config" "lc_RegistryProtocolBlock config \<noteq> 0" "h \<noteq> 0"
    and sound: "cache_sound cr d chain config l"
    and small: "small_replay cr d l chain config"
    and res: "registrySnapshotAt cr d l chain n h = (r, l')"
  shows "r = replay_snapshot cr d l chain config n h \<and> cache_sound cr d chain config l' \<and> same_engine l l'"
proof (cases "n < lc_RegistryProtocolBlock config - 1")
  case True
  then show ?thesis using assms by (subst replay_snapshot.simps) (auto simp: registrySnapshotAt_def)
next
  case False
  obtain r1 l1 where c: "cachedRegistrySnapshot cr l n h = (r1, l1)" by (cases "cachedRegistrySnapshot cr l n h")
  note l1 = cached_sound [OF sound c] cached_same [OF c]
  show ?thesis
  proof (cases r1)
    case (Some s)
    then show ?thesis using assms(2-4) res False c l1 by (auto simp: registrySnapshotAt_def)
  next
    case None
    obtain w l2 where w: "walk_back cr chain (lc_RegistryProtocolBlock config - 1) n h [] l1 = (w, l2)"
      by (cases "walk_back cr chain (lc_RegistryProtocolBlock config - 1) n h [] l1")
    from walk_back_sound [OF w assms(1) refl l1(1)] False same_engine_trans [OF l1(3)]
    have l2: "cache_sound cr d chain config l2" "same_engine l l2" "walk_result cr d l chain config n h [] w"
      by (auto simp: walk_result_cong [OF l1(3)])
    show ?thesis
    proof (cases w)
      case (Inl e)
      then show ?thesis using assms(2-4) res False c None w l2 by (auto simp: registrySnapshotAt_def walk_result_def)
    next
      case (Inr q)
      obtain found n' h' pending where q: "q = (found, n', h', pending)" by (cases q)
      from l2(3) Inr q obtain hs where hs: "pending = rev hs" "linked cr chain n' h' hs" "lc_RegistryProtocolBlock config - 1 \<le> n'"
          "case found of None \<Rightarrow> n' = lc_RegistryProtocolBlock config - 1 | Some s \<Rightarrow> replay_snapshot cr d l chain config n' h' = Inr s"
          "replay_snapshot cr d l chain config n h =
            (case replay_snapshot cr d l chain config n' h' of Inl err \<Rightarrow> Inl err | Inr s \<Rightarrow> replay_from cr d l chain hs s)"
        by (auto simp: walk_result_def)
      obtain b l3 where b: "snapshot_base cr config found n' h' l2 = (b, l3)" by (cases "snapshot_base cr config found n' h' l2")
      from snapshot_base_sound [OF assms(1) l2(1,2) small hs(4) b]
      have l3: "b = replay_snapshot cr d l chain config n' h'" "cache_sound cr d chain config l3" "same_engine l l3" by blast+
      show ?thesis
      proof (cases b)
        case (Inl e)
        then have "replay_snapshot cr d l chain config n h = Inl e" using hs(5) l3(1) by (metis sum.case(1))
        then show ?thesis using assms(2-4) res False c None w \<open>w = Inr q\<close> q b Inl l3(2,3) by (auto simp: registrySnapshotAt_def)
      next
        case base: (Inr s)
        obtain t l4 where t: "replay_headers cr d chain hs s l3 = (t, l4)" by (cases "replay_headers cr d chain hs s l3")
        from replay_headers_sound [OF assms(1) small l3(2,3) l3(1) [symmetric, unfolded base] hs(3,2) t]
        have l4: "t = replay_from cr d l chain hs s" "cache_sound cr d chain config l4" "same_engine l l4" by blast+
        have rep: "replay_snapshot cr d l chain config n h = t" using hs(5) l3(1) base l4(1) by (metis sum.case(2))
        then show ?thesis
          using assms(2-4) res False c None w Inr q b base hs(1) t l4(2,3) replay_fields [OF assms(1), of d l config n h]
          by (cases t) (auto simp: registrySnapshotAt_def)
      qed
    qed
  qed
qed

lemma walk_back_bounded:
  "walk_back cr chain before n h pending l = (Inr (found, n', h', pending'), l') \<Longrightarrow> before \<le> n
   \<Longrightarrow> before \<le> n' \<and> n' \<le> n \<and> length pending' + unat n' = length pending + unat n \<and> (found = None \<longrightarrow> n' = before)"
proof (induction cr chain before n h pending l arbitrary: l' rule: walk_back.induct)
  case (1 cr chain before n h pending l)
  show ?case
  proof (cases "n \<le> before")
    case True
    then show ?thesis using "1.prems" by (auto simp: walk_back.simps)
  next
    case False
    then have "n \<noteq> 0" by auto
    then have n: "before \<le> n - 1" "unat (n - 1) = unat n - 1" "0 < unat n" using False by (simp_all add: word_le_nat_alt unat_minus_one unat_gt_0)
    obtain r l1 where c: "cachedRegistrySnapshot cr l n h = (r, l1)" by (cases "cachedRegistrySnapshot cr l n h")
    show ?thesis
    proof (cases r)
      case (Some s)
      then show ?thesis using "1.prems" False c by (auto simp: walk_back.simps)
    next
      case None
      then obtain blk where blk: "ch_GetHeader chain h n = Some blk"
          and w: "walk_back cr chain before (n - 1) (h_ParentHash blk) (pending @ [blk]) l1 = (Inr (found, n', h', pending'), l')"
        using "1.prems"(1) False c by (subst (asm) walk_back.simps) (auto split: option.splits)
      from "1.IH" [OF False c [symmetric] None blk w n(1)] n show ?thesis by (auto simp: word_le_nat_alt)
    qed
  qed
qed

section \<open>Properties\<close>

text \<open>Claim C6: the snapshot cache is transparent. If the chain reader finds headers under their hashes and everything in the memory cache and
  in the checkpoint database is the replay of its block, then asking for the snapshot of a block returns exactly what
  replaying every header since the bootstrap snapshot gives, success or error, however much was cached or evicted; the
  caches stay in that state, and nothing else of the engine changes.\<close>

theorem snapshot_cache_transparent:
  assumes "keyed cr chain" and "lq_config l = Some config" and "lc_RegistryProtocolBlock config \<noteq> 0" and "h \<noteq> 0"
    and "cache_sound cr decodes chain config l" and "small_replay cr decodes l chain config"
  shows "fst (registrySnapshotAt cr decodes l chain n h) = replay_snapshot cr decodes l chain config n h
    \<and> cache_sound cr decodes chain config (snd (registrySnapshotAt cr decodes l chain n h))
    \<and> same_engine l (snd (registrySnapshotAt cr decodes l chain n h))"
  using registrySnapshotAt_sound [OF assms surjective_pairing] by blast

definition sample_lqc_config :: LQCConfig where
  "sample_lqc_config = \<lparr>lc_CommitteeMin = 0, lc_CommitteeMax = 0, lc_CommitteeRatioBps = 0, lc_FallbackSlots = 0, lc_FallbackWindowMs = 0,
     lc_TargetBlockTimeMs = 0, lc_EraLength = 0, lc_ProofDifficulty = 1, lc_ActivityWindow = 0, lc_EpochLength = 4, lc_RegistryMode = '''',
     lc_BootstrapParticipants = [3], lc_RegistryProtocolBlock = 5, lc_ConsensusHardeningBlock = 0, lc_ConsensusStabilizationBlock = 0,
     lc_ConsensusFairnessBlock = 0, lc_ConsensusLivenessV3Block = 0, lc_ConsensusLivenessV4Block = 0, lc_ConsensusLivenessV5Block = 0,
     lc_ConsensusLivenessV6Block = 0, lc_VRFProtocolBlock = 0, lc_BootstrapOnlyUntil = 0, lc_MinBond = None, lc_ActivationDelay = 0,
     lc_HeartbeatWindow = 0, lc_HeartbeatGrace = 0, lc_RecoveryTimeoutMs = 0, lc_CommitteeSize = 0, lc_FallbackCount = 0, lc_JailBlocks = 0,
     lc_MaxMissedTurns = 0, lc_MinorSlashBps = 0, lc_MajorSlashBps = 0\<rparr>"

definition sample_chain :: ChainHeaderReader where
  "sample_chain = \<lparr>ch_Config = Some sample_chain_config, ch_CurrentHeader = None, ch_GetHeader = (\<lambda>_ _. None),
     ch_GetHeaderByHash = (\<lambda>_. None), ch_GetHeaderByNumber = (\<lambda>_. None)\<rparr>"

definition sample_engine :: LQC where
  "sample_engine = LQC_New (Some sample_lqc_config) (Some fmempty) []"

lemma fresh_cache_sound: "lq_db l = None \<or> lq_db l = Some fmempty \<Longrightarrow> lq_registryCache l = NewBasicLRU registrySnapshotMemoryLimit
   \<Longrightarrow> cache_sound cr d chain config l"
  by (auto simp: cache_sound_def NewBasicLRU_def lru_wf_def LRU_Peek_def checkpoint_def LoadRegistrySnapshot_def registrySnapshotMemoryLimit_def)

lemma sample_bootstrap_snapshot:
  "NewBootstrapRegistrySnapshot sample_crypto n h [3] =
     (if h = 0 then Inl ErrInvalidRegistrySnapshot else Inr (newRegistrySnapshot sample_crypto n h (sample_bootstrap n)))"
  by (simp add: NewBootstrapRegistrySnapshot_def add_bootstrap_def NewCanonicalRegistry_def sample_bootstrap_def zeroParticipant_def)

lemma sample_engine_hypotheses:
  "keyed sample_crypto sample_chain" "lq_config sample_engine = Some sample_lqc_config" "lc_RegistryProtocolBlock sample_lqc_config \<noteq> 0"
  "cache_sound sample_crypto d sample_chain sample_lqc_config sample_engine"
  "small_replay sample_crypto d sample_engine sample_chain sample_lqc_config"
proof -
  show "keyed sample_crypto sample_chain" "lq_config sample_engine = Some sample_lqc_config" "lc_RegistryProtocolBlock sample_lqc_config \<noteq> 0"
    by (simp_all add: keyed_def sample_chain_def sample_engine_def LQC_New_def sample_lqc_config_def)
  show "cache_sound sample_crypto d sample_chain sample_lqc_config sample_engine"
    by (rule fresh_cache_sound) (simp_all add: sample_engine_def LQC_New_def)
  have "small_snapshot s" if "replay_snapshot sample_crypto d sample_engine sample_chain sample_lqc_config n h = Inr s" for n h s
  proof -
    from that have "NewBootstrapRegistrySnapshot sample_crypto n h [3] = Inr s"
      by (subst (asm) replay_snapshot.simps)
        (auto simp: sample_chain_def sample_lqc_config_def map_sum_def split: if_splits sum.splits)
    then show ?thesis
      by (auto simp: sample_bootstrap_snapshot newRegistrySnapshot_def Participants_def sample_bootstrap_def small_snapshot_def
          length_fmvals length_fmkeys split: if_splits)
  qed
  then show "small_replay sample_crypto d sample_engine sample_chain sample_lqc_config" by (simp add: small_replay_def)
qed

theorem snapshot_cache_transparent_witness:
  "\<exists>s. fst (registrySnapshotAt sample_crypto (\<lambda>_. True) sample_engine sample_chain 4 7) = Inr s \<and> rs_Number s = 4 \<and> rs_Hash s = 7
     \<and> fst (registrySnapshotAt sample_crypto (\<lambda>_. True) sample_engine sample_chain 9 7) = Inl errUnknownAncestor"
proof -
  note sample = sample_engine_hypotheses(1-3) _ sample_engine_hypotheses(4,5)
  have "replay_snapshot sample_crypto (\<lambda>_. True) sample_engine sample_chain sample_lqc_config 9 7 = Inl errUnknownAncestor"
    by (subst replay_snapshot.simps) (simp add: sample_lqc_config_def sample_chain_def)
  moreover have "replay_snapshot sample_crypto (\<lambda>_. True) sample_engine sample_chain sample_lqc_config 4 7 =
      map_sum EngineRegistry id (NewBootstrapRegistrySnapshot sample_crypto 4 7 [3])"
    by (subst replay_snapshot.simps) (simp add: sample_lqc_config_def)
  ultimately show ?thesis
    using snapshot_cache_transparent [OF sample, of 7 "\<lambda>_. True" 4] snapshot_cache_transparent [OF sample, of 7 "\<lambda>_. True" 9]
    by (simp add: sample_bootstrap_snapshot newRegistrySnapshot_def)
qed

text \<open>Claim C26: the walk back to a known ancestor ends after at most as many headers as there are blocks since activation: it collects
  exactly one header for each block between the block asked for and the one it stops at, never goes below the block before activation,
  and reaches that block if no ancestor is cached. It can only fail with an unknown ancestor.\<close>

theorem walk_back_terminates:
  assumes "before \<le> n"
  shows "(\<exists>found n' h' pending l'. walk_back cr chain before n h [] l = (Inr (found, n', h', pending), l') \<and> before \<le> n' \<and> n' \<le> n
      \<and> length pending = unat n - unat n' \<and> (found = None \<longrightarrow> n' = before))
    \<or> fst (walk_back cr chain before n h [] l) = Inl errUnknownAncestor"
proof -
  have err: "fst (walk_back cr chain before n h pending l) = Inl e \<Longrightarrow> e = errUnknownAncestor" for n h pending l e
    by (induction cr chain before n h pending l rule: walk_back.induct)
      (subst (asm) (2) walk_back.simps, auto split: if_splits prod.splits option.splits)
  show ?thesis
  proof (cases "walk_back cr chain before n h [] l")
    case (Pair res l')
    then show ?thesis
    proof (cases res)
      case (Inl e)
      then show ?thesis using Pair err [of n h "[]" l e] by simp
    next
      case (Inr q)
      obtain found n' h' pending where "q = (found, n', h', pending)" by (cases q)
      with Pair Inr walk_back_bounded [of cr chain before n h "[]" l found n' h' pending l'] assms show ?thesis by auto
    qed
  qed
qed

theorem walk_back_terminates_witness:
  "\<exists>found n' h' pending l'. walk_back sample_crypto sample_chain 4 4 7 [] sample_engine = (Inr (found, n', h', pending), l')
     \<and> length pending = unat (4 :: u64) - unat n'"
proof -
  have "fst (walk_back sample_crypto sample_chain 4 4 7 [] sample_engine) \<noteq> Inl errUnknownAncestor" by (simp add: walk_back.simps)
  with walk_back_terminates [of 4 4 sample_crypto sample_chain 7 sample_engine] show ?thesis by (simp only: order_refl simp_thms) blast
qed

end
