(* ===== verification/Engine_Chain.thy ===== *)
theory Engine_Chain
  imports Engine_Snapshot
begin

text \<open>
  The replay of a chain that grows: how many participants a snapshot can have at a block, and that a snapshot, once replayed,
  stays the replay of its block when later headers join the chain.
\<close>

section \<open>The size of a registry\<close>

text \<open>A registry with at most \<open>k\<close> more participants.\<close>

definition grows :: "nat \<Rightarrow> CanonicalRegistry \<Rightarrow> CanonicalRegistry \<Rightarrow> bool" where
  "grows k r r' \<longleftrightarrow> card (fmdom' r') \<le> card (fmdom' r) + k"

lemma grows_trans: "grows i r s \<Longrightarrow> grows j s t \<Longrightarrow> i + j \<le> k \<Longrightarrow> grows k r t"
  by (simp add: grows_def)

lemma grows_refl [simp]: "grows k r r"
  by (simp add: grows_def)

lemma grows_upd [simp]: "grows (Suc 0) r (fmupd a p r)"
  by (simp add: grows_def card_insert_if)

lemma grows_upd_known: "fmlookup r a = Some q \<Longrightarrow> grows 0 r (fmupd a p r)"
  by (simp add: grows_def fmdom'I insert_absorb)

lemma grows_operation: "ApplyOperation cr chainID n d op r = Inr r' \<Longrightarrow> grows 1 r r'"
  by (auto simp: ApplyOperation_def Let_def split: option.splits if_splits)

lemma grows_operations: "apply_operations cr chainID n d ops r = Inr r' \<Longrightarrow> grows (length ops) r r'"
proof (induction ops arbitrary: r)
  case (Cons op ops)
  then obtain s where s: "ApplyOperation cr chainID n d op r = Inr s" "apply_operations cr chainID n d ops s = Inr r'"
    by (auto simp: apply_operations_def split: sum.splits)
  show ?case by (rule grows_trans [OF grows_operation [OF s(1)] Cons.IH [OF s(2)]]) simp
qed (simp add: apply_operations_def grows_def)

lemma grows_recover: "RecoverPermissionlessProducer r a n = Inr r' \<Longrightarrow> grows 1 r r'"
  by (auto simp: RecoverPermissionlessProducer_def ActivatePermissionlessProducer_def Let_def split: option.splits if_splits)

lemma grows_heartbeat: "MarkProducerHeartbeat r a n = Inr r' \<Longrightarrow> grows 0 r r'"
  by (auto simp: MarkProducerHeartbeat_def Let_def grows_upd_known split: option.splits if_splits)

lemma grows_missed_turn: "ApplyMissedTurn r a n m j = Inr r' \<Longrightarrow> grows 0 r r'"
  by (auto simp: ApplyMissedTurn_def Let_def grows_upd_known split: option.splits if_splits)

lemma grows_missed_turns: "missed_turns n m j ps r = Inr r' \<Longrightarrow> grows 0 r r'"
  unfolding missed_turns_def
  by (rule fold_res_invariant [where P = "grows 0 r"]) (auto simp: grows_def dest: grows_missed_turn [unfolded grows_def])

lemma activate_size: "ActivatePermissionlessProducer NewCanonicalRegistry a n = Inr r \<Longrightarrow> card (fmdom' r) \<le> 1"
  by (auto simp: ActivatePermissionlessProducer_def NewCanonicalRegistry_def Let_def split: option.splits if_splits)

lemma length_new_snapshot: "length (rs_Participants (newRegistrySnapshot cr n h r)) = card (fmdom' r)"
  by (simp add: newRegistrySnapshot_def Participants_def length_fmvals length_fmkeys)

lemma snapshot_size: "Snapshot_Registry cr s = Inr r \<Longrightarrow> length (rs_Participants s) = card (fmdom' r)"
  using Snapshot_Registry_Inr(2) length_new_snapshot by metis

lemma envelope_operations: "DecodeRegistryHeaderExtra extra = Inr env \<Longrightarrow> length (env_Operations env) \<le> 64"
  by (auto simp: DecodeRegistryHeaderExtra_iff envelope_ok_def validateRegistryHeaderOperations_def MaxRegistryOperationsPerBlock_def
      split: if_splits)

lemma applyHeader_size:
  assumes "applyHeaderWithOpenActivation cr s chainID rules header op pres = Inr s'"
  shows "length (rs_Participants s') \<le> length (rs_Participants s) + 65"
proof -
  obtain r number env r1 r2 where a: "Snapshot_Registry cr s = Inr r"
    "ValidateRegistryHeaderExtra cr chainID (big_Uint64 number) (sr_ProofDifficulty rules) (h_Extra header) = Inr env"
    "if op then (if pres then RecoverPermissionlessProducer r (h_Coinbase header) (big_Uint64 number)
         else ActivatePermissionlessProducer NewCanonicalRegistry (h_Coinbase header) (big_Uint64 number)) = Inr r1
     else h_Coinbase header \<in> hp_Address ` set (block_queue cr r rules (h_ParentHash header) (big_Uint64 number))
       \<and> (\<exists>k q. missed_turns (big_Uint64 number) (sr_MaxMissedTurns rules) (sr_JailBlocks rules)
            (take k (block_queue cr r rules (h_ParentHash header) (big_Uint64 number))) r = Inr q
          \<and> MarkProducerHeartbeat q (h_Coinbase header) (big_Uint64 number) = Inr r1)"
    "apply_operations cr chainID (big_Uint64 number) (sr_ProofDifficulty rules) (env_Operations env) r1 = Inr r2"
    "s' = newRegistrySnapshot cr (rs_Number s + 1) (Header_Hash cr header) r2"
    by (rule applyHeader_Inr [OF assms]) blast
  have "grows 1 r r1"
  proof (cases op)
    case True
    then show ?thesis
      using a(3) by (cases pres) (auto simp: grows_def dest: grows_recover [unfolded grows_def] activate_size)
  next
    case False
    then show ?thesis using a(3) grows_trans [OF grows_missed_turns grows_heartbeat] by fastforce
  qed
  from grows_trans [OF this grows_operations [OF a(4)] order_refl] envelope_operations [OF Validate_operations(1) [OF a(2)]]
  show ?thesis unfolding snapshot_size [OF a(1)] a(5) length_new_snapshot by (simp add: grows_def)
qed

lemma apply_size:
  assumes "applyRegistrySnapshotHeaderMaybeV3 cr d l chain s blk = Inr s'"
  shows "length (rs_Participants s') \<le> length (rs_Participants s) + 65"
proof -
  have legacy: "length (rs_Participants t) \<le> length (rs_Participants s) + 65"
    if "applyRegistryHeaderWithOpenActivation cr l s chainID rules g op = Inr t" for chainID rules g op t
  proof -
    from that obtain pres where "applyHeaderWithOpenActivation cr s chainID rules g op pres = Inr t"
      by (auto simp: applyRegistryHeaderWithOpenActivation_def map_sum_def Let_def split: sum.splits)
    then show ?thesis by (rule applyHeader_size)
  qed
  show ?thesis
  proof (cases "decode_work_envelope d (h_Extra blk)")
    case None
    then show ?thesis using assms legacy
      by (auto simp: applyRegistrySnapshotHeaderMaybeV3_def split: option.splits if_splits sum.splits)
  next
    case (Some e)
    then obtain n rt ops where "apply_work_envelope cr l chain s blk n rt ops = Inr s'"
      using assms by (auto simp: applyRegistrySnapshotHeaderMaybeV3_def split: option.splits if_splits prod.splits)
    then have "(\<exists>chainID x env r r1. ValidateRegistryHeaderExtra cr chainID n (sr_ProofDifficulty (registryRules l)) x = Inr env
          \<and> Snapshot_Registry cr s = Inr r \<and> apply_operations cr chainID n (sr_ProofDifficulty (registryRules l)) (env_Operations env) r = Inr r1
          \<and> s' = newRegistrySnapshot cr n (Header_Hash cr blk) r1)
        \<or> (\<exists>chainID g op rules t r2. applyRegistryHeaderWithOpenActivation cr l s chainID rules g op = Inr t
          \<and> Snapshot_Registry cr t = Inr r2 \<and> s' = newRegistrySnapshot cr n (Header_Hash cr blk) r2)" (is "?A \<or> ?B")
      by (fastforce simp: apply_work_envelope_def Let_def replayRegistryRootMismatchByWorkSeats_def split: sum.splits if_splits)
    then show ?thesis
    proof
      assume ?A
      then show ?thesis
        using grows_operations envelope_operations [OF Validate_operations(1)]
        by (fastforce simp: length_new_snapshot snapshot_size grows_def)
    next
      assume ?B
      then show ?thesis using legacy by (auto simp: length_new_snapshot snapshot_size [symmetric])
    qed
  qed
qed

lemma replay_size:
  "replay_snapshot cr d l chain config n h = Inr s
   \<Longrightarrow> length (rs_Participants s) \<le> length (lc_BootstrapParticipants config) + 65 * unat n"
proof (induction n arbitrary: h s rule: measure_induct_rule [where f = unat])
  case (less n)
  show ?case
  proof (cases "n \<le> lc_RegistryProtocolBlock config - 1")
    case True
    then have "NewBootstrapRegistrySnapshot cr n h (lc_BootstrapParticipants config) = Inr s"
      using less.prems by (subst (asm) replay_snapshot.simps) (auto simp: map_sum_def split: if_splits sum.splits)
    from NewBootstrap_wf [OF this] show ?thesis
      using card_length [of "lc_BootstrapParticipants config"] by (auto simp: length_new_snapshot intro: le_trans)
  next
    case False
    then obtain blk p where p: "replay_snapshot cr d l chain config (n - 1) (h_ParentHash blk) = Inr p"
        and s: "applyRegistrySnapshotHeaderMaybeV3 cr d l chain p blk = Inr s"
      using less.prems by (subst (asm) replay_snapshot.simps) (auto split: if_splits option.splits sum.splits)
    have "n \<noteq> 0" using False by auto
    then have "unat n = Suc (unat (n - 1))" by (simp add: unat_minus_one unat_gt_0)
    then show ?thesis using less.IH [OF _ p] apply_size [OF s] by simp
  qed
qed

text \<open>A chain with fewer than \<open>2\<^sup>50\<close> blocks: more than ten million years of blocks. Every snapshot of such a chain can be stored.\<close>

definition short_chain :: "ChainHeaderReader \<Rightarrow> bool" where
  "short_chain chain \<longleftrightarrow> (\<forall>h n blk. ch_GetHeader chain h n = Some blk \<longrightarrow> unat n < 2 ^ 50)"

definition short_config :: "LQCConfig \<Rightarrow> bool" where
  "short_config config \<longleftrightarrow> length (lc_BootstrapParticipants config) < 2 ^ 50 \<and> unat (lc_RegistryProtocolBlock config) < 2 ^ 50"

lemma small_replay_short:
  assumes "short_chain chain" "short_config config" "lc_RegistryProtocolBlock config \<noteq> 0"
  shows "small_replay cr d l chain config"
  unfolding small_replay_def
proof (intro allI impI)
  fix n h s
  assume s: "replay_snapshot cr d l chain config n h = Inr s"
  have "unat n < 2 ^ 50"
  proof (cases "n \<le> lc_RegistryProtocolBlock config - 1")
    case True
    then have "unat n \<le> unat (lc_RegistryProtocolBlock config)" using assms(3) by (simp add: word_le_nat_alt unat_minus_one)
    also have "\<dots> < 2 ^ 50" using assms(2) by (simp add: short_config_def)
    finally show ?thesis .
  next
    case False
    then show ?thesis using s assms(1) by (auto simp: replay_above short_chain_def split: option.splits)
  qed
  with replay_size [OF s] assms(2) show "small_snapshot s" by (simp add: small_snapshot_def short_config_def)
qed

section \<open>Chains that grow\<close>

text \<open>A chain that knows every header another one knows, and no further header before registry activation.\<close>

definition extends :: "LQCConfig \<Rightarrow> ChainHeaderReader \<Rightarrow> ChainHeaderReader \<Rightarrow> bool" where
  "extends config chain chain' \<longleftrightarrow> ch_Config chain' = ch_Config chain
     \<and> (\<forall>h n blk. ch_GetHeader chain h n = Some blk \<longrightarrow> ch_GetHeader chain' h n = Some blk)
     \<and> (\<forall>h n. n < lc_RegistryProtocolBlock config \<longrightarrow> ch_GetHeader chain' h n = ch_GetHeader chain h n)"

lemma extends_refl [simp]: "extends config chain chain"
  by (simp add: extends_def)

lemma extends_trans: "extends config a b \<Longrightarrow> extends config b c \<Longrightarrow> extends config a c"
  by (simp add: extends_def)

lemma apply_chain_cong:
  assumes "ch_Config chain' = ch_Config chain" "openActivationForHeader l chain' blk = openActivationForHeader l chain blk"
  shows "applyRegistrySnapshotHeaderMaybeV3 cr d l chain' s blk = applyRegistrySnapshotHeaderMaybeV3 cr d l chain s blk"
  unfolding applyRegistrySnapshotHeaderMaybeV3_def apply_work_envelope_def registryChainID_def assms by (rule refl)

text \<open>Whether a header activates its producer depends on its parent only, which a chain that can replay the parent knows.\<close>

lemma open_extends:
  assumes "extends config chain chain'" "h_Number blk = Some number" "h = h_ParentHash blk" "n = big_Uint64 number"
    and "ch_GetHeader chain h (n - 1) \<noteq> None \<or> n - 1 < lc_RegistryProtocolBlock config"
  shows "openActivationForHeader l chain' blk = openActivationForHeader l chain blk"
proof -
  have "ch_GetHeader chain' h (n - 1) = ch_GetHeader chain h (n - 1)" using assms(1,5) by (auto simp: extends_def)
  then show ?thesis unfolding openActivationForHeader_def using assms(2-4) by (simp add: Let_def)
qed

lemma replay_known:
  assumes "replay_snapshot cr d l chain config n h = Inr s" "lc_RegistryProtocolBlock config \<noteq> 0"
  shows "ch_GetHeader chain h n \<noteq> None \<or> n < lc_RegistryProtocolBlock config"
proof (cases "n \<le> lc_RegistryProtocolBlock config - 1")
  case True
  then show ?thesis using assms(2) by (metis measure_unat word_le_less_eq word_less_nat_alt order_le_less_trans)
next
  case False
  then show ?thesis using assms(1) by (auto simp: replay_above split: option.splits)
qed

lemma apply_extends:
  assumes "extends config chain chain'" "lc_RegistryProtocolBlock config \<noteq> 0"
    and "replay_snapshot cr d l chain config (n - 1) (h_ParentHash blk) = Inr p" "rs_Number p = n - 1"
  shows "applyRegistrySnapshotHeaderMaybeV3 cr d l chain' p blk = applyRegistrySnapshotHeaderMaybeV3 cr d l chain p blk"
proof (cases "\<exists>number. h_Number blk = Some number \<and> big_Uint64 number = n")
  case True
  then obtain number where n: "h_Number blk = Some number" "n = big_Uint64 number" by blast
  show ?thesis
    using open_extends [OF assms(1) n(1) refl n(2) replay_known [OF assms(3,2)]] assms(1)
    by (intro apply_chain_cong) (simp_all add: extends_def)
next
  case False
  then show ?thesis using assms(4) by (auto simp: applyRegistrySnapshotHeaderMaybeV3_def split: option.split)
qed

lemma replay_extends:
  assumes "keyed cr chain" "extends config chain chain'" "lc_RegistryProtocolBlock config \<noteq> 0"
  shows "replay_snapshot cr d l chain config n h = Inr s \<Longrightarrow> replay_snapshot cr d l chain' config n h = Inr s"
proof (induction n arbitrary: h s rule: measure_induct_rule [where f = unat])
  case (less n)
  show ?case
  proof (cases "n \<le> lc_RegistryProtocolBlock config - 1")
    case True
    then show ?thesis using less.prems by (subst (asm) replay_snapshot.simps, subst replay_snapshot.simps) (auto split: if_splits)
  next
    case False
    then obtain blk p where blk: "ch_GetHeader chain h n = Some blk"
        and p: "replay_snapshot cr d l chain config (n - 1) (h_ParentHash blk) = Inr p"
        and s: "applyRegistrySnapshotHeaderMaybeV3 cr d l chain p blk = Inr s"
      using less.prems by (subst (asm) replay_snapshot.simps) (auto split: if_splits option.splits sum.splits)
    have "ch_GetHeader chain' h n = Some blk" using assms(2) blk by (simp add: extends_def)
    moreover have "replay_snapshot cr d l chain' config (n - 1) (h_ParentHash blk) = Inr p"
      using less.IH [OF above_pos p] False by (simp add: not_le)
    ultimately show ?thesis
      using apply_extends [OF assms(2,3) p] replay_fields [OF assms(1) p] s False by (simp add: replay_above not_le)
  qed
qed

lemma cache_sound_extends:
  assumes "cache_sound cr d chain config l" "keyed cr chain" "extends config chain chain'" "lc_RegistryProtocolBlock config \<noteq> 0"
  shows "cache_sound cr d chain' config l"
  using assms(1) replay_extends [OF assms(2-4)] unfolding cache_sound_def by blast

end
