(* ===== verification/Engine_Header.thy ===== *)
theory Engine_Header
  imports Engine_Chain
begin

text \<open>
  Preparing, verifying and sealing headers (\<open>consensus/lqc/lqc.go\<close>, \<open>consensus/lqc/registry_engine.go\<close>, the default build): the
  canonical selection of a block, the registry envelope a producer builds from the pool, and the checks a received header
  passes, alone or in a batch. The clock is an argument, as in \<open>verifyHeaderAt\<close>; the goroutine of \<open>VerifyHeaders\<close> is the
  list of results it sends.
\<close>

section \<open>Selections of a block\<close>

definition registryParentSnapshot ::
  "crypto \<Rightarrow> (bls_key \<Rightarrow> bool) \<Rightarrow> LQC \<Rightarrow> ChainHeaderReader \<Rightarrow> Header \<Rightarrow> (engine_error + RegistrySnapshot) \<times> LQC" where
  "registryParentSnapshot cr decodes l chain header =
     (case h_Number header of
        None \<Rightarrow> (Inl errRegistryProtocolUnavailable, l)
      | Some number \<Rightarrow>
          if number \<le> 0 \<or> \<not> registryProtocolEnabled l (h_Number header) then (Inl errRegistryProtocolUnavailable, l)
          else registrySnapshotAt cr decodes l chain (big_Uint64 number - 1) (h_ParentHash header))"

definition canonicalSelectionForHeader ::
  "crypto \<Rightarrow> (bls_key \<Rightarrow> bool) \<Rightarrow> LQC \<Rightarrow> ChainHeaderReader \<Rightarrow> Header \<Rightarrow> (engine_error + HybridSelection \<times> RegistrySnapshot) \<times> LQC" where
  "canonicalSelectionForHeader cr decodes l chain header =
     (case registryParentSnapshot cr decodes l chain header of
        (Inl err, l1) \<Rightarrow> (Inl err, l1)
      | (Inr parent, l1) \<Rightarrow>
          (case canonicalSelection cr l1 parent header of
             Inl err \<Rightarrow> (Inl err, l1)
           | Inr selection \<Rightarrow> (Inr (selection, parent), l1)))"

text \<open>A selection that cannot be derived is empty; \<open>Inl\<close> is left for a panic.\<close>

definition selectionForHeader ::
  "crypto \<Rightarrow> (bls_key \<Rightarrow> bool) \<Rightarrow> LQC \<Rightarrow> ChainHeaderReader \<Rightarrow> Header \<Rightarrow> (engine_error + HybridSelection) \<times> LQC" where
  "selectionForHeader cr decodes l chain header =
     (if registryProtocolEnabled l (h_Number header) then
        (case canonicalSelectionForHeader cr decodes l chain header of
           (Inl err, l1) \<Rightarrow> (if err = EnginePanic then Inl EnginePanic else Inr empty_selection, l1)
         | (Inr (selection, _), l1) \<Rightarrow> (Inr selection, l1))
      else (legacySelectionForHeader cr l header, l))"

section \<open>Building the registry envelope\<close>

definition max_operations :: "LQC \<Rightarrow> u64 \<Rightarrow> nat" where
  "max_operations l n =
     (if consensusLivenessV3Active l n then MaxRegistryOperationsWithCommitteeClaimsV1 else MaxRegistryOperationsPerBlock)"

fun collect_operations ::
  "crypto \<Rightarrow> LQC \<Rightarrow> ChainHeaderReader \<Rightarrow> u64 \<Rightarrow> RegistryOperation list \<Rightarrow> CanonicalRegistry \<Rightarrow> RegistryOperation list
    \<Rightarrow> engine_error + CanonicalRegistry \<times> RegistryOperation list" where
  "collect_operations cr l chain n [] registry operations = Inr (registry, operations)"
| "collect_operations cr l chain n (operation # rest) registry operations =
     (if length operations \<ge> max_operations l n then Inr (registry, operations)
      else case registryChainID chain of
        Inl err \<Rightarrow> Inl err
      | Inr chainID \<Rightarrow>
          (case ApplyOperation cr chainID n (sr_ProofDifficulty (registryRules l)) operation registry of
             Inl _ \<Rightarrow> collect_operations cr l chain n rest registry operations
           | Inr candidate \<Rightarrow> collect_operations cr l chain n rest candidate (operations @ [operation])))"

text \<open>Both branches of \<open>prepareCanonicalRegistryExtra\<close> end by collecting operations from the pruned pool and encoding the envelope.\<close>

definition seal_envelope ::
  "crypto \<Rightarrow> LQC \<Rightarrow> ChainHeaderReader \<Rightarrow> Header \<Rightarrow> u64 \<Rightarrow> CanonicalRegistry \<Rightarrow> HybridSelection
    \<Rightarrow> (engine_error + HybridSelection \<times> Header) \<times> LQC" where
  "seal_envelope cr l chain header n registry selection =
     (let l1 = l\<lparr>lq_registryPool := Pool_PruneExpired n (lq_registryPool l)\<rparr> in
      case collect_operations cr l1 chain n (Pool_Pending (lq_registryPool l1) n) registry [] of
        Inl err \<Rightarrow> (Inl err, l1)
      | Inr (registry', operations) \<Rightarrow>
          (case EncodeRegistryHeaderExtra n (Root cr registry') operations of
             Inl err \<Rightarrow> (Inl (EngineRegistry err), l1)
           | Inr extra \<Rightarrow> (Inr (selection, header\<lparr>h_Extra := extra\<rparr>), l1)))"

definition prepare_open ::
  "crypto \<Rightarrow> (bls_key \<Rightarrow> bool) \<Rightarrow> LQC \<Rightarrow> ChainHeaderReader \<Rightarrow> Header \<Rightarrow> u64 \<Rightarrow> (engine_error + HybridSelection \<times> Header) \<times> LQC" where
  "prepare_open cr decodes l chain header n =
     (if h_Coinbase header = 0 then (Inl ErrMissingProducerCoinbase, l)
      else
        let preserve = consensusCommitteeLivenessActive l n;
            (base, l1) =
              (if preserve then
                 (case registryParentSnapshot cr decodes l chain header of
                    (Inl err, l1) \<Rightarrow> (Inl err, l1)
                  | (Inr parent, l1) \<Rightarrow> (map_sum EngineRegistry id (Snapshot_Registry cr parent), l1))
               else (Inr NewCanonicalRegistry, l))
        in case base of
             Inl err \<Rightarrow> (Inl err, l1)
           | Inr registry \<Rightarrow>
               (case (if preserve then RecoverPermissionlessProducer registry (h_Coinbase header) n
                      else ActivatePermissionlessProducer registry (h_Coinbase header) n) of
                  Inl err \<Rightarrow> (Inl (EngineRegistry err), l1)
                | Inr registry' \<Rightarrow>
                    seal_envelope cr l1 chain header n registry'
                      (activation_selection n (h_Coinbase header) empty_selection)))"

definition prepare_turn ::
  "crypto \<Rightarrow> (bls_key \<Rightarrow> bool) \<Rightarrow> LQC \<Rightarrow> ChainHeaderReader \<Rightarrow> Header \<Rightarrow> u64 \<Rightarrow> (engine_error + HybridSelection \<times> Header) \<times> LQC" where
  "prepare_turn cr decodes l chain header n =
     (case canonicalSelectionForHeader cr decodes l chain header of
        (Inl err, l1) \<Rightarrow> (Inl err, l1)
      | (Inr (selection, parent), l1) \<Rightarrow>
          let (allowed, queuePos) = IsAuthorAllowed selection (h_Coinbase header) in
          if \<not> allowed then (Inl (EngineRegistry ErrUnauthorizedRegistryProducer), l1)
          else case Snapshot_Registry cr parent of
            Inl err \<Rightarrow> (Inl (EngineRegistry err), l1)
          | Inr registry \<Rightarrow>
              let rules = registryRules l1 in
              (case missed_turns n (sr_MaxMissedTurns rules) (sr_JailBlocks rules) (take (nat queuePos) (sel_Ordered selection)) registry of
                 Inl err \<Rightarrow> (Inl (EngineRegistry err), l1)
               | Inr registry1 \<Rightarrow>
                   (case MarkProducerHeartbeat registry1 (h_Coinbase header) n of
                      Inl err \<Rightarrow> (Inl (EngineRegistry err), l1)
                    | Inr registry2 \<Rightarrow> seal_envelope cr l1 chain header n registry2 selection)))"

definition prepareCanonicalRegistryExtra ::
  "crypto \<Rightarrow> (bls_key \<Rightarrow> bool) \<Rightarrow> LQC \<Rightarrow> ChainHeaderReader \<Rightarrow> Header \<Rightarrow> (engine_error + HybridSelection \<times> Header) \<times> LQC" where
  "prepareCanonicalRegistryExtra cr decodes l chain header =
     (case h_Number header of
        None \<Rightarrow> (Inl errInvalidBlockNumber, l)
      | Some number \<Rightarrow>
          if openActivationForHeader l chain header then prepare_open cr decodes l chain header (big_Uint64 number)
          else prepare_turn cr decodes l chain header (big_Uint64 number))"

section \<open>Verifying the registry envelope\<close>

definition verifyCanonicalRegistryHeader ::
  "crypto \<Rightarrow> (bls_key \<Rightarrow> bool) \<Rightarrow> LQC \<Rightarrow> ChainHeaderReader \<Rightarrow> Header \<Rightarrow> (engine_error + HybridSelection \<times> RegistrySnapshot) \<times> LQC" where
  "verifyCanonicalRegistryHeader cr decodes l chain header =
     (case canonicalSelectionForHeader cr decodes l chain header of
        (Inl err, l1) \<Rightarrow> (Inl err, l1)
      | (Inr (selection, parent), l1) \<Rightarrow>
          (case registryChainID chain of
             Inl err \<Rightarrow> (Inl err, l1)
           | Inr chainID \<Rightarrow>
               (case applyRegistryHeaderWithOpenActivation cr l1 parent chainID (registryRules l1) header
                       (openActivationForHeader l1 chain header) of
                  Inl err \<Rightarrow> (Inl err, l1)
                | Inr child \<Rightarrow>
                    (Inr (if openActivationForHeader l1 chain header
                          then activation_selection (case h_Number header of None \<Rightarrow> 0 | Some number \<Rightarrow> big_Uint64 number)
                                 (h_Coinbase header) empty_selection
                          else selection, child), l1))))"

section \<open>Verifying headers\<close>

definition register_producer :: "LQC \<Rightarrow> address \<Rightarrow> u64 \<Rightarrow> LQC" where
  "register_producer l addr n =
     l\<lparr>lq_runtimeRegistry := UpdateParticipantActivity (RegisterParticipant (lq_runtimeRegistry l) [] addr n) [] addr n\<rparr>"

text \<open>The selection a header is checked against, and the registry snapshot it leads to.\<close>

definition verify_selection ::
  "crypto \<Rightarrow> (bls_key \<Rightarrow> bool) \<Rightarrow> LQC \<Rightarrow> ChainHeaderReader \<Rightarrow> Header \<Rightarrow> u64
    \<Rightarrow> (engine_error + HybridSelection \<times> RegistrySnapshot option) \<times> LQC" where
  "verify_selection cr decodes l chain header n =
     (if n = 1 then
        if h_Coinbase header = 0 then (Inl ErrMissingProducerCoinbase, l)
        else if registryProtocolEnabled l (h_Number header) then
          (case verifyCanonicalRegistryHeader cr decodes l chain header of
             (Inl err, l1) \<Rightarrow> (Inl err, l1)
           | (Inr (sel, snapshot), l1) \<Rightarrow> (Inr (activation_selection 1 (h_Coinbase header) sel, Some snapshot), l1))
        else
          (case verifyExtra header of
             Some err \<Rightarrow> (Inl err, l)
           | None \<Rightarrow> (Inr (activation_selection 1 (h_Coinbase header) empty_selection, None),
                      register_producer l (h_Coinbase header) 1))
      else if registryProtocolEnabled l (h_Number header) then
        (case verifyCanonicalRegistryHeader cr decodes l chain header of
           (Inl err, l1) \<Rightarrow> (Inl err, l1)
         | (Inr (sel, snapshot), l1) \<Rightarrow> (Inr (sel, Some snapshot), l1))
      else
        (case verifyExtra header of
           Some err \<Rightarrow> (Inl err, l)
         | None \<Rightarrow>
             (case selectionForHeader cr decodes l chain header of
                (Inl err, l1) \<Rightarrow> (Inl err, l1)
              | (Inr sel, l1) \<Rightarrow> (Inr (sel, None), l1))))"

definition verify_slot :: "LQC \<Rightarrow> Header \<Rightarrow> Header \<Rightarrow> u64 \<Rightarrow> u64 \<Rightarrow> HybridSelection \<Rightarrow> engine_error option" where
  "verify_slot l parent header n unixNow sel =
     (if sel_Ordered sel = [] then None
      else
        let (ok, queuePos) = isAuthorAllowedAt l n sel (h_Coinbase header) in
        if \<not> ok then Some ErrUnauthorizedProducer
        else case minAllowedTimeChecked l (h_Time parent) queuePos of
          Inl err \<Rightarrow> Some err
        | Inr minTime \<Rightarrow>
            if consensusFairnessActive l n \<and> unixNow < minTime then Some ErrFutureBlock
            else if h_Time header < minTime then Some ErrPublishedTooEarly
            else None)"

text \<open>The checks between the parent and the selection: times, the fixed fields, the execution rules and the seal.\<close>

definition verify_fields :: "crypto \<Rightarrow> LQC \<Rightarrow> ChainHeaderReader \<Rightarrow> Header \<Rightarrow> Header \<Rightarrow> u64 \<Rightarrow> u64 \<Rightarrow> engine_error option" where
  "verify_fields cr l chain parent header n unixNow =
     (let latestTime = (case checkedRegistryBlockAdd [unixNow, futureBlockTimeTolerance l (h_Number header)] of
            None \<Rightarrow> maxU64 | Some t \<Rightarrow> t) in
      if h_Time header > latestTime then Some ErrFutureBlock
      else if h_Time header \<le> h_Time parent then Some ErrNonIncreasingTime
      else if consensusFairnessActive l n \<and> \<not> isConsensusFairnessBlock l n
              \<and> recoveryOpenAt l (Some parent) (h_Time header) \<and> \<not> recoveryOpenAt l (Some parent) unixNow
      then Some ErrFutureBlock
      else if h_Difficulty header \<noteq> Some 0 then Some ErrNonzeroDifficulty
      else if h_Nonce header \<noteq> 0 then Some ErrNonzeroNonce
      else if h_MixDigest header \<noteq> 0 then Some ErrNonzeroMixDigest
      else case verifyExecutionHeaderRules (ch_Config chain) parent header of
        Some err \<Rightarrow> Some (EngineExec err)
      | None \<Rightarrow>
          (case ch_Config chain of
             None \<Rightarrow> Some EnginePanic
           | Some config \<Rightarrow> map_option EngineSeal (VerifyProducerSeal cr (map_option int (cc_ChainID config)) header)))"

definition verify_child ::
  "crypto \<Rightarrow> (bls_key \<Rightarrow> bool) \<Rightarrow> LQC \<Rightarrow> ChainHeaderReader \<Rightarrow> Header \<Rightarrow> Header \<Rightarrow> u64 \<Rightarrow> u64 \<Rightarrow> engine_error option \<times> LQC" where
  "verify_child cr decodes l chain parent header n unixNow =
     (case verify_fields cr l chain parent header n unixNow of
        Some err \<Rightarrow> (Some err, l)
      | None \<Rightarrow>
          (case verify_selection cr decodes l chain header n of
             (Inl err, l1) \<Rightarrow> (Some err, l1)
           | (Inr (sel, registrySnapshot), l1) \<Rightarrow>
               (case verify_slot l1 parent header n unixNow sel of
                  Some err \<Rightarrow> (Some err, l1)
                | None \<Rightarrow>
                    let l2 = (case registrySnapshot of None \<Rightarrow> l1 | Some s \<Rightarrow> rememberRegistrySnapshot cr l1 s)
                    in (None, if \<not> registryProtocolEnabled l2 (h_Number header) \<and> h_Coinbase header \<noteq> 0
                              then register_producer l2 (h_Coinbase header) n else l2))))"

definition verifyHeaderAt ::
  "crypto \<Rightarrow> (bls_key \<Rightarrow> bool) \<Rightarrow> LQC \<Rightarrow> ChainHeaderReader \<Rightarrow> Header option \<Rightarrow> Header option \<Rightarrow> u64
    \<Rightarrow> engine_error option \<times> LQC" where
  "verifyHeaderAt cr decodes l chain header batchParent unixNow =
     (case header of
        None \<Rightarrow> (Some ErrNilHeader, l)
      | Some header \<Rightarrow>
          (case h_Number header of
             None \<Rightarrow> (Some ErrMissingBlockNumber, l)
           | Some number \<Rightarrow>
               if \<not> IsUint64 number then (Some errInvalidBlockNumber, l)
               else if number = 0 then (None, l)
               else
                 let n = big_Uint64 number in
                 (case (case batchParent of None \<Rightarrow> ch_GetHeader chain (h_ParentHash header) (n - 1) | Some p \<Rightarrow> Some p) of
                    None \<Rightarrow> (Some errUnknownAncestor, l)
                  | Some parent \<Rightarrow>
                      (case h_Number parent of
                         None \<Rightarrow> (Some errInvalidBlockNumber, l)
                       | Some parentNumber \<Rightarrow>
                           if \<not> IsUint64 parentNumber then (Some errInvalidBlockNumber, l)
                           else if n \<noteq> big_Uint64 parentNumber + 1 then (Some errInvalidBlockNumber, l)
                           else verify_child cr decodes l chain parent header n unixNow))))"

text \<open>\<open>verifyHeader\<close> reads the clock; a negative time is zero.\<close>

definition unix_now :: "int \<Rightarrow> u64" where
  "unix_now now = (if now < 0 then 0 else word_of_int now)"

definition verifyHeader ::
  "crypto \<Rightarrow> (bls_key \<Rightarrow> bool) \<Rightarrow> LQC \<Rightarrow> ChainHeaderReader \<Rightarrow> Header option \<Rightarrow> Header option \<Rightarrow> int
    \<Rightarrow> engine_error option \<times> LQC" where
  "verifyHeader cr decodes l chain header batchParent now =
     verifyHeaderAt cr decodes l chain header batchParent (unix_now now)"

definition VerifyHeader ::
  "crypto \<Rightarrow> (bls_key \<Rightarrow> bool) \<Rightarrow> LQC \<Rightarrow> ChainHeaderReader \<Rightarrow> Header option \<Rightarrow> int \<Rightarrow> engine_error option \<times> LQC" where
  "VerifyHeader cr decodes l chain header now = verifyHeader cr decodes l chain header None now"

section \<open>Verifying a batch\<close>

record verifiedHeaderChain =
  vc_ChainHeaderReader :: ChainHeaderReader
  vc_byHash :: "(hash, Header) fmap"
  vc_byNumber :: "(u64, Header) fmap"

definition newVerifiedHeaderChain :: "ChainHeaderReader \<Rightarrow> verifiedHeaderChain" where
  "newVerifiedHeaderChain chain = \<lparr>vc_ChainHeaderReader = chain, vc_byHash = fmempty, vc_byNumber = fmempty\<rparr>"

definition vc_remember :: "crypto \<Rightarrow> verifiedHeaderChain \<Rightarrow> Header \<Rightarrow> verifiedHeaderChain" where
  "vc_remember cr c header =
     (case h_Number header of
        None \<Rightarrow> c
      | Some number \<Rightarrow>
          if \<not> IsUint64 number then c
          else c\<lparr>vc_byHash := fmupd (Header_Hash cr header) header (vc_byHash c),
                 vc_byNumber := fmupd (big_Uint64 number) header (vc_byNumber c)\<rparr>)"

definition vc_GetHeader :: "verifiedHeaderChain \<Rightarrow> hash \<Rightarrow> u64 \<Rightarrow> Header option" where
  "vc_GetHeader c h number =
     (case fmlookup (vc_byHash c) h of
        Some header \<Rightarrow>
          if map_option big_Uint64 (h_Number header) = Some number then Some header
          else ch_GetHeader (vc_ChainHeaderReader c) h number
      | None \<Rightarrow> ch_GetHeader (vc_ChainHeaderReader c) h number)"

definition vc_GetHeaderByHash :: "verifiedHeaderChain \<Rightarrow> hash \<Rightarrow> Header option" where
  "vc_GetHeaderByHash c h =
     (case fmlookup (vc_byHash c) h of Some header \<Rightarrow> Some header | None \<Rightarrow> ch_GetHeaderByHash (vc_ChainHeaderReader c) h)"

definition vc_GetHeaderByNumber :: "verifiedHeaderChain \<Rightarrow> u64 \<Rightarrow> Header option" where
  "vc_GetHeaderByNumber c number =
     (case fmlookup (vc_byNumber c) number of
        Some header \<Rightarrow> Some header | None \<Rightarrow> ch_GetHeaderByNumber (vc_ChainHeaderReader c) number)"

text \<open>The chain reader a batch is verified on; the other methods are those of the embedded reader.\<close>

definition vc_reader :: "verifiedHeaderChain \<Rightarrow> ChainHeaderReader" where
  "vc_reader c = (vc_ChainHeaderReader c)\<lparr>ch_GetHeader := vc_GetHeader c, ch_GetHeaderByHash := vc_GetHeaderByHash c,
     ch_GetHeaderByNumber := vc_GetHeaderByNumber c\<rparr>"

fun verify_batch ::
  "crypto \<Rightarrow> (bls_key \<Rightarrow> bool) \<Rightarrow> u64 \<Rightarrow> Header option list \<Rightarrow> verifiedHeaderChain \<Rightarrow> (hash, Header) fmap \<Rightarrow> LQC
    \<Rightarrow> engine_error option list \<times> verifiedHeaderChain \<times> LQC" where
  "verify_batch cr decodes unixNow [] batchChain verified l = ([], batchChain, l)"
| "verify_batch cr decodes unixNow (header # rest) batchChain verified l =
     (let parent = (case header of None \<Rightarrow> None | Some blk \<Rightarrow> fmlookup verified (h_ParentHash blk));
          (err, l1) = verifyHeaderAt cr decodes l (vc_reader batchChain) header parent unixNow;
          (batchChain', verified') =
            (case (err, header) of
               (None, Some blk) \<Rightarrow> (vc_remember cr batchChain blk, fmupd (Header_Hash cr blk) blk verified)
             | _ \<Rightarrow> (batchChain, verified));
          (errs, batchChain'', l2) = verify_batch cr decodes unixNow rest batchChain' verified' l1
      in (err # errs, batchChain'', l2))"

definition VerifyHeaders ::
  "crypto \<Rightarrow> (bls_key \<Rightarrow> bool) \<Rightarrow> LQC \<Rightarrow> ChainHeaderReader \<Rightarrow> Header option list \<Rightarrow> int \<Rightarrow> engine_error option list \<times> LQC" where
  "VerifyHeaders cr decodes l chain headers now =
     (case verify_batch cr decodes (unix_now now) headers (newVerifiedHeaderChain chain) fmempty l of
        (errs, _, l') \<Rightarrow> (errs, l'))"

definition VerifyUncles :: "Header list option \<Rightarrow> engine_error option" where
  "VerifyUncles block_uncles =
     (case block_uncles of None \<Rightarrow> None | Some uncles \<Rightarrow> if uncles \<noteq> [] then Some errUnclesNotAllowed else None)"

section \<open>Preparing and sealing\<close>

definition prepare_selection ::
  "crypto \<Rightarrow> (bls_key \<Rightarrow> bool) \<Rightarrow> LQC \<Rightarrow> ChainHeaderReader \<Rightarrow> Header \<Rightarrow> u64 \<Rightarrow> (engine_error + HybridSelection \<times> Header) \<times> LQC" where
  "prepare_selection cr decodes l chain header n =
     (if n = 1 then
        if h_Coinbase header = 0 then (Inl ErrMissingProducerCoinbase, l)
        else if registryProtocolEnabled l (h_Number header) then
          (case prepareCanonicalRegistryExtra cr decodes l chain header of
             (Inl err, l1) \<Rightarrow> (Inl err, l1)
           | (Inr (sel, header'), l1) \<Rightarrow> (Inr (activation_selection 1 (h_Coinbase header) sel, header'), l1))
        else (Inr (activation_selection 1 (h_Coinbase header) empty_selection, header), l)
      else if registryProtocolEnabled l (h_Number header) then prepareCanonicalRegistryExtra cr decodes l chain header
      else
        (case selectionForHeader cr decodes l chain header of
           (Inl err, l1) \<Rightarrow> (Inl err, l1)
         | (Inr sel, l1) \<Rightarrow> (Inr (sel, header), l1)))"

definition queue_position :: "LQC \<Rightarrow> u64 \<Rightarrow> HybridSelection \<Rightarrow> address \<Rightarrow> int" where
  "queue_position l n sel coinbase =
     (if sel_Ordered sel \<noteq> [] then (case isAuthorAllowedAt l n sel coinbase of (ok, pos) \<Rightarrow> if ok then pos else 0) else 0)"

definition Prepare ::
  "crypto \<Rightarrow> (bls_key \<Rightarrow> bool) \<Rightarrow> LQC \<Rightarrow> ChainHeaderReader \<Rightarrow> Header option \<Rightarrow> (engine_error + Header) \<times> LQC" where
  "Prepare cr decodes l chain header =
     (case header of
        None \<Rightarrow> (Inl ErrNilHeader, l)
      | Some header \<Rightarrow>
          (case h_Number header of
             None \<Rightarrow> (Inl ErrMissingBlockNumber, l)
           | Some number \<Rightarrow>
               let n = big_Uint64 number;
                   header1 = header\<lparr>h_Difficulty := Some 0, h_Nonce := 0, h_MixDigest := 0\<rparr>;
                   header2 = (if \<not> registryProtocolEnabled l (Some number) then header1\<lparr>h_Extra := makeExtra n\<rparr> else header1);
                   (r, l1) =
                     (if number > 0 then
                        (case ch_GetHeader chain (h_ParentHash header) (n - 1) of
                           None \<Rightarrow> (Inl errUnknownAncestor, l)
                         | Some parent \<Rightarrow>
                             (case prepare_selection cr decodes l chain header2 n of
                                (Inl err, l1) \<Rightarrow> (Inl err, l1)
                              | (Inr (sel, header3), l1) \<Rightarrow>
                                  (case minAllowedTimeChecked l1 (h_Time parent) (queue_position l1 n sel (h_Coinbase header)) of
                                     Inl err \<Rightarrow> (Inl err, l1)
                                   | Inr minTime \<Rightarrow>
                                       (Inr (if h_Time header3 < minTime then header3\<lparr>h_Time := minTime\<rparr> else header3), l1))))
                      else (Inr header2, l))
               in case r of
                    Inl err \<Rightarrow> (Inl err, l1)
                  | Inr header' \<Rightarrow>
                      (Inr header', if \<not> registryProtocolEnabled l1 (Some number) \<and> h_Coinbase header \<noteq> 0
                                    then register_producer l1 (h_Coinbase header) n else l1)))"

text \<open>\<open>Seal\<close> checks a sealed block; on success the block is sent back unchanged. A block is given by its header.\<close>

definition Seal ::
  "crypto \<Rightarrow> (bls_key \<Rightarrow> bool) \<Rightarrow> LQC \<Rightarrow> ChainHeaderReader \<Rightarrow> Header \<Rightarrow> engine_error option \<times> LQC" where
  "Seal cr decodes l chain block =
     (case ch_Config chain of
        None \<Rightarrow> (Some (EngineExec ErrMissingChainConfig), l)
      | Some config \<Rightarrow>
          (case VerifyProducerSeal cr (map_option int (cc_ChainID config)) block of
             Some err \<Rightarrow> (Some (EngineSeal err), l)
           | None \<Rightarrow>
               let (r, l1) =
                     (if registryProtocolEnabled l (h_Number block) then
                        (case verifyCanonicalRegistryHeader cr decodes l chain block of
                           (Inl err, l1) \<Rightarrow> (Inl err, l1)
                         | (Inr (sel, snapshot), l1) \<Rightarrow> (Inr sel, rememberRegistrySnapshot cr l1 snapshot))
                      else selectionForHeader cr decodes l chain block)
               in case r of
                    Inl err \<Rightarrow> (Some err, l1)
                  | Inr sel \<Rightarrow>
                      (if sel_Ordered sel \<noteq> []
                          \<and> \<not> fst (isAuthorAllowedAt l1 (case h_Number block of None \<Rightarrow> 0 | Some number \<Rightarrow> big_Uint64 number) sel
                                    (h_Coinbase block))
                       then Some ErrNotSelected else None, l1)))"

definition SealHash :: "crypto \<Rightarrow> LQC \<Rightarrow> Header option \<Rightarrow> hash" where
  "SealHash cr l header =
     (case (header, lq_chainID l) of
        (Some blk, Some chainID) \<Rightarrow>
          (case producerSealHash cr (Some (int chainID)) blk of Inl _ \<Rightarrow> 0 | Inr h \<Rightarrow> h)
      | _ \<Rightarrow> 0)"

definition CalcDifficulty :: "ChainHeaderReader \<Rightarrow> u64 \<Rightarrow> Header option \<Rightarrow> int" where
  "CalcDifficulty chain time parent = 0"

end
