(* ===== verification/Engine_Verify.thy ===== *)
theory Engine_Verify
  imports Engine_Header
begin

text \<open>
  What header verification decides. In the registry era the verdict on a header is a function of the configuration, the chain
  and the clock: it does not depend on what a node has cached, and a batch of headers leaves every node with a cache that is
  sound for the chain with the accepted headers added.
\<close>

section \<open>Nodes\<close>

text \<open>The laws of the chain reader and the bounds of the configuration, and a node whose caches are sound.\<close>

definition world :: "crypto \<Rightarrow> ChainHeaderReader \<Rightarrow> LQCConfig \<Rightarrow> bool" where
  "world cr chain config \<longleftrightarrow> keyed cr chain \<and> short_chain chain \<and> short_config config \<and> lc_RegistryProtocolBlock config \<noteq> 0"

definition node :: "crypto \<Rightarrow> (bls_key \<Rightarrow> bool) \<Rightarrow> ChainHeaderReader \<Rightarrow> LQCConfig \<Rightarrow> LQC \<Rightarrow> bool" where
  "node cr d chain config l \<longleftrightarrow> lq_config l = Some config \<and> cache_sound cr d chain config l"

definition parent_replay ::
  "crypto \<Rightarrow> (bls_key \<Rightarrow> bool) \<Rightarrow> LQC \<Rightarrow> ChainHeaderReader \<Rightarrow> LQCConfig \<Rightarrow> Header \<Rightarrow> engine_error + RegistrySnapshot" where
  "parent_replay cr d l chain config header =
     (case h_Number header of
        None \<Rightarrow> Inl errRegistryProtocolUnavailable
      | Some number \<Rightarrow>
          if number \<le> 0 \<or> \<not> registryProtocolEnabled l (Some number) \<or> h_ParentHash header = 0
          then Inl errRegistryProtocolUnavailable
          else replay_snapshot cr d l chain config (big_Uint64 number - 1) (h_ParentHash header))"

definition registry_verdict ::
  "crypto \<Rightarrow> LQC \<Rightarrow> ChainHeaderReader \<Rightarrow> Header \<Rightarrow> engine_error + RegistrySnapshot \<Rightarrow> engine_error + HybridSelection \<times> RegistrySnapshot" where
  "registry_verdict cr l chain header parent =
     (case parent of
        Inl err \<Rightarrow> Inl err
      | Inr parent \<Rightarrow>
          (case canonicalSelection cr l parent header of
             Inl err \<Rightarrow> Inl err
           | Inr selection \<Rightarrow>
               (case registryChainID chain of
                  Inl err \<Rightarrow> Inl err
                | Inr chainID \<Rightarrow>
                    (case applyRegistryHeaderWithOpenActivation cr l parent chainID (registryRules l) header
                            (openActivationForHeader l chain header) of
                       Inl err \<Rightarrow> Inl err
                     | Inr child \<Rightarrow>
                         Inr (if openActivationForHeader l chain header
                              then activation_selection (case h_Number header of None \<Rightarrow> 0 | Some number \<Rightarrow> big_Uint64 number)
                                     (h_Coinbase header) empty_selection
                              else selection, child)))))"

lemmas engine_config_defs = config_defs registryProtocolEnabled_def canonicalSelection_def hybridCfg_def consensusFairnessActive_def
  consensusLivenessV3Active_def consensusLivenessV4Active_def consensusLivenessV5Active_def isAuthorAllowedAt_def
  futureBlockTimeTolerance_def targetBlockSeconds_def fallbackWindowSeconds_def minAllowedTimeChecked_def

lemma engine_cong:
  assumes "lq_config l = lq_config m"
  shows "registry_verdict cr l chain header p = registry_verdict cr m chain header p"
    and "parent_replay cr d l chain config header = parent_replay cr d m chain config header"
    and "verify_slot l parent header n now sel = verify_slot m parent header n now sel"
    and "verify_fields cr l chain parent header n now = verify_fields cr m chain parent header n now"
    and "registryProtocolEnabled l number = registryProtocolEnabled m number"
    and "canonicalSelection cr l s header = canonicalSelection cr m s header"
  unfolding registry_verdict_def parent_replay_def verify_slot_def verify_fields_def engine_config_defs replay_cong [OF assms]
    setting_cong [OF assms] assms
  by (rule refl)+

lemma parent_node:
  assumes "world cr chain config" "node cr d chain config l" "registryParentSnapshot cr d l chain header = (r, l')"
  shows "r = parent_replay cr d l chain config header \<and> node cr d chain config l' \<and> same_engine l l'"
proof (cases "\<exists>number. h_Number header = Some number \<and> 0 < number \<and> registryProtocolEnabled l (Some number) \<and> h_ParentHash header \<noteq> 0")
  case True
  then obtain number where n: "h_Number header = Some number" "0 < number" "registryProtocolEnabled l (Some number)" "h_ParentHash header \<noteq> 0"
    by blast
  then have s: "registrySnapshotAt cr d l chain (big_Uint64 number - 1) (h_ParentHash header) = (r, l')"
    using assms(3) by (simp add: registryParentSnapshot_def)
  from assms(1,2) have w: "keyed cr chain" "lq_config l = Some config" "lc_RegistryProtocolBlock config \<noteq> 0"
      "cache_sound cr d chain config l" "small_replay cr d l chain config"
    by (auto simp: world_def node_def small_replay_short)
  from registrySnapshotAt_sound [OF w(1-3) n(4) w(4,5) s] n w(2) show ?thesis
    by (auto simp: parent_replay_def node_def same_engine_def)
next
  case False
  then show ?thesis using assms(2,3)
    by (auto simp: registryParentSnapshot_def parent_replay_def node_def registrySnapshotAt_def split: option.splits if_splits)
qed

lemma verify_registry_node:
  assumes "world cr chain config" "node cr d chain config l" "verifyCanonicalRegistryHeader cr d l chain header = (r, l')"
  shows "r = registry_verdict cr l chain header (parent_replay cr d l chain config header) \<and> node cr d chain config l' \<and> same_engine l l'"
proof -
  obtain p l1 where p: "registryParentSnapshot cr d l chain header = (p, l1)" by (cases "registryParentSnapshot cr d l chain header")
  note n = parent_node [OF assms(1,2) p]
  have l1: "lq_config l1 = lq_config l" using n by (simp add: same_engine_def)
  have "(r, l') = (registry_verdict cr l1 chain header p, l1)"
    unfolding assms(3) [symmetric] verifyCanonicalRegistryHeader_def canonicalSelectionForHeader_def registry_verdict_def p
    by (auto split: sum.splits)
  then show ?thesis using n engine_cong(1) [OF l1] by auto
qed

section \<open>The verdict on a header\<close>

definition child_verdict ::
  "crypto \<Rightarrow> (bls_key \<Rightarrow> bool) \<Rightarrow> LQC \<Rightarrow> ChainHeaderReader \<Rightarrow> LQCConfig \<Rightarrow> Header \<Rightarrow> Header \<Rightarrow> u64 \<Rightarrow> u64 \<Rightarrow> engine_error + RegistrySnapshot" where
  "child_verdict cr d l chain config parent header n unixNow =
     (case verify_fields cr l chain parent header n unixNow of
        Some err \<Rightarrow> Inl err
      | None \<Rightarrow>
          if n = 1 \<and> h_Coinbase header = 0 then Inl ErrMissingProducerCoinbase
          else case registry_verdict cr l chain header (parent_replay cr d l chain config header) of
            Inl err \<Rightarrow> Inl err
          | Inr (sel, child) \<Rightarrow>
              (case verify_slot l parent header n unixNow (if n = 1 then activation_selection 1 (h_Coinbase header) sel else sel) of
                 Some err \<Rightarrow> Inl err
               | None \<Rightarrow> Inr child))"

text \<open>The parent of a header, or the error if the header cannot follow one.\<close>

definition header_parent :: "ChainHeaderReader \<Rightarrow> Header \<Rightarrow> Header option \<Rightarrow> engine_error + Header" where
  "header_parent chain header batchParent =
     (case h_Number header of
        None \<Rightarrow> Inl ErrMissingBlockNumber
      | Some number \<Rightarrow>
          if \<not> IsUint64 number then Inl errInvalidBlockNumber
          else case (case batchParent of None \<Rightarrow> ch_GetHeader chain (h_ParentHash header) (big_Uint64 number - 1) | Some p \<Rightarrow> Some p) of
            None \<Rightarrow> Inl errUnknownAncestor
          | Some parent \<Rightarrow>
              (case h_Number parent of
                 None \<Rightarrow> Inl errInvalidBlockNumber
               | Some k \<Rightarrow>
                   if IsUint64 k \<and> big_Uint64 number = big_Uint64 k + 1 then Inr parent else Inl errInvalidBlockNumber))"

definition header_verdict ::
  "crypto \<Rightarrow> (bls_key \<Rightarrow> bool) \<Rightarrow> LQC \<Rightarrow> ChainHeaderReader \<Rightarrow> LQCConfig \<Rightarrow> Header \<Rightarrow> Header option \<Rightarrow> u64 \<Rightarrow> engine_error + RegistrySnapshot" where
  "header_verdict cr d l chain config header batchParent unixNow =
     (case header_parent chain header batchParent of
        Inl err \<Rightarrow> Inl err
      | Inr parent \<Rightarrow> child_verdict cr d l chain config parent header (case h_Number header of None \<Rightarrow> 0 | Some number \<Rightarrow> big_Uint64 number) unixNow)"

abbreviation verdict_error :: "'e + 'a \<Rightarrow> 'e option" where
  "verdict_error r \<equiv> (case r of Inl err \<Rightarrow> Some err | Inr _ \<Rightarrow> None)"

text \<open>A header of the registry era.\<close>

definition in_era :: "LQCConfig \<Rightarrow> Header \<Rightarrow> bool" where
  "in_era config header \<longleftrightarrow> (case h_Number header of None \<Rightarrow> True | Some number \<Rightarrow> IsUint64 number \<longrightarrow> uint (lc_RegistryProtocolBlock config) \<le> number)"

lemma big_Uint64_id: "IsUint64 number \<Longrightarrow> uint (big_Uint64 number) = number"
  unfolding IsUint64_def big_Uint64_def by (auto simp: uint_word_of_int take_bit_eq_mod)

lemma less_minus_one: "k \<noteq> 0 \<Longrightarrow> k \<le> (n :: u64) \<Longrightarrow> k - 1 < n"
  using unat_minus_one [of k] unat_gt_0 [of k] by (auto simp: word_less_nat_alt word_le_nat_alt)

lemma in_era_enabled:
  assumes "lq_config l = Some config" "lc_RegistryProtocolBlock config \<noteq> 0" "in_era config header" "h_Number header = Some number" "IsUint64 number"
  shows "registryProtocolEnabled l (Some number)" and "0 < number" and "lc_RegistryProtocolBlock config \<le> big_Uint64 number"
proof -
  have le: "uint (lc_RegistryProtocolBlock config) \<le> uint (big_Uint64 number)"
    using assms(3-5) big_Uint64_id by (simp add: in_era_def)
  then show b: "lc_RegistryProtocolBlock config \<le> big_Uint64 number" by (simp add: word_le_def)
  have "0 < uint (lc_RegistryProtocolBlock config)"
    using assms(2) by (simp add: order.strict_iff_order uint_0_iff eq_commute [of 0])
  then show "0 < number" using le big_Uint64_id [OF assms(5)] by simp
  then show "registryProtocolEnabled l (Some number)"
    using assms(1,2) b by (simp add: registryProtocolEnabled_def setting_def word_gt_0)
qed

lemma verify_child_node:
  assumes "world cr chain config" "node cr d chain config l" "h_Number header = Some number" "registryProtocolEnabled l (Some number)"
    and "verify_child cr d l chain parent header (big_Uint64 number) now = (e, l')"
  shows "e = verdict_error (child_verdict cr d l chain config parent header (big_Uint64 number) now)
    \<and> (\<exists>l1. node cr d chain config l1 \<and> same_engine l l1
      \<and> l' = (case child_verdict cr d l chain config parent header (big_Uint64 number) now of
          Inl _ \<Rightarrow> l1 | Inr child \<Rightarrow> rememberRegistrySnapshot cr l1 child))"
proof (cases "verify_fields cr l chain parent header (big_Uint64 number) now = None \<and> \<not> (big_Uint64 number = 1 \<and> h_Coinbase header = 0)")
  case False
  then show ?thesis
    using assms(2,5) by (auto simp: verify_child_def child_verdict_def verify_selection_def split: option.splits if_splits)
next
  case f: True
  obtain r l1 where v: "verifyCanonicalRegistryHeader cr d l chain header = (r, l1)" by (cases "verifyCanonicalRegistryHeader cr d l chain header")
  note n = verify_registry_node [OF assms(1,2) v]
  have l1: "lq_config l1 = lq_config l" using n by (simp add: same_engine_def)
  have en: "registryProtocolEnabled (rememberRegistrySnapshot cr l1 s) (Some number)" for s
    using engine_cong(5) [of l "rememberRegistrySnapshot cr l1 s"] assms(4) l1 remember_same [of l1 cr s] by (simp add: same_engine_def)
  show ?thesis
  proof (cases r)
    case (Inl err)
    then have "registry_verdict cr l chain header (parent_replay cr d l chain config header) = Inl err" using n by simp
    then show ?thesis
      using assms(3-5) n f v Inl by (auto simp: verify_child_def child_verdict_def verify_selection_def split: if_splits)
  next
    case (Inr q)
    obtain sel child where q: "q = (sel, child)" by (cases q)
    have rv: "registry_verdict cr l chain header (parent_replay cr d l chain config header) = Inr (sel, child)" using n Inr q by simp
    show ?thesis
      using assms(3-5) n f v [unfolded Inr q] rv en engine_cong(3) [OF l1]
      by (auto simp: verify_child_def child_verdict_def verify_selection_def Let_def split: if_splits option.splits)
  qed
qed

lemma verify_header_node:
  assumes "world cr chain config" "node cr d chain config l" "in_era config header"
    and "verifyHeaderAt cr d l chain (Some header) bp now = (e, l')"
  shows "e = verdict_error (header_verdict cr d l chain config header bp now)
    \<and> (\<exists>l1. node cr d chain config l1 \<and> same_engine l l1 \<and> l' = (case header_verdict cr d l chain config header bp now of
          Inl _ \<Rightarrow> l1 | Inr child \<Rightarrow> rememberRegistrySnapshot cr l1 child))"
proof (cases "header_parent chain header bp")
  case (Inl err)
  have pos: "number \<noteq> 0" if "h_Number header = Some number" "IsUint64 number" for number
    using in_era_enabled(2) [OF _ _ assms(3) that] assms(1,2) by (auto simp: world_def node_def)
  have "e = Some err \<and> l' = l"
    using Inl assms(4) pos by (auto simp: verifyHeaderAt_def header_parent_def Let_def split: option.splits if_splits)
  then show ?thesis using Inl assms(2) by (auto simp: header_verdict_def)
next
  case (Inr parent)
  then obtain number where n: "h_Number header = Some number" "IsUint64 number"
    by (auto simp: header_parent_def split: option.splits if_splits)
  have en: "registryProtocolEnabled l (Some number)" "0 < number"
    using in_era_enabled [OF _ _ assms(3) n] assms(1,2) by (auto simp: world_def node_def)
  have "verify_child cr d l chain parent header (big_Uint64 number) now = (e, l')"
    using Inr assms(4) en n by (auto simp: verifyHeaderAt_def header_parent_def Let_def split: option.splits if_splits)
  from verify_child_node [OF assms(1,2) n(1) en(1) this] Inr n(1) show ?thesis by (simp add: header_verdict_def)
qed

text \<open>The snapshot of an accepted header is the replay of its parent with the header applied.\<close>

lemma not_work_envelope: "DecodeRegistryHeaderExtra extra = Inr e \<Longrightarrow> decode_work_envelope d extra = None"
  using accepted_fields(1) [of extra e] accepted_fields(2,3) [of extra MaxWorkTicketsPerBlockV1] accepted_fields(4) [of d extra MaxWorkTicketsPerBlockV1]
    has_fields_unique [of 4 extra 6] has_fields_unique [of 4 extra 8] has_fields_unique [of 4 extra 10]
  by (auto simp: decode_work_envelope_def split: sum.splits)

lemma verdict_applied:
  assumes "header_verdict cr d l chain config header bp now = Inr child"
  obtains number p where "h_Number header = Some number" "IsUint64 number"
    "replay_snapshot cr d l chain config (big_Uint64 number - 1) (h_ParentHash header) = Inr p"
    "applyRegistrySnapshotHeaderMaybeV3 cr d l chain p header = Inr child"
proof -
  from assms obtain number where n: "h_Number header = Some number" "IsUint64 number"
    by (auto simp: header_verdict_def header_parent_def split: option.splits if_splits sum.splits)
  with assms obtain sel where "registry_verdict cr l chain header (parent_replay cr d l chain config header) = Inr (sel, child)"
    by (auto simp: header_verdict_def child_verdict_def split: option.splits if_splits sum.splits prod.splits)
  then obtain p chainID where p: "parent_replay cr d l chain config header = Inr p" and c: "registryChainID chain = Inr chainID"
      and a: "applyRegistryHeaderWithOpenActivation cr l p chainID (registryRules l) header (openActivationForHeader l chain header) = Inr child"
    by (auto simp: registry_verdict_def split: sum.splits)
  from p n have rep: "replay_snapshot cr d l chain config (big_Uint64 number - 1) (h_ParentHash header) = Inr p"
    by (auto simp: parent_replay_def split: if_splits)
  from a obtain pres where "applyHeaderWithOpenActivation cr p chainID (registryRules l) header (openActivationForHeader l chain header) pres = Inr child"
    by (auto simp: applyRegistryHeaderWithOpenActivation_def map_sum_def Let_def split: sum.splits)
  then have "applyRegistrySnapshotHeaderMaybeV3 cr d l chain p header = Inr child"
    by (rule applyHeader_Inr) (use n c a not_work_envelope Validate_operations(1) in \<open>auto simp: applyRegistrySnapshotHeaderMaybeV3_def\<close>)
  with that n rep show thesis by blast
qed

section \<open>Batches\<close>

text \<open>
  The headers a batch is verified with: those of the chain and those of the batch. Their hashes do not collide, the batch is in the
  registry era, and its block numbers are below \<open>2\<^sup>50\<close>.
\<close>

definition known_headers :: "ChainHeaderReader \<Rightarrow> Header option list \<Rightarrow> Header set" where
  "known_headers chain headers = {b. \<exists>h n. ch_GetHeader chain h n = Some b} \<union> {b. Some b \<in> set headers}"

definition batch_header :: "LQCConfig \<Rightarrow> Header \<Rightarrow> bool" where
  "batch_header config blk \<longleftrightarrow> in_era config blk \<and> (\<forall>number. h_Number blk = Some number \<longrightarrow> number < 2 ^ 50)"

definition batch_ok :: "crypto \<Rightarrow> ChainHeaderReader \<Rightarrow> LQCConfig \<Rightarrow> Header option list \<Rightarrow> bool" where
  "batch_ok cr chain config headers \<longleftrightarrow> inj_on (Header_Hash cr) (known_headers chain headers)
     \<and> (\<forall>blk. Some blk \<in> set headers \<longrightarrow> batch_header config blk)"

text \<open>A batch chain over headers \<open>K\<close>.\<close>

definition vc_inv :: "crypto \<Rightarrow> Header set \<Rightarrow> verifiedHeaderChain \<Rightarrow> bool" where
  "vc_inv cr K c \<longleftrightarrow> (\<forall>h b. fmlookup (vc_byHash c) h = Some b \<longrightarrow> Header_Hash cr b = h \<and> b \<in> K)
     \<and> (\<forall>h n b. ch_GetHeader (vc_ChainHeaderReader c) h n = Some b \<longrightarrow> b \<in> K)"

lemma vc_reader_simps [simp]:
  "ch_GetHeader (vc_reader c) = vc_GetHeader c" "ch_Config (vc_reader c) = ch_Config (vc_ChainHeaderReader c)"
  by (simp_all add: vc_reader_def)

lemma vc_known: "vc_inv cr K c \<Longrightarrow> vc_GetHeader c h n = Some b \<Longrightarrow> b \<in> K"
  by (auto simp: vc_inv_def vc_GetHeader_def split: option.splits if_splits)

lemma vc_remember_lookup:
  assumes "h_Number blk = Some number" "IsUint64 number"
  shows "vc_GetHeader (vc_remember cr c blk) h n =
     (if h = Header_Hash cr blk then if n = big_Uint64 number then Some blk else ch_GetHeader (vc_ChainHeaderReader c) h n
      else vc_GetHeader c h n)"
  using assms by (auto simp: vc_GetHeader_def vc_remember_def split: option.split)

lemma remember_extends:
  assumes "inj_on (Header_Hash cr) K" "vc_inv cr K c" "world cr (vc_reader c) config" "blk \<in> K" "batch_header config blk"
    and n: "h_Number blk = Some number" "IsUint64 number"
  defines "c' \<equiv> vc_remember cr c blk"
  shows "vc_inv cr K c'" and "world cr (vc_reader c') config" and "extends config (vc_reader c) (vc_reader c')"
    and "vc_GetHeader c' (Header_Hash cr blk) (big_Uint64 number) = Some blk"
proof -
  note look = vc_remember_lookup [OF n, of cr c, folded c'_def]
  have base: "vc_ChainHeaderReader c' = vc_ChainHeaderReader c" using n by (simp add: c'_def vc_remember_def)
  show "vc_inv cr K c'" using assms(2,4) n by (auto simp: vc_inv_def c'_def vc_remember_def)
  show "vc_GetHeader c' (Header_Hash cr blk) (big_Uint64 number) = Some blk" by (simp add: look)
  have key: "vc_GetHeader c h m = Some b \<Longrightarrow> Header_Hash cr b = h" for h m b
    using assms(3) by (simp add: world_def keyed_def)
  have old: "fmlookup (vc_byHash c) (Header_Hash cr blk) = Some b \<Longrightarrow> b = blk" for b
    using assms(1,2,4) by (auto simp: vc_inv_def inj_on_def)
  have "vc_GetHeader c (Header_Hash cr blk) m = ch_GetHeader (vc_ChainHeaderReader c) (Header_Hash cr blk) m" if "m \<noteq> big_Uint64 number" for m
    using that old n by (auto simp: vc_GetHeader_def split: option.split)
  then have same: "vc_GetHeader c' h m = vc_GetHeader c h m" if "m \<noteq> big_Uint64 number" for h m
    using that by (simp add: look)
  have here: "vc_GetHeader c h (big_Uint64 number) = Some b \<Longrightarrow> vc_GetHeader c' h (big_Uint64 number) = Some b" for h b
    using key vc_known [OF assms(2)] assms(1,4) by (auto simp: look inj_on_def)
  have "lc_RegistryProtocolBlock config \<le> big_Uint64 number"
    using assms(5) n big_Uint64_id by (simp add: batch_header_def in_era_def word_le_def)
  then have "vc_GetHeader c' h m = vc_GetHeader c h m" if "m < lc_RegistryProtocolBlock config" for h m
    using that same by (metis not_less)
  moreover have "vc_GetHeader c h m = Some b \<Longrightarrow> vc_GetHeader c' h m = Some b" for h m b
    using same here by (cases "m = big_Uint64 number") auto
  ultimately show "extends config (vc_reader c) (vc_reader c')" by (auto simp: extends_def base)
  have "vc_GetHeader c' h m = Some b \<Longrightarrow> Header_Hash cr b = h \<and> unat m < 2 ^ 50" for h m b
  proof (cases "m = big_Uint64 number \<and> h = Header_Hash cr blk")
    case True
    moreover have "uint (big_Uint64 number) < 1125899906842624" using assms(5) n by (simp add: batch_header_def big_Uint64_id)
    then have "unat (big_Uint64 number) < 1125899906842624" using uint_nat [of "big_Uint64 number"] by linarith
    ultimately show "vc_GetHeader c' h m = Some b \<Longrightarrow> ?thesis" by (auto simp: look)
  next
    case False
    then have "vc_GetHeader c' h m = vc_GetHeader c h m" using same by (cases "m = big_Uint64 number") (auto simp: look)
    then show "vc_GetHeader c' h m = Some b \<Longrightarrow> ?thesis"
      using assms(3) unfolding world_def keyed_def short_chain_def vc_reader_simps by metis
  qed
  then show "world cr (vc_reader c') config" using assms(3) by (auto simp: world_def keyed_def short_chain_def)
qed

text \<open>One header of a batch: a node decides as the verdict says, and its cache is sound for the chain with the header added.\<close>

lemma batch_step:
  assumes "inj_on (Header_Hash cr) K" "vc_inv cr K c" "world cr (vc_reader c) config" "node cr d (vc_reader c) config l"
    and "blk \<in> K" "batch_header config blk" "verifyHeaderAt cr d l (vc_reader c) (Some blk) bp now = (e, l')"
  defines "c' \<equiv> (if e = None then vc_remember cr c blk else c)"
  shows "e = verdict_error (header_verdict cr d l (vc_reader c) config blk bp now)"
    and "vc_inv cr K c'" and "world cr (vc_reader c') config" and "extends config (vc_reader c) (vc_reader c')"
    and "node cr d (vc_reader c') config l'" and "same_engine l l'"
    and "e = None \<longrightarrow> (\<exists>number s. h_Number blk = Some number
      \<and> replay_snapshot cr d l (vc_reader c') config (big_Uint64 number) (Header_Hash cr blk) = Inr s)"
proof -
  let ?chain = "vc_reader c" and ?v = "header_verdict cr d l (vc_reader c) config blk bp now"
  have era: "in_era config blk" using assms(6) by (simp add: batch_header_def)
  from verify_header_node [OF assms(3,4) era assms(7)] obtain l1 where e: "e = verdict_error ?v"
      and l1: "node cr d ?chain config l1" "same_engine l l1" "l' = (case ?v of Inl _ \<Rightarrow> l1 | Inr child \<Rightarrow> rememberRegistrySnapshot cr l1 child)"
    by blast
  show "e = verdict_error ?v" by (rule e)
  show "same_engine l l'" using l1 same_engine_trans [OF l1(2) remember_same] by (simp split: sum.split)
  have "vc_inv cr K c' \<and> world cr (vc_reader c') config \<and> extends config ?chain (vc_reader c') \<and> node cr d (vc_reader c') config l'
    \<and> (e = None \<longrightarrow> (\<exists>number s. h_Number blk = Some number
      \<and> replay_snapshot cr d l (vc_reader c') config (big_Uint64 number) (Header_Hash cr blk) = Inr s))"
  proof (cases ?v)
    case (Inl err)
    then show ?thesis using assms(2,3) e l1 by (simp add: c'_def)
  next
    case (Inr s)
    from verdict_applied [OF Inr] obtain number p where n: "h_Number blk = Some number" "IsUint64 number"
        and p: "replay_snapshot cr d l ?chain config (big_Uint64 number - 1) (h_ParentHash blk) = Inr p"
        and s: "applyRegistrySnapshotHeaderMaybeV3 cr d l ?chain p blk = Inr s" by metis
    have c': "c' = vc_remember cr c blk" using e Inr by (simp add: c'_def)
    note ext = remember_extends [OF assms(1-3,5,6) n, folded c']
    have w: "keyed cr ?chain" "lc_RegistryProtocolBlock config \<noteq> 0" using assms(3) by (simp_all add: world_def)
    have rep: "replay_snapshot cr d l (vc_reader c') config (big_Uint64 number) (Header_Hash cr blk) = Inr s"
    proof -
      have "lc_RegistryProtocolBlock config \<le> big_Uint64 number"
        using in_era_enabled(3) [where l = l, OF _ w(2) era n] assms(4) by (simp add: node_def)
      then have "lc_RegistryProtocolBlock config - 1 < big_Uint64 number" by (rule less_minus_one [OF w(2)])
      moreover have "rs_Number p = big_Uint64 number - 1" using replay_fields [OF w(1) p] by simp
      ultimately show ?thesis
        using replay_extends [OF w(1) ext(3) w(2) p] apply_extends [OF ext(3) w(2) p] ext(4) s by (simp add: replay_above)
    qed
    have "keyed cr (vc_reader c')" "small_replay cr d l (vc_reader c') config"
      using ext(2) small_replay_short by (auto simp: world_def)
    note f = replay_fields [OF this(1) rep] small_replayD [OF this(2) rep]
    have "cache_sound cr d (vc_reader c') config (rememberRegistrySnapshot cr l1 s)"
      using cache_sound_extends [OF _ w(1) ext(3) w(2)] l1(1) f rep same_engine_replay [OF l1(2)]
      by (intro remember_sound) (auto simp: node_def)
    then have "node cr d (vc_reader c') config l'"
      using l1 Inr remember_same [of l1 cr s] by (simp add: node_def same_engine_def)
    then show ?thesis using ext rep n(1) by blast
  qed
  then show "vc_inv cr K c'" "world cr (vc_reader c') config" "extends config ?chain (vc_reader c')" "node cr d (vc_reader c') config l'"
    "e = None \<longrightarrow> (\<exists>number s. h_Number blk = Some number
      \<and> replay_snapshot cr d l (vc_reader c') config (big_Uint64 number) (Header_Hash cr blk) = Inr s)" by blast+
qed

text \<open>Two nodes on the same batch.\<close>

lemma header_verdict_cong:
  assumes "lq_config l = lq_config m"
  shows "header_verdict cr d l chain config blk bp now = header_verdict cr d m chain config blk bp now"
  unfolding header_verdict_def child_verdict_def engine_cong [OF assms] by (rule refl)

lemma replay_stays:
  "world cr chain config \<Longrightarrow> extends config chain chain' \<Longrightarrow> replay_snapshot cr d l chain config n h = Inr s
   \<Longrightarrow> replay_snapshot cr d l chain' config n h = Inr s"
  by (rule replay_extends) (auto simp: world_def)

definition batch_outcome ::
  "crypto \<Rightarrow> (bls_key \<Rightarrow> bool) \<Rightarrow> LQC \<Rightarrow> ChainHeaderReader \<Rightarrow> LQCConfig \<Rightarrow> Header option \<Rightarrow> engine_error option \<Rightarrow> bool" where
  "batch_outcome cr d l chain config header e \<longleftrightarrow> e = None \<longrightarrow> (\<exists>blk number s. header = Some blk \<and> h_Number blk = Some number
     \<and> replay_snapshot cr d l chain config (big_Uint64 number) (Header_Hash cr blk) = Inr s)"

lemma batch_agree:
  assumes "inj_on (Header_Hash cr) K"
  shows "vc_inv cr K c \<Longrightarrow> world cr (vc_reader c) config \<Longrightarrow> node cr d (vc_reader c) config l \<Longrightarrow> node cr d (vc_reader c) config m
    \<Longrightarrow> (\<forall>blk. Some blk \<in> set headers \<longrightarrow> blk \<in> K \<and> batch_header config blk)
    \<Longrightarrow> verify_batch cr d now headers c verified l = (es, c1, l1) \<Longrightarrow> verify_batch cr d now headers c verified m = (fs, c2, m1)
    \<Longrightarrow> fs = es \<and> c2 = c1 \<and> world cr (vc_reader c1) config \<and> extends config (vc_reader c) (vc_reader c1)
      \<and> node cr d (vc_reader c1) config l1 \<and> node cr d (vc_reader c1) config m1 \<and> same_engine l l1 \<and> same_engine m m1
      \<and> list_all2 (batch_outcome cr d l (vc_reader c1) config) headers es"
proof (induction headers arbitrary: c verified l m es fs)
  case (Cons header headers)
  let ?bp = "case header of None \<Rightarrow> None | Some blk \<Rightarrow> fmlookup verified (h_ParentHash blk)"
  obtain e la where la: "verifyHeaderAt cr d l (vc_reader c) header ?bp now = (e, la)" by (cases "verifyHeaderAt cr d l (vc_reader c) header ?bp now")
  obtain f ma where ma: "verifyHeaderAt cr d m (vc_reader c) header ?bp now = (f, ma)" by (cases "verifyHeaderAt cr d m (vc_reader c) header ?bp now")
  show ?case
  proof (cases header)
    case None
    then have e: "e = Some ErrNilHeader" "la = l" "f = Some ErrNilHeader" "ma = m" using la ma by (auto simp: verifyHeaderAt_def)
    from Cons.prems(6,7) None la ma e obtain es' fs' where "verify_batch cr d now headers c verified l = (es', c1, l1)" "es = e # es'"
        "verify_batch cr d now headers c verified m = (fs', c2, m1)" "fs = e # fs'"
      by (auto simp: Let_def split: prod.splits)
    with Cons.IH [OF Cons.prems(1-4) _ this(1,3)] Cons.prems(5) e(1) show ?thesis by (auto simp: batch_outcome_def)
  next
    case (Some blk)
    let ?c = "if e = None then vc_remember cr c blk else c"
    let ?v = "if e = None then fmupd (Header_Hash cr blk) blk verified else verified"
    have blk: "blk \<in> K" "batch_header config blk" using Cons.prems(5) Some by auto
    note sl = batch_step [OF assms Cons.prems(1-3) blk la [unfolded Some]]
    note sm = batch_step [OF assms Cons.prems(1,2,4) blk ma [unfolded Some]]
    have "lq_config l = lq_config m" using Cons.prems(3,4) by (simp add: node_def)
    then have f: "f = e" using sl(1) sm(1) by (simp add: header_verdict_cong [of l m])
    from Cons.prems(6,7) Some la ma f obtain es' fs' where b: "verify_batch cr d now headers ?c ?v la = (es', c1, l1)" "es = e # es'"
        "verify_batch cr d now headers ?c ?v ma = (fs', c2, m1)" "fs = e # fs'"
      by (auto simp: Let_def split: prod.splits option.splits)
    have ih: "fs' = es' \<and> c2 = c1 \<and> world cr (vc_reader c1) config \<and> extends config (vc_reader ?c) (vc_reader c1)
      \<and> node cr d (vc_reader c1) config l1 \<and> node cr d (vc_reader c1) config m1 \<and> same_engine la l1 \<and> same_engine ma m1
      \<and> list_all2 (batch_outcome cr d la (vc_reader c1) config) headers es'"
      by (rule Cons.IH [OF sl(2,3,5) sm(5) [unfolded f] _ b(1,3)]) (use Cons.prems(5) in auto)
    have rl: "batch_outcome cr d la = batch_outcome cr d l"
      unfolding batch_outcome_def same_engine_replay [OF sl(6)] by (rule refl)
    have "batch_outcome cr d l (vc_reader c1) config (Some blk) e"
      using sl(3,7) ih replay_stays [where l = l] unfolding batch_outcome_def by blast
    then show ?thesis
      using ih f b(2,4) Some extends_trans [OF sl(4)] same_engine_trans [OF sl(6)] same_engine_trans [OF sm(6)] unfolding rl by simp
  qed
qed (auto simp: batch_outcome_def)

lemma vc_reader_new [simp]: "vc_reader (newVerifiedHeaderChain chain) = chain"
  by (simp add: vc_reader_def newVerifiedHeaderChain_def vc_GetHeader_def [abs_def] vc_GetHeaderByHash_def [abs_def]
      vc_GetHeaderByNumber_def [abs_def])

section \<open>Properties\<close>

text \<open>Claim C1: nodes agree. Two nodes with the same configuration and sound caches, whatever each has cached, stored or
  evicted, give the same verdict on every header of a batch of the registry era, error for error. Afterwards both caches
  are sound for one chain that extends the old one, on which every accepted header has a registry snapshot; the rest of each engine is
  unchanged.\<close>

theorem nodes_agree:
  assumes "world cr chain config" and "batch_ok cr chain config headers"
    and "node cr decodes chain config l" and "node cr decodes chain config m"
  shows "fst (VerifyHeaders cr decodes m chain headers now) = fst (VerifyHeaders cr decodes l chain headers now)
    \<and> (\<exists>chain'. extends config chain chain'
      \<and> node cr decodes chain' config (snd (VerifyHeaders cr decodes l chain headers now))
      \<and> node cr decodes chain' config (snd (VerifyHeaders cr decodes m chain headers now))
      \<and> list_all2 (batch_outcome cr decodes l chain' config) headers (fst (VerifyHeaders cr decodes l chain headers now)))
    \<and> same_engine l (snd (VerifyHeaders cr decodes l chain headers now))"
proof -
  let ?c = "newVerifiedHeaderChain chain" and ?K = "known_headers chain headers"
  obtain es c1 l1 where l: "verify_batch cr decodes (unix_now now) headers ?c fmempty l = (es, c1, l1)" by (metis prod_cases3)
  obtain fs c2 m1 where m: "verify_batch cr decodes (unix_now now) headers ?c fmempty m = (fs, c2, m1)" by (metis prod_cases3)
  have inj: "inj_on (Header_Hash cr) ?K" and known: "\<forall>blk. Some blk \<in> set headers \<longrightarrow> blk \<in> ?K \<and> batch_header config blk"
    using assms(2) by (auto simp: batch_ok_def known_headers_def)
  have inv: "vc_inv cr ?K ?c" by (auto simp: vc_inv_def newVerifiedHeaderChain_def known_headers_def)
  from batch_agree [OF inj inv _ _ _ known l m] assms(1,3,4) have agree: "fs = es" "c2 = c1" "extends config chain (vc_reader c1)"
      "node cr decodes (vc_reader c1) config l1" "node cr decodes (vc_reader c1) config m1" "same_engine l l1"
      "list_all2 (batch_outcome cr decodes l (vc_reader c1) config) headers es" by simp_all
  have "VerifyHeaders cr decodes l chain headers now = (es, l1)" "VerifyHeaders cr decodes m chain headers now = (fs, m1)"
    by (simp_all add: VerifyHeaders_def l m)
  then show ?thesis using agree by auto
qed

definition sample_node :: "kvdb option \<Rightarrow> LQC" where
  "sample_node db = LQC_New (Some sample_lqc_config) db []"

lemma sample_world: "world sample_crypto sample_chain sample_lqc_config"
  by (simp add: world_def keyed_def short_chain_def short_config_def sample_chain_def sample_lqc_config_def)

theorem nodes_agree_witness:
  "fst (VerifyHeaders sample_crypto (\<lambda>_. True) (sample_node None) sample_chain [None, Some sample_block] 200)
     = fst (VerifyHeaders sample_crypto (\<lambda>_. True) (sample_node (Some fmempty)) sample_chain [None, Some sample_block] 200)
   \<and> fst (VerifyHeaders sample_crypto (\<lambda>_. True) (sample_node None) sample_chain [None, Some sample_block] 200)
     = [Some ErrNilHeader, Some errUnknownAncestor]"
proof -
  have node: "node sample_crypto (\<lambda>_. True) sample_chain sample_lqc_config (sample_node db)" if "db = None \<or> db = Some fmempty" for db
    using that by (auto simp: node_def sample_node_def LQC_New_def intro!: fresh_cache_sound)
  have b: "h_Number sample_block = Some 5" by (simp add: sample_block_def sample_header_def)
  have ok: "batch_ok sample_crypto sample_chain sample_lqc_config [None, Some sample_block]"
    using b by (auto simp: batch_ok_def known_headers_def batch_header_def in_era_def sample_chain_def sample_lqc_config_def inj_on_def)
  have "fst (VerifyHeaders sample_crypto (\<lambda>_. True) l sample_chain [None, Some sample_block] 200) = [Some ErrNilHeader, Some errUnknownAncestor]" for l
    using b by (simp add: VerifyHeaders_def verifyHeaderAt_def IsUint64_def vc_GetHeader_def newVerifiedHeaderChain_def sample_chain_def)
  then show ?thesis using nodes_agree [OF sample_world ok node node, of "Some fmempty" None 200] by simp
qed

end
