(* ===== verification/Engine_Accept.thy ===== *)
theory Engine_Accept
  imports Engine_Verify
begin

text \<open>
  What an accepted header satisfies, and what a rejected one leaves behind: the times of the producers' slots, the rules every accepted
  header obeys, and the state after a rejection.
\<close>

section \<open>Slots\<close>

definition slot_time :: "LQC \<Rightarrow> u64 \<Rightarrow> nat \<Rightarrow> nat" where
  "slot_time l parentTime k = unat parentTime + unat (targetBlockSeconds l) + k * unat (fallbackWindowSeconds l)"

lemma seconds_pos: "0 < unat (targetBlockSeconds l)" "0 < unat (fallbackWindowSeconds l)"
  by (simp_all add: targetBlockSeconds_def fallbackWindowSeconds_def Let_def unat_gt_0)

lemma product_guard:
  assumes "w \<noteq> (0 :: u64)"
  shows "p > maxU64 div w \<longleftrightarrow> 2 ^ 64 \<le> unat p * unat w"
proof -
  have w: "0 < unat w" using assms by (simp add: unat_gt_0)
  have "p > maxU64 div w \<longleftrightarrow> (2 ^ 64 - 1) div unat w < unat p"
    by (simp add: word_less_nat_alt unat_div_distrib unsigned_minus_1_eq_mask mask_eq_exp_minus_1)
  also have "\<dots> \<longleftrightarrow> 2 ^ 64 - 1 < unat p * unat w" using w by (rule div_less_iff_less_mult)
  finally show ?thesis by auto
qed

lemma min_time_eq:
  assumes "k < 2 ^ 64"
  shows "minAllowedTimeChecked l t (int k) =
    (if slot_time l t k < 2 ^ 64 then Inr (of_nat (slot_time l t k)) else Inl errBlockTimeOverflow)"
proof (cases "k = 0")
  case True
  then show ?thesis by (simp add: minAllowedTimeChecked_def Let_def checkedRegistryBlockAdd_eq slot_time_def)
next
  case False
  let ?w = "fallbackWindowSeconds l" and ?p = "word_of_int (int k) :: u64"
  have w: "?w \<noteq> 0" using seconds_pos(2) [of l] by auto
  have p: "unat ?p = k" using assms by (simp add: unat_of_nat)
  show ?thesis
  proof (cases "2 ^ 64 \<le> k * unat ?w")
    case True
    then show ?thesis using False w product_guard [OF w, of ?p] p by (simp add: minAllowedTimeChecked_def Let_def slot_time_def)
  next
    case fits: False
    then have m: "unat (?p * ?w) = k * unat ?w" using p by (simp add: unat_mult_lem [THEN iffD1])
    then show ?thesis
      using False fits w product_guard [OF w, of ?p] p
      by (simp add: minAllowedTimeChecked_def Let_def slot_time_def checkedRegistryBlockAdd_eq add.assoc)
  qed
qed

section \<open>What verification leaves alone\<close>

lemma walk_back_same: "walk_back cr chain before n h pending l = (r, l') \<Longrightarrow> same_engine l l'"
proof (induction cr chain before n h pending l arbitrary: r l' rule: walk_back.induct)
  case (1 cr chain before n h pending l)
  show ?case
  proof (cases "n \<le> before")
    case True
    then show ?thesis using "1.prems" by (auto simp: walk_back.simps)
  next
    case False
    obtain c l1 where c: "cachedRegistrySnapshot cr l n h = (c, l1)" by (cases "cachedRegistrySnapshot cr l n h")
    note l1 = cached_same [OF c]
    show ?thesis
    proof (cases "c = None \<and> ch_GetHeader chain h n \<noteq> None")
      case True
      then obtain blk where blk: "c = None" "ch_GetHeader chain h n = Some blk" by auto
      with "1.prems" False c have "walk_back cr chain before (n - 1) (h_ParentHash blk) (pending @ [blk]) l1 = (r, l')"
        by (subst (asm) walk_back.simps) simp
      from "1.IH" [OF False c [symmetric] blk this] show ?thesis by (rule same_engine_trans [OF l1])
    next
      case stop: False
      then show ?thesis using "1.prems" False c l1 by (subst (asm) walk_back.simps) (auto split: option.splits)
    qed
  qed
qed

lemma replay_headers_same: "replay_headers cr d chain hs s l = (r, l') \<Longrightarrow> same_engine l l'"
  by (induction hs arbitrary: s l) (auto split: sum.splits intro: same_engine_trans [OF remember_same])

lemma registrySnapshotAt_same:
  assumes "registrySnapshotAt cr d l chain n h = (r, l')"
  shows "same_engine l l'"
proof -
  obtain c l1 where c: "cachedRegistrySnapshot cr l n h = (c, l1)" by (cases "cachedRegistrySnapshot cr l n h")
  have base: "snapshot_base cr config found k g m = (b, m') \<Longrightarrow> same_engine m m'" for config found k g m b m'
    by (auto simp: snapshot_base_def remember_same split: option.splits if_splits sum.splits)
  show ?thesis
    using assms cached_same [OF c] c
    by (auto simp: registrySnapshotAt_def split: option.splits if_splits prod.splits sum.splits
        dest!: walk_back_same replay_headers_same base intro: same_engine_trans)
qed

lemma verify_registry_same: "verifyCanonicalRegistryHeader cr d l chain header = (r, l') \<Longrightarrow> same_engine l l'"
  by (auto simp: verifyCanonicalRegistryHeader_def canonicalSelectionForHeader_def registryParentSnapshot_def
      split: option.splits if_splits prod.splits sum.splits dest!: registrySnapshotAt_same)

lemma selection_same: "selectionForHeader cr d l chain header = (r, l') \<Longrightarrow> same_engine l l'"
  by (auto simp: selectionForHeader_def canonicalSelectionForHeader_def registryParentSnapshot_def
      split: option.splits if_splits prod.splits sum.splits dest!: registrySnapshotAt_same)

lemma verify_selection_same:
  assumes "verify_selection cr d l chain header n = (r, l')"
  shows "same_engine l l' \<or> (n = 1 \<and> \<not> registryProtocolEnabled l (h_Number header) \<and> l' = register_producer l (h_Coinbase header) 1)"
  using assms
  by (auto simp: verify_selection_def split: option.splits if_splits prod.splits sum.splits dest!: verify_registry_same selection_same)

section \<open>Accepted and rejected headers\<close>

lemma header_parent_Inr:
  assumes "header_parent chain header bp = Inr parent" "h_Number header = Some number" "number \<noteq> 0"
  shows "IsUint64 number" and "0 < number" and "h_Number parent = Some (number - 1)"
    and "(case bp of None \<Rightarrow> ch_GetHeader chain (h_ParentHash header) (big_Uint64 number - 1) = Some parent | Some p \<Rightarrow> parent = p)"
proof -
  from assms obtain k where k: "IsUint64 number" "h_Number parent = Some k" "IsUint64 k" "big_Uint64 number = big_Uint64 k + 1"
    by (auto simp: header_parent_def split: option.splits if_splits)
  then show "IsUint64 number" and pos: "0 < number" using assms(3) by (auto simp: IsUint64_def)
  have "uint (big_Uint64 k + 1) = (uint (big_Uint64 k) + 1) mod 2 ^ 64" by (simp add: uint_word_ariths)
  then have "number = (k + 1) mod 2 ^ 64" using k(4) big_Uint64_id [OF k(1)] big_Uint64_id [OF k(3)] by simp
  then have "number = k + 1" using k(3) pos by (cases "k + 1 = 2 ^ 64") (auto simp: IsUint64_def)
  then show "h_Number parent = Some (number - 1)" using k(2) by simp
  show "(case bp of None \<Rightarrow> ch_GetHeader chain (h_ParentHash header) (big_Uint64 number - 1) = Some parent | Some p \<Rightarrow> parent = p)"
    using assms by (auto simp: header_parent_def split: option.splits if_splits)
qed

lemma verifyHeaderAt_parent:
  "h_Number header \<noteq> Some 0 \<Longrightarrow> verifyHeaderAt cr d l chain (Some header) bp now =
     (case header_parent chain header bp of
        Inl err \<Rightarrow> (Some err, l)
      | Inr parent \<Rightarrow> verify_child cr d l chain parent header (case h_Number header of None \<Rightarrow> 0 | Some number \<Rightarrow> big_Uint64 number) now)"
  by (auto simp: verifyHeaderAt_def header_parent_def Let_def split: option.splits)

text \<open>The latest time a header may claim.\<close>

definition latest_time :: "LQC \<Rightarrow> int option \<Rightarrow> u64 \<Rightarrow> nat" where
  "latest_time l number now = min (unat now + unat (futureBlockTimeTolerance l number)) (2 ^ 64 - 1)"

lemma verify_fields_None:
  "verify_fields cr l chain parent header n now = None \<longleftrightarrow>
     unat (h_Time header) \<le> latest_time l (h_Number header) now \<and> h_Time parent < h_Time header
     \<and> \<not> (consensusFairnessActive l n \<and> \<not> isConsensusFairnessBlock l n \<and> recoveryOpenAt l (Some parent) (h_Time header)
           \<and> \<not> recoveryOpenAt l (Some parent) now)
     \<and> h_Difficulty header = Some 0 \<and> h_Nonce header = 0 \<and> h_MixDigest header = 0
     \<and> (\<exists>cc. ch_Config chain = Some cc \<and> verifyExecutionHeaderRules (Some cc) parent header = None
           \<and> VerifyProducerSeal cr (map_option int (cc_ChainID cc)) header = None)" (is "_ \<longleftrightarrow> ?r")
  and verify_fields_future:
  "latest_time l (h_Number header) now < unat (h_Time header) \<Longrightarrow> verify_fields cr l chain parent header n now = Some ErrFutureBlock"
proof -
  let ?t = "case checkedRegistryBlockAdd [now, futureBlockTimeTolerance l (h_Number header)] of None \<Rightarrow> maxU64 | Some t \<Rightarrow> t"
  have t: "unat ?t = latest_time l (h_Number header) now"
  proof (cases "unat now + unat (futureBlockTimeTolerance l (h_Number header)) < 2 ^ 64")
    case True
    then have "unat (now + futureBlockTimeTolerance l (h_Number header)) = unat now + unat (futureBlockTimeTolerance l (h_Number header))"
      by (simp add: unat_add_lem [THEN iffD1])
    then show ?thesis using True by (simp add: checkedRegistryBlockAdd_eq latest_time_def)
  next
    case False
    then show ?thesis by (simp add: checkedRegistryBlockAdd_eq latest_time_def unsigned_minus_1_eq_mask mask_eq_exp_minus_1)
  qed
  then have gt: "h_Time header > ?t \<longleftrightarrow> latest_time l (h_Number header) now < unat (h_Time header)" by (simp add: word_less_nat_alt)
  show "verify_fields cr l chain parent header n now = None \<longleftrightarrow> ?r"
    unfolding verify_fields_def Let_def gt by (auto simp: not_less not_le split: if_splits option.splits)
  show "latest_time l (h_Number header) now < unat (h_Time header) \<Longrightarrow> verify_fields cr l chain parent header n now = Some ErrFutureBlock"
    unfolding verify_fields_def Let_def gt by simp
qed

lemma isAuthorAllowedAt_pos: "isAuthorAllowedAt l n sel a = (True, pos) \<Longrightarrow> \<exists>k. pos = int k"
  by (auto simp: isAuthorAllowedAt_def IsAuthorAllowed_def IsAuthorAllowedBounded_def author_pos_True intro: exI [of _ "Suc n" for n] split: if_splits)

lemma verify_slot_None:
  assumes "verify_slot l parent header n now sel = None" "sel_Ordered sel \<noteq> []"
  shows "\<exists>k. isAuthorAllowedAt l n sel (h_Coinbase header) = (True, int k)
    \<and> (k < 2 ^ 64 \<longrightarrow> slot_time l (h_Time parent) k \<le> unat (h_Time header)
        \<and> (consensusFairnessActive l n \<longrightarrow> slot_time l (h_Time parent) k \<le> unat now))"
proof -
  from assms obtain pos m where p: "isAuthorAllowedAt l n sel (h_Coinbase header) = (True, pos)"
      and m: "minAllowedTimeChecked l (h_Time parent) pos = Inr m" "m \<le> h_Time header" "consensusFairnessActive l n \<longrightarrow> m \<le> now"
    by (auto simp: verify_slot_def not_less split: prod.splits if_splits sum.splits)
  from isAuthorAllowedAt_pos [OF p] obtain k where k: "pos = int k" by blast
  have "unat m = slot_time l (h_Time parent) k" if "k < 2 ^ 64"
    using m(1) min_time_eq [OF that, of l "h_Time parent"] k by (auto simp: unat_of_nat split: if_splits)
  then show ?thesis using p k m(2,3) by (auto simp: word_le_nat_alt)
qed

section \<open>A block that is accepted\<close>

definition sample_parent :: Header where
  "sample_parent = (sample_header 3 4 [])\<lparr>h_Time := 50, h_BaseFee := Some 8\<rparr>"

definition sample_child :: RegistrySnapshot where
  "sample_child = newRegistrySnapshot sample_crypto 5 (Header_Hash sample_crypto sample_block) sample_after"

lemma sample_block_fields:
  "h_Number sample_block = Some 5" "h_ParentHash sample_block = 11" "h_Coinbase sample_block = 3" "h_Time sample_block = 100"
  "h_Difficulty sample_block = Some 0" "h_Nonce sample_block = 0" "h_MixDigest sample_block = 0"
  by (simp_all add: sample_block_def sample_header_def)

lemma sample_setting [simp]: "setting f sample_engine = f sample_lqc_config"
  by (simp add: setting_def sample_engine_def LQC_New_def)

lemma sample_node_engine: "node sample_crypto d sample_chain sample_lqc_config sample_engine"
  using sample_engine_hypotheses by (simp add: node_def)

lemma sample_engine_rules: "registryRules sample_engine = sample_rules"
  by (simp add: registryRules_def sample_rules_def sample_lqc_config_def nonzero_or_def)

lemma sample_turn: "openActivationForHeader sample_engine sample_chain sample_block = False"
  by (simp add: openActivationForHeader_def sample_block_fields big_Uint64_def recoveryOpenAt_def recoveryTimeoutSeconds_def sample_lqc_config_def
      isConsensusStabilizationBlock_def isConsensusFairnessBlock_def)

lemma sample_chain_id: "registryChainID sample_chain = Inr 1"
  by (simp add: registryChainID_def sample_chain_def sample_chain_config_def)

lemma sample_execution: "verifyExecutionHeaderRules (Some sample_chain_config) sample_parent sample_block = None"
  unfolding verifyExecutionHeaderRules_None fork_rules_None VerifyEIP1559Header_None IsShanghai_def IsCancun_def IsPrague_def IsLondon_def
  by (simp add: sample_chain_config_def sample_parent_def sample_block_def sample_header_def isBlockForked_def isTimestampForked_def MaxGasLimit_def
      VerifyGaslimit_None CalcBaseFee_def IsLondon_def ElasticityMultiplier_def BaseFeeChangeDenominator_def Let_def)

lemma sample_fields: "verify_fields sample_crypto sample_engine sample_chain sample_parent sample_block 5 200 = None"
proof -
  have "VerifyProducerSeal sample_crypto (Some 1) sample_block = None"
    using sample_sealed [of 3 5 "registryHeaderMagic @ rlp_bytes (envelope_val sample_envelope)"]
    by (simp add: sample_block_def envelope_extra_def)
  then show ?thesis
    unfolding verify_fields_None using sample_execution
    by (simp add: sample_block_fields latest_time_def sample_chain_def sample_parent_def sample_chain_config_def
        recoveryOpenAt_def recoveryTimeoutSeconds_def sample_lqc_config_def)
qed

lemma sample_replay: "parent_replay sample_crypto d sample_engine sample_chain sample_lqc_config sample_block = Inr sample_snapshot"
proof -
  have "replay_snapshot sample_crypto d sample_engine sample_chain sample_lqc_config 4 11 = Inr sample_snapshot"
    by (subst replay_snapshot.simps) (simp add: sample_lqc_config_def sample_bootstrap_snapshot sample_snapshot_def)
  then show ?thesis
    by (simp add: parent_replay_def sample_block_fields registryProtocolEnabled_def big_Uint64_def, simp add: sample_lqc_config_def)
qed

lemma sample_selection:
  "\<exists>sel. canonicalSelection sample_crypto sample_engine sample_snapshot sample_block = Inr sel
     \<and> map hp_Address (sel_Ordered sel) = [3] \<and> sel_Committee sel = []"
proof -
  let ?q = "queue_candidate (zeroParticipant\<lparr>cp_Address := 3, cp_LastHeartbeat := 4, cp_Active := True\<rparr>)"
  have queue: "OrderedParticipantsForBlock sample_crypto (sample_bootstrap 4) (h_ParentHash sample_block) (big_Uint64 5)
      (sr_ActivationDelay sample_rules) (sr_HeartbeatWindow sample_rules) (sr_HeartbeatGrace sample_rules) = [?q]"
    using sample_queue by (simp add: big_Uint64_def sample_block_fields sample_rules_def)
  obtain sel where sel: "assign_roles ((hybridCfg sample_engine)\<lparr>hc_CommitteeSize := 32\<rparr>) [?q] = Some sel" "sel_Ordered sel = [?q]" "sel_Committee sel = []"
    by (simp add: assign_roles_def Let_def hybridCfg_def normalizeHybridConfig_def nonzero_or_def sample_lqc_config_def go_int_def)
  have "canonicalSelection sample_crypto sample_engine sample_snapshot sample_block = Inr sel"
    unfolding canonicalSelection_def sample_engine_rules Let_def sample_block_fields(1) option.case sample_snapshot_registry sum.case queue
    using sel by (simp add: sample_lqc_config_def ComputeCommitteeSizeWithBounds_def nonzero_or_def)
  then show ?thesis using sel(2,3) by (auto simp: queue_candidate_def)
qed

lemma sample_canonical_turn:
  "\<exists>sel l0. canonicalSelectionForHeader sample_crypto d sample_engine sample_chain sample_block = (Inr (sel, sample_snapshot), l0)
     \<and> same_engine sample_engine l0 \<and> map hp_Address (sel_Ordered sel) = [3] \<and> sel_Committee sel = []"
proof -
  obtain r l0 where r: "registryParentSnapshot sample_crypto d sample_engine sample_chain sample_block = (r, l0)"
    by (cases "registryParentSnapshot sample_crypto d sample_engine sample_chain sample_block")
  from parent_node [OF sample_world sample_node_engine r] sample_replay have "r = Inr sample_snapshot" "same_engine sample_engine l0" by simp_all
  then show ?thesis
    using r sample_selection engine_cong(6) [of l0 sample_engine] by (auto simp: canonicalSelectionForHeader_def same_engine_def)
qed

lemma sample_verdict:
  "\<exists>sel. registry_verdict sample_crypto sample_engine sample_chain sample_block (Inr sample_snapshot) = Inr (sel, sample_child)
     \<and> sel_Ordered sel \<noteq> [] \<and> isAuthorAllowedAt sample_engine 5 sel 3 = (True, 0)"
proof -
  obtain sel where sel: "canonicalSelection sample_crypto sample_engine sample_snapshot sample_block = Inr sel" "map hp_Address (sel_Ordered sel) = [3]"
    using sample_selection by (elim exE conjE)
  have "applyRegistryHeaderWithOpenActivation sample_crypto sample_engine sample_snapshot 1 sample_rules sample_block False = Inr sample_child"
    using sample_block_applied
    by (simp add: applyRegistryHeaderWithOpenActivation_def sample_block_fields big_Uint64_def sample_child_def ApplyHeader_def
        ApplyHeaderWithOpenActivation_def consensusCommitteeLivenessActive_def, simp add: sample_lqc_config_def)
  moreover have "isAuthorAllowedAt sample_engine 5 sel 3 = (True, 0)" "sel_Ordered sel \<noteq> []"
    using sel(2) by (auto simp: isAuthorAllowedAt_def consensusLivenessV3Active_def consensusLivenessV4Active_def consensusLivenessV5Active_def
        sample_lqc_config_def IsAuthorAllowed_def)
  ultimately show ?thesis
    using sel(1) sample_chain_id by (simp add: registry_verdict_def sample_engine_rules sample_turn)
qed

lemma sample_block_accepted:
  "fst (verifyHeaderAt sample_crypto d sample_engine sample_chain (Some sample_block) (Some sample_parent) 200) = None"
proof -
  obtain e l' where e: "verifyHeaderAt sample_crypto d sample_engine sample_chain (Some sample_block) (Some sample_parent) 200 = (e, l')"
    by (cases "verifyHeaderAt sample_crypto d sample_engine sample_chain (Some sample_block) (Some sample_parent) 200")
  have era: "in_era sample_lqc_config sample_block" by (simp add: in_era_def sample_block_fields sample_lqc_config_def)
  obtain sel where sel: "registry_verdict sample_crypto sample_engine sample_chain sample_block (Inr sample_snapshot) = Inr (sel, sample_child)"
      "sel_Ordered sel \<noteq> []" "isAuthorAllowedAt sample_engine 5 sel 3 = (True, 0)" using sample_verdict by blast
  have "verify_slot sample_engine sample_parent sample_block 5 200 sel = None"
    using sel(2,3) by (simp add: verify_slot_def sample_block_fields min_time_eq [of 0, simplified] slot_time_def sample_parent_def
        consensusFairnessActive_def targetBlockSeconds_def, simp add: sample_lqc_config_def)
  then have "child_verdict sample_crypto d sample_engine sample_chain sample_lqc_config sample_parent sample_block 5 200 = Inr sample_child"
    using sel(1) by (simp add: child_verdict_def sample_fields sample_replay)
  moreover have "header_parent sample_chain sample_block (Some sample_parent) = Inr sample_parent"
    by (simp add: header_parent_def sample_block_fields sample_parent_def sample_header_def IsUint64_def big_Uint64_def)
  ultimately show ?thesis
    using verify_header_node [OF sample_world sample_node_engine era e] e by (simp add: header_verdict_def sample_block_fields big_Uint64_def)
qed

section \<open>Properties\<close>

text \<open>Claim C2: what an accepted header satisfies, genesis aside. Its number is the parent's plus one with no wrap-around, and the parent is the one
  verified before it or the one the chain has under its parent hash; its time is after the parent's and at most the
  tolerance ahead of the receiver's clock; difficulty, nonce and mix digest are zero; the execution rules hold and the
  seal is the coinbase's signature for this chain; in the registry era the envelope leads to a registry snapshot, before it
  the extra data is the legacy one. Unless the selection is empty, the producer is allowed in it at some position and the header's time is not
  before the start of that slot, computed without overflow; once consensus fairness is active the receiver's clock has reached it too.\<close>

theorem verified_header:
  assumes "verifyHeaderAt cr decodes l chain (Some header) batchParent now = (None, l')" and "h_Number header \<noteq> Some 0"
  shows "\<exists>number parent cc sel snapshot l1. h_Number header = Some number \<and> 0 < number \<and> number < 2 ^ 64 \<and> h_Number parent = Some (number - 1)
    \<and> (case batchParent of None \<Rightarrow> ch_GetHeader chain (h_ParentHash header) (big_Uint64 number - 1) = Some parent | Some p \<Rightarrow> parent = p)
    \<and> h_Time parent < h_Time header \<and> unat (h_Time header) \<le> unat now + unat (futureBlockTimeTolerance l (Some number))
    \<and> h_Difficulty header = Some 0 \<and> h_Nonce header = 0 \<and> h_MixDigest header = 0
    \<and> ch_Config chain = Some cc \<and> verifyExecutionHeaderRules (Some cc) parent header = None
    \<and> VerifyProducerSeal cr (map_option int (cc_ChainID cc)) header = None
    \<and> verify_selection cr decodes l chain header (big_Uint64 number) = (Inr (sel, snapshot), l1)
    \<and> (if registryProtocolEnabled l (Some number) then snapshot \<noteq> None else snapshot = None \<and> verifyExtra header = None)
    \<and> (sel_Ordered sel = [] \<or> (\<exists>k. isAuthorAllowedAt l (big_Uint64 number) sel (h_Coinbase header) = (True, int k)
        \<and> (k < 2 ^ 64 \<longrightarrow> slot_time l (h_Time parent) k \<le> unat (h_Time header)
          \<and> (consensusFairnessActive l (big_Uint64 number) \<longrightarrow> slot_time l (h_Time parent) k \<le> unat now))))"
proof -
  from assms obtain parent where parent: "header_parent chain header batchParent = Inr parent"
    by (cases "header_parent chain header batchParent") (auto simp: verifyHeaderAt_parent)
  then obtain number where n: "h_Number header = Some number" by (auto simp: header_parent_def split: option.splits)
  note p = header_parent_Inr [OF parent n] assms(2) [unfolded n]
  have child: "verify_child cr decodes l chain parent header (big_Uint64 number) now = (None, l')"
    using assms parent n by (simp add: verifyHeaderAt_parent)
  then obtain sel snapshot l1 where f: "verify_fields cr l chain parent header (big_Uint64 number) now = None"
      and s: "verify_selection cr decodes l chain header (big_Uint64 number) = (Inr (sel, snapshot), l1)"
      and t: "verify_slot l1 parent header (big_Uint64 number) now sel = None"
    by (auto simp: verify_child_def split: option.splits prod.splits sum.splits)
  have "lq_config l1 = lq_config l"
    using verify_selection_same [OF s] by (auto simp: same_engine_def register_producer_def)
  then have t: "verify_slot l parent header (big_Uint64 number) now sel = None" using t engine_cong(3) by metis
  have "if registryProtocolEnabled l (Some number) then snapshot \<noteq> None else snapshot = None \<and> verifyExtra header = None"
    using s n by (auto simp: verify_selection_def split: if_splits option.splits prod.splits sum.splits)
  moreover have "number < 2 ^ 64" using p by (simp add: IsUint64_def)
  ultimately show ?thesis
    using n p f [unfolded verify_fields_None n] s verify_slot_None [OF t] unfolding latest_time_def by (auto intro!: exI [of _ parent])
qed

theorem verified_header_witness:
  "\<exists>number sel snapshot l1. h_Number sample_block = Some number \<and> h_Number sample_parent = Some (number - 1)
     \<and> h_Time sample_parent < h_Time sample_block \<and> unat (h_Time sample_block) \<le> 200 + 30
     \<and> verify_selection sample_crypto (\<lambda>_. True) sample_engine sample_chain sample_block (big_Uint64 number) = (Inr (sel, snapshot), l1)
     \<and> snapshot \<noteq> None"
proof -
  obtain l' where a: "verifyHeaderAt sample_crypto (\<lambda>_. True) sample_engine sample_chain (Some sample_block) (Some sample_parent) 200 = (None, l')"
    using sample_block_accepted [of "\<lambda>_. True"] by (metis prod.collapse)
  have era: "registryProtocolEnabled sample_engine (Some 5)"
    by (simp add: registryProtocolEnabled_def big_Uint64_def sample_lqc_config_def)
  show ?thesis using verified_header [OF a] era by (simp add: sample_block_fields) blast
qed

text \<open>Claim C22: what a rejected header leaves behind. Nothing but the snapshot caches changes, with one exception: before the registry era a
  rejected block 1 may have put its coinbase into the runtime registry. A header that follows its parent but is further ahead of the clock than the
  tolerance is always reported as a future block and changes nothing at all, whatever else is wrong with it.\<close>

theorem rejected_header:
  assumes "verifyHeaderAt cr decodes l chain (Some header) batchParent now = (Some err, l')"
  shows "(same_engine l l' \<or> (\<exists>number. h_Number header = Some number \<and> big_Uint64 number = 1 \<and> \<not> registryProtocolEnabled l (Some number)
        \<and> l' = register_producer l (h_Coinbase header) 1))
    \<and> (\<forall>parent. header_parent chain header batchParent = Inr parent \<and> latest_time l (h_Number header) now < unat (h_Time header)
        \<longrightarrow> err = ErrFutureBlock \<and> l' = l)"
proof -
  let ?n = "case h_Number header of None \<Rightarrow> 0 | Some number \<Rightarrow> big_Uint64 number"
  have nz: "h_Number header \<noteq> Some 0" using assms by (auto simp: verifyHeaderAt_def IsUint64_def)
  show ?thesis
  proof (cases "header_parent chain header batchParent")
    case (Inl e)
    then show ?thesis using assms nz by (auto simp: verifyHeaderAt_parent)
  next
    case (Inr parent)
    then have child: "verify_child cr decodes l chain parent header ?n now = (Some err, l')" using assms nz by (simp add: verifyHeaderAt_parent)
    obtain number where n: "h_Number header = Some number" using Inr by (auto simp: header_parent_def split: option.splits)
    have "same_engine l l' \<or> (?n = 1 \<and> \<not> registryProtocolEnabled l (h_Number header) \<and> l' = register_producer l (h_Coinbase header) 1)"
      using child by (auto simp: verify_child_def Let_def split: option.splits prod.splits sum.splits dest: verify_selection_same)
    moreover have "err = ErrFutureBlock \<and> l' = l" if "latest_time l (h_Number header) now < unat (h_Time header)"
      using child verify_fields_future [OF that] by (simp add: verify_child_def)
    ultimately show ?thesis using Inr n by auto
  qed
qed

theorem rejected_header_witness:
  "fst (verifyHeaderAt sample_crypto (\<lambda>_. True) sample_engine sample_chain (Some sample_block) (Some sample_parent) 60) = Some ErrFutureBlock
   \<and> snd (verifyHeaderAt sample_crypto (\<lambda>_. True) sample_engine sample_chain (Some sample_block) (Some sample_parent) 60) = sample_engine"
proof -
  have p: "header_parent sample_chain sample_block (Some sample_parent) = Inr sample_parent"
    by (simp add: header_parent_def sample_block_fields sample_parent_def sample_header_def IsUint64_def big_Uint64_def)
  have t: "latest_time sample_engine (h_Number sample_block) 60 < unat (h_Time sample_block)"
    by (simp add: latest_time_def sample_block_fields futureBlockTimeTolerance_def sample_lqc_config_def legacyAllowedFutureBlockTimeSeconds_def)
  have "fst (verifyHeaderAt sample_crypto (\<lambda>_. True) sample_engine sample_chain (Some sample_block) (Some sample_parent) 60) \<noteq> None"
    using verify_fields_future [OF t] p by (simp add: verifyHeaderAt_parent verify_child_def sample_block_fields)
  then obtain err l' where "verifyHeaderAt sample_crypto (\<lambda>_. True) sample_engine sample_chain (Some sample_block) (Some sample_parent) 60 = (Some err, l')"
    by (metis not_None_eq prod.collapse)
  with rejected_header [OF this] p t show ?thesis by auto
qed

text \<open>Claim C23: slot times. The earliest time of queue position \<open>k\<close> is the parent's time plus the target block time plus \<open>k\<close> fallback windows,
  as natural numbers: the checked version returns exactly that or the overflow error when it does not fit 64 bits, the unchecked
  version saturates at the largest time. Later positions never come earlier, and strictly later as long as times fit.\<close>

theorem slot_times:
  assumes "k < 2 ^ 64" and "j < k"
  shows "minAllowedTimeChecked l t (int k) =
      (if slot_time l t k < 2 ^ 64 then Inr (of_nat (slot_time l t k)) else Inl errBlockTimeOverflow)
    \<and> unat (minAllowedTime l t (int k)) = min (slot_time l t k) (2 ^ 64 - 1)
    \<and> minAllowedTime l t (int j) \<le> minAllowedTime l t (int k)
    \<and> (slot_time l t k < 2 ^ 64 \<longrightarrow> t < minAllowedTime l t (int j) \<and> minAllowedTime l t (int j) < minAllowedTime l t (int k))"
proof -
  have sat: "unat (minAllowedTime l t (int i)) = min (slot_time l t i) (2 ^ 64 - 1)" if "i < 2 ^ 64" for i
    using min_time_eq [OF that, of l t]
    by (simp add: minAllowedTime_def unat_of_nat unsigned_minus_1_eq_mask mask_eq_exp_minus_1 split: if_splits)
  have j: "j < 2 ^ 64" using assms by simp
  have "slot_time l t j < slot_time l t k" using assms(2) seconds_pos(2) [of l] by (simp add: slot_time_def)
  moreover have "unat t < slot_time l t j" using seconds_pos(1) [of l] by (simp add: slot_time_def)
  ultimately show ?thesis
    using min_time_eq [OF assms(1), of l t] sat [OF j] sat [OF assms(1)] by (simp add: word_le_nat_alt word_less_nat_alt)
qed

theorem slot_times_witness:
  "minAllowedTimeChecked sample_engine 50 2 = Inr 75 \<and> minAllowedTimeChecked sample_engine maxU64 2 = Inl errBlockTimeOverflow"
  using slot_times [of 2 1 sample_engine 50] slot_times [of 2 1 sample_engine maxU64]
  by (simp add: slot_time_def targetBlockSeconds_def fallbackWindowSeconds_def sample_lqc_config_def unsigned_minus_1_eq_mask mask_eq_exp_minus_1)

end
