(* ===== verification/Engine_Prepare.thy ===== *)
theory Engine_Prepare
  imports Engine_Accept "HOL-Library.Sublist"
begin

text \<open>
  The producer's side: the registry envelope that \<open>prepareCanonicalRegistryExtra\<close> builds from the parent's registry and the
  operation pool passes \<open>verifyCanonicalRegistryHeader\<close> with any seal.
\<close>

section \<open>Collecting operations\<close>

lemma collect_Inr:
  assumes "collect_operations cr l chain n pending r ops = Inr (r', ops')"
  shows "\<exists>new. ops' = ops @ new \<and> subseq new pending \<and> (length ops \<le> max_operations l n \<longrightarrow> length ops' \<le> max_operations l n)
    \<and> (\<forall>chainID. registryChainID chain = Inr chainID \<longrightarrow> apply_operations cr chainID n (sr_ProofDifficulty (registryRules l)) new r = Inr r')"
  using assms
proof (induction pending arbitrary: r ops)
  case (Cons operation rest)
  show ?case
  proof (cases "length ops \<ge> max_operations l n")
    case True
    then show ?thesis using Cons.prems by (auto simp: apply_operations_def)
  next
    case False
    then obtain chainID where c: "registryChainID chain = Inr chainID" using Cons.prems by (auto split: sum.splits)
    show ?thesis
    proof (cases "ApplyOperation cr chainID n (sr_ProofDifficulty (registryRules l)) operation r")
      case (Inl err)
      then have "collect_operations cr l chain n rest r ops = Inr (r', ops')" using Cons.prems False c by simp
      from Cons.IH [OF this] show ?thesis using False by auto
    next
      case (Inr s)
      then have "collect_operations cr l chain n rest s (ops @ [operation]) = Inr (r', ops')" using Cons.prems False c by simp
      from Cons.IH [OF this] obtain new where "ops' = ops @ [operation] @ new" "subseq new rest" "length (ops @ [operation]) \<le> max_operations l n \<longrightarrow> length ops' \<le> max_operations l n"
          "apply_operations cr chainID n (sr_ProofDifficulty (registryRules l)) new s = Inr r'" using c by auto
      then show ?thesis using Inr False c by (intro exI [of _ "operation # new"]) (auto simp: apply_operations_def)
    qed
  qed
qed (auto simp: apply_operations_def)

lemma apply_operations_valid:
  "apply_operations cr chainID n d ops r = Inr r' \<Longrightarrow> \<forall>op \<in> set ops. ValidateRegistryOperation cr chainID n d op = None"
  by (induction ops arbitrary: r) (auto simp: apply_operations_def ApplyOperation_def split: sum.splits option.splits)

lemma sorted_subseq: "subseq xs ys \<Longrightarrow> sorted (map f ys) \<Longrightarrow> sorted (map f xs)"
  by (induction rule: list_emb.induct) (auto dest: list_emb_set)

text \<open>A part of the pending operations is already in canonical order.\<close>

lemma canonical_part: "subseq new (Pool_Pending p n) \<Longrightarrow> CanonicalRegistryOperations new = new"
  unfolding Pool_Pending_def CanonicalRegistryOperations_def by (rule sort_key_sorted) (auto elim: sorted_subseq)

section \<open>The envelope\<close>

lemma seal_envelope_Inr:
  assumes "seal_envelope cr l chain header n r sel = (Inr (sel', header'), l')" "registryChainID chain = Inr chainID"
  obtains e r' where "sel' = sel" "same_engine l (l'\<lparr>lq_registryPool := lq_registryPool l\<rparr>)" "lq_registryCache l' = lq_registryCache l" "lq_db l' = lq_db l"
    "header' = header\<lparr>h_Extra := envelope_extra e (replicate ProducerSealLength 0)\<rparr>"
    "\<And>seal. length seal = ProducerSealLength \<Longrightarrow> DecodeRegistryHeaderExtra (envelope_extra e seal) = Inr e"
    "env_BlockNumber e = n" "env_RegistryRoot e = Root cr r'" "length (env_Operations e) \<le> max_operations l n"
    "apply_operations cr chainID n (sr_ProofDifficulty (registryRules l)) (env_Operations e) r = Inr r'"
proof -
  let ?l = "l\<lparr>lq_registryPool := Pool_PruneExpired n (lq_registryPool l)\<rparr>"
  from assms(1) obtain r' ops extra where c: "collect_operations cr ?l chain n (Pool_Pending (lq_registryPool ?l) n) r [] = Inr (r', ops)"
      and x: "EncodeRegistryHeaderExtra n (Root cr r') ops = Inr extra" and eq: "sel' = sel" "header' = header\<lparr>h_Extra := extra\<rparr>" "l' = ?l"
    by (auto simp: seal_envelope_def Let_def split: sum.splits)
  have cfg: "registryRules ?l = registryRules l" "max_operations ?l n = max_operations l n"
    by (simp_all add: registryRules_def max_operations_def consensusLivenessV3Active_def setting_def)
  from collect_Inr [OF c] assms(2) have ops: "subseq ops (Pool_Pending (lq_registryPool ?l) n)" "length ops \<le> max_operations l n"
      "apply_operations cr chainID n (sr_ProofDifficulty (registryRules l)) ops r = Inr r'" by (auto simp: cfg)
  let ?e = "\<lparr>env_Version = RegistryHeaderEnvelopeVersion, env_BlockNumber = n, env_RegistryRoot = Root cr r', env_Operations = CanonicalRegistryOperations ops\<rparr>"
  note e = EncodeRegistryHeaderExtra_Inr [OF x]
  have "DecodeRegistryHeaderExtra (envelope_extra ?e seal) = Inr ?e" if "length seal = ProducerSealLength" for seal
    using e that by (auto simp: DecodeRegistryHeaderExtra_iff envelope_extra_def)
  then show thesis
    using eq e(2) ops(2,3) canonical_part [OF ops(1)] by (intro that [of ?e r']) (auto simp: same_engine_def)
qed

text \<open>Verification finishes on such an envelope where preparation did.\<close>

lemma envelope_verified:
  assumes "\<And>seal. length seal = ProducerSealLength \<Longrightarrow> DecodeRegistryHeaderExtra (envelope_extra e seal) = Inr e"
    and "env_BlockNumber e = n" "env_RegistryRoot e = Root cr r'" "length seal = ProducerSealLength"
    and "apply_operations cr chainID n (sr_ProofDifficulty rules) (env_Operations e) r = Inr r'"
  shows "ValidateRegistryHeaderExtra cr chainID n (sr_ProofDifficulty rules) (envelope_extra e seal) = Inr e"
    and "finish_snapshot cr chainID rules header n e r = Inr (newRegistrySnapshot cr n (Header_Hash cr header) r')"
  using assms(1) [OF assms(4)] assms(2,3,5) apply_operations_valid [OF assms(5)]
  by (auto simp: ValidateRegistryHeaderExtra_def finish_snapshot_def first_err_None_iff split: option.split)

section \<open>Prepared headers verify\<close>

definition resealed :: "Header \<Rightarrow> RegistryHeaderEnvelope \<Rightarrow> bytes \<Rightarrow> Header" where
  "resealed header e seal = header\<lparr>h_Extra := envelope_extra e seal\<rparr>"

lemma resealed_simps [simp]:
  "h_Number (resealed header e seal) = h_Number header" "h_ParentHash (resealed header e seal) = h_ParentHash header"
  "h_Coinbase (resealed header e seal) = h_Coinbase header" "h_Time (resealed header e seal) = h_Time header"
  "h_Extra (resealed header e seal) = envelope_extra e seal"
  by (simp_all add: resealed_def)

lemma resealed_same:
  "openActivationForHeader l chain (resealed header e seal) = openActivationForHeader l chain header"
  "canonicalSelection cr l p (resealed header e seal) = canonicalSelection cr l p header"
  "parent_replay cr d l chain config (resealed header e seal) = parent_replay cr d l chain config header"
  unfolding openActivationForHeader_def canonicalSelection_def parent_replay_def resealed_simps by (rule refl)+

lemma canonicalSelection_Inr:
  assumes "canonicalSelection cr l p header = Inr sel" "h_Number header = Some number"
  obtains r where "Snapshot_Registry cr p = Inr r"
    "sel_Ordered sel = block_queue cr r (registryRules l) (h_ParentHash header) (big_Uint64 number)"
proof -
  from assms obtain r where r: "Snapshot_Registry cr p = Inr r" by (auto simp: canonicalSelection_def split: sum.splits)
  have ordered: "assign_roles cfg ordered = Some sel \<Longrightarrow> sel_Ordered sel = ordered" for cfg ordered
    by (auto simp: assign_roles_def Let_def split: if_splits option.splits)
  from assms r have "sel_Ordered sel = block_queue cr r (registryRules l) (h_ParentHash header) (big_Uint64 number)"
    by (auto simp: canonicalSelection_def Let_def block_queue_def dest!: ordered split: option.splits)
  with r that show thesis by blast
qed

text \<open>The registry that preparation starts collecting from, and that verification reaches before the operations.\<close>

definition turn_registry ::
  "crypto \<Rightarrow> LQC \<Rightarrow> bool \<Rightarrow> Header \<Rightarrow> u64 \<Rightarrow> CanonicalRegistry \<Rightarrow> registry_error + CanonicalRegistry" where
  "turn_registry cr l openActivation header n r =
     (if openActivation then
        if consensusCommitteeLivenessActive l n then RecoverPermissionlessProducer r (h_Coinbase header) n
        else ActivatePermissionlessProducer NewCanonicalRegistry (h_Coinbase header) n
      else
        let ordered = block_queue cr r (registryRules l) (h_ParentHash header) n; (allowed, pos) = author_pos ordered (h_Coinbase header) 0 in
        if \<not> allowed then Inl ErrUnauthorizedRegistryProducer
        else case missed_turns n (sr_MaxMissedTurns (registryRules l)) (sr_JailBlocks (registryRules l)) (take (nat pos) ordered) r of
          Inl err \<Rightarrow> Inl err
        | Inr r1 \<Rightarrow> MarkProducerHeartbeat r1 (h_Coinbase header) n)"

lemma turn_registry_resealed: "turn_registry cr l op (resealed header e seal) n r = turn_registry cr l op header n r"
  unfolding turn_registry_def resealed_simps by (rule refl)

lemma apply_sealed:
  assumes p: "Snapshot_Registry cr p = Inr r" "h_Number header = Some number" "rs_Number p \<noteq> maxU64" "big_Uint64 number = rs_Number p + 1"
      "h_ParentHash header = rs_Hash p" "sr_ProofDifficulty (registryRules l) \<noteq> 0" "h_Coinbase header \<noteq> 0"
    and turn: "turn_registry cr l openActivation header (big_Uint64 number) r = Inr r1"
    and v: "ValidateRegistryHeaderExtra cr chainID (big_Uint64 number) (sr_ProofDifficulty (registryRules l)) (h_Extra header) = Inr e"
    and f: "finish_snapshot cr chainID (registryRules l) header (big_Uint64 number) e r1 = Inr s"
  shows "applyRegistryHeaderWithOpenActivation cr l p chainID (registryRules l) header openActivation = Inr s"
  using assms
  by (auto simp: applyRegistryHeaderWithOpenActivation_def applyHeaderWithOpenActivation_def turn_registry_def Let_def
      IsAuthorAllowed_def block_queue_def split: if_splits prod.splits sum.splits)

lemma prepared_turn:
  assumes "world cr chain config" "node cr d chain config l" "canonicalSelectionForHeader cr d l chain header = (Inr (sel0, p), l0)"
    and "prepareCanonicalRegistryExtra cr d l chain header = (Inr (sel, header'), l')" "h_Number header = Some number"
    and r: "Snapshot_Registry cr p = Inr r" "sel_Ordered sel0 = block_queue cr r (registryRules l) (h_ParentHash header) (big_Uint64 number)"
  shows "\<exists>l1 r1. seal_envelope cr l1 chain header (big_Uint64 number) r1 sel = (Inr (sel, header'), l')
    \<and> turn_registry cr l (openActivationForHeader l chain header) header (big_Uint64 number) r = Inr r1
    \<and> node cr d chain config l1 \<and> same_engine l l1 \<and> h_Coinbase header \<noteq> 0
    \<and> sel = (if openActivationForHeader l chain header then activation_selection (big_Uint64 number) (h_Coinbase header) empty_selection else sel0)"
proof -
  obtain pr lp where pr: "registryParentSnapshot cr d l chain header = (pr, lp)" by (cases "registryParentSnapshot cr d l chain header")
  note lp = parent_node [OF assms(1,2) pr]
  have p: "pr = Inr p" "l0 = lp" using assms(3) pr by (auto simp: canonicalSelectionForHeader_def split: sum.splits)
  have rules: "registryRules lp = registryRules l"
    using lp by (simp add: registryRules_def setting_def same_engine_def)
  have sel: "seal_envelope cr l1 chain header n r1 sel1 = (Inr (sel, header'), l') \<Longrightarrow> sel1 = sel" for l1 n r1 sel1
    by (auto simp: seal_envelope_def Let_def split: sum.splits)
  have nz: "h_Coinbase header \<noteq> 0" if "author_pos (block_queue cr r rl h n) (h_Coinbase header) 0 = (True, k)" for rl h n k
    using that author_pos_mem [of "block_queue cr r rl h n" "h_Coinbase header" 0] Snapshot_Registry_Inr(1) [OF r(1)]
      ordered_active registry_wf_def by (auto simp: block_queue_def) (metis (no_types, opaque_lifting))
  show ?thesis
  proof (cases "openActivationForHeader l chain header")
    case True
    then have "prepare_open cr d l chain header (big_Uint64 number) = (Inr (sel, header'), l')"
      using assms(4,5) by (simp add: prepareCanonicalRegistryExtra_def)
    then obtain l1 r1 where "seal_envelope cr l1 chain header (big_Uint64 number) r1
          (activation_selection (big_Uint64 number) (h_Coinbase header) empty_selection) = (Inr (sel, header'), l')"
        "l1 = l \<or> l1 = lp" "h_Coinbase header \<noteq> 0"
        "turn_registry cr l True header (big_Uint64 number) r = Inr r1"
      using lp p r(1) pr by (auto simp: prepare_open_def turn_registry_def Let_def split: if_splits sum.splits)
    with True assms(2) lp sel [OF this(1)] show ?thesis by auto
  next
    case False
    then have "prepare_turn cr d l chain header (big_Uint64 number) = (Inr (sel, header'), l')"
      using assms(4,5) by (simp add: prepareCanonicalRegistryExtra_def)
    then obtain r1 where "seal_envelope cr lp chain header (big_Uint64 number) r1 sel0 = (Inr (sel, header'), l')" "h_Coinbase header \<noteq> 0"
        "turn_registry cr l False header (big_Uint64 number) r = Inr r1"
      using assms(3) p r rules nz
      by (auto simp: prepare_turn_def turn_registry_def Let_def IsAuthorAllowed_def split: if_splits sum.splits prod.splits)
    with False lp sel [OF this(1)] show ?thesis by auto
  qed
qed

lemma prepared_verdict:
  assumes w: "world cr chain config" and node: "node cr d chain config l"
    and sel0: "canonicalSelectionForHeader cr d l chain header = (Inr (sel0, p), l0)"
    and prep: "prepareCanonicalRegistryExtra cr d l chain header = (Inr (sel, header'), l')"
    and c: "registryChainID chain = Inr chainID" and diff: "setting lc_ProofDifficulty l \<noteq> 0"
  obtains e r' number where "node cr d chain config l'" "header' = resealed header e (replicate ProducerSealLength 0)"
    "h_Number header = Some number" "length (header_operations header') \<le> max_operations l (big_Uint64 number)"
    "\<And>seal. length seal = ProducerSealLength \<Longrightarrow>
       registry_verdict cr l chain (resealed header e seal) (parent_replay cr d l chain config header)
         = Inr (sel, newRegistrySnapshot cr (big_Uint64 number) (Header_Hash cr (resealed header e seal)) r')"
proof -
  obtain pr lp where pr: "registryParentSnapshot cr d l chain header = (pr, lp)" by (cases "registryParentSnapshot cr d l chain header")
  note lp = parent_node [OF w node pr]
  then have "lq_config lp = lq_config l" by (simp add: same_engine_def)
  then have p: "parent_replay cr d l chain config header = Inr p" and cs: "canonicalSelection cr l p header = Inr sel0"
    using sel0 pr lp engine_cong(6) [of lp l] by (auto simp: canonicalSelectionForHeader_def split: sum.splits)
  from p obtain number where n: "h_Number header = Some number" and en: "registryProtocolEnabled l (Some number)"
      and rep: "replay_snapshot cr d l chain config (big_Uint64 number - 1) (h_ParentHash header) = Inr p"
    by (auto simp: parent_replay_def split: option.splits if_splits)
  have f: "rs_Number p = big_Uint64 number - 1" "rs_Hash p = h_ParentHash header" using replay_fields [OF _ rep] w by (auto simp: world_def)
  have "big_Uint64 number \<noteq> 0" using en by (auto simp: registryProtocolEnabled_def)
  then have f1: "rs_Number p \<noteq> maxU64" "big_Uint64 number = rs_Number p + 1" using f(1) by auto
  obtain r where r: "Snapshot_Registry cr p = Inr r" "sel_Ordered sel0 = block_queue cr r (registryRules l) (h_ParentHash header) (big_Uint64 number)"
    by (rule canonicalSelection_Inr [OF cs n])
  from prepared_turn [OF w node sel0 prep n r] obtain l1 r1
    where seal: "seal_envelope cr l1 chain header (big_Uint64 number) r1 sel = (Inr (sel, header'), l')"
      and turn: "turn_registry cr l (openActivationForHeader l chain header) header (big_Uint64 number) r = Inr r1"
      and l1: "node cr d chain config l1" "same_engine l l1" and nz: "h_Coinbase header \<noteq> 0"
      and sel: "sel = (if openActivationForHeader l chain header then activation_selection (big_Uint64 number) (h_Coinbase header) empty_selection else sel0)"
    by blast
  have rules: "registryRules l1 = registryRules l" "max_operations l1 n = max_operations l n" for n
    using l1(2) by (simp_all add: registryRules_def max_operations_def consensusLivenessV3Active_def setting_def same_engine_def)
  obtain e r' where e: "same_engine l1 (l'\<lparr>lq_registryPool := lq_registryPool l1\<rparr>)"
      "lq_registryCache l' = lq_registryCache l1" "lq_db l' = lq_db l1" "header' = header\<lparr>h_Extra := envelope_extra e (replicate ProducerSealLength 0)\<rparr>"
      "length (env_Operations e) \<le> max_operations l1 (big_Uint64 number)"
    and d: "\<And>seal. length seal = ProducerSealLength \<Longrightarrow> DecodeRegistryHeaderExtra (envelope_extra e seal) = Inr e"
      "env_BlockNumber e = big_Uint64 number" "env_RegistryRoot e = Root cr r'"
      "apply_operations cr chainID (big_Uint64 number) (sr_ProofDifficulty (registryRules l1)) (env_Operations e) r1 = Inr r'"
    by (rule seal_envelope_Inr [OF seal c]) (rule that, assumption+)
  note e = e [unfolded rules] and d = d [unfolded rules]
  have cfg: "lq_config l' = lq_config l1" using e(1) by (simp add: same_engine_def)
  have nd: "node cr d chain config l'"
    using l1(1) e(2,3) cfg replay_cong [OF cfg] by (simp add: node_def cache_sound_def)
  have verdict: "registry_verdict cr l chain (resealed header e s) (parent_replay cr d l chain config header)
      = Inr (sel, newRegistrySnapshot cr (big_Uint64 number) (Header_Hash cr (resealed header e s)) r')" if s: "length s = ProducerSealLength" for s
  proof -
    note v = envelope_verified [OF d(1) d(2,3) s d(4)]
    have "applyRegistryHeaderWithOpenActivation cr l p chainID (registryRules l) (resealed header e s) (openActivationForHeader l chain header)
        = Inr (newRegistrySnapshot cr (big_Uint64 number) (Header_Hash cr (resealed header e s)) r')"
    proof (rule apply_sealed [OF r(1) _ f1 _ _ _ _ _ v(2)])
      show "turn_registry cr l (openActivationForHeader l chain header) (resealed header e s) (big_Uint64 number) r = Inr r1"
        using turn by (simp add: turn_registry_resealed)
    qed (use n f(2) diff nz v(1) in \<open>simp_all add: registryRules_def\<close>)
    then show ?thesis using cs c sel n by (simp add: registry_verdict_def p resealed_same)
  qed
  have "header_operations header' = env_Operations e" using e(4) d(1) by (simp add: header_operations_def)
  then have "length (header_operations header') \<le> max_operations l (big_Uint64 number)" using e(5) by simp
  from that [OF nd e(4) [folded resealed_def] n this verdict] show thesis .
qed

section \<open>Properties\<close>

text \<open>Claim C3: a prepared registry envelope verifies. On a node whose caches are sound, if the parent's selection can be derived, the chain has an
  identifier and registration needs a proof of work, then what \<open>prepareCanonicalRegistryExtra\<close> builds, sealed with any 65 bytes, passes
  \<open>verifyCanonicalRegistryHeader\<close> on the same chain, for ordinary turns, activation and recovery, and with the same selection; it changes the
  extra data only, carries at most the allowed number of operations, and the node's caches stay sound.\<close>

theorem prepared_envelope_verifies:
  assumes "world cr chain config" and "node cr decodes chain config l"
    and "canonicalSelectionForHeader cr decodes l chain header = (Inr (sel0, parent), l0)"
    and "prepareCanonicalRegistryExtra cr decodes l chain header = (Inr (sel, header'), l')"
    and "registryChainID chain = Inr chainID" and "setting lc_ProofDifficulty l \<noteq> 0" and "length seal = ProducerSealLength"
  shows "node cr decodes chain config l'
    \<and> (\<exists>payload number s. h_Extra header' = payload @ replicate ProducerSealLength 0 \<and> header' = header\<lparr>h_Extra := h_Extra header'\<rparr>
        \<and> h_Number header = Some number \<and> length (header_operations header') \<le> max_operations l (big_Uint64 number)
        \<and> fst (verifyCanonicalRegistryHeader cr decodes l' chain (header\<lparr>h_Extra := payload @ seal\<rparr>)) = Inr (sel, s)
        \<and> rs_Number s = big_Uint64 number \<and> rs_Hash s = Header_Hash cr (header\<lparr>h_Extra := payload @ seal\<rparr>))"
proof -
  obtain e r' number where e: "node cr decodes chain config l'" "header' = resealed header e (replicate ProducerSealLength 0)"
    "h_Number header = Some number" "length (header_operations header') \<le> max_operations l (big_Uint64 number)"
    "\<And>seal. length seal = ProducerSealLength \<Longrightarrow>
       registry_verdict cr l chain (resealed header e seal) (parent_replay cr decodes l chain config header)
         = Inr (sel, newRegistrySnapshot cr (big_Uint64 number) (Header_Hash cr (resealed header e seal)) r')"
    by (rule prepared_verdict [OF assms(1-6)]) blast
  let ?h = "resealed header e seal"
  obtain r l'' where v: "verifyCanonicalRegistryHeader cr decodes l' chain ?h = (r, l'')" by (cases "verifyCanonicalRegistryHeader cr decodes l' chain ?h")
  have cfg: "lq_config l' = lq_config l" using assms(2) e(1) by (simp add: node_def)
  have "r = Inr (sel, newRegistrySnapshot cr (big_Uint64 number) (Header_Hash cr ?h) r')"
    using verify_registry_node [OF assms(1) e(1) v] e(5) [OF assms(7)] engine_cong(1,2) [OF cfg] by (simp add: resealed_same)
  then show ?thesis
    using e(1-4) v by (intro conjI exI [of _ "registryHeaderMagic @ rlp_bytes (envelope_val e)"]) (auto simp: resealed_def envelope_extra_def newRegistrySnapshot_def)
qed

lemma sample_prepared:
  "\<exists>sel0 l0 sel header' l'. canonicalSelectionForHeader sample_crypto d sample_engine sample_chain sample_block = (Inr (sel0, sample_snapshot), l0)
     \<and> prepareCanonicalRegistryExtra sample_crypto d sample_engine sample_chain sample_block = (Inr (sel, header'), l')"
proof -
  let ?e = "\<lparr>env_Version = RegistryHeaderEnvelopeVersion, env_BlockNumber = 5, env_RegistryRoot = Root sample_crypto (sample_bootstrap 5), env_Operations = []\<rparr>"
  obtain sel l0 where sel0: "canonicalSelectionForHeader sample_crypto d sample_engine sample_chain sample_block = (Inr (sel, sample_snapshot), l0)"
      and l0: "same_engine sample_engine l0" and sel: "map hp_Address (sel_Ordered sel) = [3]" using sample_canonical_turn [of d] by (elim exE conjE)
  have pool: "lq_registryPool l0 = lq_registryPool sample_engine" using l0 by (simp add: same_engine_def)
  have n: "big_Uint64 5 = 5" by (simp add: big_Uint64_def)
  have allowed: "IsAuthorAllowed sel 3 = (True, 0)" using sel by (auto simp: IsAuthorAllowed_def)
  have hb: "MarkProducerHeartbeat (sample_bootstrap 4) 3 5 = Inr (sample_bootstrap 5)"
    by (simp add: MarkProducerHeartbeat_def sample_bootstrap_def zeroParticipant_def)
  have "vsize (envelope_val ?e) \<le> 300" by (simp add: envelope_val_def)
  then have "length (rlp_bytes (envelope_val ?e)) \<le> 300" by (rule length_rlp_bound) simp
  moreover have "length registryHeaderMagic \<le> 100" by (simp add: registryHeaderMagic_def ascii_def)
  ultimately have "length (envelope_extra ?e (replicate ProducerSealLength 0)) \<le> MaxRegistryHeaderExtraSize"
    by (simp add: envelope_extra_def MaxRegistryHeaderExtraSize_def ProducerSealLength_eq)
  from EncodeRegistryHeaderExtra_eq [OF _ _ this]
  have enc: "EncodeRegistryHeaderExtra 5 (Root sample_crypto (sample_bootstrap 5)) [] = Inr (envelope_extra ?e (replicate ProducerSealLength 0))"
    by (simp add: envelope_ok_def CanonicalRegistryOperations_def validateRegistryHeaderOperations_def MaxRegistryOperationsPerBlock_def)
  have "Pool_Pending (Pool_PruneExpired 5 (lq_registryPool sample_engine)) 5 = []"
    by (simp add: sample_engine_def LQC_New_def NewRegistryOperationPool_def Pool_PruneExpired_def Pool_Pending_def
        CanonicalRegistryOperations_def fmkeys_def fmvals_def)
  then have "seal_envelope sample_crypto l0 sample_chain sample_block 5 (sample_bootstrap 5) sel =
      (Inr (sel, sample_block\<lparr>h_Extra := envelope_extra ?e (replicate ProducerSealLength 0)\<rparr>), l0\<lparr>lq_registryPool := Pool_PruneExpired 5 (lq_registryPool l0)\<rparr>)"
    using enc by (simp add: seal_envelope_def Let_def pool)
  then show ?thesis
    using sel0 allowed hb sample_snapshot_registry
    by (simp add: prepareCanonicalRegistryExtra_def prepare_turn_def sample_turn sample_block_fields n missed_turns_def)
qed

theorem prepared_envelope_verifies_witness:
  "\<exists>sel header' l' payload s. prepareCanonicalRegistryExtra sample_crypto (\<lambda>_. True) sample_engine sample_chain sample_block = (Inr (sel, header'), l')
     \<and> fst (verifyCanonicalRegistryHeader sample_crypto (\<lambda>_. True) l' sample_chain (sample_block\<lparr>h_Extra := payload @ sample_signature 3\<rparr>)) = Inr (sel, s)
     \<and> rs_Number s = 5"
proof -
  obtain sel0 l0 sel header' l' where p: "canonicalSelectionForHeader sample_crypto (\<lambda>_. True) sample_engine sample_chain sample_block = (Inr (sel0, sample_snapshot), l0)"
      "prepareCanonicalRegistryExtra sample_crypto (\<lambda>_. True) sample_engine sample_chain sample_block = (Inr (sel, header'), l')"
    using sample_prepared [of "\<lambda>_. True"] by blast
  have "setting lc_ProofDifficulty sample_engine \<noteq> 0" "length (sample_signature 3) = ProducerSealLength"
    by (simp_all add: sample_lqc_config_def ProducerSealLength_eq)
  from prepared_envelope_verifies [OF sample_world sample_node_engine p sample_chain_id this] p(2) show ?thesis
    by (auto simp: sample_block_fields big_Uint64_def)
qed

end
