(* ===== verification/Engine_Service.thy ===== *)
theory Engine_Service
  imports Engine_Prepare
begin

text \<open>
  What the engine offers to the node around it (\<open>consensus/lqc/registry_engine.go\<close>, \<open>consensus/lqc/lqc.go\<close>): submitting registry operations, the pending
  operations, the status of the protocol and of a participant, and the local account whose turn comes first. A call returns its result and
  the engine it leaves; \<open>ResolveLocalParticipant\<close> takes the clock as an argument.
\<close>

section \<open>The registry interface\<close>

definition big_of :: "u64 \<Rightarrow> int option" where
  "big_of n = Some (uint n)"

definition SubmitRegistryOperation ::
  "crypto \<Rightarrow> (bls_key \<Rightarrow> bool) \<Rightarrow> LQC \<Rightarrow> ChainHeaderReader \<Rightarrow> RegistryOperation \<Rightarrow> (engine_error + hash) \<times> LQC" where
  "SubmitRegistryOperation cr decodes l chain operation =
     (case ch_CurrentHeader chain of
        None \<Rightarrow> (Inl ErrRegistryPoolDisabled, l)
      | Some blk \<Rightarrow>
          (case h_Number blk of
             None \<Rightarrow> (Inl errInvalidBlockNumber, l)
           | Some number \<Rightarrow>
               if big_Uint64 number = maxU64 then (Inl errInvalidBlockNumber, l)
               else
                 let nextNumber = big_Uint64 number + 1 in
                 if \<not> registryProtocolEnabled l (big_of nextNumber) then (Inl ErrRegistryPoolDisabled, l)
                 else case registrySnapshotAt cr decodes l chain (big_Uint64 number) (Header_Hash cr blk) of
                   (Inl err, l1) \<Rightarrow> (Inl err, l1)
                 | (Inr snapshot, l1) \<Rightarrow>
                     (case Snapshot_Registry cr snapshot of
                        Inl err \<Rightarrow> (Inl (EngineRegistry err), l1)
                      | Inr registry \<Rightarrow>
                          (case registryChainID chain of
                             Inl err \<Rightarrow> (Inl err, l1)
                           | Inr chainID \<Rightarrow>
                               (case ApplyOperation cr chainID nextNumber (sr_ProofDifficulty (registryRules l1)) operation registry of
                                  Inl err \<Rightarrow> (Inl (EngineRegistry err), l1)
                                | Inr _ \<Rightarrow>
                                    (case Pool_Add cr chainID operation (lq_registryPool l1) of
                                       ((h, err), pool) \<Rightarrow>
                                         (case err of None \<Rightarrow> Inr h | Some e \<Rightarrow> Inl (EngineRegistry e),
                                          l1\<lparr>lq_registryPool := pool\<rparr>)))))))"

definition PendingRegistryOperations :: "LQC \<Rightarrow> ChainHeaderReader \<Rightarrow> RegistryOperation list \<times> LQC" where
  "PendingRegistryOperations l chain =
     (case ch_CurrentHeader chain of
        None \<Rightarrow> ([], l)
      | Some blk \<Rightarrow>
          (case h_Number blk of
             None \<Rightarrow> ([], l)
           | Some number \<Rightarrow>
               let nextNumber = big_Uint64 number + 1;
                   pool = Pool_PruneExpired nextNumber (lq_registryPool l)
               in (Pool_Pending pool nextNumber, l\<lparr>lq_registryPool := pool\<rparr>)))"

definition RegistryOperationPoolStatus :: "LQC \<Rightarrow> RegistryPoolStatus" where
  "RegistryOperationPoolStatus l = Pool_Status (lq_registryPool l)"

record RegistryProtocolStatus =
  ps_ActivationBlock :: u64
  ps_CurrentBlock :: u64
  ps_NextBlock :: u64
  ps_ProofDifficulty :: u64
  ps_ActivationDelay :: u64
  ps_HeartbeatWindow :: u64
  ps_HeartbeatGrace :: u64
  ps_RecoveryTimeoutMs :: u64
  ps_MaxOperationLifetime :: u64
  ps_PoolCapacity :: u64
  ps_RegistryRoot :: hash
  ps_ParticipantCount :: u64
  ps_ActiveForNextBlock :: bool

record RegistryParticipantStatus =
  pt_Participant :: CanonicalParticipant
  pt_Exists :: bool
  pt_EligibleNext :: bool
  pt_CanonicalBlock :: u64
  pt_RegistryRoot :: hash

text \<open>The number of the current head, as both status calls check it.\<close>

definition head_number :: "ChainHeaderReader \<Rightarrow> (Header \<times> u64) option" where
  "head_number chain =
     (case ch_CurrentHeader chain of
        None \<Rightarrow> None
      | Some blk \<Rightarrow>
          (case h_Number blk of
             None \<Rightarrow> None
           | Some number \<Rightarrow> if number < 0 \<or> big_Uint64 number = maxU64 then None else Some (blk, big_Uint64 number)))"

definition RegistryStatus ::
  "crypto \<Rightarrow> (bls_key \<Rightarrow> bool) \<Rightarrow> LQC \<Rightarrow> ChainHeaderReader \<Rightarrow> (engine_error + RegistryProtocolStatus) \<times> LQC" where
  "RegistryStatus cr decodes l chain =
     (if setting lc_RegistryProtocolBlock l = 0 then (Inl errRegistryProtocolUnavailable, l)
      else case head_number chain of
        None \<Rightarrow> (Inl errInvalidBlockNumber, l)
      | Some (blk, current) \<Rightarrow>
          let rules = registryRules l;
              active = registryProtocolEnabled l (big_of (current + 1));
              status = \<lparr>ps_ActivationBlock = setting lc_RegistryProtocolBlock l, ps_CurrentBlock = current, ps_NextBlock = current + 1,
                ps_ProofDifficulty = sr_ProofDifficulty rules, ps_ActivationDelay = sr_ActivationDelay rules,
                ps_HeartbeatWindow = sr_HeartbeatWindow rules, ps_HeartbeatGrace = sr_HeartbeatGrace rules,
                ps_RecoveryTimeoutMs = setting lc_RecoveryTimeoutMs l, ps_MaxOperationLifetime = MaxRegistryOperationLifetime,
                ps_PoolCapacity = of_nat MaxRegistryPoolOperations, ps_RegistryRoot = 0, ps_ParticipantCount = 0,
                ps_ActiveForNextBlock = active\<rparr>
          in if \<not> active then (Inr status, l)
             else case registrySnapshotAt cr decodes l chain current (Header_Hash cr blk) of
               (Inl err, l1) \<Rightarrow> (Inl err, l1)
             | (Inr snapshot, l1) \<Rightarrow>
                 (case Snapshot_Registry cr snapshot of
                    Inl err \<Rightarrow> (Inl (EngineRegistry err), l1)
                  | Inr _ \<Rightarrow> (Inr (status\<lparr>ps_RegistryRoot := rs_RegistryRoot snapshot,
                      ps_ParticipantCount := of_nat (length (rs_Participants snapshot))\<rparr>), l1)))"

definition RegistryParticipant ::
  "crypto \<Rightarrow> (bls_key \<Rightarrow> bool) \<Rightarrow> LQC \<Rightarrow> ChainHeaderReader \<Rightarrow> address \<Rightarrow> (engine_error + RegistryParticipantStatus) \<times> LQC" where
  "RegistryParticipant cr decodes l chain addr =
     (if addr = 0 then (Inl (EngineRegistry ErrInvalidRegistryAddress), l)
      else if setting lc_RegistryProtocolBlock l = 0 then (Inl errRegistryProtocolUnavailable, l)
      else case head_number chain of
        None \<Rightarrow> (Inl errInvalidBlockNumber, l)
      | Some (blk, current) \<Rightarrow>
          if \<not> registryProtocolEnabled l (big_of (current + 1)) then (Inl errRegistryProtocolUnavailable, l)
          else case registrySnapshotAt cr decodes l chain current (Header_Hash cr blk) of
            (Inl err, l1) \<Rightarrow> (Inl err, l1)
          | (Inr snapshot, l1) \<Rightarrow>
              (case Snapshot_Registry cr snapshot of
                 Inl err \<Rightarrow> (Inl (EngineRegistry err), l1)
               | Inr registry \<Rightarrow>
                   let rules = registryRules l1; found = fmlookup registry addr in
                   (Inr \<lparr>pt_Participant = (case found of None \<Rightarrow> zeroParticipant | Some p \<Rightarrow> p), pt_Exists = (found \<noteq> None),
                      pt_EligibleNext = (found \<noteq> None \<and> IsEligibleParticipant registry addr (current + 1) (sr_ActivationDelay rules)
                        (sr_HeartbeatWindow rules) (sr_HeartbeatGrace rules)),
                      pt_CanonicalBlock = current, pt_RegistryRoot = rs_RegistryRoot snapshot\<rparr>, l1)))"

section \<open>The local participant\<close>

record LocalParticipant =
  lp_Address :: address
  lp_QueuePos :: int
  lp_Allowed :: bool

definition no_participant :: LocalParticipant where
  "no_participant = \<lparr>lp_Address = 0, lp_QueuePos = -1, lp_Allowed = False\<rparr>"

fun first_wallet :: "address list \<Rightarrow> LocalParticipant" where
  "first_wallet [] = no_participant"
| "first_wallet (addr # accounts) =
     (if addr = 0 then first_wallet accounts else \<lparr>lp_Address = addr, lp_QueuePos = 0, lp_Allowed = True\<rparr>)"

fun best_participant :: "LQC \<Rightarrow> u64 \<Rightarrow> HybridSelection \<Rightarrow> address list \<Rightarrow> LocalParticipant \<Rightarrow> LocalParticipant" where
  "best_participant l n sel [] best = best"
| "best_participant l n sel (local # accounts) best =
     (let (allowed, queuePos) = isAuthorAllowedAt l n sel local in
      best_participant l n sel accounts
        (if allowed \<and> (lp_QueuePos best < 0 \<or> queuePos < lp_QueuePos best)
         then \<lparr>lp_Address = local, lp_QueuePos = queuePos, lp_Allowed = True\<rparr> else best))"

text \<open>The header the engine makes for the next block: its parent and number, every other field zero.\<close>

definition next_header :: "hash \<Rightarrow> u64 \<Rightarrow> Header" where
  "next_header parent n = \<lparr>h_ParentHash = parent, h_UncleHash = 0, h_Coinbase = 0, h_Root = 0, h_TxHash = 0, h_ReceiptHash = 0, h_Bloom = 0,
     h_Difficulty = None, h_Number = big_of n, h_GasLimit = 0, h_GasUsed = 0, h_Time = 0, h_Extra = [], h_MixDigest = 0, h_Nonce = 0,
     h_BaseFee = None, h_WithdrawalsHash = None, h_BlobGasUsed = None, h_ExcessBlobGas = None, h_ParentBeaconRoot = None,
     h_RequestsHash = None, h_BlockAccessListHash = None, h_SlotNumber = None\<rparr>"

definition ResolveLocalParticipant ::
  "crypto \<Rightarrow> (bls_key \<Rightarrow> bool) \<Rightarrow> LQC \<Rightarrow> ChainHeaderReader \<Rightarrow> Header option \<Rightarrow> address list \<Rightarrow> int
    \<Rightarrow> (engine_error + LocalParticipant) \<times> LQC" where
  "ResolveLocalParticipant cr decodes l chain header accounts now =
     (case header of
        None \<Rightarrow> (Inr no_participant, l)
      | Some blk \<Rightarrow>
          (case h_Number blk of
             None \<Rightarrow> (Inr no_participant, l)
           | Some number \<Rightarrow>
               if accounts = [] \<or> big_Uint64 number = maxU64 then (Inr no_participant, l)
               else
                 let blockNumber = big_Uint64 number + 1 in
                 if blockNumber = 1 then (Inr (first_wallet accounts), l)
                 else if now \<ge> 0 \<and> \<not> isConsensusStabilizationBlock l blockNumber \<and> \<not> isConsensusFairnessBlock l blockNumber
                         \<and> recoveryOpenAt l (Some blk) (word_of_int now)
                 then (Inr (first_wallet accounts), l)
                 else
                   let nxt = next_header (Header_Hash cr blk) blockNumber;
                       l1 = (if \<not> registryProtocolEnabled l (h_Number nxt)
                             then fold (\<lambda>addr l. if addr \<noteq> 0 then register_producer l addr blockNumber else l) accounts l
                             else l)
                   in case selectionForHeader cr decodes l1 chain nxt of
                        (Inl err, l2) \<Rightarrow> (Inl err, l2)
                      | (Inr sel, l2) \<Rightarrow> (Inr (best_participant l2 blockNumber sel accounts no_participant), l2)))"

section \<open>Submissions\<close>

text \<open>The registry at the head of the chain, by replay.\<close>

definition head_replay ::
  "crypto \<Rightarrow> (bls_key \<Rightarrow> bool) \<Rightarrow> LQC \<Rightarrow> ChainHeaderReader \<Rightarrow> LQCConfig \<Rightarrow> Header \<Rightarrow> u64 \<Rightarrow> CanonicalRegistry \<Rightarrow> bool" where
  "head_replay cr d l chain config blk n r \<longleftrightarrow> (\<exists>s. replay_snapshot cr d l chain config n (Header_Hash cr blk) = Inr s \<and> Snapshot_Registry cr s = Inr r)"

lemma snapshot_node:
  assumes "world cr chain config" "node cr d chain config l" "registrySnapshotAt cr d l chain n h = (r, l')"
  shows "node cr d chain config l' \<and> same_engine l l' \<and> (\<forall>s. r = Inr s \<longrightarrow> replay_snapshot cr d l chain config n h = Inr s)"
proof (cases "h = 0")
  case True
  then show ?thesis using assms(2,3) by (auto simp: registrySnapshotAt_def node_def)
next
  case False
  have "keyed cr chain" "lq_config l = Some config" "lc_RegistryProtocolBlock config \<noteq> 0" "cache_sound cr d chain config l" "small_replay cr d l chain config"
    using assms(1,2) by (auto simp: world_def node_def small_replay_short)
  from registrySnapshotAt_sound [OF this(1-3) False this(4,5) assms(3)] this(2) show ?thesis by (auto simp: node_def same_engine_def)
qed

lemma submit_cases:
  assumes "world cr chain config" "node cr d chain config l" "SubmitRegistryOperation cr d l chain operation = (r, l')"
  obtains (refused) err where "r = Inl err" "same_engine l l'"
  | (added) blk number chainID registry registry' h res p l1 where "ch_CurrentHeader chain = Some blk" "h_Number blk = Some number" "big_Uint64 number \<noteq> maxU64"
      "registryProtocolEnabled l (big_of (big_Uint64 number + 1))" "head_replay cr d l chain config blk (big_Uint64 number) registry"
      "registryChainID chain = Inr chainID"
      "ApplyOperation cr chainID (big_Uint64 number + 1) (sr_ProofDifficulty (registryRules l)) operation registry = Inr registry'"
      "same_engine l l1" "Pool_Add cr chainID operation (lq_registryPool l) = ((h, res), p)" "l' = l1\<lparr>lq_registryPool := p\<rparr>"
      "r = (case res of None \<Rightarrow> Inr h | Some e \<Rightarrow> Inl (EngineRegistry e))"
proof (cases "\<exists>blk number. ch_CurrentHeader chain = Some blk \<and> h_Number blk = Some number \<and> big_Uint64 number \<noteq> maxU64
    \<and> registryProtocolEnabled l (big_of (big_Uint64 number + 1))")
  case False
  then have "\<exists>err. r = Inl err \<and> l' = l" using assms(3)
    by (auto simp: SubmitRegistryOperation_def Let_def split: option.splits if_splits)
  then show ?thesis using refused by auto
next
  case True
  then obtain blk number where h: "ch_CurrentHeader chain = Some blk" "h_Number blk = Some number" "big_Uint64 number \<noteq> maxU64"
    "registryProtocolEnabled l (big_of (big_Uint64 number + 1))" by blast
  obtain s l1 where s: "registrySnapshotAt cr d l chain (big_Uint64 number) (Header_Hash cr blk) = (s, l1)"
    by (cases "registrySnapshotAt cr d l chain (big_Uint64 number) (Header_Hash cr blk)")
  note n = snapshot_node [OF assms(1,2) s]
  have rules: "registryRules l1 = registryRules l" "lq_registryPool l1 = lq_registryPool l"
    using n by (simp_all add: registryRules_def setting_def same_engine_def)
  show ?thesis
  proof (cases "\<exists>snapshot registry chainID registry'. s = Inr snapshot \<and> Snapshot_Registry cr snapshot = Inr registry \<and> registryChainID chain = Inr chainID
      \<and> ApplyOperation cr chainID (big_Uint64 number + 1) (sr_ProofDifficulty (registryRules l)) operation registry = Inr registry'")
    case False
    then have "\<exists>err. r = Inl err \<and> l' = l1"
      using assms(3) h s rules by (auto simp: SubmitRegistryOperation_def Let_def split: sum.splits prod.splits)
    then show ?thesis using n refused by auto
  next
    case True
    then obtain snapshot registry chainID registry' where t: "s = Inr snapshot" "Snapshot_Registry cr snapshot = Inr registry" "registryChainID chain = Inr chainID"
      "ApplyOperation cr chainID (big_Uint64 number + 1) (sr_ProofDifficulty (registryRules l)) operation registry = Inr registry'" by blast
    obtain x res p where p: "Pool_Add cr chainID operation (lq_registryPool l) = ((x, res), p)" by (metis prod_cases3 prod.collapse)
    have "r = (case res of None \<Rightarrow> Inr x | Some e \<Rightarrow> Inl (EngineRegistry e))" "l' = l1\<lparr>lq_registryPool := p\<rparr>"
      using assms(3) h s rules t p by (auto simp: SubmitRegistryOperation_def Let_def)
    moreover have "head_replay cr d l chain config blk (big_Uint64 number) registry" using n t(1,2) by (auto simp: head_replay_def)
    ultimately show ?thesis using added h t(3,4) n p by blast
  qed
qed

text \<open>Everything pending is what the pool holds for some participant and has not expired.\<close>

lemma pending_mem:
  assumes "pool_inv (lq_registryPool l)" "ch_CurrentHeader chain = Some blk" "h_Number blk = Some number"
  shows "x \<in> set (fst (PendingRegistryOperations l chain)) \<longleftrightarrow>
    pool_of (lq_registryPool l) (op_Address x) = Some x \<and> big_Uint64 number + 1 \<le> op_ValidUntil x"
  using assms by (auto simp: PendingRegistryOperations_def Let_def Pool_Pending_set Pool_PruneExpired_lookup pool_of_Some)

section \<open>The local turn\<close>

lemma best_participant_spec:
  assumes "lp_QueuePos best < 0 \<longrightarrow> best = no_participant"
  shows "(let b = best_participant l n sel accounts best in
      (b = best \<or> (lp_Address b \<in> set accounts \<and> lp_Allowed b \<and> isAuthorAllowedAt l n sel (lp_Address b) = (True, lp_QueuePos b)))
      \<and> (\<forall>a \<in> set accounts. \<forall>pos. isAuthorAllowedAt l n sel a = (True, pos) \<longrightarrow> 0 \<le> lp_QueuePos b \<and> lp_QueuePos b \<le> pos)
      \<and> (0 \<le> lp_QueuePos best \<longrightarrow> 0 \<le> lp_QueuePos b \<and> lp_QueuePos b \<le> lp_QueuePos best))"
  using assms
proof (induction accounts arbitrary: best)
  case (Cons a accounts)
  obtain ok pos where p: "isAuthorAllowedAt l n sel a = (ok, pos)" by (cases "isAuthorAllowedAt l n sel a")
  have pos: "0 \<le> pos" if ok using isAuthorAllowedAt_pos [of l n sel a pos] p that by auto
  let ?best = "if ok \<and> (lp_QueuePos best < 0 \<or> pos < lp_QueuePos best) then \<lparr>lp_Address = a, lp_QueuePos = pos, lp_Allowed = True\<rparr> else best"
  have "lp_QueuePos ?best < 0 \<longrightarrow> ?best = no_participant" using Cons.prems pos by auto
  from Cons.IH [OF this] show ?case using p pos by (auto simp: Let_def split: if_splits)
qed (simp add: Let_def)

text \<open>In the registry era the account that is resolved is one of the node's, allowed at the next block, and no other account of the node
  has an earlier position; without an allowed account the answer is empty.\<close>

lemma local_turn:
  assumes "h_Number blk = Some number" "accounts \<noteq> []" "big_Uint64 number \<noteq> maxU64" "big_Uint64 number \<noteq> 0"
    and "registryProtocolEnabled l (big_of (big_Uint64 number + 1))" "\<not> recoveryOpenAt l (Some blk) (word_of_int now)"
    and sel: "selectionForHeader cr d l chain (next_header (Header_Hash cr blk) (big_Uint64 number + 1)) = (Inr sel, l1)"
  shows "\<exists>p. ResolveLocalParticipant cr d l chain (Some blk) accounts now = (Inr p, l1)
    \<and> (p = no_participant \<or> (lp_Address p \<in> set accounts \<and> lp_Allowed p
        \<and> isAuthorAllowedAt l1 (big_Uint64 number + 1) sel (lp_Address p) = (True, lp_QueuePos p)))
    \<and> (\<forall>a \<in> set accounts. \<forall>pos. isAuthorAllowedAt l1 (big_Uint64 number + 1) sel a = (True, pos) \<longrightarrow> 0 \<le> lp_QueuePos p \<and> lp_QueuePos p \<le> pos)"
proof -
  have "big_Uint64 number + 1 \<noteq> 1" using assms(4) by simp
  then have "ResolveLocalParticipant cr d l chain (Some blk) accounts now =
      (Inr (best_participant l1 (big_Uint64 number + 1) sel accounts no_participant), l1)"
    using assms by (simp add: ResolveLocalParticipant_def Let_def next_header_def)
  then show ?thesis
    using best_participant_spec [of no_participant l1 "big_Uint64 number + 1" sel accounts] by (auto simp: Let_def no_participant_def)
qed

section \<open>Properties\<close>

text \<open>Claim C24: a submitted operation. A submission is accepted only if the operation applies to the canonical registry of the head block, as
  replayed from the chain, at the next block; from then on it is pending under the returned hash, as the only pending operation of its participant, and
  the operations of everyone else are untouched. A refused submission changes nothing but the snapshot caches.\<close>

theorem submitted_operation:
  assumes "world cr chain config" and "node cr decodes chain config l" and "pool_inv (lq_registryPool l)"
  shows "case SubmitRegistryOperation cr decodes l chain operation of
      (Inl err, l') \<Rightarrow> same_engine l l'
    | (Inr h, l') \<Rightarrow> \<exists>blk number chainID registry registry'. ch_CurrentHeader chain = Some blk \<and> h_Number blk = Some number
        \<and> registryChainID chain = Inr chainID \<and> h = RegistryOperationHash cr chainID operation
        \<and> head_replay cr decodes l chain config blk (big_Uint64 number) registry
        \<and> ApplyOperation cr chainID (big_Uint64 number + 1) (sr_ProofDifficulty (registryRules l)) operation registry = Inr registry'
        \<and> pool_inv (lq_registryPool l') \<and> operation \<in> set (fst (PendingRegistryOperations l' chain))
        \<and> (\<forall>x. x \<in> set (fst (PendingRegistryOperations l' chain)) \<longleftrightarrow>
              (if op_Address x = op_Address operation then x = operation else x \<in> set (fst (PendingRegistryOperations l chain))))"
proof -
  obtain r l' where s: "SubmitRegistryOperation cr decodes l chain operation = (r, l')" by (cases "SubmitRegistryOperation cr decodes l chain operation")
  from assms(1,2) s show ?thesis
  proof (cases rule: submit_cases)
    case (refused err)
    then show ?thesis by (simp add: s)
  next
    case (added blk number chainID registry registry' h res p l1)
    show ?thesis
    proof (cases res)
      case (Some e)
      have "p = lq_registryPool l" by (rule Pool_Add_refused(1) [OF assms(3)]) (use added(9) Some in simp)
      then have "same_engine l l'" using added(8,10) by (simp add: same_engine_def)
      then show ?thesis using added(11) Some by (simp add: s)
    next
      case None
      note add = Pool_Add_refines [OF assms(3) added(9) [unfolded None]]
      have pool: "lq_registryPool l' = p" using added(10) by simp
      have "ValidateRegistryOperation cr chainID (big_Uint64 number + 1) (sr_ProofDifficulty (registryRules l)) operation = None"
        using added(7) by (auto simp: ApplyOperation_def split: option.splits)
      then have valid: "big_Uint64 number + 1 \<le> op_ValidUntil operation"
        by (auto simp: ValidateRegistryOperation_def not_less split: if_splits)
      note mem = pending_mem [OF _ added(1,2)]
      have pend: "x \<in> set (fst (PendingRegistryOperations l' chain)) \<longleftrightarrow>
          (if op_Address x = op_Address operation then x = operation else x \<in> set (fst (PendingRegistryOperations l chain)))" for x
        using mem [of l' x] mem [of l x] add(1,2) assms(3) valid by (auto simp: pool)
      then have "operation \<in> set (fst (PendingRegistryOperations l' chain))" by simp
      with added(1,2,5-7) add(1,3) pend have "\<exists>blk number chainID registry registry'. ch_CurrentHeader chain = Some blk \<and> h_Number blk = Some number
        \<and> registryChainID chain = Inr chainID \<and> h = RegistryOperationHash cr chainID operation
        \<and> head_replay cr decodes l chain config blk (big_Uint64 number) registry
        \<and> ApplyOperation cr chainID (big_Uint64 number + 1) (sr_ProofDifficulty (registryRules l)) operation registry = Inr registry'
        \<and> pool_inv (lq_registryPool l') \<and> operation \<in> set (fst (PendingRegistryOperations l' chain))
        \<and> (\<forall>x. x \<in> set (fst (PendingRegistryOperations l' chain)) \<longleftrightarrow>
              (if op_Address x = op_Address operation then x = operation else x \<in> set (fst (PendingRegistryOperations l chain))))"
        unfolding pool by blast
      then show ?thesis using added(11) None by (simp add: s)
    qed
  qed
qed

definition sample_head_chain :: ChainHeaderReader where
  "sample_head_chain = sample_chain\<lparr>ch_CurrentHeader := Some sample_parent\<rparr>"

theorem submitted_operation_witness:
  "\<exists>h l'. SubmitRegistryOperation sample_crypto (\<lambda>_. True) sample_engine sample_head_chain (sample_operation 4 1) = (Inr h, l')
     \<and> fst (PendingRegistryOperations l' sample_head_chain) \<noteq> []"
proof -
  have n: "big_Uint64 4 = 4" "h_Number sample_parent = Some 4" by (simp_all add: big_Uint64_def sample_parent_def sample_header_def)
  have w: "world sample_crypto sample_head_chain sample_lqc_config"
    using sample_world by (simp add: world_def keyed_def short_chain_def sample_head_chain_def)
  have node: "node sample_crypto (\<lambda>_. True) sample_head_chain sample_lqc_config sample_engine"
    by (auto simp: node_def sample_engine_def LQC_New_def intro!: fresh_cache_sound)
  have inv: "pool_inv (lq_registryPool sample_engine)" by (simp add: sample_engine_def LQC_New_def pool_inv_new)
  let ?h = "Header_Hash sample_crypto sample_parent" and ?s = "newRegistrySnapshot sample_crypto 4 (Header_Hash sample_crypto sample_parent) (sample_bootstrap 4)"
  have hz: "?h \<noteq> 0" by (simp add: Header_Hash_def)
  obtain r l1 where r: "registrySnapshotAt sample_crypto (\<lambda>_. True) sample_engine sample_head_chain 4 ?h = (r, l1)"
    by (cases "registrySnapshotAt sample_crypto (\<lambda>_. True) sample_engine sample_head_chain 4 ?h")
  have "keyed sample_crypto sample_head_chain" "small_replay sample_crypto (\<lambda>_. True) sample_engine sample_head_chain sample_lqc_config"
      "lc_RegistryProtocolBlock sample_lqc_config \<noteq> 0" "lq_config sample_engine = Some sample_lqc_config"
    using w small_replay_short by (auto simp: world_def sample_engine_def LQC_New_def)
  from registrySnapshotAt_sound [OF this(1,4,3) hz _ this(2) r] node
  have rs: "r = replay_snapshot sample_crypto (\<lambda>_. True) sample_engine sample_head_chain sample_lqc_config 4 ?h" "same_engine sample_engine l1"
    by (simp_all add: node_def)
  have snap: "r = Inr ?s" unfolding rs(1) using hz by (subst replay_snapshot.simps) (simp add: sample_lqc_config_def sample_bootstrap_snapshot)
  have reg: "Snapshot_Registry sample_crypto ?s = Inr (sample_bootstrap 4)"
    by (rule Snapshot_Registry_new [OF sample_bootstrap_wf hz sample_Root_nonzero])
  obtain after where op: "ApplyOperation sample_crypto 1 5 1 (sample_operation 4 1) (sample_bootstrap 4) = Inr after"
    unfolding ApplyOperation_def
    by (simp add: sample_valid, simp add: sample_bootstrap_def sample_operation_def RegistryActionRegister_def)
  have l1: "sr_ProofDifficulty (registryRules l1) = 1" "lq_registryPool l1 = NewRegistryOperationPool"
    using rs(2) by (simp_all add: same_engine_def registryRules_def setting_def sample_engine_def LQC_New_def sample_lqc_config_def)
  have en: "registryProtocolEnabled sample_engine (big_of 5)"
    by (simp add: registryProtocolEnabled_def big_of_def big_Uint64_def sample_lqc_config_def)
  have chain: "ch_CurrentHeader sample_head_chain = Some sample_parent" "registryChainID sample_head_chain = Inr 1"
    using sample_chain_id by (simp_all add: sample_head_chain_def registryChainID_def)
  have sub: "SubmitRegistryOperation sample_crypto (\<lambda>_. True) sample_engine sample_head_chain (sample_operation 4 1) =
      (Inr (RegistryOperationHash sample_crypto 1 (sample_operation 4 1)),
       l1\<lparr>lq_registryPool := pool_insert (RegistryOperationHash sample_crypto 1 (sample_operation 4 1)) (sample_operation 4 1) NewRegistryOperationPool\<rparr>)"
    using r snap reg op en l1 chain n
    by (simp add: SubmitRegistryOperation_def Let_def Pool_Add_def NewRegistryOperationPool_def fmkeys_def MaxRegistryPoolOperations_def)
  from submitted_operation [OF w node inv, of "sample_operation 4 1"] sub show ?thesis by auto
qed

end
