(* ===== verification/Engine_Rewards.thy ===== *)
theory Engine_Rewards
  imports Engine_Accept
begin

text \<open>
  Block rewards (\<open>consensus/lqc/lqc.go\<close>, the default build): the reward of a block, its split between the producer and the committee, and
  \<open>Finalize\<close>, which pays it. The state database is read and written through balances only; it is a map from addresses to
  256-bit balances. The Work V1 payout and the VRF lifecycle hook are not part of the default build.
\<close>

section \<open>Balances\<close>

type_synonym balances = "address \<Rightarrow> u256"

definition AddBalance :: "address \<Rightarrow> u256 \<Rightarrow> balances \<Rightarrow> balances" where
  "AddBalance addr amount st = (if amount = 0 then st else st(addr := st addr + amount))"

section \<open>The reward of a block\<close>

definition hybridToParticipants :: "HybridParticipant list \<Rightarrow> Participant list" where
  "hybridToParticipants ps = map (\<lambda>p. \<lparr>pt_Address = hp_Address p, pt_Active = True, pt_LastActiveBlock = hp_LastHeartbeat p, pt_Weight = 1\<rparr>) ps"

definition rewardCommittee ::
  "crypto \<Rightarrow> (bls_key \<Rightarrow> bool) \<Rightarrow> LQC \<Rightarrow> ChainHeaderReader \<Rightarrow> Header \<Rightarrow> (engine_error + Participant list) \<times> LQC" where
  "rewardCommittee cr decodes l chain header =
     (case selectionForHeader cr decodes l chain header of
        (Inl err, l1) \<Rightarrow> (Inl err, l1)
      | (Inr sel, l1) \<Rightarrow> (Inr (if sel_Committee sel = [] then [] else hybridToParticipants (sel_Committee sel)), l1))"

fun unique_addresses :: "address \<Rightarrow> address set \<Rightarrow> Participant list \<Rightarrow> address list" where
  "unique_addresses coinbase seen [] = []"
| "unique_addresses coinbase seen (p # ps) =
     (if pt_Address p = 0 then unique_addresses coinbase seen ps
      else if pt_Address p = coinbase then unique_addresses coinbase seen ps
      else if pt_Address p \<in> seen then unique_addresses coinbase seen ps
      else pt_Address p # unique_addresses coinbase (insert (pt_Address p) seen) ps)"

definition rewardCommitteeAddresses ::
  "crypto \<Rightarrow> (bls_key \<Rightarrow> bool) \<Rightarrow> LQC \<Rightarrow> ChainHeaderReader \<Rightarrow> Header \<Rightarrow> (engine_error + address list) \<times> LQC" where
  "rewardCommitteeAddresses cr decodes l chain header =
     (case rewardCommittee cr decodes l chain header of
        (Inl err, l1) \<Rightarrow> (Inl err, l1)
      | (Inr committee, l1) \<Rightarrow> (Inr (unique_addresses (h_Coinbase header) {} committee), l1))"

definition blockRewardFor :: "LQC \<Rightarrow> Header \<Rightarrow> u256" where
  "blockRewardFor l header =
     (case h_Number header of
        None \<Rightarrow> 0
      | Some number \<Rightarrow>
          let eraLength = (if setting lc_EraLength l > 0 then setting lc_EraLength l else 8409600);
              era = big_Uint64 number div eraLength
          in if era = 0 then 1200000000000000000
             else if era = 1 then 600000000000000000
             else if era = 2 then 300000000000000000
             else 150000000000000000)"

section \<open>Paying it\<close>

definition producer_bps :: "LQC \<Rightarrow> u64" where
  "producer_bps l =
     (let committeeBps = (if setting lc_CommitteeRatioBps l > 0 then setting lc_CommitteeRatioBps l else 3000);
          committeeBps = (if committeeBps > 10000 then 10000 else committeeBps)
      in 10000 - committeeBps)"

definition pay_committee :: "address list \<Rightarrow> u256 \<Rightarrow> balances \<Rightarrow> balances" where
  "pay_committee addrs committeeReward st =
     (let count = ucast (of_nat (length addrs) :: u64);
          perMember = committeeReward div count;
          remainder = committeeReward - perMember * count
      in fold (\<lambda>(i, addr) st.
           let amount = (if i = 0 then perMember + remainder else perMember) in
           if amount \<noteq> 0 then AddBalance addr amount st else st) (enumerate 0 addrs) st)"

definition distributeRewards ::
  "crypto \<Rightarrow> (bls_key \<Rightarrow> bool) \<Rightarrow> LQC \<Rightarrow> ChainHeaderReader \<Rightarrow> Header \<Rightarrow> balances \<Rightarrow> (engine_error + balances) \<times> LQC" where
  "distributeRewards cr decodes l chain header st =
     (if h_Number header = None then (Inr st, l)
      else
        let totalReward = blockRewardFor l header in
        if totalReward = 0 then (Inr st, l)
        else
          let producerReward = totalReward * ucast (producer_bps l) div 10000;
              committeeReward = totalReward - producerReward
          in case rewardCommitteeAddresses cr decodes l chain header of
               (Inl err, l1) \<Rightarrow> (Inl err, l1)
             | (Inr addrs, l1) \<Rightarrow>
                 if addrs = [] \<or> committeeReward = 0 then (Inr (AddBalance (h_Coinbase header) totalReward st), l1)
                 else (Inr (pay_committee addrs committeeReward (AddBalance (h_Coinbase header) producerReward st)), l1))"

definition Finalize ::
  "crypto \<Rightarrow> (bls_key \<Rightarrow> bool) \<Rightarrow> LQC \<Rightarrow> ChainHeaderReader \<Rightarrow> Header option \<Rightarrow> balances \<Rightarrow> (engine_error + balances) \<times> LQC" where
  "Finalize cr decodes l chain header st =
     (case header of
        None \<Rightarrow> (Inr st, l)
      | Some header \<Rightarrow> if h_Number header = None then (Inr st, l) else distributeRewards cr decodes l chain header st)"

section \<open>Conservation\<close>

lemma unique_addresses_set:
  "distinct (unique_addresses c seen ps) \<and> set (unique_addresses c seen ps) = pt_Address ` set ps - {0, c} - seen"
  by (induction ps arbitrary: seen) auto

lemma remdups_snoc: "remdups (xs @ [x]) = remdups (filter (\<lambda>y. y \<noteq> x) xs) @ [x]"
  by (induction xs) auto

lemma unique_addresses_order:
  "unique_addresses c seen ps = rev (remdups (rev (filter (\<lambda>a. a \<notin> insert 0 (insert c seen)) (map pt_Address ps))))"
  by (induction ps arbitrary: seen) (auto simp: remdups_snoc rev_filter [symmetric] conj_ac intro!: arg_cong [of _ _ remdups] filter_cong)

text \<open>The amount a split gives to each address, as natural numbers.\<close>

definition member_share :: "address list \<Rightarrow> nat \<Rightarrow> address \<Rightarrow> nat" where
  "member_share addrs amount a =
     (if a \<in> set addrs then amount div length addrs + (if a = hd addrs then amount mod length addrs else 0) else 0)"

lemma member_share_sum:
  assumes "distinct addrs" "addrs \<noteq> []"
  shows "(\<Sum>a \<in> set addrs. member_share addrs amount a) = amount"
proof -
  have "(\<Sum>a \<in> set addrs. member_share addrs amount a)
      = (\<Sum>a \<in> set addrs. amount div length addrs) + (\<Sum>a \<in> set addrs. if a = hd addrs then amount mod length addrs else 0)"
    by (simp add: member_share_def sum.distrib)
  also have "\<dots> = length addrs * (amount div length addrs) + amount mod length addrs"
    using assms by (simp add: distinct_card)
  finally show ?thesis by simp
qed

lemma AddBalance_apply: "AddBalance addr amount st a = st a + (if a = addr then amount else 0)"
  by (simp add: AddBalance_def)

lemma pay_rest:
  "distinct xs \<Longrightarrow> 0 < k \<Longrightarrow> fold (\<lambda>(i, addr) st. let amount = (if i = 0 then x else y) in if amount \<noteq> 0 then AddBalance addr amount st else st)
     (enumerate k xs) st a = st a + (if a \<in> set xs then y else 0)"
  by (induction xs arbitrary: k st) (auto simp: AddBalance_apply)

lemma pay_committee_apply:
  assumes "distinct addrs" "addrs \<noteq> []" "length addrs < 2 ^ 64"
  shows "pay_committee addrs amount st a = st a + of_nat (member_share addrs (unat amount) a)"
proof -
  let ?c = "ucast (of_nat (length addrs) :: u64) :: u256"
  have "length addrs < 2 ^ 256" using assms(3) by (rule less_trans) simp
  then have c: "unat ?c = length addrs" using assms(3) by (simp add: unsigned_ucast_eq unsigned_of_nat take_bit_nat_eq_self)
  have per: "amount div ?c = of_nat (unat amount div length addrs)" unfolding word_arith_nat_div [of amount ?c] c by (rule refl)
  have "amount div ?c * ?c + amount mod ?c = amount" by (rule div_mult_mod_eq)
  then have rem: "amount - amount div ?c * ?c = of_nat (unat amount mod length addrs)"
    unfolding word_arith_nat_mod [of amount ?c] c by (simp add: algebra_simps)
  obtain x xs where xs: "addrs = x # xs" using assms(2) by (cases addrs) auto
  have "pay_committee addrs amount st a = AddBalance x (amount div ?c + (amount - amount div ?c * ?c)) st a + (if a \<in> set xs then amount div ?c else 0)"
    using assms(1) pay_rest [of xs 1] by (simp add: pay_committee_def Let_def xs AddBalance_def)
  then show ?thesis
    using assms(1) unfolding rem unfolding per by (auto simp: AddBalance_apply member_share_def xs)
qed

lemma era_reward_mono:
  assumes "(i :: u64) \<le> j"
  shows "(if j = 0 then 1200000000000000000 else if j = 1 then 600000000000000000 else if j = 2 then 300000000000000000 else 150000000000000000 :: u256)
    \<le> (if i = 0 then 1200000000000000000 else if i = 1 then 600000000000000000 else if i = 2 then 300000000000000000 else 150000000000000000)"
proof -
  have "j = 0 \<longrightarrow> i = 0" "j = 1 \<longrightarrow> i = 0 \<or> i = 1" "j = 2 \<longrightarrow> i = 0 \<or> i = 1 \<or> i = 2" using assms by (auto simp: word_unat_eq_iff word_le_nat_alt)
  then show ?thesis by auto
qed

text \<open>The reward of a block is at most 1.2 units of 10 to the 18, so that no product overflows 256 bits.\<close>

lemma blockRewardFor_bounds: "unat (blockRewardFor l header) \<le> 1200000000000000000"
  by (simp add: blockRewardFor_def Let_def split: option.split)

lemma producer_bps_le: "unat (producer_bps l) \<le> 10000"
proof -
  have "unat (10000 - c :: u64) \<le> 10000" if "c \<le> 10000" for c :: u64
    using that by (simp add: unat_sub_if' word_le_nat_alt)
  then show ?thesis by (simp add: producer_bps_def Let_def not_less)
qed

definition producer_share :: "LQC \<Rightarrow> Header \<Rightarrow> nat" where
  "producer_share l header = unat (blockRewardFor l header) * unat (producer_bps l) div 10000"

lemma producer_reward:
  fixes l header
  defines "r \<equiv> blockRewardFor l header"
  shows "unat (r * ucast (producer_bps l) div 10000) = producer_share l header"
    and "unat (r - r * ucast (producer_bps l) div 10000) = unat r - producer_share l header" and "producer_share l header \<le> unat r"
proof -
  have b: "unat (ucast (producer_bps l) :: u256) = unat (producer_bps l)"
    using producer_bps_le [of l] by (simp add: unsigned_ucast_eq take_bit_nat_eq_self)
  have "unat r * unat (producer_bps l) \<le> 1200000000000000000 * 10000"
    unfolding r_def by (rule mult_le_mono [OF blockRewardFor_bounds producer_bps_le])
  then have m: "unat (r * ucast (producer_bps l)) = unat r * unat (producer_bps l)"
    using b by (subst unat_mult_lem [THEN iffD1]) simp_all
  show p: "unat (r * ucast (producer_bps l) div 10000) = producer_share l header"
    by (simp add: unat_div_distrib m [unfolded r_def] producer_share_def r_def)
  have "unat r * unat (producer_bps l) \<le> unat r * 10000" by (rule mult_le_mono2 [OF producer_bps_le])
  then have "unat r * unat (producer_bps l) div 10000 \<le> unat r * 10000 div 10000" by (rule div_le_mono)
  then show le: "producer_share l header \<le> unat r" by (simp add: producer_share_def r_def)
  show "unat (r - r * ucast (producer_bps l) div 10000) = unat r - producer_share l header"
    using le p by (simp add: unat_sub_if')
qed

text \<open>Nine bootstrap producers, one fallback and a committee of seven, for the example; the hash is constant, so that the order is the one of the addresses.\<close>

definition split_config :: LQCConfig where
  "split_config = sample_lqc_config\<lparr>lc_RegistryProtocolBlock := 0, lc_RegistryMode := ''static'', lc_FallbackCount := 1, lc_CommitteeSize := 7,
     lc_BootstrapParticipants := [3, 4, 5, 6, 7, 8, 9, 10, 11]\<rparr>"

definition split_engine :: LQC where
  "split_engine = LQC_New (Some split_config) (Some fmempty) []"

definition split_crypto :: crypto where
  "split_crypto = sample_crypto\<lparr>keccak256 := \<lambda>_. 1\<rparr>"

section \<open>Properties\<close>

text \<open>What each address receives.\<close>

definition reward_credit :: "LQC \<Rightarrow> Header \<Rightarrow> address list \<Rightarrow> address \<Rightarrow> nat" where
  "reward_credit l header addrs a =
     (let r = unat (blockRewardFor l header); p = producer_share l header in
      if a = h_Coinbase header then if addrs = [] then r else p
      else member_share addrs (r - p) a)"

lemma distributed_rewards:
  assumes "rewardCommitteeAddresses cr decodes l chain header = (Inr addrs, l')" and "length addrs < 2 ^ 64" and "h_Number header = Some number"
  shows "(\<exists>st'. Finalize cr decodes l chain (Some header) st = (Inr st', l') \<and> (\<forall>a. st' a = st a + of_nat (reward_credit l header addrs a)))
    \<and> distinct addrs \<and> 0 \<notin> set addrs \<and> h_Coinbase header \<notin> set addrs
    \<and> (\<Sum>a \<in> insert (h_Coinbase header) (set addrs). reward_credit l header addrs a) = unat (blockRewardFor l header)
    \<and> (\<forall>a. a \<notin> insert (h_Coinbase header) (set addrs) \<longrightarrow> reward_credit l header addrs a = 0)
    \<and> 150000000000000000 \<le> unat (blockRewardFor l header) \<and> unat (blockRewardFor l header) \<le> 1200000000000000000
    \<and> (\<forall>later k. h_Number later = Some k \<and> big_Uint64 number \<le> big_Uint64 k \<longrightarrow> blockRewardFor l later \<le> blockRewardFor l header)"
proof -
  let ?r = "blockRewardFor l header" and ?c = "h_Coinbase header" and ?p = "blockRewardFor l header * ucast (producer_bps l) div 10000"
  note p = producer_reward [of l header]
  have addrs: "distinct addrs" "0 \<notin> set addrs" "?c \<notin> set addrs"
    using assms(1) unique_addresses_set by (auto simp: rewardCommitteeAddresses_def split: prod.splits sum.splits)
  have pos: "?r \<noteq> 0" "150000000000000000 \<le> unat ?r" using assms(3) by (auto simp: blockRewardFor_def Let_def)
  have fin: "Finalize cr decodes l chain (Some header) st = (Inr (if addrs = [] \<or> ?r - ?p = 0 then AddBalance ?c ?r st
      else pay_committee addrs (?r - ?p) (AddBalance ?c ?p st)), l')"
    using assms(1,3) pos by (simp add: Finalize_def distributeRewards_def Let_def)
  have share: "of_nat (producer_share l header) = ?p" unfolding p(1) [symmetric] by simp
  have credit: "(if addrs = [] \<or> ?r - ?p = 0 then AddBalance ?c ?r st else pay_committee addrs (?r - ?p) (AddBalance ?c ?p st)) a
      = st a + of_nat (reward_credit l header addrs a)" for a
  proof (cases "addrs = [] \<or> ?r - ?p = 0")
    case True
    then show ?thesis using p share by (auto simp: AddBalance_apply reward_credit_def member_share_def Let_def)
  next
    case False
    then show ?thesis
      using share addrs pay_committee_apply [OF addrs(1) _ assms(2), of "?r - ?p" "AddBalance ?c ?p st" a] p(2)
      by (auto simp: AddBalance_apply reward_credit_def member_share_def Let_def)
  qed
  have tot: "(\<Sum>a \<in> insert ?c (set addrs). reward_credit l header addrs a) = unat ?r"
  proof (cases "addrs = []")
    case True
    then show ?thesis by (simp add: reward_credit_def)
  next
    case False
    have "(\<Sum>a \<in> set addrs. reward_credit l header addrs a) = (\<Sum>a \<in> set addrs. member_share addrs (unat ?r - producer_share l header) a)"
      using addrs(3) by (intro sum.cong) (auto simp: reward_credit_def Let_def)
    then show ?thesis using False addrs member_share_sum [OF addrs(1) False] p(3) by (simp add: reward_credit_def Let_def)
  qed
  have mono: "blockRewardFor l later \<le> ?r" if "h_Number later = Some k" "big_Uint64 number \<le> big_Uint64 k" for later k
  proof -
    have "big_Uint64 number div e \<le> big_Uint64 k div e" for e
      using that(2) by (simp add: word_le_nat_alt unat_div_distrib div_le_mono)
    then show ?thesis using that(1) assms(3) unfolding blockRewardFor_def Let_def by (simp add: era_reward_mono del: if_split)
  qed
  have rest: "reward_credit l header addrs a = 0" if "a \<notin> insert ?c (set addrs)" for a
    using that by (simp add: reward_credit_def member_share_def Let_def)
  show ?thesis
    using fin credit addrs tot rest pos(2) blockRewardFor_bounds [of l header] mono by blast
qed

text \<open>The two amounts, from the settings.\<close>

lemma era_reward_unat:
  fixes x :: u64
  shows "unat (if x = 0 then 1200000000000000000 else if x = 1 then 600000000000000000 else if x = 2 then 300000000000000000 else 150000000000000000 :: u256)
    = (if unat x = 0 then 1200000000000000000 else if unat x = 1 then 600000000000000000 else if unat x = 2 then 300000000000000000 else 150000000000000000)"
proof -
  have "x = 0 \<longleftrightarrow> unat x = 0" "x = 1 \<longleftrightarrow> unat x = 1" "x = 2 \<longleftrightarrow> unat x = 2" by (simp_all add: word_unat_eq_iff)
  then show ?thesis by simp
qed

lemma blockRewardFor_era:
  assumes "h_Number header = Some number"
    and "era = unat (big_Uint64 number) div (if setting lc_EraLength l = 0 then 8409600 else unat (setting lc_EraLength l))"
  shows "unat (blockRewardFor l header) = (if era = 0 then 1200000000000000000 else if era = 1 then 600000000000000000
    else if era = 2 then 300000000000000000 else 150000000000000000)"
proof -
  let ?e = "if setting lc_EraLength l > 0 then setting lc_EraLength l else 8409600"
  have e: "unat ?e = (if setting lc_EraLength l = 0 then 8409600 else unat (setting lc_EraLength l))" by (simp add: word_gt_0)
  show ?thesis
    unfolding blockRewardFor_def Let_def assms(1) option.case era_reward_unat unat_div_distrib e assms(2) by (rule refl)
qed

lemma producer_bps_eq:
  "unat (producer_bps l) = 10000 - min 10000 (if setting lc_CommitteeRatioBps l = 0 then 3000 else unat (setting lc_CommitteeRatioBps l))"
proof -
  have s: "unat (10000 - (if c > 10000 then 10000 else c) :: u64) = 10000 - min 10000 (unat c)" for c :: u64
    by (simp add: unat_sub_if' word_less_nat_alt word_le_nat_alt min_def)
  show ?thesis unfolding producer_bps_def Let_def s by (simp add: word_gt_0)
qed

text \<open>Claim C4: block rewards follow the schedule and are conserved. The reward of a block is 1.2, 0.6, 0.3 or 0.15 units of 10 to the 18 in era 0, 1, 2 or later; the era is the block number divided by the
  configured era length (8409600 when unset). Finalizing a block with a number, when its selection can be derived, succeeds and pays the addresses of the selected committee other than zero and the producer,
  each once and in the order of the committee. The producer gets the share that the committee's ratio (3000 basis points when unset, at most 10000) leaves, rounded down, or everything when there is no such address; each committee
  address gets the rest divided by their number, the first one also the remainder; no other balance changes; and the amounts sum up to the reward to the last unit. Balances are 256-bit words.\<close>

theorem block_rewards:
  fixes l header number sel
  assumes "selectionForHeader cr decodes l chain header = (Inr sel, l')" and "h_Number header = Some number" and "length (sel_Committee sel) < 2 ^ 64"
    and addrs: "addrs = rev (remdups (rev (filter (\<lambda>a. a \<notin> {0, h_Coinbase header}) (map hp_Address (sel_Committee sel)))))"
    and era: "era = unat (big_Uint64 number) div (if setting lc_EraLength l = 0 then 8409600 else unat (setting lc_EraLength l))"
    and R: "R = (if era = 0 then 1200000000000000000 else if era = 1 then 600000000000000000 else if era = 2 then 300000000000000000 else 150000000000000000 :: nat)"
    and P: "P = R * (10000 - min 10000 (if setting lc_CommitteeRatioBps l = 0 then 3000 else unat (setting lc_CommitteeRatioBps l))) div 10000"
    and credit: "credit = (\<lambda>a. if a = h_Coinbase header then if addrs = [] then R else P
      else if a \<in> set addrs then (R - P) div length addrs + (if a = hd addrs then (R - P) mod length addrs else 0) else 0)"
  shows "(\<exists>st'. Finalize cr decodes l chain (Some header) st = (Inr st', l') \<and> (\<forall>a. st' a = st a + of_nat (credit a)))
    \<and> distinct addrs \<and> set addrs = hp_Address ` set (sel_Committee sel) - {0, h_Coinbase header}
    \<and> (\<Sum>a \<in> insert (h_Coinbase header) (set addrs). credit a) = R
    \<and> unat (blockRewardFor l header) = R"
proof -
  have a: "rewardCommitteeAddresses cr decodes l chain header = (Inr addrs, l')"
    using assms(1) by (simp add: rewardCommitteeAddresses_def rewardCommittee_def unique_addresses_order addrs hybridToParticipants_def comp_def insert_commute)
  have n: "length addrs < 2 ^ 64"
  proof -
    let ?f = "filter (\<lambda>a. a \<notin> {0, h_Coinbase header}) (map hp_Address (sel_Committee sel))"
    have "length addrs \<le> length ?f" unfolding addrs length_rev using length_remdups_leq [of "rev ?f"] by simp
    also have "\<dots> \<le> length (sel_Committee sel)" using length_filter_le [of _ "map hp_Address (sel_Committee sel)"] by simp
    finally have "length addrs \<le> length (sel_Committee sel)" .
    then show ?thesis using assms(3) by simp
  qed
  have r: "unat (blockRewardFor l header) = R" unfolding R by (rule blockRewardFor_era [OF assms(2) era])
  have p: "producer_share l header = P" unfolding producer_share_def r producer_bps_eq P ..
  have c: "reward_credit l header addrs = credit"
    unfolding credit by (rule ext) (simp add: reward_credit_def r p member_share_def Let_def)
  have "distinct addrs" "set addrs = hp_Address ` set (sel_Committee sel) - {0, h_Coinbase header}" unfolding addrs by auto
  with distributed_rewards [OF a n assms(2), of st] r show ?thesis unfolding c r by blast
qed

lemma split_queue:
  "DeterministicallyOrderParticipants split_crypto (map (bootstrapParticipant cfg 1) [3, 4, 5, 6, 7, 8, 9, 10, 11]) h n
     = map (bootstrapParticipant cfg 1) [3, 4, 5, 6, 7, 8, 9, 10, 11]"
  unfolding DeterministicallyOrderParticipants_eq
  by (simp add: participantScore_def split_crypto_def Keccak256Hash_def bootstrapParticipant_def)

lemma split_merged:
  "fmvals (fold merge_bootstrap (map (bootstrapParticipant cfg 1) [3, 4, 5, 6, 7, 8, 9, 10, 11]) fmempty)
    = map (bootstrapParticipant cfg 1) [3, 4, 5, 6, 7, 8, 9, 10, 11]"
  by (simp add: merge_bootstrap_def bootstrapParticipant_def fmvals_def fmkeys_def sorted_list_of_fset.rep_eq)

lemma split_selection:
  "\<exists>sel. selectionForHeader split_crypto d split_engine sample_chain (sample_header 3 1 []) = (Inr sel, split_engine)
     \<and> map hp_Address (sel_Committee sel) = [5, 6, 7, 8, 9, 10, 11]"
proof -
  let ?as = "[3, 4, 5, 6, 7, 8, 9, 10, 11] :: address list" and ?h = "sample_header 3 1 []" and ?cfg = "hybridCfg split_engine"
  let ?ps = "map (bootstrapParticipant ?cfg 1) ?as"
  have h: "h_Number ?h = Some 1" "h_Coinbase ?h = 3" "big_Uint64 1 = 1" by (simp_all add: sample_header_def big_Uint64_def)
  have cfg: "normalizeHybridConfig ?cfg = ?cfg" by (simp add: hybridCfg_def)
  have s: "hc_FallbackCount ?cfg = 1" "hc_CommitteeSize ?cfg = 7" "hc_ActivationDelay ?cfg = 0" "hc_HeartbeatWindow ?cfg = 64"
      "hc_HeartbeatGrace ?cfg = 16" "hc_BootstrapOnlyUntil ?cfg = 0" "hc_MinBond ?cfg = Some 25"
    by (simp_all add: hybridCfg_def normalizeHybridConfig_def nonzero_or_def setting_def split_engine_def LQC_New_def split_config_def
        sample_lqc_config_def)
  have m: "MergeParticipants ?as [] 1 ?cfg = ?ps"
    unfolding MergeParticipants_vals merged_map_def Let_def cfg using split_merged [of ?cfg]
    by (simp add: synthesizeBootstrapParticipants_def cfg)
  have e: "EligibleHybridParticipants ?ps 1 ?cfg = ?ps"
    by (simp add: EligibleHybridParticipants_def Let_def cfg IsHybridEligible_def bootstrapParticipant_def s minBond_def cloneParticipant_def)
  have b: "BuildHybridSelection split_crypto ?as [] (h_ParentHash ?h) 1 ?cfg = assign_roles ?cfg ?ps"
    unfolding BuildHybridSelection_def Let_def cfg m e split_queue by (rule refl)
  obtain sel where sel: "assign_roles ?cfg ?ps = Some sel" "sel_Ordered sel = ?ps" "sel_Committee sel = take 7 (drop 2 ?ps)"
    using assign_roles_eq [of ?cfg ?ps] by (simp add: s)
  have r: "RealRegistry (lq_runtimeRegistry split_engine) n bs ''static'' = []" for n bs
    by (simp add: RealRegistry_def StaticTestParticipants_def)
  have c: "lq_config split_engine = Some split_config" "lc_RegistryMode split_config = ''static''" "lc_BootstrapParticipants split_config = ?as"
      "NormalizeBootstrapParticipants ?as = ?as"
    by (simp_all add: split_engine_def LQC_New_def split_config_def NormalizeBootstrapParticipants_def)
  have "legacySelectionForHeader split_crypto split_engine ?h = Inr sel"
    unfolding legacySelectionForHeader_def h option.case Let_def c
    using sel(1,2) by (simp add: r ApplyActivityWindow_def ToHybridParticipants_def h c, simp add: b)
  moreover have "\<not> registryProtocolEnabled split_engine (Some 1)"
    by (simp add: registryProtocolEnabled_def setting_def c(1), simp add: split_config_def)
  ultimately have "selectionForHeader split_crypto d split_engine sample_chain ?h = (Inr sel, split_engine)"
    by (simp add: selectionForHeader_def h)
  then show ?thesis using sel(3) by (simp add: bootstrapParticipant_def)
qed

theorem block_rewards_witness:
  "\<exists>st'. Finalize split_crypto (\<lambda>_. True) split_engine sample_chain (Some (sample_header 3 1 [])) (\<lambda>_. 5) = (Inr st', split_engine)
     \<and> st' 3 = 840000000000000005 \<and> st' 5 = 51428571428571437 \<and> st' 6 = 51428571428571433 \<and> st' 11 = 51428571428571433 \<and> st' 4 = 5"
proof -
  let ?h = "sample_header 3 1 []"
  obtain sel where sel: "selectionForHeader split_crypto (\<lambda>_. True) split_engine sample_chain ?h = (Inr sel, split_engine)"
      "map hp_Address (sel_Committee sel) = [5, 6, 7, 8, 9, 10, 11]"
    using split_selection [of "\<lambda>_. True"] by (elim exE conjE)
  have n: "h_Number ?h = Some 1" "h_Coinbase ?h = 3" by (simp_all add: sample_header_def)
  have "length (map hp_Address (sel_Committee sel)) = 7" unfolding sel(2) by simp
  then have len: "length (sel_Committee sel) < 2 ^ 64" by simp
  have addrs: "[5, 6, 7, 8, 9, 10, 11] = rev (remdups (rev (filter (\<lambda>a. a \<notin> {0, h_Coinbase ?h}) (map hp_Address (sel_Committee sel)))))"
    unfolding sel(2) n(2) by simp
  have era: "0 = unat (big_Uint64 1) div (if setting lc_EraLength split_engine = 0 then 8409600 else unat (setting lc_EraLength split_engine))"
    by (simp add: big_Uint64_def setting_def split_engine_def LQC_New_def split_config_def sample_lqc_config_def)
  have ratio: "840000000000000000 = 1200000000000000000 * (10000 - min 10000 (if setting lc_CommitteeRatioBps split_engine = 0 then 3000
      else unat (setting lc_CommitteeRatioBps split_engine))) div (10000 :: nat)"
    by (simp add: setting_def split_engine_def LQC_New_def split_config_def sample_lqc_config_def)
  have R: "1200000000000000000 = (if 0 = (0 :: nat) then 1200000000000000000 else if 0 = (1 :: nat) then 600000000000000000
      else if 0 = (2 :: nat) then 300000000000000000 else 150000000000000000 :: nat)" by simp
  obtain st' where
    f: "Finalize split_crypto (\<lambda>_. True) split_engine sample_chain (Some ?h) (\<lambda>_. 5) = (Inr st', split_engine)"
    and v: "\<forall>a. st' a = 5 + of_nat (if a = h_Coinbase ?h then if [5, 6, 7, 8, 9, 10, 11 :: address] = [] then 1200000000000000000 else 840000000000000000
      else if a \<in> set [5, 6, 7, 8, 9, 10, 11] then (1200000000000000000 - 840000000000000000) div length [5, 6, 7, 8, 9, 10, 11 :: address]
        + (if a = hd [5, 6, 7, 8, 9, 10, 11] then (1200000000000000000 - 840000000000000000) mod length [5, 6, 7, 8, 9, 10, 11 :: address] else 0) else 0)"
    using block_rewards [OF sel(1) n(1) len addrs era R ratio refl, of "\<lambda>_. 5", THEN conjunct1] by (elim exE conjE)
  show ?thesis
    by (rule exI [of _ st'], intro conjI, rule f) (simp_all add: v [rule_format] n(2))
qed

end
