(* ===== verification/Spec2Isabelle.thy ===== *)
theory Spec2Isabelle
  imports Prelude Crypto RLP RLP_Decode Hybrid Runtime_Registry Canonical_Registry Header Registry_Header
    Registry_Snapshot Registry_Pool Work_Protocol Work_Tickets Committee_Claims Work_Header
    Heap Work_Selection Work_Snapshot Work_Runtime Exec_Rules LRU Engine Engine_Snapshot Engine_Chain
    Engine_Header Engine_Verify Engine_Accept Engine_Prepare Engine_Service Engine_Rewards
begin

text \<open>
  A verification library for the consensus layer of the Rabbit chain, a go-ethereum fork whose queue consensus engine is the Go
  package \<open>consensus/lqc\<close>, and for the parts of go-ethereum that its correctness rests on.

  \<^bold>\<open>The program.\<close> A block is produced by the head of a queue that every node derives from the chain. Participants join
  the queue by signed registry operations, which travel in an envelope in the header's extra data; the registry after a block is a
  function of the headers up to it, and each header carries the root of that registry. A producer that misses its turn is replaced
  by a fallback after a time window and is penalised when the next header is applied. The Work protocol adds seats that are
  admitted by RandomX tickets and committee members that claim participation, in envelopes of later versions. The engine offers
  the node the usual interface: prepare, seal and verify headers, alone and in batches, and finalize blocks with their rewards.

  \<^bold>\<open>Foundations.\<close>
  \<^item> \<open>Prelude\<close>: machine words, big-endian byte strings, results of fallible functions and loops over them, sorting by keys, and the
    locales these share.
  \<^item> \<open>Crypto\<close>: \<open>common/types.go\<close>, \<open>crypto/crypto.go\<close>. The record of type \<open>crypto\<close> holds the hash and the key recovery, which are
    parameters of the model; facts that need it name collision freedom or the signing law as a hypothesis.
  \<^item> \<open>RLP\<close>, \<open>RLP_Decode\<close>: \<open>rlp/encode.go\<close>, \<open>rlp/encbuffer.go\<close>, \<open>rlp/decode.go\<close>. The encoder buffer implements the tree encoding,
    decoding inverts it, and only canonical input decodes.
  \<^item> \<open>LRU\<close>: \<open>common/lru/basiclru.go\<close>. The cache refines a list of pairs in the order of use.
  \<^item> \<open>Header\<close>: \<open>core/types/block.go\<close>, \<open>gen_header_rlp.go\<close>, \<open>consensus/lqc/producer_seal.go\<close>. A seal that verifies belongs to one header
    and one chain, and a sealed header verifies.
  \<^item> \<open>Exec_Rules\<close>: \<open>consensus/misc\<close>, \<open>params/config.go\<close> and \<open>verifyExecutionHeaderRules\<close>: gas limit, base fee, fork fields.

  \<^bold>\<open>The registry.\<close>
  \<^item> \<open>Hybrid\<close>: \<open>open_registry_hybrid.go\<close>: participants, ordering by score, the roles of a block, penalties and reward split.
  \<^item> \<open>Runtime_Registry\<close>: \<open>registry.go\<close>, \<open>committee.go\<close>, \<open>queue.go\<close>, \<open>fallback.go\<close>, \<open>seed.go\<close>, \<open>mode.go\<close>: the process-local registry.
  \<^item> \<open>Canonical_Registry\<close>: \<open>canonical_registry.go\<close>: the map of participants \<open>CanonicalRegistry\<close>, its operations, invariant, root and queue. An
    accepted operation was signed by the participant's controller, is never accepted again, and equal roots mean equal registries.
  \<^item> \<open>Registry_Header\<close>, \<open>Registry_Snapshot\<close>, \<open>Registry_Pool\<close>: \<open>registry_header.go\<close>, \<open>registry_snapshot.go\<close>, \<open>registry_pool.go\<close>: the
    envelope and its codec, the replay of headers with missed turns, the database form, and the relay pool with its two indices.

  \<^bold>\<open>The Work protocol.\<close>
  \<^item> \<open>Work_Protocol\<close>: \<open>work_protocol_v1.go\<close>, \<open>_epoch.go\<close>, \<open>_difficulty.go\<close>: seats, seat rewards, epochs, epoch roots, the retarget.
  \<^item> \<open>Work_Tickets\<close>: \<open>work_protocol_v1_crypto.go\<close>, \<open>_commit.go\<close> and the ticket order of \<open>_header_v3.go\<close>.
  \<^item> \<open>Committee_Claims\<close>: the files \<open>committee_*.go\<close>: participation proofs, batches, claim groups, the claim ledger and its rewards.
  \<^item> \<open>Work_Header\<close>: \<open>work_protocol_v1_header_v3.go\<close>, \<open>_v4.go\<close>, \<open>_v5.go\<close> and the shape checks of the VRF artefacts they carry.
  \<^item> \<open>Heap\<close>, \<open>Work_Selection\<close>: \<open>work_protocol_v1_selection.go\<close> with the heap of the Go standard library. The locale of heap priorities is
    interpreted on the comparison of scored seats; selecting with bounded heaps returns the prefix of the full order.
  \<^item> \<open>Work_Snapshot\<close>, \<open>Work_Runtime\<close>: \<open>work_protocol_v1_snapshot.go\<close>, \<open>_runtime_state.go\<close>: the work state of a block and its difficulty
    schedule. Every chain of states accepts exactly the blocks with admissible tickets, and seats are permanent and unique.

  \<^bold>\<open>The engine.\<close> (\<open>lqc.go\<close>, \<open>registry_engine.go\<close>, with the stub files of the default build.)
  \<^item> \<open>Engine\<close>: the record of type \<open>LQC\<close> (configuration, cache, database, pool, process-local registry), fork schedule, block times, selections.
  \<^item> \<open>Engine_Snapshot\<close>, \<open>Engine_Chain\<close>: the snapshot of a block from cache, checkpoint or replay. The cache is transparent, the walk
    back to a known snapshot terminates, and snapshots stay right when the chain grows.
  \<^item> \<open>Engine_Header\<close>: \<open>Prepare\<close>, \<open>VerifyHeader\<close>, \<open>VerifyHeaders\<close>, \<open>Seal\<close> and the registry envelope of a header.
  \<^item> \<open>Engine_Verify\<close>, \<open>Engine_Accept\<close>, \<open>Engine_Prepare\<close>: nodes with different caches agree on a batch of headers; what an accepted header
    satisfies; what a rejected one leaves behind; that the envelope a producer prepares is accepted by the verifiers.
  \<^item> \<open>Engine_Service\<close>, \<open>Engine_Rewards\<close>: the registry interface of the node, and that \<open>Finalize\<close> pays out exactly the block reward.

  \<^bold>\<open>Conventions.\<close> A struct is a record with the field names of the code, a \<open>big.Int\<close> is an \<open>int\<close>, a pointer that may be nil is an
  option, \<open>uint64\<close> and the other machine integers are words that wrap. A function that returns an error yields a sum (\<open>Inl\<close> the error)
  or an optional error; panics are errors of their own. A method that changes its receiver returns the new one. Go maps are finite
  maps; where the code ranges over one, the model ranges over its keys in a fixed order and the result is sorted or is a set, as in the code.
  One-line constants
  (domain strings, versions, limits) carry the name they have in the code. Mutexes are left out: each method is one step. The clock is an argument. Package
  code outside the repository (hash, signature, RandomX, BLS) is passed in as a function.

  \<^bold>\<open>Bounds.\<close> Loops are structural recursion over the list they consume, or functions with a termination measure: the block number decreases in
  the walk back to a snapshot and in the replay. The element loop of the RLP decoder takes the number of bytes of the list as fuel,
  which is enough because every element takes at least one byte; the round trip shows that it never runs out on encoded input.
  Facts on the replay of a chain assume fewer than \<open>2^50\<close> blocks and a configuration within the same bound, so that
  sizes stay below the limits of the RLP encoder and slot times below the wrap-around of \<open>uint64\<close>; where the code checks for the
  wrap-around itself, the model keeps the words and no bound is assumed.

  \<^bold>\<open>Not modelled.\<close>
  \<^item> The files with the build tag of the Work engine (\<open>*_lab.go\<close>): they replace the stubs in another build. The default build
    contains the protocol definitions above but not the wiring, and needs no RandomX library.
  \<^item> The distributed key generation and the threshold VRF (\<open>rabbit_vrf_*.go\<close>, \<open>crypto/rabbitvrf\<close>) beyond the shape checks of the V5
    envelope: elliptic-curve pairings, secret sharing and encrypted transport from an external package.
  \<^item> \<open>work_protocol_v1_pool.go\<close>, \<open>work_protocol_v1_relay.go\<close>, the anchor and seed derivations and the header runtimes (\<open>*_runtime.go\<close>), which join the
    envelopes with the work runtime: the default build does not call them.
  \<^item> \<open>core/vesting\<close>: locked rewards, which no other package calls.
  \<^item> \<open>work_ticket.go\<close>, \<open>work_ticket_pool.go\<close>, \<open>work_ticket_snapshot.go\<close>: the earlier ticket design, which the engine no longer calls.
  \<^item> The state trie and the EVM: \<open>Finalize\<close> is modelled on balances; \<open>FinalizeAndAssemble\<close> adds the state root and block body.
  \<^item> Networking, RPC, the transaction pool, the miner loop, key storage, databases, command-line tools and the other consensus
    engines of go-ethereum: input and output around the engine, or code that this chain does not configure.
\<close>

end
